(* ===== verification/Prelude.thy ===== *)
theory Prelude
  imports Main "HOL-Library.Word"
begin

text \<open>
  Shared vocabulary of the DelOS development: the machine integer types of
  \<^verbatim>\<open>include/types.h\<close>, the errors an operation can end with, sequential composition of
  fallible operations, the alignment macros of \<^verbatim>\<open>include/utils/misc/align.h\<close>, and the
  facts on words and lists that several components use.
\<close>

unbundle bit_operations_syntax

section \<open>Machine integers\<close>

type_synonym u8 = "8 word"
type_synonym u16 = "16 word"
type_synonym u32 = "32 word"
type_synonym u64 = "64 word"

section \<open>Results\<close>

text \<open>
  An operation that never gets back to its caller ends in one of these errors: a kernel panic
  (\<^verbatim>\<open>KPANIC\<close> halts the machine), an access through a pointer that refers to nothing of the
  expected kind, a write past the end of a fixed-size array, a loop that does not return, and behaviour the
  code itself declares undefined (\<^verbatim>\<open>__builtin_unreachable()\<close>).
  Ordinary failures (\<^verbatim>\<open>KO_FALSE\<close>, \<^verbatim>\<open>NULL\<close>, \<^verbatim>\<open>-1\<close>) are values.
\<close>

datatype kerror = Panic | PageFault | Overrun | NoReturn | Undefined

type_synonym 'a kres = "kerror + 'a"

definition bindE :: "'a kres \<Rightarrow> ('a \<Rightarrow> 'b kres) \<Rightarrow> 'b kres" where
  "bindE m f = (case m of Inl e \<Rightarrow> Inl e | Inr x \<Rightarrow> f x)"

definition from_option :: "kerror \<Rightarrow> 'a option \<Rightarrow> 'a kres" where
  "from_option e m = (case m of None \<Rightarrow> Inl e | Some x \<Rightarrow> Inr x)"

text \<open>
  A loop that may not end is a partial function into \<open>'a kres option\<close>; \<open>returned\<close> makes not
  ending the error \<open>NoReturn\<close>.
\<close>

definition returned :: "'a kres option \<Rightarrow> 'a kres" where
  "returned m = (case m of None \<Rightarrow> Inl NoReturn | Some r \<Rightarrow> r)"

section \<open>Alignment macros\<close>

definition ALIGN_UP :: "'a::len word \<Rightarrow> 'a word \<Rightarrow> 'a word" where
  "ALIGN_UP x a = (x + (a - 1)) AND NOT (a - 1)"

definition ALIGN_DOWN :: "'a::len word \<Rightarrow> 'a word \<Rightarrow> 'a word" where
  "ALIGN_DOWN x a = x AND NOT (a - 1)"

definition IS_ALIGNED_TO :: "'a::len word \<Rightarrow> 'a word \<Rightarrow> bool" where
  "IS_ALIGNED_TO x a = (x mod a = 0)"

section \<open>Address translation macros of the higher-half kernel\<close>

definition KERNEL_VIRTUAL_BASE :: u32 where
  "KERNEL_VIRTUAL_BASE = 0xC0000000"

definition VIRT_TO_PHYS :: "u32 \<Rightarrow> u32" where
  "VIRT_TO_PHYS addr = addr - KERNEL_VIRTUAL_BASE"

definition PHYS_TO_VIRT :: "u32 \<Rightarrow> u32" where
  "PHYS_TO_VIRT addr = addr + KERNEL_VIRTUAL_BASE"

named_theorems kres_simps \<open>rewrites for sequential composition of fallible operations\<close>

named_theorems align_simps \<open>alignment macros read through unat\<close>

lemma bindE_simps [simp, kres_simps]:
  "bindE (Inl e) f = Inl e"
  "bindE (Inr x) f = f x"
  by (simp_all add: bindE_def)

lemma bindE_Inr_iff [kres_simps]:
  "bindE m f = Inr y \<longleftrightarrow> (\<exists>x. m = Inr x \<and> f x = Inr y)"
  by (cases m) simp_all

lemma bindE_Inl_iff [kres_simps]:
  "bindE m f = Inl e \<longleftrightarrow> m = Inl e \<or> (\<exists>x. m = Inr x \<and> f x = Inl e)"
  by (cases m) simp_all

lemma bindE_assoc: "bindE (bindE m f) g = bindE m (\<lambda>x. bindE (f x) g)"
  by (cases m) simp_all

lemma from_option_simps [simp, kres_simps]:
  "from_option e None = Inl e"
  "from_option e (Some x) = Inr x"
  by (simp_all add: from_option_def)

lemma from_option_Inr_iff [kres_simps]: "from_option e m = Inr x \<longleftrightarrow> m = Some x"
  by (cases m) simp_all

lemma returned_simps [simp, kres_simps]:
  "returned None = Inl NoReturn"
  "returned (Some r) = r"
  by (simp_all add: returned_def)

section \<open>Words\<close>

lemma and_not_mask_eq: "x AND NOT (mask n) = push_bit n (drop_bit n x)" for x :: "'a::len word"
  by (rule bit_word_eqI) (auto simp: bit_simps)

lemma unat_u32_less: "unat (x::u32) < 4294967296"
  using unsigned_less [of x] by simp

lemma unat_u32_to_u64: "unat (ucast (x::u32) :: u64) = unat x"
  using unat_u32_less [of x] by (simp add: unsigned_ucast_eq take_bit_nat_eq_self)

lemma word_of_nat_unat: "word_of_nat (unat x) = (x :: 'a::len word)"
  by simp

lemma unat_two_power:
  assumes "k < LENGTH('a)"
  shows "unat (2 ^ k :: 'a::len word) = 2 ^ k"
proof -
  have "unat (2 ^ k :: 'a word) = unat (word_of_nat (2 ^ k) :: 'a word)" by simp
  also have "\<dots> = 2 ^ k" using assms by (simp only: unat_of_nat) simp
  finally show ?thesis .
qed

lemma two_power_neq_0:
  assumes "k < LENGTH('a)"
  shows "(2 ^ k :: 'a::len word) \<noteq> 0"
  using unat_two_power [OF assms] by (metis unat_0 power_not_zero zero_neq_numeral)

lemma unat_and_not_mask:
  "unat (x AND NOT (mask n)) = unat x div 2 ^ n * 2 ^ n" for x :: "'a::len word"
proof -
  have "unat (push_bit n (drop_bit n x)) = take_bit LENGTH('a) (push_bit n (unat x div 2 ^ n))"
    by (simp only: unsigned_push_bit_eq unat_drop_bit_eq) (simp only: drop_bit_eq_div)
  also have "\<dots> = unat x div 2 ^ n * 2 ^ n"
  proof -
    have "unat x div 2 ^ n * 2 ^ n \<le> unat x" by simp
    also have "\<dots> < 2 ^ LENGTH('a)" by simp
    finally show ?thesis by (simp add: push_bit_eq_mult take_bit_nat_eq_self)
  qed
  finally show ?thesis by (simp add: and_not_mask_eq)
qed

lemma unat_ALIGN_DOWN [align_simps]:
  assumes "a = 2 ^ k"
  shows "unat (ALIGN_DOWN x a) = unat x div 2 ^ k * 2 ^ k"
  using assms by (simp add: ALIGN_DOWN_def mask_eq_exp_minus_1 [symmetric] unat_and_not_mask)

lemma unat_ALIGN_UP [align_simps]:
  fixes x :: "'a::len word"
  assumes "a = 2 ^ k" and "unat x + (2 ^ k - 1) < 2 ^ LENGTH('a)"
  shows "unat (ALIGN_UP x a) = (unat x + (2 ^ k - 1)) div 2 ^ k * 2 ^ k"
proof (cases "k < LENGTH('a)")
  case True
  then have "unat (a - 1) = 2 ^ k - 1"
    using assms(1) by (simp add: unat_minus_one unat_two_power two_power_neq_0)
  then have "unat (x + (a - 1)) = unat x + (2 ^ k - 1)"
    using assms(2) by (simp add: unat_word_ariths)
  then show ?thesis
    using assms(1) by (simp add: ALIGN_UP_def mask_eq_exp_minus_1 [symmetric] unat_and_not_mask)
next
  case False
  then have "(2::nat) ^ LENGTH('a) \<le> 2 ^ k" by simp
  with assms(2) have "unat x = 0" and "2 ^ k = (2::nat) ^ LENGTH('a)" by linarith+
  then have "k = LENGTH('a)" by simp
  with assms(1) have "a = 0" by simp
  with \<open>unat x = 0\<close> show ?thesis by (simp add: ALIGN_UP_def unat_eq_0)
qed

end
