(* ===== verification/Early_Alloc.thy ===== *)
theory Early_Alloc
  imports Prelude
begin

text \<open>
  The early bump allocator (\<^verbatim>\<open>src/kernel/memory/early_allocator\<close>): two cursors and an
  availability flag. The locale \<open>bump_allocator\<close> is the contract its clients (the physical
  and the virtual memory manager) rely on; it is interpreted on the model of
  \<^verbatim>\<open>kearly_malloc\<close> and \<^verbatim>\<open>kearly_malloc_aligned\<close>.
\<close>

section \<open>State and operations\<close>

record early_state =
  kernel_early_heap_start :: u32
  kernel_early_heap_end :: u32
  kernel_early_heap_available :: bool

definition KEARLY_SIZE :: u32 where
  "KEARLY_SIZE = 1024 * 256"

definition KEARLY_ALIGN_UP :: "u32 \<Rightarrow> u32" where
  "KEARLY_ALIGN_UP x = (x + 7) AND NOT 7"

text \<open>The argument is the linker symbol \<^verbatim>\<open>__kernel_early_heap_start\<close>.\<close>

definition kearly_malloc_init ::
    "u32 \<Rightarrow> 'z early_state_scheme \<Rightarrow> (bool \<times> 'z early_state_scheme) kres" where
  "kearly_malloc_init heap_sym s =
    (if \<not> kernel_early_heap_available s then Inl Panic
     else if kernel_early_heap_start s \<noteq> 0 \<and> kernel_early_heap_end s \<noteq> 0 then Inl Panic
     else
       let start = VIRT_TO_PHYS heap_sym;
           stop = start + KEARLY_SIZE;
           s' = s\<lparr>kernel_early_heap_start := start, kernel_early_heap_end := stop\<rparr>
       in if stop \<le> start then Inl Panic else Inr (True, s'))"

definition kearly_malloc_disable ::
    "'z early_state_scheme \<Rightarrow> bool \<times> 'z early_state_scheme" where
  "kearly_malloc_disable s =
    (if \<not> kernel_early_heap_available s then (False, s)
     else (True, s\<lparr>kernel_early_heap_available := False\<rparr>))"

definition kearly_malloc ::
    "u32 \<Rightarrow> 'z early_state_scheme \<Rightarrow> (u32 \<times> 'z early_state_scheme) kres" where
  "kearly_malloc bytes s =
    (let bytes = KEARLY_ALIGN_UP bytes in
     if \<not> kernel_early_heap_available s then Inl Panic
     else if kernel_early_heap_start s = 0 \<or> kernel_early_heap_end s = 0 then Inl Panic
     else if bytes > kernel_early_heap_end s - kernel_early_heap_start s then Inr (0, s)
     else if bytes = 0 then Inr (0, s)
     else Inr (kernel_early_heap_start s,
               s\<lparr>kernel_early_heap_start := kernel_early_heap_start s + bytes\<rparr>))"

definition kearly_malloc_aligned ::
    "u32 \<Rightarrow> u32 \<Rightarrow> 'z early_state_scheme \<Rightarrow> (u32 \<times> 'z early_state_scheme) kres" where
  "kearly_malloc_aligned bytes alignment s =
    (if \<not> kernel_early_heap_available s then Inl Panic
     else if kernel_early_heap_start s = 0 \<or> kernel_early_heap_end s = 0 then Inl Panic
     else if bytes = 0 then Inr (0, s)
     else
       let current = kernel_early_heap_start s;
           aligned = (current + alignment - 1) AND NOT (alignment - 1);
           total_bytes = (aligned - current) + bytes
       in if total_bytes > kernel_early_heap_end s - kernel_early_heap_start s then Inr (0, s)
          else Inr (aligned, s\<lparr>kernel_early_heap_start := aligned + bytes\<rparr>))"

text \<open>
  The two entry points as one request type, and a run of requests that keeps the blocks it got
  (a request that returns \<^verbatim>\<open>NULL\<close> gives no block).
\<close>

datatype early_req = Plain u32 | Aligned u32 nat

fun early_alloc :: "early_req \<Rightarrow> 'z early_state_scheme \<Rightarrow> (u32 \<times> 'z early_state_scheme) kres"
  where
  "early_alloc (Plain n) = kearly_malloc n"
| "early_alloc (Aligned n k) = kearly_malloc_aligned n (2 ^ k)"

fun req_bytes :: "early_req \<Rightarrow> u32" where
  "req_bytes (Plain n) = n"
| "req_bytes (Aligned n k) = n"

fun req_ok :: "early_req \<Rightarrow> bool" where
  "req_ok (Plain n) = True"
| "req_ok (Aligned n k) = (k \<le> 12 \<and> unat n + 2 ^ 12 \<le> 2 ^ 32)"

fun run_allocs ::
    "('r \<Rightarrow> 's \<Rightarrow> (u32 \<times> 's) kres) \<Rightarrow> 'r list \<Rightarrow> 's \<Rightarrow> ((u32 \<times> 'r) list \<times> 's) kres" where
  "run_allocs al [] s = Inr ([], s)"
| "run_allocs al (r # rs) s =
    bindE (al r s) (\<lambda>(p, s).
    bindE (run_allocs al rs s) (\<lambda>(bs, s).
    Inr (if p = 0 then bs else (p, r) # bs, s)))"

definition early_inv :: "'z early_state_scheme \<Rightarrow> bool" where
  "early_inv s \<longleftrightarrow> kernel_early_heap_start s \<noteq> 0 \<and>
     kernel_early_heap_start s \<le> kernel_early_heap_end s \<and>
     unat (kernel_early_heap_end s) + 2 ^ 12 \<le> 2 ^ 32"

section \<open>The contract of a bump allocator\<close>

locale bump_allocator =
  fixes al :: "'r \<Rightarrow> 's \<Rightarrow> (u32 \<times> 's) kres"
    and size_of :: "'r \<Rightarrow> nat"
    and ok :: "'r \<Rightarrow> bool"
    and inv :: "'s \<Rightarrow> bool"
    and low :: "'s \<Rightarrow> nat"
    and high :: "'s \<Rightarrow> nat"
  assumes null_keeps: "inv s \<Longrightarrow> ok r \<Longrightarrow> al r s = Inr (0, s') \<Longrightarrow> s' = s"
    and block_inv: "inv s \<Longrightarrow> ok r \<Longrightarrow> al r s = Inr (p, s') \<Longrightarrow> p \<noteq> 0 \<Longrightarrow> inv s'"
    and block_high: "inv s \<Longrightarrow> ok r \<Longrightarrow> al r s = Inr (p, s') \<Longrightarrow> p \<noteq> 0 \<Longrightarrow> high s' = high s"
    and block_low: "inv s \<Longrightarrow> ok r \<Longrightarrow> al r s = Inr (p, s') \<Longrightarrow> p \<noteq> 0 \<Longrightarrow> low s \<le> unat p"
    and block_fits: "inv s \<Longrightarrow> ok r \<Longrightarrow> al r s = Inr (p, s') \<Longrightarrow> p \<noteq> 0 \<Longrightarrow>
        unat p + size_of r \<le> low s'"
    and low_high: "inv s \<Longrightarrow> low s \<le> high s"
begin

lemma step_cursor:
  assumes "inv s" "ok r" "al r s = Inr (p, s')"
  shows "inv s' \<and> high s' = high s \<and> low s \<le> low s'"
proof (cases "p = 0")
  case True
  with assms null_keeps show ?thesis by blast
next
  case False
  with assms have "low s \<le> unat p" "unat p + size_of r \<le> low s'"
    using block_low block_fits by blast+
  with False assms show ?thesis using block_inv block_high by fastforce
qed

lemma run_blocks:
  assumes "inv s" "list_all ok rs" "run_allocs al rs s = Inr (bs, s')"
  shows "inv s' \<and> high s' = high s \<and> low s \<le> low s' \<and>
    (\<forall>(p, r) \<in> set bs. low s \<le> unat p \<and> unat p + size_of r \<le> low s') \<and>
    sorted_wrt (\<lambda>(p, r) (q, r'). unat p + size_of r \<le> unat q) bs"
  using assms
proof (induction rs arbitrary: s bs)
  case Nil
  then show ?case by simp
next
  case (Cons r rs)
  from Cons.prems obtain p s1 bs1 where step: "al r s = Inr (p, s1)"
    and run: "run_allocs al rs s1 = Inr (bs1, s')"
    and bs: "bs = (if p = 0 then bs1 else (p, r) # bs1)"
    by (auto simp: kres_simps split: prod.splits)
  have cur: "inv s1 \<and> high s1 = high s \<and> low s \<le> low s1"
    using Cons.prems step by (intro step_cursor) auto
  have IH: "inv s' \<and> high s' = high s1 \<and> low s1 \<le> low s' \<and>
      (\<forall>(p, r) \<in> set bs1. low s1 \<le> unat p \<and> unat p + size_of r \<le> low s') \<and>
      sorted_wrt (\<lambda>(p, r) (q, r'). unat p + size_of r \<le> unat q) bs1"
    using Cons.prems cur run by (intro Cons.IH) auto
  show ?case
  proof (cases "p = 0")
    case True
    with bs IH cur show ?thesis by fastforce
  next
    case False
    then have "low s \<le> unat p" "unat p + size_of r \<le> low s1"
      using Cons.prems step block_low [of s r p s1] block_fits [of s r p s1] by auto
    with False bs IH cur show ?thesis by fastforce
  qed
qed

end

section \<open>The model satisfies the contract\<close>

lemma NOT_7: "NOT (7::u32) = NOT (mask 3)"
  by (simp add: mask_eq_exp_minus_1)

lemma unat_KEARLY_ALIGN_UP:
  "unat (KEARLY_ALIGN_UP x) = (unat x + 7) mod 2 ^ 32 div 8 * 8"
  unfolding KEARLY_ALIGN_UP_def NOT_7 unat_and_not_mask by (simp add: unat_word_ariths)

lemma KEARLY_ALIGN_UP_ge:
  assumes "KEARLY_ALIGN_UP x \<noteq> 0"
  shows "unat x \<le> unat (KEARLY_ALIGN_UP x)"
proof -
  have "unat x < 2 ^ 32" using unat_u32_less by simp
  moreover have "unat (KEARLY_ALIGN_UP x) \<noteq> 0" using assms by (simp add: unat_eq_0)
  ultimately show ?thesis by (simp add: unat_KEARLY_ALIGN_UP) (simp add: mod_if split: if_splits; arith)
qed

lemma kearly_malloc_Inr:
  assumes "kearly_malloc n s = Inr (p, s')" "p \<noteq> 0"
  shows "p = kernel_early_heap_start s"
    and "s' = s\<lparr>kernel_early_heap_start := p + KEARLY_ALIGN_UP n\<rparr>"
    and "KEARLY_ALIGN_UP n \<le> kernel_early_heap_end s - p"
    and "KEARLY_ALIGN_UP n \<noteq> 0"
  using assms by (auto simp: kearly_malloc_def Let_def split: if_splits)

lemma kearly_malloc_contract:
  assumes "early_inv s" "kearly_malloc n s = Inr (p, s')" "p \<noteq> 0"
  shows "early_inv s'" and "kernel_early_heap_end s' = kernel_early_heap_end s"
    and "kernel_early_heap_start s \<le> p" and "unat p + unat n \<le> unat (kernel_early_heap_start s')"
proof -
  note eqs = kearly_malloc_Inr [OF assms(2,3)]
  let ?e = "kernel_early_heap_end s" and ?a = "KEARLY_ALIGN_UP n"
  have le: "p \<le> ?e" "unat ?e + 2 ^ 12 \<le> 2 ^ 32"
    using assms(1) eqs(1) by (auto simp: early_inv_def)
  then have "unat ?a \<le> unat ?e - unat p"
    using eqs(3) by (simp add: word_le_nat_alt unat_sub)
  then have sum: "unat p + unat ?a \<le> unat ?e"
    using le by (simp add: word_le_nat_alt)
  then have add: "unat (p + ?a) = unat p + unat ?a"
    using le by (simp add: unat_word_ariths)
  have "unat ?a \<noteq> 0" using eqs(4) by (simp add: unat_eq_0)
  then have "p + ?a \<noteq> 0" using add by (metis add_is_0 unat_0)
  then show "early_inv s'"
    using eqs(2) le sum add by (simp add: early_inv_def word_le_nat_alt)
  show "kernel_early_heap_end s' = ?e" using eqs(2) by simp
  show "kernel_early_heap_start s \<le> p" using eqs(1) by simp
  show "unat p + unat n \<le> unat (kernel_early_heap_start s')"
    using eqs(2) add KEARLY_ALIGN_UP_ge [OF eqs(4)] by simp
qed

lemma kearly_malloc_aligned_Inr:
  assumes "kearly_malloc_aligned n a s = Inr (p, s')" "p \<noteq> 0"
  shows "p = ALIGN_UP (kernel_early_heap_start s) a"
    and "s' = s\<lparr>kernel_early_heap_start := p + n\<rparr>"
    and "(p - kernel_early_heap_start s) + n \<le> kernel_early_heap_end s - kernel_early_heap_start s"
    and "n \<noteq> 0"
  using assms
  by (auto simp: kearly_malloc_aligned_def ALIGN_UP_def Let_def algebra_simps split: if_splits)

lemma early_align_room:
  assumes "early_inv s" "k \<le> 12"
  defines "c \<equiv> kernel_early_heap_start s"
  shows "unat (ALIGN_UP c (2 ^ k)) = (unat c + (2 ^ k - 1)) div 2 ^ k * 2 ^ k"
    and "unat c \<le> unat (ALIGN_UP c (2 ^ k))"
    and "unat (ALIGN_UP c (2 ^ k)) < unat c + 2 ^ 12"
proof -
  have k: "(2::nat) ^ k \<le> 2 ^ 12" using assms(2) by (intro power_increasing) auto
  have "unat c + 2 ^ 12 \<le> 2 ^ 32"
    using assms(1) by (simp add: early_inv_def c_def word_le_nat_alt)
  then have "unat c + (2 ^ k - 1) < 2 ^ LENGTH(32)"
    using k by simp
  then show eq: "unat (ALIGN_UP c (2 ^ k)) = (unat c + (2 ^ k - 1)) div 2 ^ k * 2 ^ k"
    by (simp add: unat_ALIGN_UP)
  have "unat c + (2 ^ k - 1) = (unat c + (2 ^ k - 1)) div 2 ^ k * 2 ^ k + (unat c + (2 ^ k - 1)) mod 2 ^ k"
    by (simp add: div_mult_mod_eq)
  moreover have "(unat c + (2 ^ k - 1)) mod 2 ^ k < 2 ^ k" by simp
  ultimately show "unat c \<le> unat (ALIGN_UP c (2 ^ k))" and "unat (ALIGN_UP c (2 ^ k)) < unat c + 2 ^ 12"
    unfolding eq using k by linarith+
qed

lemma kearly_malloc_aligned_contract:
  assumes "early_inv s" "kearly_malloc_aligned n (2 ^ k) s = Inr (p, s')" "p \<noteq> 0"
    and "k \<le> 12" "unat n + 2 ^ 12 \<le> 2 ^ 32"
  shows "early_inv s'" and "kernel_early_heap_end s' = kernel_early_heap_end s"
    and "kernel_early_heap_start s \<le> p" and "unat p + unat n = unat (kernel_early_heap_start s')"
    and "2 ^ k dvd unat p"
proof -
  note eqs = kearly_malloc_aligned_Inr [OF assms(2,3)]
  note room = early_align_room [OF assms(1,4)]
  let ?e = "kernel_early_heap_end s" and ?c = "kernel_early_heap_start s"
  have le: "unat ?c \<le> unat ?e" "unat ?e + 2 ^ 12 \<le> 2 ^ 32"
    using assms(1) by (auto simp: early_inv_def word_le_nat_alt)
  have pc: "unat (p - ?c) = unat p - unat ?c"
    using eqs(1) room by (simp add: word_le_nat_alt unat_sub)
  then have "unat (p - ?c) + unat n < 2 ^ 32"
    using eqs(1) room(3) assms(5) by simp
  then have "unat ((p - ?c) + n) = unat p - unat ?c + unat n"
    using pc by (simp add: unat_word_ariths)
  moreover have "unat ((p - ?c) + n) \<le> unat ?e - unat ?c"
    using eqs(3) le by (simp add: word_le_nat_alt unat_sub)
  ultimately have sum: "unat p + unat n \<le> unat ?e"
    using le eqs(1) room(2) by simp
  then have add: "unat (p + n) = unat p + unat n"
    using le by (simp add: unat_word_ariths)
  have "p + n \<noteq> 0" using add assms(3) by (metis add_is_0 unat_0 unat_eq_0)
  then show "early_inv s'"
    using eqs(2) le sum add by (simp add: early_inv_def word_le_nat_alt)
  show "kernel_early_heap_end s' = ?e" using eqs(2) by simp
  show "?c \<le> p" using eqs(1) room(2) by (simp add: word_le_nat_alt)
  show "unat p + unat n = unat (kernel_early_heap_start s')" using eqs(2) add by simp
  show "2 ^ k dvd unat p" using eqs(1) room(1) by simp
qed

lemma kearly_malloc_aligned_null:
  assumes "early_inv s" "k \<le> 12" "kearly_malloc_aligned n (2 ^ k) s = Inr (0, s')"
  shows "s' = s"
proof -
  let ?c = "kernel_early_heap_start s"
  have "unat ?c \<noteq> 0" using assms(1) by (simp add: early_inv_def unat_eq_0)
  then have "ALIGN_UP ?c (2 ^ k) \<noteq> 0"
    using early_align_room(2) [OF assms(1,2)] by (auto simp: unat_eq_0)
  then show ?thesis
    using assms(3)
    by (auto simp: kearly_malloc_aligned_def ALIGN_UP_def Let_def algebra_simps split: if_splits)
qed

lemma kearly_malloc_null: "early_inv s \<Longrightarrow> kearly_malloc n s = Inr (0, s') \<Longrightarrow> s' = s"
  by (auto simp: kearly_malloc_def early_inv_def Let_def split: if_splits)

abbreviation early_size :: "early_req \<Rightarrow> nat" where
  "early_size r \<equiv> unat (req_bytes r)"

abbreviation early_low :: "'z early_state_scheme \<Rightarrow> nat" where
  "early_low s \<equiv> unat (kernel_early_heap_start s)"

abbreviation early_high :: "'z early_state_scheme \<Rightarrow> nat" where
  "early_high s \<equiv> unat (kernel_early_heap_end s)"

interpretation early: bump_allocator early_alloc early_size req_ok early_inv early_low early_high
proof unfold_locales
  fix r :: early_req and s s' :: "'a early_state_scheme" and p :: u32
  assume inv: "early_inv s" and ok: "req_ok r"
  show "early_alloc r s = Inr (0, s') \<Longrightarrow> s' = s"
    using inv ok by (cases r) (auto dest: kearly_malloc_null kearly_malloc_aligned_null)
  assume al: "early_alloc r s = Inr (p, s')" and p: "p \<noteq> 0"
  show "early_inv s'" "early_high s' = early_high s" "early_low s \<le> unat p"
    and "unat p + early_size r \<le> early_low s'"
    using inv ok al p
    by (cases r; auto simp: word_le_nat_alt
          dest: kearly_malloc_contract kearly_malloc_aligned_contract)+
next
  show "early_inv s \<Longrightarrow> early_low s \<le> early_high s" for s :: "'a early_state_scheme"
    by (simp add: early_inv_def word_le_nat_alt)
qed

section \<open>Properties\<close>

text \<open>
  C20. Starting from cursors in order, any sequence of \<^verbatim>\<open>kearly_malloc\<close> and
  \<^verbatim>\<open>kearly_malloc_aligned\<close> calls (alignments up to a page, sizes that do not wrap) hands out
  blocks that lie inside the early heap and follow one another without overlap, and the cursors
  stay in order.
\<close>

theorem early_blocks_disjoint:
  assumes "early_inv s" and "list_all req_ok rs" and "run_allocs early_alloc rs s = Inr (bs, s')"
  shows "early_inv s' \<and>
    (\<forall>(p, r) \<in> set bs. unat (kernel_early_heap_start s) \<le> unat p \<and>
       unat p + unat (req_bytes r) \<le> unat (kernel_early_heap_end s)) \<and>
    sorted_wrt (\<lambda>(p, r) (q, r'). unat p + unat (req_bytes r) \<le> unat q) bs"
proof -
  note blocks = early.run_blocks [OF assms]
  then have "early_low s' \<le> early_high s" using early.low_high by metis
  with blocks show ?thesis by fastforce
qed

definition early_example :: early_state where
  "early_example = \<lparr>kernel_early_heap_start = 0x120004, kernel_early_heap_end = 0x160004,
     kernel_early_heap_available = True\<rparr>"

theorem early_blocks_disjoint_witness:
  "\<exists>bs s'. run_allocs early_alloc [Plain 13, Aligned 4096 12, Plain 5] early_example = Inr (bs, s') \<and>
     map fst bs = [0x120004, 0x121000, 0x122000] \<and>
     sorted_wrt (\<lambda>(p, r) (q, r'). unat p + unat (req_bytes r) \<le> unat q) bs"
proof -
  have inv: "early_inv early_example" by (simp add: early_inv_def early_example_def)
  have ok: "list_all req_ok [Plain 13, Aligned 4096 12, Plain 5]" by simp
  obtain bs s' where run: "run_allocs early_alloc [Plain 13, Aligned 4096 12, Plain 5] early_example = Inr (bs, s')"
    and fst: "map fst bs = [0x120004, 0x121000, 0x122000]"
    by (simp add: early_example_def kearly_malloc_def kearly_malloc_aligned_def KEARLY_ALIGN_UP_def Let_def)
  from early_blocks_disjoint [OF inv ok run]
  have "sorted_wrt (\<lambda>(p, r) (q, r'). unat p + unat (req_bytes r) \<le> unat q) bs" by (elim conjE)
  with run fst show ?thesis by (intro exI conjI)
qed

end
