(* ===== verification/Pmm.thy ===== *)
theory Pmm
  imports Early_Alloc
begin

text \<open>
  The physical memory manager (\<^verbatim>\<open>src/kernel/memory/pmm\<close>, \<^verbatim>\<open>src/utils/misc/bitops.c\<close>): a
  bitmap with one bit per 4 KiB page (1 = used) and a counter of free pages. The abstraction is
  the set of free page numbers; the locale \<open>page_allocator\<close> is the contract the virtual memory
  manager and the kernel heap rely on, interpreted on the bitmap allocator.
\<close>

section \<open>State\<close>

text \<open>
  \<open>kpmm_bitmap\<close> is the pointer, \<open>bitmap_mem\<close> the bytes it points to.
\<close>

record pmm_state = early_state +
  kpmm_bitmap :: u32
  bitmap_mem :: "u8 list"
  kpmm_bitmap_bytes_amout :: u32
  kpmm_pages_amount :: u32
  kpmm_free_pages_amount :: u32

record e820_entry =
  e820_base :: u64
  e820_length :: u64
  e820_type :: u32
  e820_ext :: u32

definition KPMM_PAGE_SIZE :: "'a::len word" where
  "KPMM_PAGE_SIZE = 4096"

definition KPMM_MIN_BASE :: u64 where
  "KPMM_MIN_BASE = 0x00100000"

definition KE820_TYPE_FREE :: u32 where
  "KE820_TYPE_FREE = 1"

abbreviation (input) OK_TRUE :: u32 where "OK_TRUE \<equiv> 1"

abbreviation (input) KO_FALSE :: u32 where "KO_FALSE \<equiv> 0"

section \<open>Bitmap operations\<close>

fun kbyte_has_free_bit_from :: "nat \<Rightarrow> nat \<Rightarrow> u8 \<Rightarrow> int" where
  "kbyte_has_free_bit_from 0 i byte = -1"
| "kbyte_has_free_bit_from (Suc left) i byte =
    (if byte AND push_bit i 1 = 0 then int i else kbyte_has_free_bit_from left (Suc i) byte)"

definition kbyte_has_free_bit :: "u8 \<Rightarrow> int" where
  "kbyte_has_free_bit byte = kbyte_has_free_bit_from 8 0 byte"

fun get_next_from :: "u8 list \<Rightarrow> nat \<Rightarrow> nat \<Rightarrow> u64 kres" where
  "get_next_from m i 0 = Inl Panic"
| "get_next_from m i (Suc left) =
    (if i < length m then
       let bit_tmp = kbyte_has_free_bit (m ! i) in
       if bit_tmp \<ge> 0 then Inr (ucast (word_of_nat i * 8 + word_of_int bit_tmp :: u32))
       else get_next_from m (Suc i) left
     else Inl PageFault)"

definition kpmm_bitmap_get_next :: "'z pmm_state_scheme \<Rightarrow> u64 kres" where
  "kpmm_bitmap_get_next s =
    (if kpmm_bitmap s = 0 then Inl Panic
     else get_next_from (bitmap_mem s) 0 (unat (kpmm_bitmap_bytes_amout s)))"

text \<open>
  The two nested loops of \<^verbatim>\<open>kpmm_bitmap_get_n_continuous\<close>: \<open>scan_bits\<close> runs over the bits of
  byte \<open>i\<close> from bit \<open>j\<close> on; \<open>Inl\<close> is the early return of \<open>bit_tmp\<close>, \<open>Inr\<close> the loop
  variables at its end.
\<close>

fun scan_bits :: "u32 \<Rightarrow> u8 \<Rightarrow> nat \<Rightarrow> nat \<Rightarrow> nat \<Rightarrow> u32 \<Rightarrow> u32 \<Rightarrow> u32 + (u32 \<times> u32)" where
  "scan_bits n b i j 0 bit_tmp cur = Inr (bit_tmp, cur)"
| "scan_bits n b i j (Suc left) bit_tmp cur =
    (if b AND push_bit j 1 = 0 then
       let bit_tmp = (if cur = 0 then word_of_nat (i * 8 + j) else bit_tmp);
           cur = cur + 1
       in if cur \<ge> n then Inl bit_tmp else scan_bits n b i (Suc j) left bit_tmp cur
     else scan_bits n b i (Suc j) left bit_tmp 0)"

fun scan_bytes :: "u32 \<Rightarrow> u8 list \<Rightarrow> nat \<Rightarrow> nat \<Rightarrow> u32 \<Rightarrow> u32 \<Rightarrow> u32 kres" where
  "scan_bytes n m i 0 bit_tmp cur = Inl Panic"
| "scan_bytes n m i (Suc left) bit_tmp cur =
    (if i < length m then
       (case scan_bits n (m ! i) i 0 8 bit_tmp cur of
          Inl r \<Rightarrow> Inr r
        | Inr (bit_tmp, cur) \<Rightarrow> scan_bytes n m (Suc i) left bit_tmp cur)
     else Inl PageFault)"

definition kpmm_bitmap_get_n_continuous :: "u32 \<Rightarrow> 'z pmm_state_scheme \<Rightarrow> u64 kres" where
  "kpmm_bitmap_get_n_continuous n s =
    (if kpmm_bitmap s = 0 then Inl Panic
     else bindE (scan_bytes n (bitmap_mem s) 0 (unat (kpmm_bitmap_bytes_amout s)) 0 0)
            (\<lambda>bit_tmp. Inr (scast bit_tmp)))"

definition kpmm_bitmap_get_page_addr :: "u64 \<Rightarrow> u32" where
  "kpmm_bitmap_get_page_addr bitmap_bit_i = ucast (bitmap_bit_i * KPMM_PAGE_SIZE)"

definition kpmm_bitmap_set_value ::
    "u64 \<Rightarrow> u32 \<Rightarrow> 'z pmm_state_scheme \<Rightarrow> (bool \<times> 'z pmm_state_scheme) kres" where
  "kpmm_bitmap_set_value bitmap_bit_i being_used s =
    (let byte_i = ucast (bitmap_bit_i div 8) :: u32;
         bit_i = unat (ucast (bitmap_bit_i mod 8) :: u32);
         m = bitmap_mem s; b = unat byte_i
     in if byte_i \<ge> kpmm_bitmap_bytes_amout s then Inl Panic
        else if b \<ge> length m then Inl PageFault
        else if being_used = OK_TRUE then
          Inr (True, s\<lparr>bitmap_mem := m[b := (m ! b) OR push_bit bit_i 1]\<rparr>)
        else if being_used = KO_FALSE then
          Inr (True, s\<lparr>bitmap_mem := m[b := (m ! b) AND NOT (push_bit bit_i 1)]\<rparr>)
        else Inl Panic)"

section \<open>Allocation and release of pages\<close>

fun alloc_mark :: "nat \<Rightarrow> u64 \<Rightarrow> 'z pmm_state_scheme \<Rightarrow> 'z pmm_state_scheme kres" where
  "alloc_mark 0 bit_i s = Inr s"
| "alloc_mark (Suc left) bit_i s =
    bindE (kpmm_bitmap_set_value bit_i OK_TRUE s) (\<lambda>(_, s).
    alloc_mark left (bit_i + 1)
      (s\<lparr>kpmm_free_pages_amount := kpmm_free_pages_amount s - 1\<rparr>))"

definition kpmm_alloc_pages ::
    "u32 \<Rightarrow> 'z pmm_state_scheme \<Rightarrow> (u32 \<times> 'z pmm_state_scheme) kres" where
  "kpmm_alloc_pages page_count s =
    (if page_count = 0 \<or> kpmm_free_pages_amount s = 0 then Inr (0, s)
     else
       bindE (kpmm_bitmap_get_n_continuous page_count s) (\<lambda>bitmap_start.
       bindE (alloc_mark (unat page_count) bitmap_start s) (\<lambda>s.
       Inr (kpmm_bitmap_get_page_addr bitmap_start, s))))"

fun free_mark :: "nat \<Rightarrow> u64 \<Rightarrow> 'z pmm_state_scheme \<Rightarrow> 'z pmm_state_scheme kres" where
  "free_mark 0 page_i s = Inr s"
| "free_mark (Suc left) page_i s =
    bindE (kpmm_bitmap_set_value page_i KO_FALSE s) (\<lambda>(_, s).
    free_mark left (page_i + 1)
      (s\<lparr>kpmm_free_pages_amount := kpmm_free_pages_amount s + 1\<rparr>))"

definition kpmm_free_pages ::
    "u32 \<Rightarrow> u32 \<Rightarrow> 'z pmm_state_scheme \<Rightarrow> (bool \<times> 'z pmm_state_scheme) kres" where
  "kpmm_free_pages page_ptr page_count s =
    (if page_count = 0 then Inr (False, s)
     else
       let page_i = (ucast page_ptr :: u64) div KPMM_PAGE_SIZE in
       bindE (free_mark (unat page_count) page_i s) (\<lambda>s. Inr (True, s)))"

section \<open>Initialisation from the e820 memory map\<close>

text \<open>\<open>free_range\<close> is the loop over the pages of one region of \<^verbatim>\<open>pmm_free_pages_from_e820\<close>.\<close>

fun free_range :: "nat \<Rightarrow> u64 \<Rightarrow> 'z pmm_state_scheme \<Rightarrow> 'z pmm_state_scheme kres" where
  "free_range 0 page s = Inr s"
| "free_range (Suc left) page s =
    (let byte_idx = unat (ucast (page div 8) :: u32);
         bit_idx = unat (ucast (page mod 8) :: u32);
         m = bitmap_mem s
     in if byte_idx < length m then
          free_range left (page + 1)
            (s\<lparr>bitmap_mem := m[byte_idx := (m ! byte_idx) AND NOT (push_bit bit_idx 1)],
               kpmm_free_pages_amount := kpmm_free_pages_amount s + 1\<rparr>)
        else Inl PageFault)"

definition free_region ::
    "u64 \<Rightarrow> e820_entry \<Rightarrow> 'z pmm_state_scheme \<Rightarrow> 'z pmm_state_scheme kres" where
  "free_region min_free_phys e s =
    (if e820_type e = KE820_TYPE_FREE then
       let region_start = e820_base e;
           region_end = e820_base e + e820_length e
       in if region_end \<le> min_free_phys then Inr s
          else
            let region_start = (if region_start < min_free_phys then min_free_phys
                                else region_start);
                start_page = ALIGN_UP region_start KPMM_PAGE_SIZE div KPMM_PAGE_SIZE;
                end_page = ALIGN_DOWN region_end KPMM_PAGE_SIZE div KPMM_PAGE_SIZE
            in if end_page \<le> start_page then Inr s
               else free_range (unat end_page - unat start_page) start_page s
     else Inr s)"

fun free_regions ::
    "u64 \<Rightarrow> e820_entry list \<Rightarrow> 'z pmm_state_scheme \<Rightarrow> 'z pmm_state_scheme kres" where
  "free_regions min_free_phys [] s = Inr s"
| "free_regions min_free_phys (e # es) s =
    bindE (free_region min_free_phys e s) (\<lambda>s. free_regions min_free_phys es s)"

text \<open>The first argument is the linker symbol \<^verbatim>\<open>__kernel_physical_end\<close>.\<close>

definition pmm_min_free_phys :: "u32 \<Rightarrow> u64" where
  "pmm_min_free_phys kernel_physical_end =
    (let min_free_phys = ucast (ALIGN_UP kernel_physical_end KPMM_PAGE_SIZE) in
     if min_free_phys < KPMM_MIN_BASE then KPMM_MIN_BASE else min_free_phys)"

definition pmm_free_pages_from_e820 ::
    "u32 \<Rightarrow> e820_entry list \<Rightarrow> 'z pmm_state_scheme \<Rightarrow> 'z pmm_state_scheme kres" where
  "pmm_free_pages_from_e820 kernel_physical_end entries s =
    free_regions (pmm_min_free_phys kernel_physical_end) entries
      (s\<lparr>kpmm_free_pages_amount := 0\<rparr>)"

fun e820_max_phys :: "e820_entry list \<Rightarrow> u64 \<Rightarrow> u64" where
  "e820_max_phys [] max_phys = max_phys"
| "e820_max_phys (e # es) max_phys =
    (let end = e820_base e + e820_length e in
     e820_max_phys es (if end > max_phys then end else max_phys))"

definition kpmm_init ::
    "u32 \<Rightarrow> e820_entry list \<Rightarrow> 'z pmm_state_scheme \<Rightarrow> (bool \<times> 'z pmm_state_scheme) kres" where
  "kpmm_init kernel_physical_end entries s =
    (let max_phys = e820_max_phys entries 0;
         pages = ucast (ALIGN_UP max_phys KPMM_PAGE_SIZE div KPMM_PAGE_SIZE) :: u32;
         bytes = (pages + 7) div 8;
         s = s\<lparr>kpmm_pages_amount := pages, kpmm_bitmap_bytes_amout := bytes\<rparr>
     in bindE (kearly_malloc bytes s) (\<lambda>(ptr, s).
        let s = s\<lparr>kpmm_bitmap := ptr\<rparr> in
        if ptr = 0 then Inl Panic
        else
          bindE (pmm_free_pages_from_e820 kernel_physical_end entries
                   (s\<lparr>bitmap_mem := replicate (unat bytes) 0xFF\<rparr>)) (\<lambda>s.
          Inr (True, s))))"

section \<open>Abstraction: the set of free pages\<close>

definition page_free :: "u8 list \<Rightarrow> nat \<Rightarrow> bool" where
  "page_free m k \<longleftrightarrow> k < 8 * length m \<and> \<not> bit (m ! (k div 8)) (k mod 8)"

definition free_pages :: "'z pmm_state_scheme \<Rightarrow> nat set" where
  "free_pages s = {k. page_free (bitmap_mem s) k}"

definition pmm_inv :: "'z pmm_state_scheme \<Rightarrow> bool" where
  "pmm_inv s \<longleftrightarrow> kpmm_bitmap s \<noteq> 0 \<and>
     length (bitmap_mem s) = unat (kpmm_bitmap_bytes_amout s) \<and>
     unat (kpmm_bitmap_bytes_amout s) \<le> 2 ^ 17 \<and> 0 \<notin> free_pages s \<and>
     unat (kpmm_free_pages_amount s) = card (free_pages s)"

section \<open>First fit: the scan finds the lowest run of free pages\<close>

definition free_run :: "u8 list \<Rightarrow> nat \<Rightarrow> nat \<Rightarrow> bool" where
  "free_run m n q \<longleftrightarrow> (\<forall>k \<in> {q..<q + n}. page_free m k)"

definition first_fit :: "u8 list \<Rightarrow> nat \<Rightarrow> nat \<Rightarrow> bool" where
  "first_fit m n q \<longleftrightarrow> free_run m n q \<and> (\<forall>q' < q. \<not> free_run m n q')"

text \<open>The loop invariant of the scan when it is about to look at bit \<open>k\<close>.\<close>

definition scan_inv :: "u8 list \<Rightarrow> u32 \<Rightarrow> nat \<Rightarrow> u32 \<Rightarrow> u32 \<Rightarrow> bool" where
  "scan_inv m n k bit_tmp cur \<longleftrightarrow> unat cur < unat n \<and> unat cur \<le> k \<and>
     (\<forall>q \<in> {k - unat cur..<k}. page_free m q) \<and>
     (cur \<noteq> 0 \<longrightarrow> bit_tmp = word_of_nat (k - unat cur)) \<and>
     (\<forall>q < k - unat cur. \<not> free_run m (unat n) q)"

lemma and_push_bit_iff: "(b AND push_bit j 1 = 0) \<longleftrightarrow> \<not> bit b j" if "j < 8" for b :: u8
proof -
  have "b AND push_bit j 1 = 0 \<longleftrightarrow> (\<forall>k<8. \<not> bit (b AND push_bit j 1) k)"
    by (simp add: bit_eq_iff)
  also have "\<dots> \<longleftrightarrow> \<not> bit b j"
    using that by (auto simp: bit_simps)
  finally show ?thesis .
qed

lemma page_free_byte:
  "i < length m \<Longrightarrow> j < 8 \<Longrightarrow> page_free m (i * 8 + j) \<longleftrightarrow> (m ! i) AND push_bit j 1 = 0"
  by (subst and_push_bit_iff) (simp_all add: page_free_def)

lemma free_run_bound: "free_run m n q \<Longrightarrow> 0 < n \<Longrightarrow> q + n \<le> 8 * length m"
proof -
  assume "free_run m n q" "0 < n"
  then have "page_free m (q + n - 1)" by (auto simp: free_run_def)
  then have "q + n - 1 < 8 * length m" by (simp add: page_free_def)
  then show ?thesis by linarith
qed

lemma scan_inv_used:
  assumes "scan_inv m n k bit_tmp cur" "\<not> page_free m k"
  shows "scan_inv m n (Suc k) bit_tmp 0"
proof -
  have "\<not> free_run m (unat n) q" if "q < Suc k" for q
  proof (cases "q < k - unat cur")
    case True
    then show ?thesis using assms(1) by (simp add: scan_inv_def)
  next
    case False
    then have "k \<in> {q..<q + unat n}" using that assms(1) by (auto simp: scan_inv_def)
    then show ?thesis using assms(2) by (auto simp: free_run_def)
  qed
  then show ?thesis using assms(1) by (simp add: scan_inv_def)
qed

lemma scan_inv_free:
  assumes "scan_inv m n k bit_tmp cur" "page_free m k"
  defines "t \<equiv> if cur = 0 then word_of_nat k else bit_tmp"
  shows "cur + 1 \<ge> n \<Longrightarrow> \<exists>q. t = word_of_nat q \<and> first_fit m (unat n) q"
    and "\<not> cur + 1 \<ge> n \<Longrightarrow> scan_inv m n (Suc k) t (cur + 1)"
proof -
  have lt: "unat cur < unat n" using assms(1) by (simp add: scan_inv_def)
  then have suc: "unat (cur + 1) = Suc (unat cur)"
    using unat_u32_less [of n] by (simp add: unat_word_ariths)
  have t: "t = word_of_nat (k - unat cur)"
    using assms(1) by (auto simp: t_def scan_inv_def)
  have run: "\<forall>q \<in> {k - unat cur..<Suc k}. page_free m q"
    using assms(1,2) by (auto simp: scan_inv_def less_Suc_eq)
  {
    assume "cur + 1 \<ge> n"
    then have "unat n = Suc (unat cur)" using lt suc by (simp add: word_le_nat_alt)
    then have "first_fit m (unat n) (k - unat cur)"
      using assms(1) run by (auto simp: scan_inv_def first_fit_def free_run_def)
    then show "\<exists>q. t = word_of_nat q \<and> first_fit m (unat n) q" using t by blast
  }
  assume "\<not> cur + 1 \<ge> n"
  then have "Suc (unat cur) < unat n" using suc by (simp add: word_le_nat_alt)
  then show "scan_inv m n (Suc k) t (cur + 1)"
    using assms(1) t run suc by (auto simp: scan_inv_def)
qed

lemma scan_bits_correct:
  assumes "scan_inv m n (i * 8 + j) bit_tmp cur" "i < length m" "j + left = 8"
  shows "case scan_bits n (m ! i) i j left bit_tmp cur of
      Inl r \<Rightarrow> \<exists>q. r = word_of_nat q \<and> first_fit m (unat n) q
    | Inr (bit_tmp, cur) \<Rightarrow> scan_inv m n (Suc i * 8) bit_tmp cur"
  using assms
proof (induction n "m ! i" i j left bit_tmp cur rule: scan_bits.induct)
  case (1 n i j bit_tmp cur)
  then have "i * 8 + j = Suc i * 8" by simp
  with 1 show ?case by (simp del: mult_Suc)
next
  case (2 n i j left bit_tmp cur)
  let ?t = "if cur = 0 then word_of_nat (i * 8 + j) else bit_tmp"
  show ?case
  proof (cases "page_free m (i * 8 + j)")
    case True
    then have bit0: "(m ! i) AND push_bit j 1 = 0" using 2 by (simp add: page_free_byte)
    show ?thesis
    proof (cases "cur + 1 \<ge> n")
      case ge: True
      then show ?thesis using scan_inv_free(1) [OF 2(3) True ge] bit0 by simp
    next
      case ge: False
      have "scan_inv m n (i * 8 + Suc j) ?t (cur + 1)"
        using scan_inv_free(2) [OF 2(3) True ge] by simp
      then show ?thesis using 2(1) [OF bit0 refl refl ge] 2(4,5) bit0 ge by (simp add: Let_def)
    qed
  next
    case False
    then have bit1: "\<not> (m ! i) AND push_bit j 1 = 0" using 2 by (simp add: page_free_byte)
    have "scan_inv m n (i * 8 + Suc j) bit_tmp 0" using scan_inv_used [OF 2(3) False] by simp
    then show ?thesis using 2(2) [OF bit1] 2(4,5) bit1 by simp
  qed
qed

lemma scan_bytes_correct:
  assumes "scan_inv m n (i * 8) bit_tmp cur" "i + left = length m"
  shows "case scan_bytes n m i left bit_tmp cur of
      Inl e \<Rightarrow> e = Panic \<and> (\<forall>q. \<not> free_run m (unat n) q)
    | Inr r \<Rightarrow> \<exists>q. r = word_of_nat q \<and> first_fit m (unat n) q"
  using assms
proof (induction n m i left bit_tmp cur rule: scan_bytes.induct)
  case (1 n m i bit_tmp cur)
  have "\<not> free_run m (unat n) q" for q
  proof (cases "q < i * 8 - unat cur")
    case True
    then show ?thesis using 1 by (simp add: scan_inv_def)
  next
    case False
    then have "\<not> q + unat n \<le> 8 * length m" "0 < unat n" using 1 by (auto simp: scan_inv_def)
    then show ?thesis using free_run_bound by blast
  qed
  then show ?case by simp
next
  case (2 n m i left bit_tmp cur)
  then have i: "i < length m" by simp
  have bits: "case scan_bits n (m ! i) i 0 8 bit_tmp cur of
      Inl r \<Rightarrow> \<exists>q. r = word_of_nat q \<and> first_fit m (unat n) q
    | Inr (bit_tmp, cur) \<Rightarrow> scan_inv m n (Suc i * 8) bit_tmp cur"
    using 2(2) i by (intro scan_bits_correct) auto
  show ?case
  proof (cases "scan_bits n (m ! i) i 0 8 bit_tmp cur")
    case (Inl r)
    then show ?thesis using bits i by simp
  next
    case (Inr r)
    obtain t c where r: "r = (t, c)" by (cases r)
    have "scan_inv m n (Suc i * 8) t c" using bits Inr r by simp
    then show ?thesis using 2(1) [OF i Inr r [symmetric]] 2(3) i Inr r by simp
  qed
qed

lemma scast_nat:
  assumes "q < 2 ^ 31"
  shows "(scast (word_of_nat q :: u32) :: u64) = word_of_nat q"
proof -
  have "signed_take_bit 31 (int q) = int q"
    using assms by (intro signed_take_bit_int_eq_self) auto
  then show ?thesis by (simp add: signed_of_nat)
qed

lemma get_n_continuous_correct:
  assumes "pmm_inv s" "0 < n"
  shows "case kpmm_bitmap_get_n_continuous n s of
      Inl e \<Rightarrow> e = Panic \<and> (\<forall>q. \<not> free_run (bitmap_mem s) (unat n) q)
    | Inr r \<Rightarrow> \<exists>q. r = word_of_nat q \<and> first_fit (bitmap_mem s) (unat n) q"
proof -
  have n: "0 < unat n" using assms(2) by (simp add: word_less_nat_alt)
  then have "scan_inv (bitmap_mem s) n (0 * 8) 0 0" by (simp add: scan_inv_def)
  then have scan: "case scan_bytes n (bitmap_mem s) 0 (unat (kpmm_bitmap_bytes_amout s)) 0 0 of
      Inl e \<Rightarrow> e = Panic \<and> (\<forall>q. \<not> free_run (bitmap_mem s) (unat n) q)
    | Inr r \<Rightarrow> \<exists>q. r = word_of_nat q \<and> first_fit (bitmap_mem s) (unat n) q"
    using assms(1) by (intro scan_bytes_correct) (auto simp: pmm_inv_def)
  have "(scast (word_of_nat q :: u32) :: u64) = word_of_nat q"
    if "first_fit (bitmap_mem s) (unat n) q" for q
  proof -
    have "q < 2 ^ 20" using that free_run_bound [of "bitmap_mem s" "unat n" q] n assms(1)
      by (auto simp: first_fit_def pmm_inv_def)
    then show ?thesis by (simp add: scast_nat)
  qed
  then show ?thesis
    using scan assms(1)
    by (auto simp: kpmm_bitmap_get_n_continuous_def pmm_inv_def split: sum.splits)
qed

section \<open>Marking pages\<close>

lemma page_free_set_used:
  assumes "k < 8 * length m"
  shows "page_free (m[k div 8 := (m ! (k div 8)) OR push_bit (k mod 8) 1]) q \<longleftrightarrow>
    page_free m q \<and> q \<noteq> k"
proof (cases "q div 8 = k div 8")
  case True
  then have "q = k \<longleftrightarrow> q mod 8 = k mod 8" by (metis div_mult_mod_eq)
  then show ?thesis using True assms by (auto simp: page_free_def bit_simps)
next
  case False
  then show ?thesis by (auto simp: page_free_def)
qed

lemma page_free_set_free:
  assumes "k < 8 * length m"
  shows "page_free (m[k div 8 := (m ! (k div 8)) AND NOT (push_bit (k mod 8) 1)]) q \<longleftrightarrow>
    page_free m q \<or> q = k"
proof (cases "q div 8 = k div 8")
  case True
  then have "q = k \<longleftrightarrow> q mod 8 = k mod 8" by (metis div_mult_mod_eq)
  then show ?thesis using True assms by (auto simp: page_free_def bit_simps)
next
  case False
  then show ?thesis by (auto simp: page_free_def)
qed

lemma page_index_words:
  assumes "k < 2 ^ 32"
  shows "unat (ucast (word_of_nat k div 8 :: u64) :: u32) = k div 8"
    and "unat (ucast (word_of_nat k mod 8 :: u64) :: u32) = k mod 8"
proof -
  have "unat (word_of_nat k :: u64) = k" using assms by (simp add: unat_of_nat)
  then have "unat (word_of_nat k div 8 :: u64) = k div 8" "unat (word_of_nat k mod 8 :: u64) = k mod 8"
    by (simp_all add: unat_div_distrib unat_mod_distrib)
  then show "unat (ucast (word_of_nat k div 8 :: u64) :: u32) = k div 8"
    and "unat (ucast (word_of_nat k mod 8 :: u64) :: u32) = k mod 8"
    using assms by (simp_all add: unsigned_ucast_eq take_bit_nat_eq_self)
qed

lemma finite_free_pages [simp]: "finite (free_pages s)"
  by (rule finite_subset [of _ "{..<8 * length (bitmap_mem s)}"])
     (auto simp: free_pages_def page_free_def)

text \<open>What the operations keep: only the bitmap's bytes and the counter may change.\<close>

definition pmm_frame :: "'z pmm_state_scheme \<Rightarrow> 'z pmm_state_scheme \<Rightarrow> bool" where
  "pmm_frame s s' \<longleftrightarrow> (\<exists>m f. s' = s\<lparr>bitmap_mem := m, kpmm_free_pages_amount := f\<rparr> \<and>
     length m = length (bitmap_mem s))"

lemma pmm_frame_refl [simp]: "pmm_frame s s"
  unfolding pmm_frame_def
  by (intro exI [of _ "bitmap_mem s"] exI [of _ "kpmm_free_pages_amount s"]) simp

lemma pmm_frame_update [intro]:
  "length m = length (bitmap_mem s) \<Longrightarrow>
    pmm_frame s (s\<lparr>bitmap_mem := m, kpmm_free_pages_amount := f\<rparr>)"
  by (auto simp: pmm_frame_def)

lemma pmm_frame_trans:
  assumes "pmm_frame s t" "pmm_frame t u"
  shows "pmm_frame s u"
proof -
  from assms obtain m f where "u = s\<lparr>bitmap_mem := m, kpmm_free_pages_amount := f\<rparr>"
    and "length m = length (bitmap_mem s)" by (auto simp: pmm_frame_def)
  then show ?thesis by blast
qed

lemma pmm_frame_fields:
  assumes "pmm_frame s t"
  shows "kpmm_bitmap t = kpmm_bitmap s" "kpmm_bitmap_bytes_amout t = kpmm_bitmap_bytes_amout s"
    and "kpmm_pages_amount t = kpmm_pages_amount s"
    and "length (bitmap_mem t) = length (bitmap_mem s)"
  using assms by (auto simp: pmm_frame_def)

text \<open>One page marked by \<^verbatim>\<open>kpmm_bitmap_set_value\<close> and the counter adjusted.\<close>

lemma set_value_page:
  assumes "k < 8 * length (bitmap_mem s)" "length (bitmap_mem s) = unat (kpmm_bitmap_bytes_amout s)"
    and "k < 2 ^ 32"
  shows "\<exists>m. kpmm_bitmap_set_value (word_of_nat k) OK_TRUE s = Inr (True, s\<lparr>bitmap_mem := m\<rparr>) \<and>
      length m = length (bitmap_mem s) \<and> (\<forall>q. page_free m q \<longleftrightarrow> page_free (bitmap_mem s) q \<and> q \<noteq> k)"
    and "\<exists>m. kpmm_bitmap_set_value (word_of_nat k) KO_FALSE s = Inr (True, s\<lparr>bitmap_mem := m\<rparr>) \<and>
      length m = length (bitmap_mem s) \<and> (\<forall>q. page_free m q \<longleftrightarrow> page_free (bitmap_mem s) q \<or> q = k)"
proof -
  have lt: "k div 8 < length (bitmap_mem s)" using assms(1) by linarith
  note words = page_index_words [OF assms(3)]
  have "\<not> (ucast (word_of_nat k div 8 :: u64) :: u32) \<ge> kpmm_bitmap_bytes_amout s"
    using lt assms(2) words(1) by (simp add: word_le_nat_alt)
  then show "\<exists>m. kpmm_bitmap_set_value (word_of_nat k) OK_TRUE s = Inr (True, s\<lparr>bitmap_mem := m\<rparr>) \<and>
      length m = length (bitmap_mem s) \<and> (\<forall>q. page_free m q \<longleftrightarrow> page_free (bitmap_mem s) q \<and> q \<noteq> k)"
    and "\<exists>m. kpmm_bitmap_set_value (word_of_nat k) KO_FALSE s = Inr (True, s\<lparr>bitmap_mem := m\<rparr>) \<and>
      length m = length (bitmap_mem s) \<and> (\<forall>q. page_free m q \<longleftrightarrow> page_free (bitmap_mem s) q \<or> q = k)"
    unfolding kpmm_bitmap_set_value_def Let_def words
    using lt page_free_set_used [OF assms(1)] page_free_set_free [OF assms(1)] by auto
qed

text \<open>The part of the invariant the marking loops need: the bitmap has the bytes it claims.\<close>

definition bitmap_ok :: "'z pmm_state_scheme \<Rightarrow> bool" where
  "bitmap_ok s \<longleftrightarrow> length (bitmap_mem s) = unat (kpmm_bitmap_bytes_amout s) \<and>
     length (bitmap_mem s) \<le> 2 ^ 17"

lemma bitmap_ok_frame: "pmm_frame s t \<Longrightarrow> bitmap_ok t \<longleftrightarrow> bitmap_ok s"
  by (simp add: bitmap_ok_def pmm_frame_fields)

lemma pmm_inv_bitmap_ok: "pmm_inv s \<Longrightarrow> bitmap_ok s"
  by (simp add: bitmap_ok_def pmm_inv_def)

lemma upt_page_Suc: "{k..<k + Suc n} = insert k {Suc k..<Suc k + n}"
  by (simp add: atLeastLessThan_def) (auto simp: Suc_le_eq)

lemma alloc_mark_correct:
  assumes "bitmap_ok s" "k + n \<le> 8 * length (bitmap_mem s)"
  shows "\<exists>s'. alloc_mark n (word_of_nat k) s = Inr s' \<and> pmm_frame s s' \<and>
    free_pages s' = free_pages s - {k..<k + n} \<and>
    kpmm_free_pages_amount s' = kpmm_free_pages_amount s - word_of_nat n"
  using assms
proof (induction n arbitrary: k s)
  case 0
  then show ?case by simp
next
  case (Suc n)
  then have k: "k < 8 * length (bitmap_mem s)" "k < 2 ^ 32" by (auto simp: bitmap_ok_def)
  obtain m where set: "kpmm_bitmap_set_value (word_of_nat k) OK_TRUE s = Inr (True, s\<lparr>bitmap_mem := m\<rparr>)"
    and m: "length m = length (bitmap_mem s)" "\<And>q. page_free m q \<longleftrightarrow> page_free (bitmap_mem s) q \<and> q \<noteq> k"
    using set_value_page(1) [OF k(1) _ k(2)] Suc.prems by (auto simp: bitmap_ok_def)
  define t where "t = s\<lparr>bitmap_mem := m, kpmm_free_pages_amount := kpmm_free_pages_amount s - 1\<rparr>"
  have st: "pmm_frame s t" using m(1) by (auto simp: t_def)
  have "bitmap_ok t" "Suc k + n \<le> 8 * length (bitmap_mem t)"
    using Suc.prems m(1) by (simp_all add: bitmap_ok_frame [OF st]) (simp add: t_def)
  from Suc.IH [OF this] obtain s' where s': "alloc_mark n (word_of_nat (Suc k)) t = Inr s'"
    "pmm_frame t s'" "free_pages s' = free_pages t - {Suc k..<Suc k + n}"
    "kpmm_free_pages_amount s' = kpmm_free_pages_amount t - word_of_nat n" by blast
  have "free_pages t = free_pages s - {k}" using m(2) by (auto simp: t_def free_pages_def)
  then have "free_pages s' = free_pages s - {k..<k + Suc n}"
    unfolding s'(3) upt_page_Suc by blast
  moreover have "alloc_mark (Suc n) (word_of_nat k) s = Inr s'"
    using s'(1) set by (simp add: t_def add.commute)
  moreover have "kpmm_free_pages_amount s' = kpmm_free_pages_amount s - word_of_nat (Suc n)"
    using s'(4) by (simp add: t_def)
  ultimately show ?case using pmm_frame_trans [OF st s'(2)] by blast
qed

lemma free_mark_correct:
  assumes "bitmap_ok s" "k + n \<le> 8 * length (bitmap_mem s)"
  shows "\<exists>s'. free_mark n (word_of_nat k) s = Inr s' \<and> pmm_frame s s' \<and>
    free_pages s' = free_pages s \<union> {k..<k + n} \<and>
    kpmm_free_pages_amount s' = kpmm_free_pages_amount s + word_of_nat n"
  using assms
proof (induction n arbitrary: k s)
  case 0
  then show ?case by simp
next
  case (Suc n)
  then have k: "k < 8 * length (bitmap_mem s)" "k < 2 ^ 32" by (auto simp: bitmap_ok_def)
  obtain m where set: "kpmm_bitmap_set_value (word_of_nat k) KO_FALSE s = Inr (True, s\<lparr>bitmap_mem := m\<rparr>)"
    and m: "length m = length (bitmap_mem s)" "\<And>q. page_free m q \<longleftrightarrow> page_free (bitmap_mem s) q \<or> q = k"
    using set_value_page(2) [OF k(1) _ k(2)] Suc.prems by (auto simp: bitmap_ok_def)
  define t where "t = s\<lparr>bitmap_mem := m, kpmm_free_pages_amount := kpmm_free_pages_amount s + 1\<rparr>"
  have st: "pmm_frame s t" using m(1) by (auto simp: t_def)
  have "bitmap_ok t" "Suc k + n \<le> 8 * length (bitmap_mem t)"
    using Suc.prems m(1) by (simp_all add: bitmap_ok_frame [OF st]) (simp add: t_def)
  from Suc.IH [OF this] obtain s' where s': "free_mark n (word_of_nat (Suc k)) t = Inr s'"
    "pmm_frame t s'" "free_pages s' = free_pages t \<union> {Suc k..<Suc k + n}"
    "kpmm_free_pages_amount s' = kpmm_free_pages_amount t + word_of_nat n" by blast
  have "free_pages t = insert k (free_pages s)" using m(2) by (auto simp: t_def free_pages_def)
  then have "free_pages s' = free_pages s \<union> {k..<k + Suc n}"
    unfolding s'(3) upt_page_Suc by blast
  moreover have "free_mark (Suc n) (word_of_nat k) s = Inr s'"
    using s'(1) set by (simp add: t_def add.commute)
  moreover have "kpmm_free_pages_amount s' = kpmm_free_pages_amount s + word_of_nat (Suc n)"
    using s'(4) by (simp add: t_def)
  ultimately show ?case using pmm_frame_trans [OF st s'(2)] by blast
qed

section \<open>Allocation and release on the set of free pages\<close>

text \<open>The page numbers of a block of \<open>n\<close> pages at physical address \<open>p\<close>.\<close>

definition block_pages :: "u32 \<Rightarrow> u32 \<Rightarrow> nat set" where
  "block_pages p n = {unat p div 4096..<unat p div 4096 + unat n}"

definition managed_pages :: "'z pmm_state_scheme \<Rightarrow> nat set" where
  "managed_pages s = {1..<8 * unat (kpmm_bitmap_bytes_amout s)}"

lemma free_pages_managed: "pmm_inv s \<Longrightarrow> free_pages s \<subseteq> managed_pages s"
proof
  fix k
  assume inv: "pmm_inv s" and k: "k \<in> free_pages s"
  then have "k \<noteq> 0" by (auto simp: pmm_inv_def intro: gr0I)
  then show "k \<in> managed_pages s"
    using inv k by (simp add: managed_pages_def free_pages_def page_free_def pmm_inv_def)
qed

lemma free_run_free_pages: "free_run (bitmap_mem s) n q \<longleftrightarrow> {q..<q + n} \<subseteq> free_pages s"
  by (auto simp: free_run_def free_pages_def)

lemma page_addr:
  assumes "q < 2 ^ 20"
  shows "unat (kpmm_bitmap_get_page_addr (word_of_nat q)) = 4096 * q"
proof -
  have "unat (word_of_nat q * 4096 :: u64) = 4096 * q"
    using assms by (simp add: unat_word_ariths unat_of_nat)
  then show ?thesis
    using assms by (simp add: kpmm_bitmap_get_page_addr_def KPMM_PAGE_SIZE_def unsigned_ucast_eq
        take_bit_nat_eq_self)
qed

lemma unat_sub_nat:
  assumes "n \<le> unat c"
  shows "unat (c - word_of_nat n :: 'a::len word) = unat c - n"
proof -
  have "unat (word_of_nat n :: 'a word) = n"
    using assms le_less_trans [OF assms unsigned_less] by (simp add: unat_of_nat)
  then show ?thesis using assms by (simp add: unat_sub word_le_nat_alt)
qed

lemma alloc_pages_found:
  assumes inv: "pmm_inv s" and n: "0 < n" and fit: "\<exists>q. free_run (bitmap_mem s) (unat n) q"
  shows "\<exists>q s'. kpmm_alloc_pages n s = Inr (word_of_nat (4096 * q), s') \<and>
    first_fit (bitmap_mem s) (unat n) q \<and> q < 2 ^ 20 \<and> 0 < q \<and> pmm_frame s s' \<and> pmm_inv s' \<and>
    free_pages s' = free_pages s - {q..<q + unat n}"
proof -
  have n': "0 < unat n" using n by (simp add: word_less_nat_alt)
  obtain q where scan: "kpmm_bitmap_get_n_continuous n s = Inr (word_of_nat q)"
    and q: "first_fit (bitmap_mem s) (unat n) q"
    using get_n_continuous_correct [OF inv n] fit by (auto split: sum.splits)
  have bound: "q + unat n \<le> 8 * length (bitmap_mem s)"
    using q n' free_run_bound by (auto simp: first_fit_def)
  then have q20: "q < 2 ^ 20" using n' inv by (auto simp: pmm_inv_def)
  obtain s' where s': "alloc_mark (unat n) (word_of_nat q) s = Inr s'" "pmm_frame s s'"
    "free_pages s' = free_pages s - {q..<q + unat n}"
    "kpmm_free_pages_amount s' = kpmm_free_pages_amount s - word_of_nat (unat n)"
    using alloc_mark_correct [OF pmm_inv_bitmap_ok [OF inv] bound] by blast
  have sub: "{q..<q + unat n} \<subseteq> free_pages s"
    using q by (simp add: first_fit_def free_run_free_pages)
  then have "q \<in> free_pages s" using n' by auto
  then have q0: "0 < q" using inv by (cases q) (auto simp: pmm_inv_def)
  have card: "card (free_pages s') = card (free_pages s) - unat n"
    using sub s'(3) by (simp add: card_Diff_subset)
  have "unat n \<le> card (free_pages s)"
    using card_mono [OF finite_free_pages sub] by simp
  then have counter: "unat (kpmm_free_pages_amount s') = card (free_pages s')"
    using s'(4) inv card unat_sub_nat [of "unat n" "kpmm_free_pages_amount s"]
    by (simp add: pmm_inv_def)
  have "kpmm_free_pages_amount s \<noteq> 0"
    using inv \<open>q \<in> free_pages s\<close> by (auto simp: pmm_inv_def)
  moreover have "kpmm_bitmap_get_page_addr (word_of_nat q) = word_of_nat (4096 * q)"
    using page_addr [OF q20] q20 by (simp add: word_unat_eq_iff unat_word_ariths unat_of_nat)
  ultimately have "kpmm_alloc_pages n s = Inr (word_of_nat (4096 * q), s')"
    using n scan s'(1) by (auto simp: kpmm_alloc_pages_def)
  moreover have "pmm_inv s'"
    using inv counter s'(3) pmm_frame_fields [OF s'(2)] by (simp add: pmm_inv_def)
  ultimately show ?thesis using q q20 q0 s'(2,3) by blast
qed

lemma alloc_pages_none:
  assumes "pmm_inv s" "0 < n" "\<And>q. \<not> free_run (bitmap_mem s) (unat n) q"
  shows "kpmm_alloc_pages n s = (if free_pages s = {} then Inr (0, s) else Inl Panic)"
  using assms get_n_continuous_correct [OF assms(1,2)] card_0_eq [OF finite_free_pages, of s]
  by (auto simp: kpmm_alloc_pages_def pmm_inv_def first_fit_def unat_eq_0 split: sum.splits)

lemma free_pages_returned:
  assumes inv: "pmm_inv s" and n: "0 < n" and range: "block_pages p n \<subseteq> managed_pages s"
    and used: "block_pages p n \<inter> free_pages s = {}"
  shows "\<exists>s'. kpmm_free_pages p n s = Inr (True, s') \<and> pmm_frame s s' \<and> pmm_inv s' \<and>
    free_pages s' = free_pages s \<union> block_pages p n"
proof -
  let ?k = "unat p div 4096"
  have n': "0 < unat n" using n by (simp add: word_less_nat_alt)
  then have "?k + (unat n - 1) \<in> block_pages p n" by (simp add: block_pages_def)
  then have "?k + (unat n - 1) < 8 * unat (kpmm_bitmap_bytes_amout s)"
    using range by (auto simp: managed_pages_def)
  then have bound: "?k + unat n \<le> 8 * length (bitmap_mem s)"
    using inv n' by (simp add: pmm_inv_def)
  have "unat ((ucast p :: u64) div 4096) = ?k" 
    by (simp add: unat_div_distrib unat_u32_to_u64)
  then have page: "(ucast p :: u64) div 4096 = word_of_nat ?k"
    using unat_u32_less [of p] by (simp add: word_unat_eq_iff unat_of_nat)
  obtain s' where s': "free_mark (unat n) (word_of_nat ?k) s = Inr s'" "pmm_frame s s'"
    "free_pages s' = free_pages s \<union> {?k..<?k + unat n}"
    "kpmm_free_pages_amount s' = kpmm_free_pages_amount s + word_of_nat (unat n)"
    using free_mark_correct [OF pmm_inv_bitmap_ok [OF inv] bound] by blast
  have card: "card (free_pages s') = card (free_pages s) + unat n"
    using used s'(3) by (simp add: card_Un_disjoint block_pages_def Int_commute)
  have "free_pages s' \<subseteq> {..<8 * length (bitmap_mem s')}"
    by (auto simp: free_pages_def page_free_def)
  then have "card (free_pages s') \<le> 8 * length (bitmap_mem s')"
    using card_mono [of "{..<8 * length (bitmap_mem s')}"] by simp
  then have "card (free_pages s') \<le> 2 ^ 20"
    using inv pmm_frame_fields [OF s'(2)] by (simp add: pmm_inv_def)
  then have counter: "unat (kpmm_free_pages_amount s') = card (free_pages s')"
    using s'(4) card inv by (simp add: pmm_inv_def unat_word_ariths)
  have "0 \<notin> block_pages p n" using range by (auto simp: managed_pages_def)
  then have "pmm_inv s'"
    using inv counter s'(3) pmm_frame_fields [OF s'(2)] by (simp add: pmm_inv_def block_pages_def)
  moreover have "kpmm_free_pages p n s = Inr (True, s')"
    using n page s'(1) by (simp add: kpmm_free_pages_def KPMM_PAGE_SIZE_def)
  ultimately show ?thesis using s'(2,3) by (auto simp: block_pages_def)
qed

section \<open>The contract of a page allocator\<close>

text \<open>
  A client's history: it asks for blocks and gives back blocks it holds. \<open>run_pages\<close> keeps the
  blocks held (address and page count) beside the allocator's state; a request that returns
  \<^verbatim>\<open>NULL\<close> adds none, and giving back a position that holds nothing does nothing.
\<close>

datatype page_op = Get u32 | Give nat

fun page_step ::
    "(u32 \<Rightarrow> 's \<Rightarrow> (u32 \<times> 's) kres) \<Rightarrow> (u32 \<Rightarrow> u32 \<Rightarrow> 's \<Rightarrow> (bool \<times> 's) kres) \<Rightarrow> page_op \<Rightarrow>
     (u32 \<times> u32) list \<times> 's \<Rightarrow> ((u32 \<times> u32) list \<times> 's) kres" where
  "page_step al fr (Get n) (held, s) =
    bindE (al n s) (\<lambda>(p, s). Inr (if p = 0 then held else (p, n) # held, s))"
| "page_step al fr (Give i) (held, s) =
    (if i < length held then
       bindE (fr (fst (held ! i)) (snd (held ! i)) s) (\<lambda>(_, s).
       Inr (take i held @ drop (Suc i) held, s))
     else Inr (held, s))"

fun run_pages ::
    "(u32 \<Rightarrow> 's \<Rightarrow> (u32 \<times> 's) kres) \<Rightarrow> (u32 \<Rightarrow> u32 \<Rightarrow> 's \<Rightarrow> (bool \<times> 's) kres) \<Rightarrow> page_op list \<Rightarrow>
     (u32 \<times> u32) list \<times> 's \<Rightarrow> ((u32 \<times> u32) list \<times> 's) kres" where
  "run_pages al fr [] c = Inr c"
| "run_pages al fr (op # ops) c = bindE (page_step al fr op c) (run_pages al fr ops)"

definition held_pages :: "(u32 \<times> u32) list \<Rightarrow> nat set" where
  "held_pages held = (\<Union>(p, n) \<in> set held. block_pages p n)"

text \<open>The blocks held do not overlap one another.\<close>

definition held_disjoint :: "(u32 \<times> u32) list \<Rightarrow> bool" where
  "held_disjoint held \<longleftrightarrow>
     sorted_wrt (\<lambda>(p, n) (q, k). block_pages p n \<inter> block_pages q k = {}) held"

lemma held_split:
  assumes "i < length held"
  shows "held_pages held = block_pages (fst (held ! i)) (snd (held ! i)) \<union>
      held_pages (take i held @ drop (Suc i) held)"
    and "held_disjoint held \<Longrightarrow> held_disjoint (take i held @ drop (Suc i) held) \<and>
      block_pages (fst (held ! i)) (snd (held ! i)) \<inter> held_pages (take i held @ drop (Suc i) held) = {}"
proof -
  obtain p n where pn: "held ! i = (p, n)" by (cases "held ! i")
  have split: "held = take i held @ (p, n) # drop (Suc i) held"
    using id_take_nth_drop [OF assms] pn by simp
  show "held_pages held = block_pages (fst (held ! i)) (snd (held ! i)) \<union>
      held_pages (take i held @ drop (Suc i) held)"
    unfolding pn by (subst split) (auto simp: held_pages_def)
  assume "held_disjoint held"
  then have "held_disjoint (take i held @ (p, n) # drop (Suc i) held)" using split by simp
  then show "held_disjoint (take i held @ drop (Suc i) held) \<and>
      block_pages (fst (held ! i)) (snd (held ! i)) \<inter> held_pages (take i held @ drop (Suc i) held) = {}"
    unfolding pn held_disjoint_def held_pages_def
    by (auto simp: sorted_wrt_append disjoint_iff split: prod.splits)
qed

locale page_allocator =
  fixes al :: "u32 \<Rightarrow> 's \<Rightarrow> (u32 \<times> 's) kres"
    and fr :: "u32 \<Rightarrow> u32 \<Rightarrow> 's \<Rightarrow> (bool \<times> 's) kres"
    and inv :: "'s \<Rightarrow> bool"
    and avail :: "'s \<Rightarrow> nat set"
    and managed :: "'s \<Rightarrow> nat set"
  assumes avail_managed: "inv s \<Longrightarrow> avail s \<subseteq> managed s"
    and al_null: "inv s \<Longrightarrow> al n s = Inr (0, s') \<Longrightarrow> s' = s"
    and al_block: "inv s \<Longrightarrow> al n s = Inr (p, s') \<Longrightarrow> p \<noteq> 0 \<Longrightarrow>
      inv s' \<and> managed s' = managed s \<and> n \<noteq> 0 \<and> block_pages p n \<subseteq> avail s \<and>
      avail s' = avail s - block_pages p n"
    and fr_block: "inv s \<Longrightarrow> 0 < n \<Longrightarrow> block_pages p n \<subseteq> managed s \<Longrightarrow>
      block_pages p n \<inter> avail s = {} \<Longrightarrow>
      \<exists>s'. fr p n s = Inr (True, s') \<and> inv s' \<and> managed s' = managed s \<and>
        avail s' = avail s \<union> block_pages p n"
begin

definition client_ok :: "(u32 \<times> u32) list \<times> 's \<Rightarrow> nat set \<Rightarrow> bool" where
  "client_ok c pool \<longleftrightarrow> inv (snd c) \<and> held_disjoint (fst c) \<and>
     (\<forall>(p, n) \<in> set (fst c). n \<noteq> 0) \<and> held_pages (fst c) \<inter> avail (snd c) = {} \<and>
     held_pages (fst c) \<union> avail (snd c) = pool \<and> pool \<subseteq> managed (snd c)"

lemma get_keeps:
  assumes "client_ok (held, s) pool" "page_step al fr (Get n) (held, s) = Inr c"
  shows "client_ok c pool"
proof -
  obtain p s' where al: "al n s = Inr (p, s')" and c: "c = (if p = 0 then held else (p, n) # held, s')"
    using assms(2) by (auto simp: kres_simps)
  show ?thesis
  proof (cases "p = 0")
    case True
    then have "s' = s" using assms(1) al al_null [of s n s'] by (simp add: client_ok_def)
    then show ?thesis using assms(1) c True by simp
  next
    case False
    then show ?thesis using al_block [OF _ al False] assms(1) c
      by (auto simp: client_ok_def held_disjoint_def held_pages_def)
  qed
qed

lemma give_keeps:
  assumes ok: "client_ok (held, s) pool"
  shows "\<exists>c. page_step al fr (Give i) (held, s) = Inr c \<and> client_ok c pool"
proof (cases "i < length held")
  case False
  then show ?thesis using ok by simp
next
  case True
  let ?p = "fst (held ! i)" and ?n = "snd (held ! i)" and ?rest = "take i held @ drop (Suc i) held"
  note split = held_split [OF True]
  have mem: "(?p, ?n) \<in> set held" using True by simp
  then have "?n \<noteq> 0" using ok by (fastforce simp: client_ok_def)
  moreover have "block_pages ?p ?n \<subseteq> managed s" "block_pages ?p ?n \<inter> avail s = {}"
    using ok split(1) by (auto simp: client_ok_def)
  ultimately obtain s' where s': "fr ?p ?n s = Inr (True, s')" "inv s'" "managed s' = managed s"
      "avail s' = avail s \<union> block_pages ?p ?n"
    using fr_block [of s ?n ?p] ok by (auto simp: client_ok_def word_neq_0_conv)
  have "set ?rest \<subseteq> set held" by (auto dest: in_set_takeD in_set_dropD)
  then have "client_ok (?rest, s') pool"
    using ok s' split by (auto simp: client_ok_def)
  then show ?thesis using True s'(1) by simp
qed

lemma run_keeps:
  assumes "client_ok c pool" "run_pages al fr ops c = Inr c'"
  shows "client_ok c' pool"
  using assms
proof (induction ops arbitrary: c)
  case Nil
  then show ?case by simp
next
  case (Cons op ops)
  then obtain c1 where step: "page_step al fr op c = Inr c1" and run: "run_pages al fr ops c1 = Inr c'"
    by (auto simp: kres_simps)
  have "client_ok c1 pool"
  proof (cases op)
    case (Get n)
    then show ?thesis using step Cons.prems get_keeps by (cases c) auto
  next
    case (Give i)
    obtain held s where c: "c = (held, s)" by (cases c)
    then show ?thesis using step Cons.prems(1) Give give_keeps [of held s pool i] by auto
  qed
  then show ?case using run Cons.IH by blast
qed

end

lemma managed_frame: "pmm_frame s s' \<Longrightarrow> managed_pages s' = managed_pages s"
  by (simp add: managed_pages_def pmm_frame_fields)

lemma pmm_alloc_block:
  assumes inv: "pmm_inv s" and al: "kpmm_alloc_pages n s = Inr (p, s')"
  shows "p = 0 \<Longrightarrow> s' = s" and "p \<noteq> 0 \<Longrightarrow> pmm_inv s' \<and> pmm_frame s s' \<and> n \<noteq> 0 \<and>
    block_pages p n \<subseteq> free_pages s \<and> free_pages s' = free_pages s - block_pages p n"
proof -
  show "p = 0 \<Longrightarrow> s' = s" and "p \<noteq> 0 \<Longrightarrow> pmm_inv s' \<and> pmm_frame s s' \<and> n \<noteq> 0 \<and>
    block_pages p n \<subseteq> free_pages s \<and> free_pages s' = free_pages s - block_pages p n"
  proof (atomize (full), cases "n \<noteq> 0 \<and> (\<exists>q. free_run (bitmap_mem s) (unat n) q)")
    case False
    then show "(p = 0 \<longrightarrow> s' = s) \<and> (p \<noteq> 0 \<longrightarrow> pmm_inv s' \<and> pmm_frame s s' \<and> n \<noteq> 0 \<and>
      block_pages p n \<subseteq> free_pages s \<and> free_pages s' = free_pages s - block_pages p n)"
      using al alloc_pages_none [OF inv, of n]
      by (auto simp: kpmm_alloc_pages_def word_neq_0_conv split: if_splits)
  next
    case True
    then obtain q where q: "kpmm_alloc_pages n s = Inr (word_of_nat (4096 * q), s')" "q < 2 ^ 20" "0 < q"
        "first_fit (bitmap_mem s) (unat n) q" "pmm_frame s s'" "pmm_inv s'"
        "free_pages s' = free_pages s - {q..<q + unat n}"
      using alloc_pages_found [OF inv, of n] al by (auto simp: word_neq_0_conv)
    have "unat p = 4096 * q" using q(1,2) al by (auto simp: unat_word_ariths unat_of_nat)
    then show "(p = 0 \<longrightarrow> s' = s) \<and> (p \<noteq> 0 \<longrightarrow> pmm_inv s' \<and> pmm_frame s s' \<and> n \<noteq> 0 \<and>
      block_pages p n \<subseteq> free_pages s \<and> free_pages s' = free_pages s - block_pages p n)"
      using q True by (auto simp: block_pages_def first_fit_def free_run_free_pages)
  qed
qed

lemma alloc_found_nonnull:
  assumes "pmm_inv s" "0 < n" "\<exists>q. free_run (bitmap_mem s) (unat n) q"
  shows "\<exists>p s'. kpmm_alloc_pages n s = Inr (p, s') \<and> p \<noteq> 0"
proof -
  obtain q s' where q: "kpmm_alloc_pages n s = Inr (word_of_nat (4096 * q), s')" "q < 2 ^ 20" "0 < q"
    using alloc_pages_found [OF assms] by blast
  have "unat (word_of_nat (4096 * q) :: u32) = 4096 * q"
    using q(2) by (simp add: unat_word_ariths unat_of_nat)
  then have "(word_of_nat (4096 * q) :: u32) \<noteq> 0" using q(3) by (metis mult_is_0 neq0_conv unat_0 zero_neq_numeral)
  then show ?thesis using q(1) by blast
qed

lemma kpmm_page_aligned:
  assumes "pmm_inv s" "kpmm_alloc_pages n s = Inr (p, s')"
  shows "unat p mod 4096 = 0"
proof (cases "0 < n \<and> (\<exists>q. free_run (bitmap_mem s) (unat n) q)")
  case True
  then obtain q where "kpmm_alloc_pages n s = Inr (word_of_nat (4096 * q), s')" "q < 2 ^ 20"
    using alloc_pages_found [OF assms(1), of n] assms(2) by auto
  then show ?thesis using assms(2) by (auto simp: unat_word_ariths unat_of_nat)
next
  case False
  then have "p = 0"
    using assms alloc_pages_none [OF assms(1), of n]
    by (auto simp: kpmm_alloc_pages_def word_neq_0_conv split: if_splits)
  then show ?thesis by simp
qed

interpretation frames: page_allocator kpmm_alloc_pages kpmm_free_pages pmm_inv free_pages managed_pages
proof unfold_locales
  fix s s' :: "'a pmm_state_scheme" and n p :: u32
  assume inv: "pmm_inv s"
  show "free_pages s \<subseteq> managed_pages s" using inv by (rule free_pages_managed)
  show "kpmm_alloc_pages n s = Inr (0, s') \<Longrightarrow> s' = s" using pmm_alloc_block(1) [OF inv] by blast
  show "kpmm_alloc_pages n s = Inr (p, s') \<Longrightarrow> p \<noteq> 0 \<Longrightarrow>
      pmm_inv s' \<and> managed_pages s' = managed_pages s \<and> n \<noteq> 0 \<and> block_pages p n \<subseteq> free_pages s \<and>
      free_pages s' = free_pages s - block_pages p n"
    using pmm_alloc_block(2) [OF inv] managed_frame by blast
  show "0 < n \<Longrightarrow> block_pages p n \<subseteq> managed_pages s \<Longrightarrow> block_pages p n \<inter> free_pages s = {} \<Longrightarrow>
      \<exists>s'. kpmm_free_pages p n s = Inr (True, s') \<and> pmm_inv s' \<and> managed_pages s' = managed_pages s \<and>
        free_pages s' = free_pages s \<union> block_pages p n"
    using free_pages_returned [OF inv, of n p] managed_frame [of s] by metis
qed

section \<open>Initialisation\<close>

text \<open>The pages of a region that lie wholly in it and not below \<open>lo\<close>.\<close>

definition region_pages :: "nat \<Rightarrow> e820_entry \<Rightarrow> nat set" where
  "region_pages lo e =
    (if e820_type e = KE820_TYPE_FREE
     then {k. lo \<le> 4096 * k \<and> unat (e820_base e) \<le> 4096 * k \<and>
              4096 * Suc k \<le> unat (e820_base e) + unat (e820_length e)}
     else {})"

text \<open>A memory map within 4 GiB whose free regions do not overlap.\<close>

definition e820_ok :: "e820_entry list \<Rightarrow> bool" where
  "e820_ok es \<longleftrightarrow>
     list_all (\<lambda>e. unat (e820_base e) + unat (e820_length e) \<le> 2 ^ 32) es \<and>
     sorted_wrt (\<lambda>a b. e820_type a = KE820_TYPE_FREE \<and> e820_type b = KE820_TYPE_FREE \<longrightarrow>
       unat (e820_base a) + unat (e820_length a) \<le> unat (e820_base b) \<or>
       unat (e820_base b) + unat (e820_length b) \<le> unat (e820_base a)) es"

lemma free_range_eq:
  assumes "bitmap_ok s" "k + n \<le> 8 * length (bitmap_mem s)"
  shows "free_range n (word_of_nat k) s = free_mark n (word_of_nat k) s"
  using assms
proof (induction n arbitrary: k s)
  case 0
  then show ?case by simp
next
  case (Suc n)
  then have k: "k div 8 < length (bitmap_mem s)" "k < 2 ^ 32" by (auto simp: bitmap_ok_def)
  note words = page_index_words [OF k(2)]
  have "\<not> (ucast (word_of_nat k div 8 :: u64) :: u32) \<ge> kpmm_bitmap_bytes_amout s"
    using k(1) Suc.prems words(1) by (simp add: word_le_nat_alt bitmap_ok_def)
  moreover define m where "m = (bitmap_mem s)[k div 8 := (bitmap_mem s ! (k div 8)) AND NOT (push_bit (k mod 8) 1)]"
  ultimately have set: "kpmm_bitmap_set_value (word_of_nat k) KO_FALSE s = Inr (True, s\<lparr>bitmap_mem := m\<rparr>)"
    unfolding kpmm_bitmap_set_value_def Let_def words using k(1) by auto
  define t where "t = s\<lparr>bitmap_mem := m, kpmm_free_pages_amount := kpmm_free_pages_amount s + 1\<rparr>"
  have st: "pmm_frame s t" by (auto simp: t_def m_def)
  have "bitmap_ok t" "Suc k + n \<le> 8 * length (bitmap_mem t)"
    using Suc.prems by (simp_all add: bitmap_ok_frame [OF st]) (simp add: t_def m_def)
  from Suc.IH [OF this] have "free_range n (word_of_nat k + 1) t = free_mark n (word_of_nat k + 1) t"
    by (simp add: add.commute)
  then have "free_mark (Suc n) (word_of_nat k) s = free_range n (word_of_nat k + 1) t"
    using set by (simp add: t_def)
  moreover have "free_range (Suc n) (word_of_nat k) s = free_range n (word_of_nat k + 1) t"
    unfolding free_range.simps Let_def words using k(1) by (simp only: if_True t_def m_def)
  ultimately show ?case by simp
qed

lemma le_page_iff: "(x + 4095) div 4096 \<le> k \<longleftrightarrow> x \<le> 4096 * (k::nat)"
  by linarith

lemma lt_page_iff: "k < x div 4096 \<longleftrightarrow> 4096 * Suc k \<le> (x::nat)"
  unfolding Suc_le_eq [symmetric] by (simp add: less_eq_div_iff_mult_less_eq mult.commute)

text \<open>The page numbers \<^verbatim>\<open>pmm_free_pages_from_e820\<close> computes for a region \<open>[a, b)\<close>.\<close>

lemma region_page_numbers:
  fixes a b :: u64
  assumes "unat a \<le> 2 ^ 32" "unat b \<le> 2 ^ 32"
  shows "unat (ALIGN_UP a KPMM_PAGE_SIZE div KPMM_PAGE_SIZE) = (unat a + 4095) div 4096"
    and "unat (ALIGN_DOWN b KPMM_PAGE_SIZE div KPMM_PAGE_SIZE) = unat b div 4096"
proof -
  have size: "(KPMM_PAGE_SIZE :: u64) = 2 ^ 12" by (simp add: KPMM_PAGE_SIZE_def)
  have "unat (ALIGN_UP a KPMM_PAGE_SIZE) = (unat a + (2 ^ 12 - 1)) div 2 ^ 12 * 2 ^ 12"
    using assms(1) by (intro unat_ALIGN_UP [OF size]) simp
  then show "unat (ALIGN_UP a KPMM_PAGE_SIZE div KPMM_PAGE_SIZE) = (unat a + 4095) div 4096"
    by (simp add: unat_div_distrib KPMM_PAGE_SIZE_def)
  show "unat (ALIGN_DOWN b KPMM_PAGE_SIZE div KPMM_PAGE_SIZE) = unat b div 4096"
    using unat_ALIGN_DOWN [OF size, of b] by (simp add: unat_div_distrib KPMM_PAGE_SIZE_def)
qed

lemma free_region_correct:
  assumes ok: "bitmap_ok s" and lo: "unat lo \<le> 2 ^ 32"
    and len: "unat (e820_base e) + unat (e820_length e) \<le> 2 ^ 32"
    and fits: "unat (e820_base e) + unat (e820_length e) \<le> 4096 * (8 * length (bitmap_mem s))"
    and disj: "region_pages (unat lo) e \<inter> free_pages s = {}"
  shows "\<exists>s'. free_region lo e s = Inr s' \<and> pmm_frame s s' \<and>
    free_pages s' = free_pages s \<union> region_pages (unat lo) e \<and>
    kpmm_free_pages_amount s' = kpmm_free_pages_amount s + word_of_nat (card (region_pages (unat lo) e))"
proof (cases "e820_type e = KE820_TYPE_FREE")
  case False
  then show ?thesis by (simp add: free_region_def region_pages_def)
next
  case True
  let ?b = "e820_base e + e820_length e"
  let ?a = "if e820_base e < lo then lo else e820_base e"
  have b: "unat ?b = unat (e820_base e) + unat (e820_length e)"
    using len by (simp add: unat_word_ariths)
  have a: "unat ?a = max (unat (e820_base e)) (unat lo)"
    by (simp add: word_less_nat_alt max_def)
  then have "unat ?a \<le> 2 ^ 32" "unat ?b \<le> 2 ^ 32" using lo len b by simp_all
  note nums = region_page_numbers [OF this]
  let ?start = "(unat ?a + 4095) div 4096" and ?stop = "unat ?b div 4096"
  have pages: "region_pages (unat lo) e = {?start..<?stop}"
    unfolding region_pages_def using True b a
    by (auto simp: le_page_iff lt_page_iff simp del: mult_Suc_right)
  show ?thesis
  proof (cases "?b \<le> lo \<or> ?stop \<le> ?start")
    case empty: True
    then have "region_pages (unat lo) e = {}"
    proof
      assume "?b \<le> lo"
      then have "unat ?b \<le> unat lo" by (simp add: word_le_nat_alt)
      then show ?thesis using b by (auto simp: region_pages_def)
    qed (simp add: pages)
    moreover have "free_region lo e s = Inr s"
      using empty True nums b len unfolding free_region_def Let_def by (auto simp: word_le_nat_alt)
    ultimately show ?thesis by simp
  next
    case False
    have "?start + (?stop - ?start) \<le> 8 * length (bitmap_mem s)"
      using False fits b by simp
    note range = ok this
    have "ALIGN_UP ?a KPMM_PAGE_SIZE div KPMM_PAGE_SIZE = word_of_nat ?start"
      by (subst nums(1) [symmetric]) (rule word_of_nat_unat [symmetric])
    then have run: "free_region lo e s = free_mark (?stop - ?start) (word_of_nat ?start) s"
      using False True nums b len free_range_eq [OF range]
      unfolding free_region_def Let_def by (auto simp: word_le_nat_alt)
    have "card {?start..<?stop} = ?stop - ?start" by simp
    then show ?thesis using free_mark_correct [OF range] False unfolding run pages by auto
  qed
qed

lemma region_pages_disjoint:
  assumes "unat (e820_base a) + unat (e820_length a) \<le> unat (e820_base b) \<or>
    unat (e820_base b) + unat (e820_length b) \<le> unat (e820_base a)"
  shows "region_pages lo a \<inter> region_pages lo b = {}"
  using assms by (auto simp: region_pages_def)

lemma free_regions_correct:
  assumes "bitmap_ok s" "unat lo \<le> 2 ^ 32" "e820_ok es"
    and "\<And>e. e \<in> set es \<Longrightarrow> unat (e820_base e) + unat (e820_length e) \<le> 4096 * (8 * length (bitmap_mem s))"
    and "\<And>e. e \<in> set es \<Longrightarrow> region_pages (unat lo) e \<inter> free_pages s = {}"
    and "unat (kpmm_free_pages_amount s) = card (free_pages s)"
  shows "\<exists>s'. free_regions lo es s = Inr s' \<and> pmm_frame s s' \<and>
    free_pages s' = free_pages s \<union> (\<Union>e \<in> set es. region_pages (unat lo) e) \<and>
    unat (kpmm_free_pages_amount s') = card (free_pages s')"
  using assms
proof (induction es arbitrary: s)
  case Nil
  then show ?case by simp
next
  case (Cons e es)
  obtain t where t: "free_region lo e s = Inr t" "pmm_frame s t"
      "free_pages t = free_pages s \<union> region_pages (unat lo) e"
      "kpmm_free_pages_amount t = kpmm_free_pages_amount s + word_of_nat (card (region_pages (unat lo) e))"
    using free_region_correct [OF Cons.prems(1,2), of e] Cons.prems(3,4,5)
    by (auto simp: e820_ok_def)
  have fin: "finite (region_pages (unat lo) e)"
    using finite_free_pages [of t] t(3) by simp
  have "card (free_pages t) \<le> 8 * length (bitmap_mem t)"
    using card_mono [of "{..<8 * length (bitmap_mem t)}" "free_pages t"]
    by (auto simp: free_pages_def page_free_def)
  then have "card (free_pages t) \<le> 2 ^ 20"
    using Cons.prems(1) pmm_frame_fields(4) [OF t(2)] by (simp add: bitmap_ok_def)
  moreover have "card (free_pages t) = card (free_pages s) + card (region_pages (unat lo) e)"
    using t(3) fin Cons.prems(5) [of e] by (simp add: card_Un_disjoint Int_commute)
  ultimately have count: "unat (kpmm_free_pages_amount t) = card (free_pages t)"
    using t(4) Cons.prems(6) by (simp add: unat_word_ariths unat_of_nat)
  have "region_pages (unat lo) e' \<inter> free_pages t = {}" if "e' \<in> set es" for e'
  proof -
    have "region_pages (unat lo) e' \<inter> region_pages (unat lo) e = {}"
    proof (cases "e820_type e = KE820_TYPE_FREE \<and> e820_type e' = KE820_TYPE_FREE")
      case True
      then show ?thesis using Cons.prems(3) that
        by (intro region_pages_disjoint) (auto simp: e820_ok_def)
    qed (auto simp: region_pages_def)
    then show ?thesis using Cons.prems(5) [of e'] that t(3) by auto
  qed
  moreover have "bitmap_ok t" using Cons.prems(1) t(2) bitmap_ok_frame by blast
  ultimately obtain s' where "free_regions lo es t = Inr s'" "pmm_frame t s'"
      "free_pages s' = free_pages t \<union> (\<Union>e \<in> set es. region_pages (unat lo) e)"
      "unat (kpmm_free_pages_amount s') = card (free_pages s')"
    using Cons.IH [of t] Cons.prems(2,3,4) count pmm_frame_fields(4) [OF t(2)]
    by (auto simp: e820_ok_def)
  then show ?case using t pmm_frame_trans [OF t(2)] by auto
qed

lemma e820_max_phys_bounds:
  assumes "list_all (\<lambda>e. unat (e820_base e) + unat (e820_length e) \<le> 2 ^ 32) es" "unat m \<le> 2 ^ 32"
  shows "unat (e820_max_phys es m) \<le> 2 ^ 32 \<and> unat m \<le> unat (e820_max_phys es m) \<and>
    (\<forall>e \<in> set es. unat (e820_base e) + unat (e820_length e) \<le> unat (e820_max_phys es m))"
  using assms
proof (induction es arbitrary: m)
  case Nil
  then show ?case by simp
next
  case (Cons e es)
  let ?b = "e820_base e + e820_length e"
  have b: "unat ?b = unat (e820_base e) + unat (e820_length e)"
    using Cons.prems(1) by (simp add: unat_word_ariths)
  then show ?case
    using Cons.IH [of "if m < ?b then ?b else m"] Cons.prems
    by (fastforce simp: word_less_nat_alt Let_def)
qed

lemma pmm_min_free_phys_bounds:
  assumes "unat kend + 4095 < 2 ^ 32"
  shows "2 ^ 20 \<le> unat (pmm_min_free_phys kend)" and "unat kend \<le> unat (pmm_min_free_phys kend)"
    and "unat (pmm_min_free_phys kend) \<le> 2 ^ 32"
proof -
  have "unat (ALIGN_UP kend KPMM_PAGE_SIZE) = (unat kend + (2 ^ 12 - 1)) div 2 ^ 12 * 2 ^ 12"
    using assms by (intro unat_ALIGN_UP) (simp_all add: KPMM_PAGE_SIZE_def)
  then have "unat kend \<le> unat (ALIGN_UP kend KPMM_PAGE_SIZE)" by simp
  then show "2 ^ 20 \<le> unat (pmm_min_free_phys kend)" and "unat kend \<le> unat (pmm_min_free_phys kend)"
    and "unat (pmm_min_free_phys kend) \<le> 2 ^ 32"
    using unat_u32_less [of "ALIGN_UP kend KPMM_PAGE_SIZE"]
    by (auto simp: pmm_min_free_phys_def KPMM_MIN_BASE_def Let_def word_less_nat_alt unat_u32_to_u64)
qed

text \<open>The size of the bitmap \<^verbatim>\<open>kpmm_init\<close> asks the early allocator for.\<close>

lemma bitmap_size:
  fixes max_phys :: u64
  assumes "unat max_phys \<le> 2 ^ 32"
  defines "pages \<equiv> ucast (ALIGN_UP max_phys KPMM_PAGE_SIZE div KPMM_PAGE_SIZE) :: u32"
  shows "unat ((pages + 7) div 8) = ((unat max_phys + 4095) div 4096 + 7) div 8"
proof -
  have "unat (ALIGN_UP max_phys KPMM_PAGE_SIZE div KPMM_PAGE_SIZE) = (unat max_phys + 4095) div 4096"
    using region_page_numbers(1) [OF assms(1) assms(1)] .
  moreover have "(unat max_phys + 4095) div 4096 \<le> 2 ^ 20" using assms(1) by simp
  ultimately have "unat pages = (unat max_phys + 4095) div 4096" "unat pages \<le> 2 ^ 20"
    by (simp_all add: pages_def unsigned_ucast_eq take_bit_nat_eq_self)
  then show ?thesis by (simp add: unat_div_distrib unat_word_ariths)
qed

lemma bit_FF: "j < 8 \<Longrightarrow> bit (0xFF :: u8) j"
  by (auto simp: less_Suc_eq numeral_eq_Suc)

lemma free_pages_all_used:
  assumes "bitmap_mem s = replicate n 0xFF"
  shows "free_pages s = {}"
  using assms bit_FF by (auto simp: free_pages_def page_free_def)

lemma kearly_malloc_succeeds:
  assumes "early_inv s" "kernel_early_heap_available s" "0 < unat n"
    and "unat n + 8 \<le> unat (kernel_early_heap_end s) - unat (kernel_early_heap_start s)"
  shows "kearly_malloc n s = Inr (kernel_early_heap_start s,
    s\<lparr>kernel_early_heap_start := kernel_early_heap_start s + KEARLY_ALIGN_UP n\<rparr>)"
proof -
  have le: "kernel_early_heap_start s \<le> kernel_early_heap_end s"
    using assms(1) by (simp add: early_inv_def)
  have "unat n + 7 < 2 ^ 32" using assms(4) unat_u32_less [of "kernel_early_heap_end s"] by simp
  then have a: "unat (KEARLY_ALIGN_UP n) = (unat n + 7) div 8 * 8"
    by (simp add: unat_KEARLY_ALIGN_UP)
  then have "KEARLY_ALIGN_UP n \<noteq> 0" using assms(3) by (auto simp: unat_eq_0 [symmetric])
  moreover have "(unat n + 7) div 8 * 8 \<le> unat n + 7" by simp
  then have "\<not> KEARLY_ALIGN_UP n > kernel_early_heap_end s - kernel_early_heap_start s"
    using assms(4) le a by (simp add: word_less_nat_alt word_le_nat_alt unat_sub)
  moreover have "kernel_early_heap_end s \<noteq> 0"
    using le assms(1) by (auto simp: early_inv_def)
  ultimately show ?thesis using assms(1,2) by (simp add: kearly_malloc_def Let_def early_inv_def)
qed

lemma kpmm_init_establishes:
  assumes early: "early_inv s" "kernel_early_heap_available s"
    and map: "e820_ok es" "0 < unat (e820_max_phys es 0)" and kend: "unat kend + 4095 < 2 ^ 32"
    and room: "2 ^ 17 + 8 \<le> unat (kernel_early_heap_end s) - unat (kernel_early_heap_start s)"
  shows "\<exists>s'. kpmm_init kend es s = Inr (True, s') \<and> pmm_inv s' \<and>
    free_pages s' = (\<Union>e \<in> set es. region_pages (unat (pmm_min_free_phys kend)) e)"
proof -
  let ?max = "e820_max_phys es 0" and ?lo = "pmm_min_free_phys kend"
  define pages where "pages = (ucast (ALIGN_UP ?max KPMM_PAGE_SIZE div KPMM_PAGE_SIZE) :: u32)"
  define bytes where "bytes = (pages + 7) div 8"
  have all: "list_all (\<lambda>e. unat (e820_base e) + unat (e820_length e) \<le> 2 ^ 32) es"
    using map(1) by (simp add: e820_ok_def)
  note maxb = e820_max_phys_bounds [OF all, of 0, simplified]
  then have b: "unat bytes = ((unat ?max + 4095) div 4096 + 7) div 8"
    using bitmap_size [of ?max] by (simp add: bytes_def pages_def)
  have b17: "unat bytes \<le> 2 ^ 17" "0 < unat bytes" "unat ?max \<le> 4096 * (8 * unat bytes)"
    using maxb map(2) unfolding b by auto
  define p where "p = kernel_early_heap_start s"
  define s1 where "s1 = s\<lparr>kpmm_pages_amount := pages, kpmm_bitmap_bytes_amout := bytes\<rparr>"
  define s2 where "s2 = s1\<lparr>kernel_early_heap_start := p + KEARLY_ALIGN_UP bytes, kpmm_bitmap := p\<rparr>"
  define s3 where "s3 = s2\<lparr>bitmap_mem := replicate (unat bytes) 0xFF, kpmm_free_pages_amount := 0\<rparr>"
  have al: "kearly_malloc bytes s1 = Inr (p, s1\<lparr>kernel_early_heap_start := p + KEARLY_ALIGN_UP bytes\<rparr>)"
    using kearly_malloc_succeeds [of s1 bytes] early room b17
    by (simp add: s1_def p_def early_inv_def)
  have none: "free_pages s3 = {}"
    by (rule free_pages_all_used) (simp add: s3_def)
  have fits: "unat (e820_base e) + unat (e820_length e) \<le> 4096 * (8 * length (bitmap_mem s3))"
    if "e \<in> set es" for e using maxb b17(3) that by (fastforce simp: s3_def)
  have "\<exists>s'. free_regions ?lo es s3 = Inr s' \<and> pmm_frame s3 s' \<and>
      free_pages s' = free_pages s3 \<union> (\<Union>e \<in> set es. region_pages (unat ?lo) e) \<and>
      unat (kpmm_free_pages_amount s') = card (free_pages s')"
    using pmm_min_free_phys_bounds(3) [OF kend] map(1) fits none b17(1)
    by (intro free_regions_correct) (auto simp: bitmap_ok_def s3_def s2_def s1_def)
  then obtain s' where s': "free_regions ?lo es s3 = Inr s'" "pmm_frame s3 s'"
    "free_pages s' = (\<Union>e \<in> set es. region_pages (unat ?lo) e)"
    "unat (kpmm_free_pages_amount s') = card (free_pages s')" using none by auto
  have p0: "p \<noteq> 0" using early(1) by (simp add: p_def early_inv_def)
  have "0 \<notin> free_pages s'"
    using s'(3) pmm_min_free_phys_bounds(1) [OF kend] by (auto simp: region_pages_def)
  then have "pmm_inv s'"
    using s'(4) p0 b17(1) pmm_frame_fields [OF s'(2)] by (simp add: pmm_inv_def s3_def s2_def s1_def)
  moreover have "kpmm_init kend es s = Inr (True, s')"
    using al s'(1) p0 unfolding kpmm_init_def Let_def
    by (simp add: pages_def [symmetric] bytes_def [symmetric] s1_def [symmetric] s2_def [symmetric]
        pmm_free_pages_from_e820_def s3_def [symmetric])
  ultimately show ?thesis using s'(3) by blast
qed

section \<open>Properties\<close>

lemma bitmap_ext:
  assumes "length m = length m'" "\<And>k. page_free m k \<longleftrightarrow> page_free m' k"
  shows "m = m'"
proof (rule nth_equalityI [OF assms(1)])
  fix i
  assume i: "i < length m"
  show "m ! i = m' ! i"
  proof (rule bit_word_eqI)
    fix j
    assume "j < LENGTH(8)"
    then show "bit (m ! i) j \<longleftrightarrow> bit (m' ! i) j"
      using assms(2) [of "i * 8 + j"] i assms(1) by (simp add: page_free_def)
  qed
qed

lemma card_free_pages:
  "card (free_pages s) = length (filter (page_free (bitmap_mem s)) [0..<8 * length (bitmap_mem s)])"
proof -
  have "free_pages s = set (filter (page_free (bitmap_mem s)) [0..<8 * length (bitmap_mem s)])"
    by (auto simp: free_pages_def page_free_def)
  then show ?thesis by (simp only: distinct_card distinct_filter distinct_upt)
qed

text \<open>
  C11. On a memory map within 4 GiB whose free regions do not overlap, with room for the bitmap
  in the early heap, \<^verbatim>\<open>kpmm_init\<close> succeeds, and a page is then free exactly when it lies
  wholly in a region of type free, above the end of the kernel image and above 1 MiB; the
  counter holds the number of free pages.
\<close>

theorem kpmm_init_correct:
  assumes "early_inv s" "kernel_early_heap_available s" "e820_ok es" "0 < unat (e820_max_phys es 0)"
    and "unat kend + 4095 < 2 ^ 32"
    and "2 ^ 17 + 8 \<le> unat (kernel_early_heap_end s) - unat (kernel_early_heap_start s)"
  shows "\<exists>s'. kpmm_init kend es s = Inr (True, s') \<and> pmm_inv s' \<and>
    (\<forall>k. k \<in> free_pages s' \<longleftrightarrow>
      (\<exists>e \<in> set es. k \<in> region_pages (unat (pmm_min_free_phys kend)) e)) \<and>
    (\<forall>k \<in> free_pages s'. unat kend \<le> 4096 * k \<and> 2 ^ 20 \<le> 4096 * k)"
proof -
  obtain s' where "kpmm_init kend es s = Inr (True, s')" "pmm_inv s'"
    and free: "free_pages s' = (\<Union>e \<in> set es. region_pages (unat (pmm_min_free_phys kend)) e)"
    using kpmm_init_establishes [OF assms] by blast
  moreover have "unat (pmm_min_free_phys kend) \<le> 4096 * k" if "k \<in> free_pages s'" for k
    using that unfolding free by (auto simp: region_pages_def split: if_splits)
  ultimately show ?thesis
    using pmm_min_free_phys_bounds [OF assms(5)] by (fastforce dest: order_trans)
qed

definition pmm_boot :: pmm_state where
  "pmm_boot = \<lparr>kernel_early_heap_start = 0x120004, kernel_early_heap_end = 0x160004,
     kernel_early_heap_available = True, kpmm_bitmap = 0, bitmap_mem = [],
     kpmm_bitmap_bytes_amout = 0, kpmm_pages_amount = 0, kpmm_free_pages_amount = 0\<rparr>"

definition e820_example :: "e820_entry list" where
  "e820_example =
    [\<lparr>e820_base = 0, e820_length = 0x9FC00, e820_type = 1, e820_ext = 0\<rparr>,
     \<lparr>e820_base = 0x100000, e820_length = 0x70000, e820_type = 1, e820_ext = 0\<rparr>,
     \<lparr>e820_base = 0xFFFC0000, e820_length = 0x40000, e820_type = 2, e820_ext = 0\<rparr>]"

theorem kpmm_init_correct_witness:
  "\<exists>s'. kpmm_init 0x160004 e820_example pmm_boot = Inr (True, s') \<and> pmm_inv s' \<and>
     0x161 \<in> free_pages s' \<and> 0x160 \<notin> free_pages s' \<and> 1 \<notin> free_pages s'"
proof -
  have lo: "unat (pmm_min_free_phys 0x160004) = 0x161000"
    by (simp add: pmm_min_free_phys_def ALIGN_UP_def KPMM_PAGE_SIZE_def KPMM_MIN_BASE_def)
  have "early_inv pmm_boot" "kernel_early_heap_available pmm_boot" "e820_ok e820_example"
    "0 < unat (e820_max_phys e820_example 0)" "unat (0x160004::u32) + 4095 < 2 ^ 32"
    "2 ^ 17 + 8 \<le> unat (kernel_early_heap_end pmm_boot) - unat (kernel_early_heap_start pmm_boot)"
    by (simp_all add: early_inv_def pmm_boot_def e820_ok_def e820_example_def KE820_TYPE_FREE_def)
  from kpmm_init_correct [OF this] show ?thesis
    unfolding lo by (auto simp: e820_example_def region_pages_def KE820_TYPE_FREE_def)
qed

text \<open>
  C12. \<^verbatim>\<open>kpmm_alloc_pages\<close> is a first-fit allocator on the set of free pages: it returns the page
  address of the lowest run of \<open>n\<close> free pages and removes exactly that run; it returns
  \<^verbatim>\<open>NULL\<close> only when no page is free at all, and panics exactly when pages are free but no run
  of \<open>n\<close> is. The bitmap and the counter stay consistent.
\<close>

theorem kpmm_alloc_pages_first_fit:
  assumes "pmm_inv s" "0 < n"
  shows "case kpmm_alloc_pages n s of
      Inl e \<Rightarrow> e = Panic \<and> free_pages s \<noteq> {} \<and> (\<forall>q. \<not> {q..<q + unat n} \<subseteq> free_pages s)
    | Inr (p, s') \<Rightarrow>
        if p = 0 then s' = s \<and> free_pages s = {}
        else pmm_inv s' \<and> unat p mod 4096 = 0 \<and> block_pages p n \<subseteq> free_pages s \<and>
          free_pages s' = free_pages s - block_pages p n \<and>
          (\<forall>q < unat p div 4096. \<not> {q..<q + unat n} \<subseteq> free_pages s)"
proof (cases "\<exists>q. free_run (bitmap_mem s) (unat n) q")
  case True
  then obtain q s' where q: "kpmm_alloc_pages n s = Inr (word_of_nat (4096 * q), s')" "q < 2 ^ 20" "0 < q"
      "first_fit (bitmap_mem s) (unat n) q" "pmm_inv s'"
      "free_pages s' = free_pages s - {q..<q + unat n}"
    using alloc_pages_found [OF assms] by blast
  define p :: u32 where "p = word_of_nat (4096 * q)"
  have p: "unat p = 4096 * q" using q(2) by (simp add: p_def unat_word_ariths unat_of_nat)
  then have "p \<noteq> 0" using q(3) by auto
  then show ?thesis
    unfolding q(1) p_def [symmetric]
    using q p by (simp add: block_pages_def first_fit_def free_run_free_pages)
next
  case False
  then show ?thesis
    using alloc_pages_none [OF assms] by (simp add: free_run_free_pages)
qed

definition pmm_example :: pmm_state where
  "pmm_example = pmm_boot\<lparr>kpmm_bitmap := 0x120004, bitmap_mem := [0x0F, 0xC1],
     kpmm_bitmap_bytes_amout := 2, kpmm_pages_amount := 16, kpmm_free_pages_amount := 9\<rparr>"

lemma pmm_example_inv: "pmm_inv pmm_example"
proof -
  have "card (free_pages pmm_example) = 9"
    unfolding card_free_pages by (simp add: pmm_example_def page_free_def upt_rec)
  then show ?thesis
    by (simp add: pmm_inv_def pmm_example_def free_pages_def page_free_def)
qed

lemma pmm_example_alloc:
  "kpmm_alloc_pages 5 pmm_example =
     Inr (0x9000, pmm_example\<lparr>bitmap_mem := [0x0F, 0xFF], kpmm_free_pages_amount := 4\<rparr>)"
  by code_simp

theorem kpmm_alloc_pages_first_fit_witness:
  "\<exists>s'. kpmm_alloc_pages 5 pmm_example = Inr (0x9000, s') \<and> pmm_inv s' \<and>
     free_pages s' = free_pages pmm_example - {9..<14} \<and>
     (\<forall>q < 9. \<not> {q..<q + 5} \<subseteq> free_pages pmm_example)"
  using kpmm_alloc_pages_first_fit [OF pmm_example_inv, of 5]
  by (simp add: pmm_example_alloc block_pages_def)

text \<open>
  Giving back the block \<^verbatim>\<open>kpmm_alloc_pages\<close> returned, before any other operation,
  restores the allocator's state exactly, bitmap bytes and counter included.
\<close>

theorem kpmm_alloc_free_roundtrip:
  assumes "pmm_inv s" "kpmm_alloc_pages n s = Inr (p, s')" "p \<noteq> 0"
  shows "kpmm_free_pages p n s' = Inr (True, s)"
proof -
  note al = pmm_alloc_block(2) [OF assms]
  then have "block_pages p n \<subseteq> managed_pages s'"
    using free_pages_managed [OF assms(1)] managed_frame by blast
  moreover have "block_pages p n \<inter> free_pages s' = {}" using al by blast
  ultimately obtain t where t: "kpmm_free_pages p n s' = Inr (True, t)" "pmm_frame s' t" "pmm_inv t"
      "free_pages t = free_pages s' \<union> block_pages p n"
    using free_pages_returned [of s' n p] al by (auto simp: word_neq_0_conv)
  then have frame: "pmm_frame s t" and free: "free_pages t = free_pages s"
    using al pmm_frame_trans by blast+
  have "bitmap_mem t = bitmap_mem s"
    using free pmm_frame_fields(4) [OF frame] by (intro bitmap_ext) (auto simp: free_pages_def)
  moreover have "kpmm_free_pages_amount t = kpmm_free_pages_amount s"
    using t(3) assms(1) free by (simp add: pmm_inv_def word_unat_eq_iff)
  ultimately have "t = s" using frame by (auto simp: pmm_frame_def)
  then show ?thesis using t(1) by simp
qed

theorem kpmm_alloc_free_roundtrip_witness:
  "kpmm_free_pages 0x9000 5
     (pmm_example\<lparr>bitmap_mem := [0x0F, 0xFF], kpmm_free_pages_amount := 4\<rparr>) = Inr (True, pmm_example)"
  using kpmm_alloc_free_roundtrip [OF pmm_example_inv pmm_example_alloc] by simp

text \<open>
  C3. Whatever sequence of blocks a client takes and gives back, in any order, the blocks it
  holds never overlap, no held page is free, and every page that was free at the start is
  either free or held: pages are neither lost nor handed out twice.
\<close>

theorem pmm_pages_conserved:
  assumes "pmm_inv s" "run_pages kpmm_alloc_pages kpmm_free_pages ops ([], s) = Inr (held, s')"
  shows "pmm_inv s' \<and> held_disjoint held \<and> held_pages held \<inter> free_pages s' = {} \<and>
    held_pages held \<union> free_pages s' = free_pages s"
proof -
  have "frames.client_ok ([], s) (free_pages s)"
    using assms(1) free_pages_managed
    by (simp add: frames.client_ok_def held_disjoint_def held_pages_def)
  from frames.run_keeps [OF this assms(2)] show ?thesis by (simp add: frames.client_ok_def)
qed

theorem pmm_pages_conserved_witness:
  "\<exists>s'. run_pages kpmm_alloc_pages kpmm_free_pages [Get 2, Get 5, Give 1, Get 3] ([], pmm_example) =
      Inr ([(0x4000, 3), (0x9000, 5)], s') \<and>
     held_pages [(0x4000, 3), (0x9000, 5)] \<union> free_pages s' = free_pages pmm_example"
proof -
  have run: "run_pages kpmm_alloc_pages kpmm_free_pages [Get 2, Get 5, Give 1, Get 3] ([], pmm_example) =
      Inr ([(0x4000, 3), (0x9000, 5)],
        pmm_example\<lparr>bitmap_mem := [0x7F, 0xFF], kpmm_free_pages_amount := 1\<rparr>)"
    by code_simp
  from pmm_pages_conserved [OF pmm_example_inv run] run show ?thesis by blast
qed

text \<open>
  \<^verbatim>\<open>kpmm_free_pages\<close> does not notice a double free: giving back a block of pages that are
  already free succeeds, changes no bit, and still adds its length to the counter, so that the
  counter exceeds the number of free pages.
\<close>

theorem kpmm_double_free_overcounts:
  assumes "pmm_inv s" "0 < n" "block_pages p n \<subseteq> free_pages s"
  shows "\<exists>s'. kpmm_free_pages p n s = Inr (True, s') \<and> free_pages s' = free_pages s \<and>
    unat (kpmm_free_pages_amount s') = card (free_pages s') + unat n \<and> \<not> pmm_inv s'"
proof -
  let ?k = "unat p div 4096"
  have n: "0 < unat n" using assms(2) by (simp add: word_less_nat_alt)
  then have "?k + (unat n - 1) \<in> block_pages p n" by (simp add: block_pages_def)
  then have "?k + (unat n - 1) < 8 * length (bitmap_mem s)"
    using assms(3) by (auto simp: free_pages_def page_free_def)
  then have bound: "?k + unat n \<le> 8 * length (bitmap_mem s)" using n by linarith
  obtain s' where s': "free_mark (unat n) (word_of_nat ?k) s = Inr s'"
    "free_pages s' = free_pages s \<union> {?k..<?k + unat n}"
    "kpmm_free_pages_amount s' = kpmm_free_pages_amount s + word_of_nat (unat n)"
    using free_mark_correct [OF pmm_inv_bitmap_ok [OF assms(1)] bound] by blast
  have free: "free_pages s' = free_pages s"
    using s'(2) assms(3) by (auto simp: block_pages_def)
  have "card (free_pages s) \<le> 8 * length (bitmap_mem s)"
    unfolding card_free_pages using length_filter_le [of _ "[0..<8 * length (bitmap_mem s)]"] by simp
  then have "card (free_pages s) + unat n < 2 ^ 32"
    using bound assms(1) by (simp add: pmm_inv_def)
  then have count: "unat (kpmm_free_pages_amount s') = card (free_pages s') + unat n"
    using s'(3) assms(1) free by (simp add: pmm_inv_def unat_word_ariths)
  have "unat ((ucast p :: u64) div 4096) = ?k" by (simp add: unat_div_distrib unat_u32_to_u64)
  then have "(ucast p :: u64) div 4096 = word_of_nat ?k" by (metis word_of_nat_unat)
  then have "kpmm_free_pages p n s = Inr (True, s')"
    using assms(2) s'(1) by (simp add: kpmm_free_pages_def KPMM_PAGE_SIZE_def)
  then show ?thesis using free count n by (auto simp: pmm_inv_def)
qed

theorem kpmm_double_free_overcounts_witness:
  "\<exists>s'. kpmm_free_pages 0xA000 2 pmm_example = Inr (True, s') \<and> free_pages s' = free_pages pmm_example \<and>
     \<not> pmm_inv s'"
proof -
  have "block_pages 0xA000 2 = {10, 11}" by (simp add: block_pages_def) auto
  moreover have "10 \<in> free_pages pmm_example" "11 \<in> free_pages pmm_example"
    by (simp_all add: free_pages_def page_free_def pmm_example_def)
  ultimately have "block_pages 0xA000 2 \<subseteq> free_pages pmm_example" by simp
  from kpmm_double_free_overcounts [OF pmm_example_inv _ this] show ?thesis by auto
qed

end
