(* ===== verification/Vmm.thy ===== *)
theory Vmm
  imports Pmm
begin

text \<open>
  The virtual memory manager (\<^verbatim>\<open>src/kernel/memory/vmm\<close>, \<^verbatim>\<open>include/kernel/memory/mmu.h\<close>):
  two-level x86 page tables held in physical memory, walked by the MMU model, and reached by
  the kernel through the recursive entry 1023 of the page directory. Every access the code makes
  after paging is on goes through \<open>mmu_translate\<close>, so an access to an unmapped page is a
  \<open>PageFault\<close>. The TLB is not modelled (each change of a present entry is followed by
  \<^verbatim>\<open>invlpg\<close> or a reload of CR3), nor are the accessed and dirty bits, which no code reads.
\<close>

section \<open>State\<close>

text \<open>
  Physical memory is an array of 4 KiB frames of 1024 words; a physical address names the frame
  by its bits 12-31 and the word by its bits 2-11.
\<close>

record vmm_state = pmm_state +
  pmem :: "20 word \<Rightarrow> 10 word \<Rightarrow> u32"
  cr3 :: u32
  paging :: bool
  kvmm_page_directory :: u32

definition pfn :: "u32 \<Rightarrow> 20 word" where
  "pfn a = ucast (drop_bit 12 a)"

definition pidx :: "u32 \<Rightarrow> 10 word" where
  "pidx a = ucast (drop_bit 2 a)"

definition KVMM_GET_PDE_INDEX :: "u32 \<Rightarrow> u32" where
  "KVMM_GET_PDE_INDEX vaddr = drop_bit 22 vaddr AND 0x3FF"

definition KVMM_GET_PTE_INDEX :: "u32 \<Rightarrow> u32" where
  "KVMM_GET_PTE_INDEX vaddr = drop_bit 12 vaddr AND 0x3FF"

definition KVMM_PD_INDEX :: u32 where
  "KVMM_PD_INDEX = KERNEL_VIRTUAL_BASE div (1024 * 4096)"

definition KVMM_GET_PD :: u32 where
  "KVMM_GET_PD = 0xFFFFF000"

definition KVMM_GET_PT_VIA_PDE :: "u32 \<Rightarrow> u32" where
  "KVMM_GET_PT_VIA_PDE pd_index = 0xFFC00000 + pd_index * 4096"

text \<open>The address of entry \<open>i\<close> of a page table or directory at address \<open>t\<close>.\<close>

definition entry_addr :: "u32 \<Rightarrow> u32 \<Rightarrow> u32" where
  "entry_addr t i = t + 4 * i"

section \<open>Entries\<close>

text \<open>The bit-fields of \<^verbatim>\<open>page_table_entry_t\<close> and \<^verbatim>\<open>page_directory_entry_t\<close>.\<close>

definition e_present :: "u32 \<Rightarrow> bool" where
  "e_present e = bit e 0"

definition set_present :: "bool \<Rightarrow> u32 \<Rightarrow> u32" where
  "set_present b e = (if b then set_bit 0 e else unset_bit 0 e)"

definition set_rw :: "bool \<Rightarrow> u32 \<Rightarrow> u32" where
  "set_rw b e = (if b then set_bit 1 e else unset_bit 1 e)"

definition set_user :: "bool \<Rightarrow> u32 \<Rightarrow> u32" where
  "set_user b e = (if b then set_bit 2 e else unset_bit 2 e)"

definition set_frame :: "u32 \<Rightarrow> u32 \<Rightarrow> u32" where
  "set_frame f e = (e AND 0xFFF) OR push_bit 12 f"

definition KVMM_FLAG_PRESENT :: u32 where "KVMM_FLAG_PRESENT = 1"

definition KVMM_FLAG_RW :: u32 where "KVMM_FLAG_RW = 2"

definition KVMM_FLAG_USER :: u32 where "KVMM_FLAG_USER = 4"

text \<open>The four assignments \<^verbatim>\<open>kvmm_map_page\<close> makes to an entry.\<close>

definition fill_entry :: "u32 \<Rightarrow> u32 \<Rightarrow> u32 \<Rightarrow> u32" where
  "fill_entry flags addr e =
    set_frame (drop_bit 12 addr)
      (set_user (flags AND KVMM_FLAG_USER \<noteq> 0)
        (set_rw (flags AND KVMM_FLAG_RW \<noteq> 0)
          (set_present (flags AND KVMM_FLAG_PRESENT \<noteq> 0) e)))"

section \<open>The MMU\<close>

definition pde_of :: "'z vmm_state_scheme \<Rightarrow> u32 \<Rightarrow> u32" where
  "pde_of s v = pmem s (pfn (cr3 s)) (ucast (drop_bit 22 v))"

definition pte_of :: "'z vmm_state_scheme \<Rightarrow> u32 \<Rightarrow> u32" where
  "pte_of s v = pmem s (pfn (pde_of s v)) (ucast (drop_bit 12 v))"

text \<open>The address the MMU forms from an entry's frame and an address's page offset.\<close>

definition join_addr :: "u32 \<Rightarrow> u32 \<Rightarrow> u32" where
  "join_addr e v = (e AND NOT 0xFFF) OR (v AND 0xFFF)"

definition mmu_translate :: "'z vmm_state_scheme \<Rightarrow> u32 \<Rightarrow> u32 option" where
  "mmu_translate s v =
    (if \<not> paging s then Some v
     else if \<not> e_present (pde_of s v) then None
     else if \<not> e_present (pte_of s v) then None
     else Some (join_addr (pte_of s v) v))"

definition vread :: "u32 \<Rightarrow> 'z vmm_state_scheme \<Rightarrow> u32 kres" where
  "vread v s = bindE (from_option PageFault (mmu_translate s v)) (\<lambda>p.
     Inr (pmem s (pfn p) (pidx p)))"

definition vwrite :: "u32 \<Rightarrow> u32 \<Rightarrow> 'z vmm_state_scheme \<Rightarrow> 'z vmm_state_scheme kres" where
  "vwrite v x s = bindE (from_option PageFault (mmu_translate s v)) (\<lambda>p.
     Inr (s\<lparr>pmem := (pmem s)(pfn p := (pmem s (pfn p))(pidx p := x))\<rparr>))"

text \<open>\<^verbatim>\<open>kmemset(v, 0, 4 * n)\<close> on word-aligned memory.\<close>

fun vzero :: "nat \<Rightarrow> u32 \<Rightarrow> 'z vmm_state_scheme \<Rightarrow> 'z vmm_state_scheme kres" where
  "vzero 0 v s = Inr s"
| "vzero (Suc n) v s = bindE (vwrite v 0 s) (vzero n (v + 4))"

definition kmmu_load_cr3 :: "u32 \<Rightarrow> 'z vmm_state_scheme \<Rightarrow> 'z vmm_state_scheme" where
  "kmmu_load_cr3 paddr s = s\<lparr>cr3 := paddr\<rparr>"

definition kmmu_enable_paging :: "'z vmm_state_scheme \<Rightarrow> 'z vmm_state_scheme" where
  "kmmu_enable_paging s = s\<lparr>paging := True\<rparr>"

section \<open>Initialisation\<close>

definition alloc_page_table :: "'z vmm_state_scheme \<Rightarrow> (u32 \<times> 'z vmm_state_scheme) kres" where
  "alloc_page_table s =
    bindE (kearly_malloc_aligned 4096 4096 s) (\<lambda>(pt, s).
    if pt = 0 then Inr (0, s)
    else bindE (vzero 1024 pt s) (\<lambda>s. Inr (pt, s)))"

text \<open>One round of the loop of \<^verbatim>\<open>setup_page_table_entries\<close>, then the loop.\<close>

definition setup_page_table_entry ::
    "u32 \<Rightarrow> nat \<Rightarrow> 'z vmm_state_scheme \<Rightarrow> 'z vmm_state_scheme kres" where
  "setup_page_table_entry pt i s =
    (let phys_addr = word_of_nat i * 4096; a = entry_addr pt (word_of_nat i) in
     bindE (vread a s) (\<lambda>e.
     vwrite a (set_frame (drop_bit 12 phys_addr) (set_user False (set_rw True (set_present True e)))) s))"

fun setup_entries_from :: "nat \<Rightarrow> nat \<Rightarrow> u32 \<Rightarrow> 'z vmm_state_scheme \<Rightarrow> 'z vmm_state_scheme kres" where
  "setup_entries_from 0 i pt s = Inr s"
| "setup_entries_from (Suc n) i pt s =
    bindE (setup_page_table_entry pt i s) (setup_entries_from n (Suc i) pt)"

definition setup_page_table_entries ::
    "u32 \<Rightarrow> 'z vmm_state_scheme \<Rightarrow> 'z vmm_state_scheme kres" where
  "setup_page_table_entries pt s = setup_entries_from 1024 0 pt s"

definition setup_page_directory_entry ::
    "u32 \<Rightarrow> u32 \<Rightarrow> 'z vmm_state_scheme \<Rightarrow> 'z vmm_state_scheme kres" where
  "setup_page_directory_entry entry pt s =
    bindE (vread entry s) (\<lambda>e.
    vwrite entry (set_frame (drop_bit 12 pt) (set_user False (set_rw True (set_present True e)))) s)"

definition setup_identity_mapping ::
    "u32 \<Rightarrow> 'z vmm_state_scheme \<Rightarrow> (bool \<times> 'z vmm_state_scheme) kres" where
  "setup_identity_mapping pd s =
    bindE (alloc_page_table s) (\<lambda>(identity_pt, s).
    if identity_pt = 0 then Inl Panic
    else
      bindE (setup_page_table_entries identity_pt s) (\<lambda>s.
      bindE (setup_page_directory_entry (entry_addr pd 0) identity_pt s) (\<lambda>s.
      Inr (True, s))))"

definition setup_higher_half_mapping ::
    "u32 \<Rightarrow> 'z vmm_state_scheme \<Rightarrow> (bool \<times> 'z vmm_state_scheme) kres" where
  "setup_higher_half_mapping pd s =
    bindE (alloc_page_table s) (\<lambda>(higher_half_pt, s).
    if higher_half_pt = 0 then Inl Panic
    else
      bindE (setup_page_table_entries higher_half_pt s) (\<lambda>s.
      bindE (setup_page_directory_entry (entry_addr pd KVMM_PD_INDEX) higher_half_pt s) (\<lambda>s.
      Inr (True, s))))"

definition setup_recursive_mapping ::
    "u32 \<Rightarrow> 'z vmm_state_scheme \<Rightarrow> (bool \<times> 'z vmm_state_scheme) kres" where
  "setup_recursive_mapping pd s =
    (let a = entry_addr pd 1023 in
     bindE (vread a s) (\<lambda>e.
     bindE (vwrite a (set_frame (drop_bit 12 pd) (set_user False (set_rw True (set_present True e)))) s)
       (\<lambda>s. Inr (True, s))))"

definition kvmm_init :: "'z vmm_state_scheme \<Rightarrow> (bool \<times> 'z vmm_state_scheme) kres" where
  "kvmm_init s =
    bindE (kearly_malloc_aligned 4096 4096 s) (\<lambda>(pd, s).
    let s = s\<lparr>kvmm_page_directory := pd\<rparr> in
    if pd = 0 then Inl Panic
    else
      bindE (vzero 1024 pd s) (\<lambda>s.
      bindE (setup_identity_mapping pd s) (\<lambda>(ok, s).
      if \<not> ok then Inr (False, s)
      else
        bindE (setup_higher_half_mapping pd s) (\<lambda>(ok, s).
        if \<not> ok then Inr (False, s)
        else
          bindE (setup_recursive_mapping pd s) (\<lambda>(_, s).
          Inr (True, kmmu_enable_paging (kmmu_load_cr3 pd s)))))))"

definition kvmm_disable_identity_mapping ::
    "'z vmm_state_scheme \<Rightarrow> (bool \<times> 'z vmm_state_scheme) kres" where
  "kvmm_disable_identity_mapping s =
    (let pd = 0xFFFFF000; pd_phys_temp = kvmm_page_directory s;
         s = s\<lparr>kpmm_bitmap := PHYS_TO_VIRT (kpmm_bitmap s),
               kernel_early_heap_start := PHYS_TO_VIRT (kernel_early_heap_start s),
               kernel_early_heap_end := PHYS_TO_VIRT (kernel_early_heap_end s),
               kvmm_page_directory := PHYS_TO_VIRT (kvmm_page_directory s)\<rparr>
     in bindE (vread (entry_addr pd 0) s) (\<lambda>e.
        bindE (vwrite (entry_addr pd 0) (set_present False e) s) (\<lambda>s.
        Inr (True, kmmu_load_cr3 pd_phys_temp s))))"

section \<open>Mapping\<close>

text \<open>The first half of \<^verbatim>\<open>kvmm_map_page\<close>: the page table is created if it is not there.\<close>

definition map_page_table ::
    "u32 \<Rightarrow> u32 \<Rightarrow> 'z vmm_state_scheme \<Rightarrow> (bool \<times> 'z vmm_state_scheme) kres" where
  "map_page_table pde_index flags s =
    (let pde_a = entry_addr KVMM_GET_PD pde_index in
     bindE (vread pde_a s) (\<lambda>pde.
     if \<not> e_present pde then
       bindE (kpmm_alloc_pages 1 s) (\<lambda>(new_pt_phys, s).
       if new_pt_phys = 0 then Inr (False, s)
       else
         bindE (vzero 1024 (PHYS_TO_VIRT new_pt_phys) s) (\<lambda>s.
         bindE (vread pde_a s) (\<lambda>pde.
         bindE (vwrite pde_a (fill_entry flags new_pt_phys pde) s) (\<lambda>s.
         Inr (True, s)))))
     else Inr (True, s)))"

definition kvmm_map_page ::
    "u32 \<Rightarrow> u32 \<Rightarrow> u32 \<Rightarrow> 'z vmm_state_scheme \<Rightarrow> (bool \<times> 'z vmm_state_scheme) kres" where
  "kvmm_map_page vaddr paddr flags s =
    (let pde_index = KVMM_GET_PDE_INDEX vaddr; pte_index = KVMM_GET_PTE_INDEX vaddr in
     if \<not> IS_ALIGNED_TO vaddr 4096 \<or> \<not> IS_ALIGNED_TO paddr 4096 then Inr (False, s)
     else
       bindE (map_page_table pde_index flags s) (\<lambda>(ok, s).
       if \<not> ok then Inr (False, s)
       else
         let pte_a = entry_addr (KVMM_GET_PT_VIA_PDE pde_index) pte_index in
         bindE (vread pte_a s) (\<lambda>pte.
         if e_present pte then Inr (False, s)
         else
           bindE (vwrite pte_a (fill_entry flags paddr pte) s) (\<lambda>s.
           Inr (True, s)))))"

text \<open>The loop of \<^verbatim>\<open>kvmm_map_range\<close> from page \<open>i\<close> on.\<close>

fun map_range_from ::
    "nat \<Rightarrow> u32 \<Rightarrow> u32 \<Rightarrow> u32 \<Rightarrow> u32 \<Rightarrow> 'z vmm_state_scheme \<Rightarrow> (bool \<times> 'z vmm_state_scheme) kres" where
  "map_range_from 0 i vaddr paddr flags s = Inr (True, s)"
| "map_range_from (Suc n) i vaddr paddr flags s =
    bindE (kvmm_map_page (vaddr + KPMM_PAGE_SIZE * i) (paddr + KPMM_PAGE_SIZE * i) flags s) (\<lambda>(ok, s).
    if \<not> ok then Inr (False, s) else map_range_from n (i + 1) vaddr paddr flags s)"

definition kvmm_map_range ::
    "u32 \<Rightarrow> u32 \<Rightarrow> u32 \<Rightarrow> u32 \<Rightarrow> 'z vmm_state_scheme \<Rightarrow> (bool \<times> 'z vmm_state_scheme) kres" where
  "kvmm_map_range vaddr paddr flags amount s =
    (if \<not> IS_ALIGNED_TO vaddr 4096 \<or> \<not> IS_ALIGNED_TO paddr 4096 then Inr (False, s)
     else map_range_from (unat amount) 0 vaddr paddr flags s)"

definition kvmm_unmap_page ::
    "u32 \<Rightarrow> 'z vmm_state_scheme \<Rightarrow> (bool \<times> 'z vmm_state_scheme) kres" where
  "kvmm_unmap_page vaddr s =
    (let pde_index = KVMM_GET_PDE_INDEX vaddr; pte_index = KVMM_GET_PTE_INDEX vaddr in
     if \<not> IS_ALIGNED_TO vaddr 4096 then Inr (False, s)
     else
       bindE (vread (entry_addr KVMM_GET_PD pde_index) s) (\<lambda>pde.
       if \<not> e_present pde then Inr (False, s)
       else
         let pte_a = entry_addr (KVMM_GET_PT_VIA_PDE pde_index) pte_index in
         bindE (vread pte_a s) (\<lambda>pte.
         if \<not> e_present pte then Inr (False, s)
         else bindE (vwrite pte_a 0 s) (\<lambda>s. Inr (True, s)))))"

section \<open>Indices and addresses\<close>

text \<open>The two indices of a virtual address, and the tables as the MMU sees them.\<close>

definition pdi :: "u32 \<Rightarrow> 10 word" where
  "pdi v = ucast (drop_bit 22 v)"

definition pti :: "u32 \<Rightarrow> 10 word" where
  "pti v = ucast (drop_bit 12 v)"

definition pd_entry :: "'z vmm_state_scheme \<Rightarrow> 10 word \<Rightarrow> u32" where
  "pd_entry s d = pmem s (pfn (cr3 s)) d"

definition pt_entry :: "'z vmm_state_scheme \<Rightarrow> 10 word \<Rightarrow> 10 word \<Rightarrow> u32" where
  "pt_entry s d t = pmem s (pfn (pd_entry s d)) t"

abbreviation put_word ::
    "20 word \<Rightarrow> 10 word \<Rightarrow> u32 \<Rightarrow> 'z vmm_state_scheme \<Rightarrow> 'z vmm_state_scheme" where
  "put_word f i x s \<equiv> s\<lparr>pmem := (pmem s)(f := (pmem s f)(i := x))\<rparr>"

named_theorems vmm_simps \<open>page table walks and accesses through the recursive mapping\<close>

lemma unat_idx10: "unat (i :: 10 word) < 1024"
  using unsigned_less [of i] by simp

lemma unat_ucast_10_32 [simp]: "unat (ucast (i :: 10 word) :: u32) = unat i"
  using unat_idx10 [of i] by (simp add: unsigned_ucast_eq take_bit_nat_eq_self)

lemma unat_ucast_32_10: "unat (ucast (x :: u32) :: 10 word) = unat x mod 1024"
  by (simp add: unsigned_ucast_eq take_bit_eq_mod)

lemma unat_drop_bit: "unat (drop_bit n x) = unat x div 2 ^ n" for x :: "'a::len word"
  by (simp only: unat_drop_bit_eq) (simp only: drop_bit_eq_div)

lemma mask10: "(0x3FF :: u32) = mask 10"
  by (simp add: mask_eq_exp_minus_1)

lemma pde_index_pdi: "KVMM_GET_PDE_INDEX v = ucast (pdi v)"
  unfolding KVMM_GET_PDE_INDEX_def pdi_def mask10 by (rule bit_word_eqI) (auto simp: bit_simps)

lemma pte_index_pti: "KVMM_GET_PTE_INDEX v = ucast (pti v)"
  unfolding KVMM_GET_PTE_INDEX_def pti_def mask10 by (rule bit_word_eqI) (auto simp: bit_simps)

lemma pde_addr_unat:
  "unat (entry_addr KVMM_GET_PD (ucast d)) = 4294963200 + 4 * unat d" for d :: "10 word"
  using unat_idx10 [of d] by (simp add: entry_addr_def KVMM_GET_PD_def unat_word_ariths)

lemma pte_addr_unat:
  "unat (entry_addr (KVMM_GET_PT_VIA_PDE (ucast d)) (ucast t)) = 4290772992 + 4096 * unat d + 4 * unat t"
  for d t :: "10 word"
  using unat_idx10 [of d] unat_idx10 [of t]
  by (simp add: entry_addr_def KVMM_GET_PT_VIA_PDE_def unat_word_ariths)

lemma address_fields:
  fixes c d t :: nat
  assumes "d < 1024" "t < 1024"
  shows "(4194304 * c + 4096 * d + 4 * t) div 4194304 = c"
    and "(4194304 * c + 4096 * d + 4 * t) div 4096 mod 1024 = d"
    and "(4194304 * c + 4096 * d + 4 * t) div 4 mod 1024 = t"
proof -
  show "(4194304 * c + 4096 * d + 4 * t) div 4194304 = c"
    using assms by (intro div_nat_eqI) simp_all
  have "(4194304 * c + 4096 * d + 4 * t) div 4096 = 1024 * c + d"
    using assms by (intro div_nat_eqI) simp_all
  then show "(4194304 * c + 4096 * d + 4 * t) div 4096 mod 1024 = d" using assms by simp
  have "(4194304 * c + 4096 * d + 4 * t) div 4 = 1024 * (1024 * c + d) + t"
    by (intro div_nat_eqI) simp_all
  then show "(4194304 * c + 4096 * d + 4 * t) div 4 mod 1024 = t"
    using assms by (simp only: mod_mult_self4) simp
qed

lemma indices_unat:
  fixes c d t :: "10 word"
  assumes "unat v = 4194304 * unat c + 4096 * unat d + 4 * unat t"
  shows "pdi v = c" "pti v = d" "pidx v = t"
  using address_fields [OF unat_idx10 [of d] unat_idx10 [of t], of "unat c"] unat_idx10 [of c]
  by (simp_all add: word_unat_eq_iff pdi_def pti_def pidx_def unat_ucast_32_10 unat_drop_bit assms)

lemma pde_addr_indices [vmm_simps]:
  "pdi (entry_addr KVMM_GET_PD (ucast d)) = 1023"
  "pti (entry_addr KVMM_GET_PD (ucast d)) = 1023"
  "pidx (entry_addr KVMM_GET_PD (ucast d)) = d"
  by (rule indices_unat [where c = 1023 and d = 1023 and t = d]; simp add: pde_addr_unat)+

lemma pte_addr_indices [vmm_simps]:
  "pdi (entry_addr (KVMM_GET_PT_VIA_PDE (ucast d)) (ucast t)) = 1023"
  "pti (entry_addr (KVMM_GET_PT_VIA_PDE (ucast d)) (ucast t)) = d"
  "pidx (entry_addr (KVMM_GET_PT_VIA_PDE (ucast d)) (ucast t)) = t"
  by (rule indices_unat [where c = 1023 and d = d and t = t]; simp add: pte_addr_unat)+

lemma NOT_FFF: "NOT (0xFFF :: u32) = NOT (mask 12)"
  by (simp add: mask_eq_exp_minus_1)

lemma FFF_mask: "(0xFFF :: u32) = mask 12"
  by (simp add: mask_eq_exp_minus_1)

lemma join_frame_offset [vmm_simps]:
  "pfn (join_addr e v) = pfn e"
  "pidx (join_addr e v) = pidx v"
  unfolding join_addr_def pfn_def pidx_def FFF_mask
  by (rule bit_word_eqI, auto simp: bit_simps)+

lemma translate_entries [vmm_simps]:
  "paging s \<Longrightarrow> mmu_translate s v =
    (if e_present (pd_entry s (pdi v)) \<and> e_present (pt_entry s (pdi v) (pti v))
     then Some (join_addr (pt_entry s (pdi v) (pti v)) v) else None)"
  by (simp add: mmu_translate_def pde_of_def pte_of_def pd_entry_def pt_entry_def pdi_def pti_def)

section \<open>Access through the recursive entry\<close>

definition recursive_ok :: "'z vmm_state_scheme \<Rightarrow> bool" where
  "recursive_ok s \<longleftrightarrow> paging s \<and> e_present (pd_entry s 1023) \<and> pfn (pd_entry s 1023) = pfn (cr3 s)"

lemma recursive_pt_entry: "recursive_ok s \<Longrightarrow> pt_entry s 1023 d = pd_entry s d"
  by (simp add: recursive_ok_def pt_entry_def pd_entry_def)

lemma recursive_pde [vmm_simps]:
  assumes "recursive_ok s"
  shows "vread (entry_addr KVMM_GET_PD (ucast d)) s = Inr (pd_entry s d)"
    and "vwrite (entry_addr KVMM_GET_PD (ucast d)) x s = Inr (put_word (pfn (cr3 s)) d x s)"
proof -
  have "paging s" "e_present (pd_entry s 1023)" "pfn (pd_entry s 1023) = pfn (cr3 s)"
    using assms by (simp_all add: recursive_ok_def)
  then show "vread (entry_addr KVMM_GET_PD (ucast d)) s = Inr (pd_entry s d)"
    and "vwrite (entry_addr KVMM_GET_PD (ucast d)) x s = Inr (put_word (pfn (cr3 s)) d x s)"
    using recursive_pt_entry [OF assms, of 1023]
    by (simp_all add: vread_def vwrite_def vmm_simps) (simp add: pd_entry_def)
qed

lemma recursive_pte [vmm_simps]:
  assumes "recursive_ok s"
  shows "vread (entry_addr (KVMM_GET_PT_VIA_PDE (ucast d)) (ucast t)) s =
      (if e_present (pd_entry s d) then Inr (pt_entry s d t) else Inl PageFault)"
    and "vwrite (entry_addr (KVMM_GET_PT_VIA_PDE (ucast d)) (ucast t)) x s =
      (if e_present (pd_entry s d) then Inr (put_word (pfn (pd_entry s d)) t x s) else Inl PageFault)"
proof -
  have "paging s" "e_present (pd_entry s 1023)"
    using assms by (simp_all add: recursive_ok_def)
  then show "vread (entry_addr (KVMM_GET_PT_VIA_PDE (ucast d)) (ucast t)) s =
      (if e_present (pd_entry s d) then Inr (pt_entry s d t) else Inl PageFault)"
    and "vwrite (entry_addr (KVMM_GET_PT_VIA_PDE (ucast d)) (ucast t)) x s =
      (if e_present (pd_entry s d) then Inr (put_word (pfn (pd_entry s d)) t x s) else Inl PageFault)"
    using recursive_pt_entry [OF assms, of d]
    by (simp_all add: vread_def vwrite_def vmm_simps) (simp add: pt_entry_def)
qed

lemma fill_entry_fields [vmm_simps]:
  "e_present (fill_entry flags a e) \<longleftrightarrow> flags AND KVMM_FLAG_PRESENT \<noteq> 0"
  "pfn (fill_entry flags a e) = pfn a"
  "join_addr (fill_entry flags a e) v = join_addr a v"
  unfolding fill_entry_def set_frame_def set_user_def set_rw_def set_present_def FFF_mask pfn_def e_present_def
    join_addr_def
  by (auto simp: bit_simps intro!: bit_word_eqI)

section \<open>The invariant of the page tables\<close>

text \<open>
  The recursive entry is in place; the higher half maps the first 4 MiB of physical memory; the
  directory and the tables it refers to are distinct frames, none of which is free.
\<close>

definition vmm_inv :: "'z vmm_state_scheme \<Rightarrow> bool" where
  "vmm_inv s \<longleftrightarrow> recursive_ok s \<and> pmm_inv s \<and>
     e_present (pd_entry s 768) \<and>
     (\<forall>t. e_present (pt_entry s 768 t) \<and> pfn (pt_entry s 768 t) = ucast t) \<and>
     unat (pfn (cr3 s)) \<notin> free_pages s \<and>
     (\<forall>d. d \<noteq> 1023 \<and> e_present (pd_entry s d) \<longrightarrow>
        pfn (pd_entry s d) \<noteq> pfn (cr3 s) \<and> unat (pfn (pd_entry s d)) \<notin> free_pages s \<and>
        (\<forall>d'. d' \<noteq> 1023 \<and> d' \<noteq> d \<and> e_present (pd_entry s d') \<longrightarrow>
           pfn (pd_entry s d') \<noteq> pfn (pd_entry s d)))"

abbreviation put_frame ::
    "20 word \<Rightarrow> (10 word \<Rightarrow> u32) \<Rightarrow> 'z vmm_state_scheme \<Rightarrow> 'z vmm_state_scheme" where
  "put_frame f g s \<equiv> s\<lparr>pmem := (pmem s)(f := g)\<rparr>"

lemma pd_entry_put_frame [vmm_simps]:
  "pd_entry (put_frame f g s) d = (if f = pfn (cr3 s) then g d else pd_entry s d)"
  by (simp add: pd_entry_def)

lemma pt_entry_put_frame [vmm_simps]:
  "f \<noteq> pfn (cr3 s) \<Longrightarrow>
    pt_entry (put_frame f g s) d t = (if f = pfn (pd_entry s d) then g t else pt_entry s d t)"
  by (simp add: pt_entry_def pd_entry_put_frame)

lemma vwrite_mapped:
  assumes "paging s" "e_present (pd_entry s (pdi v))" "e_present (pt_entry s (pdi v) (pti v))"
  shows "vwrite v x s =
    Inr (put_word (pfn (pt_entry s (pdi v) (pti v))) (pidx v) x s)"
  using assms by (simp add: vwrite_def vmm_simps)

text \<open>Zeroing a frame below 4 MiB through its higher-half address.\<close>

lemma higher_half_indices:
  fixes f :: "20 word"
  assumes "unat f < 1024" "i < 1024" "unat p = 4096 * unat f"
  defines "v \<equiv> PHYS_TO_VIRT p + 4 * word_of_nat i"
  shows "pdi v = 768" "pti v = ucast f" "pidx v = word_of_nat i"
proof -
  have "unat v = 4194304 * 768 + 4096 * unat f + 4 * i"
    using assms by (simp add: v_def PHYS_TO_VIRT_def KERNEL_VIRTUAL_BASE_def unat_word_ariths unat_of_nat)
  moreover have "unat (ucast f :: 10 word) = unat f" "unat (word_of_nat i :: 10 word) = i"
    using assms by (simp_all add: unsigned_ucast_eq take_bit_nat_eq_self unat_of_nat)
  ultimately have "unat v = 4194304 * unat (768 :: 10 word) + 4096 * unat (ucast f :: 10 word) +
      4 * unat (word_of_nat i :: 10 word)" by simp
  then show "pdi v = 768" "pti v = ucast f" "pidx v = word_of_nat i"
    by (rule indices_unat)+
qed

lemma ucast_20_10_20: "unat (f :: 20 word) < 1024 \<Longrightarrow> ucast (ucast f :: 10 word) = f"
  by (simp add: word_unat_eq_iff unsigned_ucast_eq unsigned_take_bit_eq take_bit_nat_eq_self)

lemma vzero_whole:
  assumes word: "\<And>i g. i < 1024 \<Longrightarrow> vwrite (v + 4 * word_of_nat i) 0 (put_frame f g s) =
      Inr (put_word f (word_of_nat i) 0 (put_frame f g s))"
  shows "vzero 1024 v s = Inr (put_frame f (\<lambda>j. 0) s)"
proof -
  let ?g = "\<lambda>i (j :: 10 word). if unat j < i then 0 else pmem s f j"
  have "vzero n (v + 4 * word_of_nat i) (put_frame f (?g i) s) = Inr (put_frame f (?g (i + n)) s)"
    if "i + n \<le> 1024" for i n
    using that
  proof (induction n arbitrary: i)
    case 0
    then show ?case by simp
  next
    case (Suc n)
    have "(?g i)(word_of_nat i := 0) = ?g (Suc i)"
      using Suc.prems by (auto simp: fun_eq_iff word_unat_eq_iff unat_of_nat less_Suc_eq)
    then have step: "vwrite (v + 4 * word_of_nat i) 0 (put_frame f (?g i) s) = Inr (put_frame f (?g (Suc i)) s)"
      using word [of i "?g i"] Suc.prems by simp
    have next_addr: "v + 4 * word_of_nat i + 4 = v + 4 * word_of_nat (Suc i)" by (simp add: algebra_simps)
    show ?case
      using Suc.IH [of "Suc i"] Suc.prems unfolding vzero.simps step by (simp only: bindE_simps next_addr) simp
  qed
  from this [of 0 1024] have "vzero 1024 v (put_frame f (pmem s f) s) = Inr (put_frame f (?g 1024) s)"
    by simp
  moreover have "?g 1024 = (\<lambda>j. 0)" using unat_idx10 by auto
  ultimately show ?thesis by simp
qed

lemma vzero_page:
  assumes inv: "vmm_inv s" and p: "unat (pfn p) < 1024" "unat p = 4096 * unat (pfn p)"
    and fresh: "pfn p \<noteq> pfn (cr3 s)" "pfn p \<noteq> pfn (pd_entry s 768)"
  shows "vzero 1024 (PHYS_TO_VIRT p) s = Inr (put_frame (pfn p) (\<lambda>j. 0) s)"
proof (rule vzero_whole)
  fix i :: nat and g
  assume i: "i < 1024"
  let ?v = "PHYS_TO_VIRT p + 4 * word_of_nat i" and ?s = "put_frame (pfn p) g s"
  note idx = higher_half_indices [OF p(1) i p(2)]
  have "paging ?s" using inv by (simp add: vmm_inv_def recursive_ok_def)
  moreover have "e_present (pd_entry ?s (pdi ?v))" "e_present (pt_entry ?s (pdi ?v) (pti ?v))"
    "pfn (pt_entry ?s (pdi ?v) (pti ?v)) = pfn p"
    using inv fresh p(1) by (simp_all add: vmm_inv_def idx vmm_simps ucast_20_10_20)
  ultimately show "vwrite ?v 0 ?s = Inr (put_word (pfn p) (word_of_nat i) 0 ?s)"
    by (simp add: vwrite_mapped idx)
qed

section \<open>Mapping a page\<close>

lemma frame_of_page:
  assumes "unat p = 4096 * k"
  shows "unat (pfn p) = k" and "p AND 0xFFF = 0"
proof -
  show "unat (pfn p) = k"
    using assms unat_u32_less [of p] by (simp add: pfn_def unsigned_ucast_eq take_bit_nat_eq_self unat_drop_bit)
  have "unat (p AND mask 12) = unat p mod 4096"
    by (simp only: take_bit_eq_mask [symmetric] take_bit_eq_mod) (simp add: unat_mod_distrib)
  then show "p AND 0xFFF = 0" using assms by (simp add: FFF_mask unat_eq_0 [symmetric])
qed

lemma aligned_page: "IS_ALIGNED_TO p 4096 \<Longrightarrow> unat p = 4096 * (unat p div 4096)" for p :: u32
proof -
  assume "IS_ALIGNED_TO p 4096"
  then have "unat p mod 4096 = 0" by (simp add: IS_ALIGNED_TO_def unat_mod_distrib flip: unat_eq_0)
  then show ?thesis by (simp add: mod_eq_0_iff_dvd)
qed

lemma join_aligned: "p AND 0xFFF = 0 \<Longrightarrow> join_addr p w = p + (w AND 0xFFF)" for p :: u32
proof -
  assume z: "p AND 0xFFF = 0"
  have bits: "\<not> bit p n" if "n < 12" for n
  proof -
    have "\<not> bit (p AND mask 12) n" using z by (simp add: FFF_mask)
    then show ?thesis using that by (simp add: bit_simps)
  qed
  have "p AND NOT 0xFFF = p" unfolding FFF_mask
    by (rule bit_word_eqI) (use bits in \<open>auto simp: bit_simps\<close>)
  moreover have "p AND (w AND 0xFFF) = 0" unfolding FFF_mask
    by (rule bit_word_eqI) (use bits in \<open>auto simp: bit_simps\<close>)
  ultimately show ?thesis
    using word_plus_and_or [of p "w AND 0xFFF"] by (simp add: join_addr_def)
qed

lemma same_page: "pfn w = pfn v \<longleftrightarrow> pdi w = pdi v \<and> pti w = pti v"
proof -
  have "pfn w = pfn v \<longleftrightarrow> (\<forall>n < 20. bit w (n + 12) = bit v (n + 12))"
    by (auto simp: pfn_def bit_eq_iff bit_simps add.commute)
  also have "\<dots> \<longleftrightarrow> (\<forall>n < 10. bit w (n + 22) = bit v (n + 22)) \<and> (\<forall>n < 10. bit w (n + 12) = bit v (n + 12))"
    (is "?l \<longleftrightarrow> ?r")
  proof
    assume l: ?l
    have "bit w (n + 22) = bit v (n + 22)" if "n < 10" for n
      using l [rule_format, of "n + 10"] that by (simp add: add.commute)
    then show ?r using l by simp
  next
    assume r: ?r
    show ?l
    proof (intro allI impI)
      fix n :: nat
      assume "n < 20"
      then show "bit w (n + 12) = bit v (n + 12)"
        using r [THEN conjunct1, rule_format, of "n - 10"] r [THEN conjunct2, rule_format, of n]
        by (cases "n < 10") (auto simp: add.commute)
    qed
  qed
  also have "\<dots> \<longleftrightarrow> pdi w = pdi v \<and> pti w = pti v"
    by (auto simp: pdi_def pti_def bit_eq_iff bit_simps add.commute)
  finally show ?thesis .
qed

lemma frame_pmm [vmm_simps]:
  assumes "pmm_frame s s'"
  shows "pmem s' = pmem s" "cr3 s' = cr3 s" "paging s' = paging s" "pd_entry s' = pd_entry s"
    "pt_entry s' = pt_entry s" "kvmm_page_directory s' = kvmm_page_directory s"
    "recursive_ok s' = recursive_ok s"
  using assms by (auto simp: pmm_frame_def pd_entry_def pt_entry_def recursive_ok_def fun_eq_iff)

lemma vmm_inv_alloc:
  assumes "vmm_inv s" "pmm_frame s s'" "pmm_inv s'" "free_pages s' \<subseteq> free_pages s"
  shows "vmm_inv s'"
proof -
  have "k \<notin> free_pages s'" if "k \<notin> free_pages s" for k using that assms(4) by blast
  then show ?thesis using assms(1,3) by (simp add: vmm_inv_def frame_pmm [OF assms(2)])
qed

text \<open>The page table of an absent directory entry, created.\<close>

lemma map_page_table_new:
  assumes inv: "vmm_inv s" and absent: "\<not> e_present (pd_entry s d)"
    and al: "kpmm_alloc_pages 1 s = Inr (p, s1)" "p \<noteq> 0" and low: "unat p < 4194304"
  defines "s2 \<equiv> put_frame (pfn p) (\<lambda>j. 0) s1"
  shows "map_page_table (ucast d) flags s =
      Inr (True, put_word (pfn (cr3 s)) d (fill_entry flags p (pd_entry s d)) s2)"
    and "vmm_inv s1" and "pmm_frame s s1" and "free_pages s1 = free_pages s - {unat (pfn p)}"
    and "unat (pfn p) \<in> free_pages s" and "pfn p \<noteq> pfn (cr3 s)"
    and "\<And>d'. d' \<noteq> 1023 \<Longrightarrow> e_present (pd_entry s d') \<Longrightarrow> pfn (pd_entry s d') \<noteq> pfn p"
proof -
  have pmm: "pmm_inv s" using inv by (simp add: vmm_inv_def)
  note blk = pmm_alloc_block(2) [OF pmm al]
  have "unat p mod 4096 = 0"
    using kpmm_page_aligned [OF pmm al(1)] al(2) by simp
  then have page: "unat p = 4096 * (unat p div 4096)" by (simp add: mod_eq_0_iff_dvd)
  note pf = frame_of_page(1) [OF page]
  have unit: "block_pages p 1 = {unat (pfn p)}" by (auto simp: block_pages_def pf)
  show fr: "pmm_frame s s1" "free_pages s1 = free_pages s - {unat (pfn p)}"
    and mem: "unat (pfn p) \<in> free_pages s"
    using blk unit by auto
  show inv1: "vmm_inv s1" using vmm_inv_alloc [OF inv] blk by blast
  show cr: "pfn p \<noteq> pfn (cr3 s)" using inv mem by (auto simp: vmm_inv_def)
  show tabs: "\<And>d'. d' \<noteq> 1023 \<Longrightarrow> e_present (pd_entry s d') \<Longrightarrow> pfn (pd_entry s d') \<noteq> pfn p"
    using inv mem unfolding vmm_inv_def by metis
  have "pfn (pd_entry s 768) \<noteq> pfn p" using tabs [of 768] inv by (simp add: vmm_inv_def)
  then have zero: "vzero 1024 (PHYS_TO_VIRT p) s1 = Inr s2"
    unfolding s2_def using inv1 low page pf cr
    by (intro vzero_page) (simp_all add: frame_pmm [OF fr(1)])
  have rec: "recursive_ok s" "recursive_ok s1" using inv inv1 by (simp_all add: vmm_inv_def)
  then have "recursive_ok s2"
    using cr by (simp add: s2_def recursive_ok_def pd_entry_def frame_pmm(1-3) [OF fr(1)])
  moreover have "pd_entry s2 d = pd_entry s d" "cr3 s2 = cr3 s"
    using cr by (simp_all add: s2_def pd_entry_def frame_pmm(1-3) [OF fr(1)])
  ultimately show "map_page_table (ucast d) flags s =
      Inr (True, put_word (pfn (cr3 s)) d (fill_entry flags p (pd_entry s d)) s2)"
    using absent al zero rec by (simp add: map_page_table_def recursive_pde)
qed

text \<open>
  What a successful \<^verbatim>\<open>kvmm_map_page\<close> leaves: \<open>v\<close>'s page maps to \<open>p\<close>, every other page
  outside the window of the tables themselves translates as before.
\<close>

definition page_mapped :: "u32 \<Rightarrow> u32 \<Rightarrow> 'z vmm_state_scheme \<Rightarrow> 'z vmm_state_scheme \<Rightarrow> bool" where
  "page_mapped v p s s' \<longleftrightarrow> vmm_inv s' \<and>
     (\<forall>w. pfn w = pfn v \<longrightarrow> mmu_translate s' w = Some (p + (w AND 0xFFF))) \<and>
     (\<forall>w. pfn w \<noteq> pfn v \<and> pdi w \<noteq> 1023 \<longrightarrow> mmu_translate s' w = mmu_translate s w)"

text \<open>Writing one entry of a table that is there.\<close>

lemma put_pte:
  fixes t :: "10 word" and x :: u32
  assumes inv: "vmm_inv s" and d: "d \<noteq> 1023" "e_present (pd_entry s d)"
  defines "s' \<equiv> put_word (pfn (pd_entry s d)) t x s"
  shows "pd_entry s' = pd_entry s"
    and "e_present (pd_entry s d') \<Longrightarrow> d' \<noteq> 1023 \<Longrightarrow>
      pt_entry s' d' t' = (if d' = d \<and> t' = t then x else pt_entry s d' t')"
    and "free_pages s' = free_pages s" and "recursive_ok s'" and "pmm_inv s'"
proof -
  have ne: "pfn (pd_entry s d) \<noteq> pfn (cr3 s)" using inv d by (simp add: vmm_inv_def)
  then show pd: "pd_entry s' = pd_entry s" by (simp add: s'_def fun_eq_iff vmm_simps)
  show "free_pages s' = free_pages s" by (simp add: s'_def free_pages_def)
  show "recursive_ok s'" using inv pd by (simp add: vmm_inv_def recursive_ok_def) (simp add: s'_def)
  show "pmm_inv s'" using inv by (simp add: vmm_inv_def pmm_inv_def s'_def free_pages_def)
  show "pt_entry s' d' t' = (if d' = d \<and> t' = t then x else pt_entry s d' t')"
    if "e_present (pd_entry s d')" "d' \<noteq> 1023"
  proof -
    have "d' = d \<longleftrightarrow> pfn (pd_entry s d') = pfn (pd_entry s d)"
      using inv d that unfolding vmm_inv_def by metis
    then show ?thesis unfolding s'_def pt_entry_put_frame [OF ne] by (auto simp: pt_entry_def)
  qed
qed

lemma vmm_inv_put_pte:
  assumes inv: "vmm_inv s" and d: "d \<noteq> 1023" "d \<noteq> 768" "e_present (pd_entry s d)"
  shows "vmm_inv (put_word (pfn (pd_entry s d)) t x s)"
proof -
  note put = put_pte [OF inv d(1,3), where t = t and x = x]
  have "pt_entry (put_word (pfn (pd_entry s d)) t x s) 768 t' = pt_entry s 768 t'" for t'
    using put(2) [of 768 t'] inv d(2) by (simp add: vmm_inv_def)
  then show ?thesis using inv put unfolding vmm_inv_def by simp
qed

lemma map_page_entry:
  assumes inv: "vmm_inv s" and d: "pdi v \<noteq> 1023" "e_present (pd_entry s (pdi v))"
    and free: "\<not> e_present (pt_entry s (pdi v) (pti v))"
    and p: "p AND 0xFFF = 0" and flags: "flags AND KVMM_FLAG_PRESENT \<noteq> 0"
  shows "page_mapped v p s
    (put_word (pfn (pd_entry s (pdi v))) (pti v) (fill_entry flags p (pt_entry s (pdi v) (pti v))) s)"
    (is "page_mapped v p s ?s'")
proof -
  have d768: "pdi v \<noteq> 768" using inv free by (auto simp: vmm_inv_def)
  note put = put_pte [OF inv d, where t = "pti v" and x = "fill_entry flags p (pt_entry s (pdi v) (pti v))"]
  have pg: "paging s" "paging ?s'" using inv by (simp_all add: vmm_inv_def recursive_ok_def)
  have "mmu_translate ?s' w = Some (p + (w AND 0xFFF))" if "pfn w = pfn v" for w
    using that d flags put(2) [of "pdi v" "pti v"]
    unfolding same_page translate_entries [OF pg(2)] put(1)
    by (simp add: fill_entry_fields join_aligned [OF p])
  moreover have "mmu_translate ?s' w = mmu_translate s w" if "pfn w \<noteq> pfn v" "pdi w \<noteq> 1023" for w
  proof (cases "e_present (pd_entry s (pdi w))")
    case True
    then show ?thesis using that put(2) [of "pdi w" "pti w"]
      unfolding same_page translate_entries [OF pg(1)] translate_entries [OF pg(2)] put(1) by auto
  next
    case False
    then show ?thesis
      unfolding translate_entries [OF pg(1)] translate_entries [OF pg(2)] put(1) by simp
  qed
  ultimately show ?thesis using vmm_inv_put_pte [OF inv d(1) d768 d(2)] by (simp add: page_mapped_def)
qed

text \<open>A new empty table entered in the directory changes no translation outside the window.\<close>

lemma new_table:
  assumes inv: "vmm_inv s" and d: "\<not> e_present (pd_entry s d)" and inv1: "vmm_inv s1"
    and fr: "pmm_frame s s1" and p: "unat (pfn p) \<notin> free_pages s1" "pfn p \<noteq> pfn (cr3 s)"
    and tabs: "\<And>d'. d' \<noteq> 1023 \<Longrightarrow> e_present (pd_entry s d') \<Longrightarrow> pfn (pd_entry s d') \<noteq> pfn p"
    and flags: "flags AND KVMM_FLAG_PRESENT \<noteq> 0"
  defines "s3 \<equiv> put_word (pfn (cr3 s)) d (fill_entry flags p (pd_entry s d)) (put_frame (pfn p) (\<lambda>j. 0) s1)"
  shows "vmm_inv s3" and "pdi w \<noteq> 1023 \<Longrightarrow> mmu_translate s3 w = mmu_translate s w"
    and "e_present (pd_entry s3 d)" and "pt_entry s3 d t = 0" and "free_pages s3 = free_pages s1"
proof -
  have rec: "d \<noteq> 1023" "d \<noteq> 768" using inv d by (auto simp: vmm_inv_def recursive_ok_def)
  have pd: "pd_entry s3 d' = (if d' = d then fill_entry flags p (pd_entry s d) else pd_entry s d')" for d'
    using p(2) frame_pmm(1,2) [OF fr] by (simp add: s3_def pd_entry_def)
  have pt: "pt_entry s3 d' t = pt_entry s d' t" if "d' \<noteq> d" "d' \<noteq> 1023" "e_present (pd_entry s d')" for d' t
  proof -
    have "pfn (pd_entry s d') \<noteq> pfn (cr3 s)" using inv that by (simp add: vmm_inv_def)
    then show ?thesis using that tabs [of d'] pd [of d'] frame_pmm(1,2) [OF fr]
      by (simp add: pt_entry_def) (simp add: s3_def)
  qed
  show new: "e_present (pd_entry s3 d)" using pd flags by (simp add: fill_entry_fields)
  have pt0: "pt_entry s3 d t = 0" for t
    using pd [of d] p(2) frame_pmm(1,2) [OF fr]
    by (simp add: pt_entry_def fill_entry_fields) (simp add: s3_def)
  show "pt_entry s3 d t = 0" by (rule pt0)
  show free: "free_pages s3 = free_pages s1" by (simp add: s3_def free_pages_def)
  have base: "cr3 s3 = cr3 s" "paging s3" "paging s"
    using inv frame_pmm [OF fr] by (simp_all add: s3_def vmm_inv_def recursive_ok_def)
  show "vmm_inv s3"
  proof -
    have "recursive_ok s3" using inv rec pd base by (simp add: vmm_inv_def recursive_ok_def)
    moreover have "pmm_inv s3" using inv1 by (simp add: vmm_inv_def pmm_inv_def s3_def free_pages_def)
    moreover have "\<forall>t. e_present (pt_entry s3 768 t) \<and> pfn (pt_entry s3 768 t) = ucast t"
      using inv rec pt [of 768] by (simp add: vmm_inv_def)
    moreover have "unat (pfn (pd_entry s3 d')) \<notin> free_pages s1 \<and> pfn (pd_entry s3 d') \<noteq> pfn (cr3 s)"
      if "d' \<noteq> 1023" "e_present (pd_entry s3 d')" for d'
      using inv1 that pd [of d'] p frame_pmm [OF fr] by (auto simp: vmm_inv_def fill_entry_fields split: if_splits)
    moreover have "pfn (pd_entry s3 d') \<noteq> pfn (pd_entry s3 d'')"
      if "d' \<noteq> 1023" "e_present (pd_entry s3 d')" "d'' \<noteq> 1023" "e_present (pd_entry s3 d'')" "d'' \<noteq> d'" for d' d''
      using inv that pd [of d'] pd [of d''] tabs [of d'] tabs [of d'']
      by (auto simp: vmm_inv_def fill_entry_fields split: if_splits)
    ultimately show ?thesis
      using inv1 rec base frame_pmm [OF fr] inv pd [of 768] unfolding vmm_inv_def free by auto
  qed
  show "mmu_translate s3 w = mmu_translate s w" if "pdi w \<noteq> 1023"
    unfolding translate_entries [OF base(2)] translate_entries [OF base(3)]
    using d pd [of "pdi w"] pt [of "pdi w" "pti w"] pt0 that
    by (cases "pdi w = d") (auto simp: e_present_def)
qed

text \<open>The free frames the kernel can reach through the higher half.\<close>

definition low_free :: "'z pmm_state_scheme \<Rightarrow> nat set" where
  "low_free s = free_pages s \<inter> {..<1024}"

lemma alloc_low_page:
  assumes "pmm_inv s" "low_free s \<noteq> {}"
  shows "\<exists>p s1. kpmm_alloc_pages 1 s = Inr (p, s1) \<and> p \<noteq> 0 \<and> unat p < 4194304"
proof -
  obtain k where k: "k \<in> free_pages s" "k < 1024" using assms(2) by (auto simp: low_free_def)
  then have run: "free_run (bitmap_mem s) (unat 1) k" by (simp add: free_run_def free_pages_def)
  obtain q s1 where q: "kpmm_alloc_pages 1 s = Inr (word_of_nat (4096 * q), s1)" "0 < q"
      "first_fit (bitmap_mem s) (unat 1) q"
    using alloc_pages_found [OF assms(1), of 1] run by auto
  have "q \<le> k" using q(3) run by (auto simp: first_fit_def not_less [symmetric])
  define p :: u32 where "p = word_of_nat (4096 * q)"
  have "unat p = 4096 * q" using \<open>q \<le> k\<close> k(2) by (simp add: p_def unat_word_ariths unat_of_nat)
  then have "p \<noteq> 0" "unat p < 4194304" using q(2) \<open>q \<le> k\<close> k(2) by auto
  then show ?thesis using q(1) by (auto simp: p_def)
qed

lemma map_page_present:
  assumes "recursive_ok s" "IS_ALIGNED_TO v 4096" "IS_ALIGNED_TO p 4096"
    and "map_page_table (ucast (pdi v)) flags s = Inr (True, s1)" "recursive_ok s1"
    and "e_present (pd_entry s1 (pdi v))" "\<not> e_present (pt_entry s1 (pdi v) (pti v))"
  shows "kvmm_map_page v p flags s =
    Inr (True, put_word (pfn (pd_entry s1 (pdi v))) (pti v) (fill_entry flags p (pt_entry s1 (pdi v) (pti v))) s1)"
  using assms by (simp add: kvmm_map_page_def pde_index_pdi pte_index_pti Let_def recursive_pte)

lemma kvmm_map_page_correct:
  assumes inv: "vmm_inv s" and al: "IS_ALIGNED_TO v 4096" "IS_ALIGNED_TO p 4096"
    and flags: "flags AND KVMM_FLAG_PRESENT \<noteq> 0" and d: "pdi v \<noteq> 1023"
    and unmapped: "mmu_translate s v = None"
    and room: "e_present (pd_entry s (pdi v)) \<or> low_free s \<noteq> {}"
  shows "\<exists>s'. kvmm_map_page v p flags s = Inr (True, s') \<and> page_mapped v p s s' \<and>
    card (low_free s) \<le> card (low_free s') + 1"
proof -
  have rec: "recursive_ok s" "paging s" using inv by (simp_all add: vmm_inv_def recursive_ok_def)
  have p: "p AND 0xFFF = 0" using frame_of_page(2) [OF aligned_page [OF al(2)]] .
  show ?thesis
  proof (cases "e_present (pd_entry s (pdi v))")
    case True
    then have free: "\<not> e_present (pt_entry s (pdi v) (pti v))"
      using unmapped by (simp add: translate_entries [OF rec(2)] split: if_splits)
    have "map_page_table (ucast (pdi v)) flags s = Inr (True, s)"
      using True rec by (simp add: map_page_table_def recursive_pde)
    note run = map_page_present [OF rec(1) al this rec(1) True free]
    show ?thesis using run map_page_entry [OF inv d True free p flags]
      by (auto simp: low_free_def free_pages_def)
  next
    case False
    then obtain q s1 where q: "kpmm_alloc_pages 1 s = Inr (q, s1)" "q \<noteq> 0" "unat q < 4194304"
      using alloc_low_page [of s] inv room by (auto simp: vmm_inv_def)
    note new = map_page_table_new [OF inv False q]
    have "unat (pfn q) \<notin> free_pages s1" using new(4) by simp
    note tab = new_table [OF inv False new(2,3) this new(6,7) flags]
    define s3 where "s3 = put_word (pfn (cr3 s)) (pdi v) (fill_entry flags q (pd_entry s (pdi v)))
      (put_frame (pfn q) (\<lambda>j. 0) s1)"
    note tab3 = tab [folded s3_def]
    have free: "\<not> e_present (pt_entry s3 (pdi v) (pti v))" using tab3(4) by (simp add: e_present_def)
    have rec3: "recursive_ok s3" using tab3(1) by (simp add: vmm_inv_def)
    have "map_page_table (ucast (pdi v)) flags s = Inr (True, s3)"
      using new(1) [of flags] by (simp add: s3_def)
    note run = map_page_present [OF rec(1) al this rec3 tab3(3) free]
    have "low_free s3 = low_free s - {unat (pfn q)}" using tab3(5) new(4) by (auto simp: low_free_def)
    then have "card (low_free s) \<le> card (low_free s3) + 1"
      by (metis card_Diff_singleton_if diff_le_self le_diff_conv nat_le_linear Suc_eq_plus1 le_SucI)
    then show ?thesis
      using run map_page_entry [OF tab3(1) d tab3(3) free p flags] tab3(2)
      by (auto simp: page_mapped_def low_free_def free_pages_def)
  qed
qed

section \<open>Mapping a range\<close>

lemma range_page:
  assumes "IS_ALIGNED_TO v 4096" "unat v + 4096 * n \<le> 0xFFC00000" "i < n"
  defines "w \<equiv> v + KPMM_PAGE_SIZE * word_of_nat i"
  shows "unat w = unat v + 4096 * i" and "IS_ALIGNED_TO w 4096" and "unat (pfn w) = unat v div 4096 + i"
    and "pdi w \<noteq> 1023"
proof -
  show w: "unat w = unat v + 4096 * i"
    using assms by (simp add: w_def KPMM_PAGE_SIZE_def unat_word_ariths unat_of_nat)
  obtain k where k: "k = unat v div 4096" "unat v = 4096 * k"
    using aligned_page [OF assms(1)] by blast
  then have w': "unat w = 4096 * (unat v div 4096 + i)" using w by simp
  then show "unat (pfn w) = unat v div 4096 + i" by (rule frame_of_page)
  show "IS_ALIGNED_TO w 4096"
    using w' by (simp add: IS_ALIGNED_TO_def word_unat_eq_iff unat_mod_distrib)
  have "unat (drop_bit 22 w) < 1023" unfolding unat_drop_bit using w assms(2,3) by simp
  then show "pdi w \<noteq> 1023"
    by (simp add: pdi_def word_unat_eq_iff unat_ucast_32_10)
qed

lemma phys_page_aligned:
  "IS_ALIGNED_TO p 4096 \<Longrightarrow> IS_ALIGNED_TO (p + KPMM_PAGE_SIZE * i) 4096" for p i :: u32
proof -
  assume p: "IS_ALIGNED_TO p 4096"
  have "unat (p + 4096 * i) mod 4096 = (unat p + 4096 * unat i) mod 4294967296 mod 4096"
    by (simp add: unat_word_ariths mod_add_right_eq)
  also have "\<dots> = (unat p + 4096 * unat i) mod 4096" by (rule mod_mod_cancel) simp
  also have "\<dots> = 0" using aligned_page [OF p] by (metis mod_add_self1 mod_mult_self1 mod_mult_self1_is_0 mod_mult_self4)
  finally show ?thesis by (simp add: IS_ALIGNED_TO_def KPMM_PAGE_SIZE_def word_unat_eq_iff unat_mod_distrib)
qed

text \<open>Pages \<open>i\<close> to \<open>i + n - 1\<close> of the range map to their frames, the rest is as before.\<close>

definition range_mapped ::
    "nat \<Rightarrow> nat \<Rightarrow> u32 \<Rightarrow> u32 \<Rightarrow> 'z vmm_state_scheme \<Rightarrow> 'z vmm_state_scheme \<Rightarrow> bool" where
  "range_mapped i n v p s s' \<longleftrightarrow> vmm_inv s' \<and>
     (\<forall>j \<in> {i..<i + n}. \<forall>w. pfn w = pfn (v + KPMM_PAGE_SIZE * word_of_nat j) \<longrightarrow>
        mmu_translate s' w = Some (p + KPMM_PAGE_SIZE * word_of_nat j + (w AND 0xFFF))) \<and>
     (\<forall>w. pdi w \<noteq> 1023 \<and> (\<forall>j \<in> {i..<i + n}. pfn w \<noteq> pfn (v + KPMM_PAGE_SIZE * word_of_nat j)) \<longrightarrow>
        mmu_translate s' w = mmu_translate s w)"

lemma range_mapped_step:
  assumes "page_mapped (v + KPMM_PAGE_SIZE * word_of_nat i) (p + KPMM_PAGE_SIZE * word_of_nat i) s s1"
    and "range_mapped (Suc i) n v p s1 s'"
    and fresh: "\<And>j. j \<in> {Suc i..<Suc i + n} \<Longrightarrow>
      pfn (v + KPMM_PAGE_SIZE * word_of_nat i) \<noteq> pfn (v + KPMM_PAGE_SIZE * word_of_nat j)"
    and pdi: "pdi (v + KPMM_PAGE_SIZE * word_of_nat i) \<noteq> 1023"
  shows "range_mapped i (Suc n) v p s s'"
proof -
  let ?v = "v + KPMM_PAGE_SIZE * word_of_nat i" and ?p = "p + KPMM_PAGE_SIZE * word_of_nat i"
  have "mmu_translate s' w = Some (?p + (w AND 0xFFF))" if "pfn w = pfn ?v" for w
  proof -
    have "pdi w \<noteq> 1023" using that pdi same_page by simp
    moreover have "\<forall>j \<in> {Suc i..<Suc i + n}. pfn w \<noteq> pfn (v + KPMM_PAGE_SIZE * word_of_nat j)"
      using fresh that by simp
    ultimately have "mmu_translate s' w = mmu_translate s1 w"
      using assms(2) unfolding range_mapped_def by blast
    then show ?thesis using assms(1) that unfolding page_mapped_def by simp
  qed
  moreover have "mmu_translate s' w = mmu_translate s w"
    if "pdi w \<noteq> 1023" "pfn w \<noteq> pfn ?v"
      "\<forall>j \<in> {Suc i..<Suc i + n}. pfn w \<noteq> pfn (v + KPMM_PAGE_SIZE * word_of_nat j)" for w
  proof -
    have "mmu_translate s' w = mmu_translate s1 w"
      using assms(2) that unfolding range_mapped_def by blast
    then show ?thesis using assms(1) that unfolding page_mapped_def by simp
  qed
  ultimately show ?thesis
    using assms(2) unfolding range_mapped_def upt_page_Suc by (simp only: ball_simps) blast
qed

lemma map_range_from_correct:
  assumes "vmm_inv s" and al: "IS_ALIGNED_TO v 4096" "IS_ALIGNED_TO p 4096"
    and flags: "flags AND KVMM_FLAG_PRESENT \<noteq> 0" and top: "unat v + 4096 * (i + n) \<le> 0xFFC00000"
    and "\<And>j. j \<in> {i..<i + n} \<Longrightarrow> mmu_translate s (v + KPMM_PAGE_SIZE * word_of_nat j) = None"
    and "n \<le> card (low_free s)"
  shows "\<exists>s'. map_range_from n (word_of_nat i) v p flags s = Inr (True, s') \<and> range_mapped i n v p s s'"
  using assms(1,5,6,7)
proof (induction n arbitrary: i s)
  case 0
  then show ?case by (simp add: range_mapped_def)
next
  case (Suc n)
  let ?w = "\<lambda>j. v + KPMM_PAGE_SIZE * word_of_nat j"
  have pg: "unat (pfn (?w j)) = unat v div 4096 + j" "IS_ALIGNED_TO (?w j) 4096" "pdi (?w j) \<noteq> 1023"
    if "j < i + Suc n" for j
    using range_page [OF al(1) Suc.prems(2) that] by simp_all
  have fresh: "pfn (?w i) \<noteq> pfn (?w j)" if "j \<in> {Suc i..<Suc i + n}" for j
    using pg(1) [of i] pg(1) [of j] that by auto
  have "low_free s \<noteq> {}" using Suc.prems(4) by auto
  then obtain s1 where s1: "kvmm_map_page (?w i) (p + KPMM_PAGE_SIZE * word_of_nat i) flags s = Inr (True, s1)"
      "page_mapped (?w i) (p + KPMM_PAGE_SIZE * word_of_nat i) s s1" "card (low_free s) \<le> card (low_free s1) + 1"
    using kvmm_map_page_correct [OF Suc.prems(1) pg(2) phys_page_aligned [OF al(2)] flags pg(3), of i]
      Suc.prems(3) [of i] by auto
  have "mmu_translate s1 (?w j) = None" if "j \<in> {Suc i..<Suc i + n}" for j
    using s1(2) that fresh [OF that] pg(3) [of j] Suc.prems(3) [of j]
    unfolding page_mapped_def by auto
  then obtain s' where "map_range_from n (word_of_nat (Suc i)) v p flags s1 = Inr (True, s')"
      "range_mapped (Suc i) n v p s1 s'"
    using Suc.IH [of s1 "Suc i"] s1 Suc.prems by (auto simp: page_mapped_def)
  then show ?case
    using s1(1) range_mapped_step [OF s1(2) _ fresh pg(3)] by (auto simp: add.commute)
qed

section \<open>Unmapping\<close>

lemma kvmm_unmap_page_absent:
  assumes "vmm_inv s" "mmu_translate s v = None"
  shows "kvmm_unmap_page v s = Inr (False, s)"
proof -
  have rec: "recursive_ok s" "paging s" using assms(1) by (simp_all add: vmm_inv_def recursive_ok_def)
  then show ?thesis
    using assms(2) unfolding translate_entries [OF rec(2)]
    by (auto simp: kvmm_unmap_page_def pde_index_pdi pte_index_pti Let_def recursive_pte recursive_pde
        split: if_splits)
qed

lemma kvmm_unmap_page_correct:
  assumes inv: "vmm_inv s" and v: "IS_ALIGNED_TO v 4096" "pdi v \<noteq> 1023" "pdi v \<noteq> 768"
    and mapped: "mmu_translate s v \<noteq> None"
  shows "\<exists>s'. kvmm_unmap_page v s = Inr (True, s') \<and> vmm_inv s' \<and> free_pages s' = free_pages s \<and>
    (\<forall>w. pdi w \<noteq> 1023 \<longrightarrow> mmu_translate s' w = (if pfn w = pfn v then None else mmu_translate s w))"
proof -
  have rec: "recursive_ok s" "paging s" using inv by (simp_all add: vmm_inv_def recursive_ok_def)
  have e: "e_present (pd_entry s (pdi v))" "e_present (pt_entry s (pdi v) (pti v))"
    using mapped by (simp_all add: translate_entries [OF rec(2)] split: if_splits)
  let ?s' = "put_word (pfn (pd_entry s (pdi v))) (pti v) 0 s"
  note put = put_pte [OF inv v(2) e(1), where t = "pti v" and x = 0]
  have pg: "paging ?s'" using rec by simp
  have "mmu_translate ?s' w = (if pfn w = pfn v then None else mmu_translate s w)" if "pdi w \<noteq> 1023" for w
  proof (cases "e_present (pd_entry s (pdi w))")
    case True
    then show ?thesis using that put(2) [of "pdi w" "pti w"]
      unfolding same_page translate_entries [OF rec(2)] translate_entries [OF pg] put(1)
      by (auto simp: e_present_def)
  next
    case False
    then show ?thesis
      unfolding same_page translate_entries [OF rec(2)] translate_entries [OF pg] put(1) by simp
  qed
  moreover have "kvmm_unmap_page v s = Inr (True, ?s')"
    using v e rec(1)
    by (simp add: kvmm_unmap_page_def pde_index_pdi pte_index_pti Let_def recursive_pte recursive_pde)
  ultimately show ?thesis using vmm_inv_put_pte [OF inv v(2,3) e(1)] put(3) by blast
qed

section \<open>Initialisation, with paging off\<close>

lemma phys_access [vmm_simps]:
  "\<not> paging s \<Longrightarrow> vread v s = Inr (pmem s (pfn v) (pidx v))"
  "\<not> paging s \<Longrightarrow> vwrite v x s = Inr (put_word (pfn v) (pidx v) x s)"
  by (simp_all add: vread_def vwrite_def mmu_translate_def)

text \<open>\<open>p\<close> is the address of a frame.\<close>

abbreviation page_at :: "u32 \<Rightarrow> bool" where
  "page_at p \<equiv> unat p = 4096 * unat (pfn p)"

lemma phys_indices:
  assumes "page_at p" "i < 1024"
  shows "pfn (p + 4 * word_of_nat i) = pfn p" and "pidx (p + 4 * word_of_nat i) = word_of_nat i"
proof -
  have f: "unat (pfn p) < 1048576" using unsigned_less [of "pfn p"] by simp
  then have u: "unat (p + 4 * word_of_nat i) = 4096 * unat (pfn p) + 4 * i"
    using assms by (simp add: unat_word_ariths unat_of_nat)
  have "(4096 * unat (pfn p) + 4 * i) div 4096 = unat (pfn p)"
    using assms(2) by (intro div_nat_eqI) simp_all
  then show "pfn (p + 4 * word_of_nat i) = pfn p"
    using f unfolding pfn_def [of "p + _"]
    by (simp add: word_unat_eq_iff unsigned_ucast_eq take_bit_nat_eq_self unat_drop_bit u)
  have "(4096 * unat (pfn p) + 4 * i) div 4 = 1024 * unat (pfn p) + i"
    by (intro div_nat_eqI) simp_all
  then show "pidx (p + 4 * word_of_nat i) = word_of_nat i"
    using assms(2) by (simp add: pidx_def word_unat_eq_iff unat_ucast_32_10 unat_drop_bit u unat_of_nat)
qed

lemma entry_addr_phys:
  fixes d :: "10 word"
  assumes "page_at p"
  shows "pfn (entry_addr p (ucast d)) = pfn p" and "pidx (entry_addr p (ucast d)) = d"
  using phys_indices [OF assms unat_idx10 [of d]] by (simp_all add: entry_addr_def)

lemma vzero_phys: "\<not> paging s \<Longrightarrow> page_at p \<Longrightarrow> vzero 1024 p s = Inr (put_frame (pfn p) (\<lambda>j. 0) s)"
  by (rule vzero_whole) (simp add: vmm_simps phys_indices)

text \<open>What one entry of the two initial tables becomes.\<close>

definition ident_entry :: "10 word \<Rightarrow> u32" where
  "ident_entry j = push_bit 12 (ucast j) OR 3"

lemma ident_entry_fields [vmm_simps]:
  "e_present (ident_entry j)" "pfn (ident_entry j) = ucast j"
  unfolding ident_entry_def e_present_def pfn_def
  by (simp add: bit_simps) (rule bit_word_eqI, auto simp: bit_simps numeral_3_eq_3 bit_Suc)

lemma setup_page_table_entries_zeroed:
  assumes pg: "\<not> paging s" "page_at pt"
  shows "setup_page_table_entries pt (put_frame (pfn pt) (\<lambda>j. 0) s) = Inr (put_frame (pfn pt) ident_entry s)"
proof -
  let ?g = "\<lambda>i (j :: 10 word). if unat j < i then ident_entry j else 0"
  have "setup_entries_from n i pt (put_frame (pfn pt) (?g i) s) = Inr (put_frame (pfn pt) (?g (i + n)) s)"
    if "i + n \<le> 1024" for i n
    using that
  proof (induction n arbitrary: i)
    case 0
    then show ?case by simp
  next
    case (Suc n)
    then have i: "i < 1024" by simp
    have "unat (word_of_nat i :: u32) = i" using i by (simp add: unat_of_nat)
    then have "unat (drop_bit 12 (word_of_nat i * 4096 :: u32)) = i"
      using i by (simp add: unat_drop_bit unat_word_ariths)
    then have fr: "drop_bit 12 (word_of_nat i * 4096 :: u32) = ucast (word_of_nat i :: 10 word)"
      using i by (simp add: word_unat_eq_iff unat_of_nat)
    have val: "set_frame (ucast j) (set_user False (set_rw True (set_present True 0))) = ident_entry j"
      for j :: "10 word"
      unfolding set_frame_def set_user_def set_rw_def set_present_def ident_entry_def
      by (simp add: set_bit_eq_or unset_bit_eq_and_not or.commute)
    have "(?g i)(word_of_nat i := ident_entry (word_of_nat i)) = ?g (Suc i)"
      using i by (auto simp: fun_eq_iff word_unat_eq_iff unat_of_nat less_Suc_eq)
    then have step: "setup_page_table_entry pt i (put_frame (pfn pt) (?g i) s) = Inr (put_frame (pfn pt) (?g (Suc i)) s)"
      using pg(1) i phys_indices [OF pg(2) i]
      by (simp add: setup_page_table_entry_def Let_def entry_addr_def vmm_simps fr val unat_of_nat)
    show ?case
      using Suc.IH [of "Suc i"] Suc.prems unfolding setup_entries_from.simps step
      by (simp only: bindE_simps) simp
  qed
  from this [of 0 1024] show ?thesis
    using unat_idx10 by (simp add: setup_page_table_entries_def)
qed

text \<open>A page from the early allocator.\<close>

lemma early_page:
  assumes "early_inv s" "kernel_early_heap_available s"
    and "unat (kernel_early_heap_start s) + 8191 \<le> unat (kernel_early_heap_end s)"
  shows "\<exists>p. kearly_malloc_aligned 4096 4096 s = Inr (p, s\<lparr>kernel_early_heap_start := p + 4096\<rparr>) \<and>
    p \<noteq> 0 \<and> page_at p \<and> unat (kernel_early_heap_start s) \<le> unat p \<and>
    unat p \<le> unat (kernel_early_heap_start s) + 4095 \<and> unat (p + 4096) = unat p + 4096 \<and>
    early_inv (s\<lparr>kernel_early_heap_start := p + 4096\<rparr>)"
proof -
  let ?c = "kernel_early_heap_start s" and ?e = "kernel_early_heap_end s"
  define p where "p = ALIGN_UP ?c (2 ^ 12)"
  note room = early_align_room [OF assms(1), of 12, simplified p_def [symmetric], simplified]
  have inv: "?c \<noteq> 0" "?e \<noteq> 0" "unat ?e + 4096 \<le> 4294967296"
    using assms(1) by (auto simp: early_inv_def)
  have pc: "unat p \<le> unat ?c + 4095" using room(3) by simp
  have p0: "p \<noteq> 0" using room(2) inv(1) by (auto simp: unat_eq_0 [symmetric])
  have pe: "unat p + 4096 \<le> unat ?e" using pc assms(3) by simp
  then have add: "unat (p + 4096) = unat p + 4096" using inv(3) by (simp add: unat_word_ariths)
  have "unat (p - ?c) = unat p - unat ?c" using room(2) by (simp add: unat_sub word_le_nat_alt)
  then have "unat ((p - ?c) + 4096) = unat p - unat ?c + 4096"
    using pc by (simp add: unat_word_ariths)
  then have "\<not> (p - ?c) + 4096 > ?e - ?c"
    using pe room(2) assms(3) by (simp add: word_less_nat_alt unat_sub word_le_nat_alt)
  moreover have "(?c + 4096 - 1) AND NOT (4096 - 1) = p" by (simp add: p_def ALIGN_UP_def algebra_simps)
  ultimately have "kearly_malloc_aligned 4096 4096 s = Inr (p, s\<lparr>kernel_early_heap_start := p + 4096\<rparr>)"
    using assms(2) inv unfolding kearly_malloc_aligned_def by (simp add: Let_def)
  moreover have "unat p = 4096 * ((unat ?c + 4095) div 4096)" using room(1) by simp
  then have "page_at p" using frame_of_page(1) by simp
  moreover have "p + 4096 \<noteq> 0" using add by (auto simp: unat_eq_0 [symmetric])
  then have "early_inv (s\<lparr>kernel_early_heap_start := p + 4096\<rparr>)"
    using assms(1) add pe by (simp add: early_inv_def word_le_nat_alt)
  ultimately show ?thesis using p0 pc room(2) add by blast
qed

definition table_entry :: "u32 \<Rightarrow> u32" where
  "table_entry pt = set_frame (drop_bit 12 pt) (set_user False (set_rw True (set_present True 0)))"

lemma table_entry_fields [vmm_simps]: "e_present (table_entry pt)" "pfn (table_entry pt) = pfn pt"
  unfolding table_entry_def set_frame_def set_user_def set_rw_def set_present_def FFF_mask pfn_def e_present_def
  by (auto simp: bit_simps intro!: bit_word_eqI)

text \<open>One of the two initial mappings: a fresh table of identity entries, entered at \<open>d\<close>.\<close>

lemma setup_mapping:
  fixes d :: "10 word"
  assumes s: "\<not> paging s" "early_inv s" "kernel_early_heap_available s" and pd: "page_at pd"
    and low: "unat pd + 4096 \<le> unat (kernel_early_heap_start s)"
    and room: "unat (kernel_early_heap_start s) + 8191 \<le> unat (kernel_early_heap_end s)"
    and absent: "pmem s (pfn pd) d = 0" and e: "e = ucast d"
  shows "\<exists>p. page_at p \<and> unat (kernel_early_heap_start s) \<le> unat p \<and> pfn p \<noteq> pfn pd \<and>
    unat p \<le> unat (kernel_early_heap_start s) + 4095 \<and> unat (p + 4096) = unat p + 4096 \<and>
    early_inv (s\<lparr>kernel_early_heap_start := p + 4096\<rparr>) \<and>
    bindE (alloc_page_table s) (\<lambda>(pt, s).
      if pt = 0 then Inl Panic
      else
        bindE (setup_page_table_entries pt s) (\<lambda>s.
        bindE (setup_page_directory_entry (entry_addr pd e) pt s) (\<lambda>s.
        Inr (True, s)))) =
    Inr (True, s\<lparr>kernel_early_heap_start := p + 4096,
      pmem := (pmem s)(pfn p := ident_entry, pfn pd := (pmem s (pfn pd))(d := table_entry p))\<rparr>)"
proof -
  obtain p where p: "kearly_malloc_aligned 4096 4096 s = Inr (p, s\<lparr>kernel_early_heap_start := p + 4096\<rparr>)"
    "p \<noteq> 0" "page_at p" "unat (kernel_early_heap_start s) \<le> unat p"
    "unat p \<le> unat (kernel_early_heap_start s) + 4095" "unat (p + 4096) = unat p + 4096"
    "early_inv (s\<lparr>kernel_early_heap_start := p + 4096\<rparr>)"
    using early_page [OF s(2,3) room] by blast
  define s1 where "s1 = s\<lparr>kernel_early_heap_start := p + 4096\<rparr>"
  have off: "\<not> paging s1" using s(1) by (simp add: s1_def)
  have ne: "pfn p \<noteq> pfn pd" using p(3,4) pd low by auto
  have "alloc_page_table s = Inr (p, put_frame (pfn p) (\<lambda>j. 0) s1)"
    using p(1,2) vzero_phys [OF off p(3)] by (simp add: alloc_page_table_def s1_def)
  moreover note setup_page_table_entries_zeroed [OF off p(3)]
  moreover have "setup_page_directory_entry (entry_addr pd e) p (put_frame (pfn p) ident_entry s1) =
      Inr (put_word (pfn pd) d (table_entry p) (put_frame (pfn p) ident_entry s1))"
    using off ne absent entry_addr_phys [OF pd, of d] e
    by (simp add: setup_page_directory_entry_def phys_access table_entry_def s1_def)
  ultimately show ?thesis
    using p ne by (intro exI [of _ p]) (simp add: s1_def fun_upd_twist)
qed

text \<open>The frames of the directory \<open>pd\<close> and of the two tables, as \<^verbatim>\<open>kvmm_init\<close> leaves them.\<close>

definition boot_tables :: "u32 \<Rightarrow> u32 \<Rightarrow> u32 \<Rightarrow> 'z vmm_state_scheme \<Rightarrow> bool" where
  "boot_tables pd ip hp s \<longleftrightarrow>
     pmem s (pfn pd) = (\<lambda>j. 0)(0 := table_entry ip, 768 := table_entry hp, 1023 := table_entry pd) \<and>
     pmem s (pfn ip) = ident_entry \<and> pmem s (pfn hp) = ident_entry \<and>
     cr3 s = pd \<and> paging s \<and> kvmm_page_directory s = pd \<and>
     page_at pd \<and> page_at ip \<and> page_at hp \<and> pfn pd \<noteq> pfn ip \<and> pfn pd \<noteq> pfn hp \<and> pfn ip \<noteq> pfn hp"

lemma next_page:
  fixes a b f g :: nat
  assumes "a = 4096 * f" "b = 4096 * g" "a + 4096 \<le> b" "b \<le> a + 8191"
  shows "b = a + 4096"
proof -
  have "f + 1 \<le> g" "g < f + 2" using assms by simp_all
  then show ?thesis using assms(1,2) by simp
qed

lemma kvmm_init_tables:
  assumes s: "\<not> paging s" "early_inv s" "kernel_early_heap_available s"
    and room: "unat (kernel_early_heap_start s) + 5 * 4096 \<le> unat (kernel_early_heap_end s)"
  shows "\<exists>pd ip hp s'. kvmm_init s = Inr (True, s') \<and> boot_tables pd ip hp s' \<and>
    unat (kernel_early_heap_start s) \<le> unat pd \<and> unat pd < unat ip \<and> unat ip < unat hp \<and>
    unat hp + 4096 \<le> unat (kernel_early_heap_end s) \<and>
    (\<exists>f. s' = s\<lparr>kernel_early_heap_start := hp + 4096, pmem := f, kvmm_page_directory := pd,
       cr3 := pd, paging := True\<rparr>)"
proof -
  obtain pd where pd: "kearly_malloc_aligned 4096 4096 s = Inr (pd, s\<lparr>kernel_early_heap_start := pd + 4096\<rparr>)"
    "pd \<noteq> 0" "page_at pd" "unat (kernel_early_heap_start s) \<le> unat pd"
    "unat pd \<le> unat (kernel_early_heap_start s) + 4095" "unat (pd + 4096) = unat pd + 4096"
    "early_inv (s\<lparr>kernel_early_heap_start := pd + 4096\<rparr>)"
    using early_page [OF s(2,3)] room by auto
  have pd4: "4096 dvd unat pd + 4096"
    by (subst pd(3)) simp
  define s1 where "s1 = s\<lparr>kernel_early_heap_start := pd + 4096, kvmm_page_directory := pd\<rparr>"
  define s2 where "s2 = put_frame (pfn pd) (\<lambda>j. 0) s1"
  have off: "\<not> paging s1" "\<not> paging s2" using s(1) by (simp_all add: s1_def s2_def)
  have zero: "vzero 1024 pd s1 = Inr s2" using vzero_phys [OF off(1) pd(3)] by (simp add: s2_def)
  have h2: "kernel_early_heap_start s2 = pd + 4096" "kernel_early_heap_end s2 = kernel_early_heap_end s"
    "early_inv s2" "kernel_early_heap_available s2"
    using pd(7) s(3) by (simp_all add: s1_def s2_def early_inv_def)
  have "pmem s2 (pfn pd) 0 = 0" by (simp add: s2_def)
  moreover have "unat pd + 4096 \<le> unat (kernel_early_heap_start s2)"
    "unat (kernel_early_heap_start s2) + 8191 \<le> unat (kernel_early_heap_end s2)" "0 = ucast (0 :: 10 word)"
    using room pd(5,6) h2 by simp_all
  ultimately obtain ip where
    ip: "page_at ip" "unat (pd + 4096) \<le> unat ip" "pfn ip \<noteq> pfn pd" "unat ip \<le> unat (pd + 4096) + 4095"
      "unat (ip + 4096) = unat ip + 4096" "early_inv (s2\<lparr>kernel_early_heap_start := ip + 4096\<rparr>)"
    and im: "setup_identity_mapping pd s2 = Inr (True, s2\<lparr>kernel_early_heap_start := ip + 4096,
        pmem := (pmem s2)(pfn ip := ident_entry, pfn pd := (pmem s2 (pfn pd))(0 := table_entry ip))\<rparr>)"
    using setup_mapping [OF off(2) h2(3,4) pd(3)] unfolding setup_identity_mapping_def h2(1) by blast
  have ip_eq: "unat ip = unat pd + 4096"
    using ip(2,4) pd(6) by (intro next_page [OF pd(3) ip(1)]) simp_all
  define s3 where "s3 = s2\<lparr>kernel_early_heap_start := ip + 4096,
        pmem := (pmem s2)(pfn ip := ident_entry, pfn pd := (pmem s2 (pfn pd))(0 := table_entry ip))\<rparr>"
  have h3: "kernel_early_heap_start s3 = ip + 4096" "kernel_early_heap_end s3 = kernel_early_heap_end s"
    "early_inv s3" "kernel_early_heap_available s3" "\<not> paging s3"
    using ip(6) h2 off by (simp_all add: s3_def early_inv_def)
  have "pmem s3 (pfn pd) 768 = 0" by (simp add: s3_def s2_def)
  moreover have "unat pd + 4096 \<le> unat (kernel_early_heap_start s3)"
    "unat (kernel_early_heap_start s3) + 8191 \<le> unat (kernel_early_heap_end s3)"
    "KVMM_PD_INDEX = ucast (768 :: 10 word)"
    using room pd(5,6) ip(5) ip_eq h3 by (simp_all add: KVMM_PD_INDEX_def KERNEL_VIRTUAL_BASE_def)
  ultimately obtain hp where
    hp: "page_at hp" "unat (ip + 4096) \<le> unat hp" "pfn hp \<noteq> pfn pd" "unat hp \<le> unat (ip + 4096) + 4095"
      "unat (hp + 4096) = unat hp + 4096" "early_inv (s3\<lparr>kernel_early_heap_start := hp + 4096\<rparr>)"
    and hm: "setup_higher_half_mapping pd s3 = Inr (True, s3\<lparr>kernel_early_heap_start := hp + 4096,
        pmem := (pmem s3)(pfn hp := ident_entry, pfn pd := (pmem s3 (pfn pd))(768 := table_entry hp))\<rparr>)"
    using setup_mapping [OF h3(5,3,4) pd(3)] unfolding setup_higher_half_mapping_def h3(1) by blast
  have hp_eq: "unat hp = unat ip + 4096"
    using hp(2,4) ip(5) by (intro next_page [OF ip(1) hp(1)]) simp_all
  define s4 where "s4 = s3\<lparr>kernel_early_heap_start := hp + 4096,
        pmem := (pmem s3)(pfn hp := ident_entry, pfn pd := (pmem s3 (pfn pd))(768 := table_entry hp))\<rparr>"
  define s5 where "s5 = put_word (pfn pd) 1023 (table_entry pd) s4"
  have "setup_recursive_mapping pd s4 = Inr (True, s5)"
    using entry_addr_phys [OF pd(3), of 1023] h3(5)
    by (simp add: setup_recursive_mapping_def Let_def phys_access s5_def s4_def s3_def s2_def table_entry_def)
  then have run: "kvmm_init s = Inr (True, kmmu_enable_paging (kmmu_load_cr3 pd s5))"
    using pd(1,2) zero im hm by (simp add: kvmm_init_def Let_def s1_def [symmetric] s3_def [symmetric] s4_def [symmetric])
  have ne: "pfn ip \<noteq> pfn hp" using hp(1) ip(1) hp_eq by auto
  have "boot_tables pd ip hp (kmmu_enable_paging (kmmu_load_cr3 pd s5))"
    using pd(3) ip(1,3) hp(1,3) ne
    by (auto simp: boot_tables_def kmmu_enable_paging_def kmmu_load_cr3_def s5_def s4_def s3_def s2_def s1_def)
  moreover have "\<exists>f. kmmu_enable_paging (kmmu_load_cr3 pd s5) = s\<lparr>kernel_early_heap_start := hp + 4096, pmem := f,
      kvmm_page_directory := pd, cr3 := pd, paging := True\<rparr>"
    by (rule exI [of _ "pmem s5"]) (simp add: kmmu_enable_paging_def kmmu_load_cr3_def s5_def s4_def s3_def s2_def s1_def)
  moreover have "unat hp + 4096 \<le> unat (kernel_early_heap_end s)"
    using room pd(5) ip_eq hp_eq by simp
  ultimately show ?thesis
    using run pd(4) ip_eq hp_eq
    by (intro exI [of _ pd] exI [of _ ip] exI [of _ hp] exI [of _ "kmmu_enable_paging (kmmu_load_cr3 pd s5)"] conjI)
      simp_all
qed

lemma boot_tables_entries:
  assumes "boot_tables pd ip hp s"
  shows "pd_entry s d = (if d = 0 then table_entry ip else if d = 768 then table_entry hp
      else if d = 1023 then table_entry pd else 0)"
    and "pt_entry s 0 t = ident_entry t" and "pt_entry s 768 t = ident_entry t" and "recursive_ok s"
proof -
  have "pd_entry s = (\<lambda>d. pmem s (pfn pd) d)" "pmem s (pfn ip) = ident_entry" "pmem s (pfn hp) = ident_entry"
    using assms by (auto simp: boot_tables_def pd_entry_def)
  moreover show pd: "pd_entry s d = (if d = 0 then table_entry ip else if d = 768 then table_entry hp
      else if d = 1023 then table_entry pd else 0)" for d
    using assms by (simp add: boot_tables_def pd_entry_def)
  ultimately show "pt_entry s 0 t = ident_entry t" "pt_entry s 768 t = ident_entry t"
    by (simp_all add: pt_entry_def table_entry_fields)
  show "recursive_ok s"
    using assms pd by (simp add: recursive_ok_def table_entry_fields) (simp add: boot_tables_def)
qed

lemma e_present_0 [simp]: "\<not> e_present 0"
  by (simp add: e_present_def)

lemma boot_tables_translate:
  assumes "boot_tables pd ip hp s" "pdi w \<noteq> 1023"
  shows "mmu_translate s w =
    (if pdi w = 0 \<or> pdi w = 768 then Some (join_addr (ident_entry (pti w)) w) else None)"
proof -
  have pg: "paging s" using assms(1) by (simp add: boot_tables_def)
  show ?thesis
    unfolding translate_entries [OF pg] boot_tables_entries(1) [OF assms(1)]
    using assms(2) boot_tables_entries(2,3) [OF assms(1), of "pti w"]
    by (auto simp: table_entry_fields ident_entry_fields)
qed

lemma pdi_unat: "unat (pdi w) = unat w div 4194304"
  using unat_u32_less [of w] by (simp add: pdi_def unat_ucast_32_10 unat_drop_bit)

lemma pdi_eq: "pdi w = d \<longleftrightarrow> unat w div 4194304 = unat d"
  by (simp add: word_unat_eq_iff pdi_unat)

lemma ident_join: "join_addr (ident_entry (pti w)) w = w AND 0x3FFFFF"
proof -
  have m: "(0x3FFFFF :: u32) = mask 22" by (simp add: mask_eq_exp_minus_1)
  have three: "(3 :: u32) = mask 2" by (simp add: mask_eq_exp_minus_1)
  show ?thesis
    unfolding join_addr_def ident_entry_def pti_def m FFF_mask three
    by (rule bit_word_eqI) (auto simp: bit_simps)
qed

lemma unat_and_22: "unat (w AND 0x3FFFFF) = unat w mod 4194304" for w :: u32
proof -
  have "(0x3FFFFF :: u32) = mask 22" by (simp add: mask_eq_exp_minus_1)
  then have "unat (w AND 0x3FFFFF) = take_bit 22 (unat w)"
    by (simp only: take_bit_eq_mask [symmetric] unsigned_take_bit_eq)
  then show ?thesis by (simp add: take_bit_eq_mod)
qed

lemma boot_tables_inv:
  assumes b: "boot_tables pd ip hp s" and pmm: "pmm_inv s"
    and fresh: "unat (pfn pd) \<notin> free_pages s" "unat (pfn ip) \<notin> free_pages s" "unat (pfn hp) \<notin> free_pages s"
  shows "vmm_inv s"
proof -
  note e = boot_tables_entries [OF b]
  have ne: "pfn pd \<noteq> pfn ip" "pfn pd \<noteq> pfn hp" "pfn ip \<noteq> pfn hp" "cr3 s = pd"
    using b by (simp_all add: boot_tables_def)
  have pd: "pd_entry s d = (if d = 0 then table_entry ip else if d = 768 then table_entry hp
      else if d = 1023 then table_entry pd else 0)" for d by (rule e(1))
  have "\<forall>d. d \<noteq> 1023 \<and> e_present (pd_entry s d) \<longrightarrow>
        pfn (pd_entry s d) \<noteq> pfn (cr3 s) \<and> unat (pfn (pd_entry s d)) \<notin> free_pages s \<and>
        (\<forall>d'. d' \<noteq> 1023 \<and> d' \<noteq> d \<and> e_present (pd_entry s d') \<longrightarrow>
           pfn (pd_entry s d') \<noteq> pfn (pd_entry s d))"
    unfolding pd using fresh ne by (auto simp: table_entry_fields)
  then show ?thesis
    using pmm e(3,4) fresh ne pd unfolding vmm_inv_def
    by (simp add: table_entry_fields ident_entry_fields)
qed

section \<open>Properties\<close>

lemma window_iff: "w < 0xFFC00000 \<longleftrightarrow> pdi w \<noteq> 1023"
proof -
  have "unat w div 4194304 = 1023 \<longleftrightarrow> 4290772992 \<le> unat w"
    using unat_u32_less [of w] by (auto intro!: div_nat_eqI simp: div_nat_eqI dest: sym)
  then show ?thesis by (simp add: pdi_eq word_less_nat_alt not_le [symmetric])
qed

lemma kernel_range_iff: "pdi w = 768 \<longleftrightarrow> 0xC0000000 \<le> w \<and> w < 0xC0400000"
proof -
  have "unat w div 4194304 = 768 \<longleftrightarrow> 3221225472 \<le> unat w \<and> unat w < 3225419776"
    by (auto intro!: div_nat_eqI dest: sym)
  then show ?thesis by (simp add: pdi_eq word_less_nat_alt word_le_nat_alt)
qed

lemma identity_range_iff: "pdi w = 0 \<longleftrightarrow> w < 0x400000"
  by (simp add: pdi_eq word_less_nat_alt div_eq_0_iff)

text \<open>
  C13. With paging off, room for three pages in the early heap and a page allocator whose free
  pages lie above it, \<^verbatim>\<open>kvmm_init\<close> succeeds and turns paging on with exactly these mappings
  below the recursive window: the first 4 MiB onto themselves, and the 4 MiB at
  \<^verbatim>\<open>KERNEL_VIRTUAL_BASE\<close> onto the first 4 MiB. The page-table invariant holds.
\<close>

theorem kvmm_init_correct:
  assumes "\<not> paging s" "early_inv s" "kernel_early_heap_available s"
    and "unat (kernel_early_heap_start s) + 5 * 4096 \<le> unat (kernel_early_heap_end s)"
    and "pmm_inv s" "\<forall>k \<in> free_pages s. unat (kernel_early_heap_end s) \<le> 4096 * k"
  shows "\<exists>s'. kvmm_init s = Inr (True, s') \<and> vmm_inv s' \<and>
    (\<forall>w < 0xFFC00000. mmu_translate s' w =
      (if w < 0x400000 then Some w
       else if 0xC0000000 \<le> w \<and> w < 0xC0400000 then Some (w - 0xC0000000)
       else None))"
proof -
  obtain pd ip hp s' f where run: "kvmm_init s = Inr (True, s')" and b: "boot_tables pd ip hp s'"
    and le: "unat pd < unat ip" "unat ip < unat hp" "unat hp + 4096 \<le> unat (kernel_early_heap_end s)"
    and s': "s' = s\<lparr>kernel_early_heap_start := hp + 4096, pmem := f, kvmm_page_directory := pd,
       cr3 := pd, paging := True\<rparr>"
    using kvmm_init_tables [OF assms(1-4)] by blast
  have free: "free_pages s' = free_pages s" "pmm_inv s'"
    using assms(5) by (simp_all add: s' free_pages_def pmm_inv_def)
  have pages: "page_at pd" "page_at ip" "page_at hp" using b by (simp_all add: boot_tables_def)
  have "unat (pfn q) \<notin> free_pages s'" if "page_at q" "unat q \<le> unat hp" for q
    using that assms(6) le(3) free(1) by fastforce
  then have inv: "vmm_inv s'"
    using boot_tables_inv [OF b free(2)] pages le by simp
  have "mmu_translate s' w = (if w < 0x400000 then Some w
       else if 0xC0000000 \<le> w \<and> w < 0xC0400000 then Some (w - 0xC0000000) else None)"
    if "w < 0xFFC00000" for w
  proof -
    have low: "w AND 0x3FFFFF = w" if "w < 0x400000"
      using that by (simp add: word_unat_eq_iff unat_and_22 word_less_nat_alt)
    have high: "w AND 0x3FFFFF = w - 0xC0000000" if w: "0xC0000000 \<le> w" "w < 0xC0400000"
    proof -
      have "unat w div 4194304 = 768" using w pdi_eq [of w 768] kernel_range_iff by simp
      then have "unat w mod 4194304 = unat w - 3221225472"
        using div_mult_mod_eq [of "unat w" 4194304] by linarith
      then show ?thesis using w by (simp add: word_unat_eq_iff unat_and_22 unat_sub)
    qed
    show ?thesis
      using boot_tables_translate [OF b, of w] that low high
      by (simp add: window_iff ident_join kernel_range_iff identity_range_iff)
  qed
  then show ?thesis using run inv by blast
qed

text \<open>A boot state whose only free pages are \<open>8 * n + 1\<close> to \<open>8 * n + 3\<close>; \<open>z\<close> holds the components
  that later theories add to the state.\<close>

definition vmm_boot_at :: "nat \<Rightarrow> 'z \<Rightarrow> 'z vmm_state_scheme" where
  "vmm_boot_at n z = \<lparr>kernel_early_heap_start = 0x120408, kernel_early_heap_end = 0x160004,
     kernel_early_heap_available = True, kpmm_bitmap = 0x120004,
     bitmap_mem = replicate n 0xFF @ [0xF1], kpmm_bitmap_bytes_amout = word_of_nat (Suc n),
     kpmm_pages_amount = word_of_nat (8 * Suc n), kpmm_free_pages_amount = 3,
     pmem = (\<lambda>f i. 0), cr3 = 0, paging = False, kvmm_page_directory = 0, \<dots> = z\<rparr>"

lemma vmm_boot_free: "free_pages (vmm_boot_at n z) = {8 * n + 1, 8 * n + 2, 8 * n + 3}"
proof -
  have "page_free (replicate n 0xFF @ [0xF1]) k \<longleftrightarrow> k = 8 * n + 1 \<or> k = 8 * n + 2 \<or> k = 8 * n + 3" for k
  proof (cases "k < 8 * n")
    case True
    then have "k div 8 < n" by linarith
    then show ?thesis using True bit_FF [of "k mod 8"] by (simp add: page_free_def nth_append)
  next
    case False
    then obtain j where k: "k = 8 * n + j" using le_Suc_ex not_less by blast
    then consider "8 \<le> j" | "j < 8" "k div 8 = n" "k mod 8 = j" by fastforce
    then show ?thesis
    proof cases
      case 1
      then show ?thesis using k by (simp add: page_free_def)
    next
      case 2
      from 2(1) have "j = 0 \<or> j = 1 \<or> j = 2 \<or> j = 3 \<or> j = 4 \<or> j = 5 \<or> j = 6 \<or> j = 7" by linarith
      then have "\<not> bit (0xF1 :: u8) j \<longleftrightarrow> j = 1 \<or> j = 2 \<or> j = 3" by auto
      then show ?thesis using 2 k by (simp add: page_free_def nth_append)
    qed
  qed
  then show ?thesis by (auto simp: free_pages_def vmm_boot_at_def)
qed

lemma vmm_boot_ok:
  "\<not> paging (vmm_boot_at n z)" "early_inv (vmm_boot_at n z)" "kernel_early_heap_available (vmm_boot_at n z)"
  "unat (kernel_early_heap_start (vmm_boot_at n z)) + 5 * 4096 \<le> unat (kernel_early_heap_end (vmm_boot_at n z))"
  "n \<le> 1000 \<Longrightarrow> pmm_inv (vmm_boot_at n z)"
  "44 \<le> n \<Longrightarrow> \<forall>k \<in> free_pages (vmm_boot_at n z). unat (kernel_early_heap_end (vmm_boot_at n z)) \<le> 4096 * k"
proof -
  show "\<not> paging (vmm_boot_at n z)" "early_inv (vmm_boot_at n z)" "kernel_early_heap_available (vmm_boot_at n z)"
    and "unat (kernel_early_heap_start (vmm_boot_at n z)) + 5 * 4096 \<le> unat (kernel_early_heap_end (vmm_boot_at n z))"
    by (simp_all add: vmm_boot_at_def early_inv_def)
  assume "n \<le> 1000"
  then have "unat (word_of_nat (Suc n) :: u32) = Suc n" by (simp only: unat_of_nat) simp
  then show "pmm_inv (vmm_boot_at n z)"
    unfolding pmm_inv_def vmm_boot_free using \<open>n \<le> 1000\<close> by (simp add: vmm_boot_at_def)
next
  show "44 \<le> n \<Longrightarrow> \<forall>k \<in> free_pages (vmm_boot_at n z). unat (kernel_early_heap_end (vmm_boot_at n z)) \<le> 4096 * k"
    unfolding vmm_boot_free by (simp add: vmm_boot_at_def)
qed

theorem kvmm_init_correct_witness:
  "\<exists>s'. kvmm_init (vmm_boot_at 44 ()) = Inr (True, s') \<and> vmm_inv s' \<and> mmu_translate s' 0x1234 = Some 0x1234 \<and>
     mmu_translate s' 0xC0101234 = Some 0x101234 \<and> mmu_translate s' 0xD0000000 = None"
proof -
  obtain s' where "kvmm_init (vmm_boot_at 44 ()) = Inr (True, s')" "vmm_inv s'"
    and tr: "\<forall>w < 0xFFC00000. mmu_translate s' w =
      (if w < 0x400000 then Some w
       else if 0xC0000000 \<le> w \<and> w < 0xC0400000 then Some (w - 0xC0000000) else None)"
    using kvmm_init_correct [OF vmm_boot_ok [of 44 "()"]] by auto
  then show ?thesis
    using tr [rule_format, of "0x1234"] tr [rule_format, of "0xC0101234"]
      tr [rule_format, of "0xD0000000"] by simp
qed

text \<open>
  C4. \<^verbatim>\<open>kvmm_map_page\<close> on aligned addresses below the recursive window and an unmapped page,
  with the page table present or a free frame below 4 MiB for a new one, succeeds; afterwards
  every address of the page translates to the same offset in \<open>p\<close>, every other page translates
  as before, and the page-table invariant is kept.
\<close>

theorem kvmm_map_page_maps:
  assumes "vmm_inv s" "IS_ALIGNED_TO v 4096" "IS_ALIGNED_TO p 4096"
    and "flags AND KVMM_FLAG_PRESENT \<noteq> 0" "v < 0xFFC00000" "mmu_translate s v = None"
    and "e_present (pd_entry s (pdi v)) \<or> low_free s \<noteq> {}"
  shows "\<exists>s'. kvmm_map_page v p flags s = Inr (True, s') \<and> vmm_inv s' \<and>
    (\<forall>w. pfn w = pfn v \<longrightarrow> mmu_translate s' w = Some (p + (w AND 0xFFF))) \<and>
    (\<forall>w < 0xFFC00000. pfn w \<noteq> pfn v \<longrightarrow> mmu_translate s' w = mmu_translate s w)"
  using kvmm_map_page_correct [of s v p flags] assms by (auto simp: page_mapped_def window_iff)

text \<open>The state after \<^verbatim>\<open>kvmm_init\<close>, as the later witnesses use it.\<close>

lemma vmm_boot_after:
  assumes "44 \<le> n" "n \<le> 1000"
  obtains s where "kvmm_init (vmm_boot_at n z) = Inr (True, s)" "vmm_inv s"
    "free_pages s = {8 * n + 1, 8 * n + 2, 8 * n + 3}" "mmu_translate s 0x3000 \<noteq> None"
    "\<And>w. pdi w \<noteq> 0 \<Longrightarrow> pdi w \<noteq> 768 \<Longrightarrow> pdi w \<noteq> 1023 \<Longrightarrow>
      mmu_translate s w = None \<and> \<not> e_present (pd_entry s (pdi w))"
    "vmm_state.more s = z"
proof -
  let ?b = "vmm_boot_at n z"
  obtain pd ip hp s' f where run: "kvmm_init ?b = Inr (True, s')" and b: "boot_tables pd ip hp s'"
    and le: "unat pd < unat ip" "unat ip < unat hp" "unat hp + 4096 \<le> unat (kernel_early_heap_end ?b)"
    and s': "s' = ?b\<lparr>kernel_early_heap_start := hp + 4096, pmem := f, kvmm_page_directory := pd,
       cr3 := pd, paging := True\<rparr>"
    using kvmm_init_tables [OF vmm_boot_ok(1-4) [of n z]] by blast
  have free: "free_pages s' = free_pages ?b" "pmm_inv s'"
    using vmm_boot_ok(5) assms(2) by (simp_all add: s' free_pages_def pmm_inv_def)
  have pages: "page_at pd" "page_at ip" "page_at hp" using b by (simp_all add: boot_tables_def)
  have "unat (pfn q) \<notin> free_pages s'" if "page_at q" "unat q \<le> unat hp" for q
    using that le(3) vmm_boot_ok(6) [OF assms(1)] free(1) by fastforce
  then have inv: "vmm_inv s'" using boot_tables_inv [OF b free(2)] pages le by simp
  have low: "mmu_translate s' 0x3000 \<noteq> None"
    using boot_tables_translate [OF b, of "0x3000"] by (simp add: pdi_eq)
  have "mmu_translate s' w = None \<and> \<not> e_present (pd_entry s' (pdi w))"
    if "pdi w \<noteq> 0" "pdi w \<noteq> 768" "pdi w \<noteq> 1023" for w
    using that boot_tables_translate [OF b, of w] boot_tables_entries(1) [OF b, of "pdi w"] by simp
  moreover have "vmm_state.more s' = z" by (simp add: s' vmm_boot_at_def)
  ultimately show thesis using that [OF run inv _ low] free(1) vmm_boot_free [of n z] by simp
qed

lemma vmm_boot_low_free: "free_pages s = {8 * 44 + 1, 8 * 44 + 2, 8 * 44 + 3} \<Longrightarrow> low_free s = {353, 354, 355}"
  by (auto simp: low_free_def)

theorem kvmm_map_page_maps_witness:
  "\<exists>s s'. kvmm_init (vmm_boot_at 44 ()) = Inr (True, s) \<and> kvmm_map_page 0xD0000000 0x200000 3 s = Inr (True, s') \<and>
     vmm_inv s' \<and> mmu_translate s' 0xD0000123 = Some 0x200123"
proof -
  obtain s where s: "kvmm_init (vmm_boot_at 44 ()) = Inr (True, s)" "vmm_inv s" "low_free s = {353, 354, 355}"
    and none: "\<And>w. pdi w \<noteq> 0 \<Longrightarrow> pdi w \<noteq> 768 \<Longrightarrow> pdi w \<noteq> 1023 \<Longrightarrow> mmu_translate s w = None"
    by (rule vmm_boot_after [of 44 "()"]) (use vmm_boot_low_free in auto)
  have "mmu_translate s 0xD0000000 = None" by (rule none) (simp_all add: pdi_eq)
  then obtain s' where s': "kvmm_map_page 0xD0000000 0x200000 3 s = Inr (True, s')" "vmm_inv s'"
    and tr: "\<forall>w. pfn w = pfn 0xD0000000 \<longrightarrow> mmu_translate s' w = Some (0x200000 + (w AND 0xFFF))"
    using kvmm_map_page_maps [of s "0xD0000000" "0x200000" 3] s(2,3)
    by (auto simp: IS_ALIGNED_TO_def KVMM_FLAG_PRESENT_def)
  have "pfn 0xD0000123 = pfn 0xD0000000" by (simp add: pfn_def)
  then have "mmu_translate s' 0xD0000123 = Some 0x200123" using tr by simp
  then show ?thesis using s(1) s' by blast
qed

text \<open>
  C14. \<^verbatim>\<open>kvmm_map_range\<close> maps every page of the range to the frame at the same distance from
  \<open>p\<close>, and leaves every other page below the recursive window as it was, when the range is
  unmapped and there is a free frame below 4 MiB for each page table it may have to create.
\<close>

theorem kvmm_map_range_maps:
  assumes "vmm_inv s" "IS_ALIGNED_TO v 4096" "IS_ALIGNED_TO p 4096"
    and "flags AND KVMM_FLAG_PRESENT \<noteq> 0" "unat v + 4096 * unat amount \<le> 0xFFC00000"
    and "\<forall>j < unat amount. mmu_translate s (v + KPMM_PAGE_SIZE * word_of_nat j) = None"
    and "unat amount \<le> card (low_free s)"
  shows "\<exists>s'. kvmm_map_range v p flags amount s = Inr (True, s') \<and> vmm_inv s' \<and>
    (\<forall>j < unat amount. \<forall>w. pfn w = pfn (v + KPMM_PAGE_SIZE * word_of_nat j) \<longrightarrow>
       mmu_translate s' w = Some (p + KPMM_PAGE_SIZE * word_of_nat j + (w AND 0xFFF))) \<and>
    (\<forall>w < 0xFFC00000. (\<forall>j < unat amount. pfn w \<noteq> pfn (v + KPMM_PAGE_SIZE * word_of_nat j)) \<longrightarrow>
       mmu_translate s' w = mmu_translate s w)"
proof -
  obtain s' where "map_range_from (unat amount) (word_of_nat 0) v p flags s = Inr (True, s')"
    and m: "range_mapped 0 (unat amount) v p s s'"
    using map_range_from_correct [OF assms(1-4), of 0 "unat amount"] assms(5-7) by auto
  then have "kvmm_map_range v p flags amount s = Inr (True, s')"
    using assms(2,3) by (simp add: kvmm_map_range_def)
  moreover note m [unfolded range_mapped_def atLeastLessThan_iff Ball_def window_iff [symmetric]]
  ultimately show ?thesis by (intro exI [of _ s'] conjI) simp_all
qed

theorem kvmm_map_range_maps_witness:
  "\<exists>s s'. kvmm_init (vmm_boot_at 44 ()) = Inr (True, s) \<and> kvmm_map_range 0xD0000000 0x200000 3 2 s = Inr (True, s') \<and>
     vmm_inv s' \<and> mmu_translate s' 0xD0001008 = Some 0x201008"
proof -
  obtain s where s: "kvmm_init (vmm_boot_at 44 ()) = Inr (True, s)" "vmm_inv s" "low_free s = {353, 354, 355}"
    and none: "\<And>w. pdi w \<noteq> 0 \<Longrightarrow> pdi w \<noteq> 768 \<Longrightarrow> pdi w \<noteq> 1023 \<Longrightarrow> mmu_translate s w = None"
    by (rule vmm_boot_after [of 44 "()"]) (use vmm_boot_low_free in auto)
  have "mmu_translate s 0xD0000000 = None" "mmu_translate s 0xD0001000 = None"
    by (rule none; simp add: pdi_eq)+
  moreover have "j = 0 \<or> j = 1" if "j < unat (2::u32)" for j using that by auto
  ultimately have "\<forall>j < unat (2::u32). mmu_translate s (0xD0000000 + KPMM_PAGE_SIZE * word_of_nat j) = None"
    by (fastforce simp: KPMM_PAGE_SIZE_def)
  then obtain s' where s': "kvmm_map_range 0xD0000000 0x200000 3 2 s = Inr (True, s')" "vmm_inv s'"
    and tr: "\<forall>j < unat (2::u32). \<forall>w. pfn w = pfn (0xD0000000 + KPMM_PAGE_SIZE * word_of_nat j) \<longrightarrow>
       mmu_translate s' w = Some (0x200000 + KPMM_PAGE_SIZE * word_of_nat j + (w AND 0xFFF))"
    using kvmm_map_range_maps [of s "0xD0000000" "0x200000" 3 2] s(2,3)
    by (auto simp: IS_ALIGNED_TO_def KVMM_FLAG_PRESENT_def)
  have "mmu_translate s' 0xD0001008 = Some 0x201008"
    using tr [rule_format, of 1 "0xD0001008"] by (simp add: pfn_def KPMM_PAGE_SIZE_def)
  then show ?thesis using s(1) s' by blast
qed

text \<open>
  C18. \<^verbatim>\<open>kvmm_unmap_page\<close> on an aligned address outside the recursive window and the kernel's
  own 4 MiB reports failure and changes nothing when the page is not mapped; otherwise it
  removes the mapping of that page only. No frame goes back to the page allocator.
\<close>

theorem kvmm_unmap_page_unmaps:
  assumes "vmm_inv s" "IS_ALIGNED_TO v 4096" "v < 0xFFC00000" "v < 0xC0000000 \<or> 0xC0400000 \<le> v"
  shows "if mmu_translate s v = None then kvmm_unmap_page v s = Inr (False, s)
    else \<exists>s'. kvmm_unmap_page v s = Inr (True, s') \<and> vmm_inv s' \<and> free_pages s' = free_pages s \<and>
      (\<forall>w < 0xFFC00000. mmu_translate s' w = (if pfn w = pfn v then None else mmu_translate s w))"
proof -
  have d: "pdi v \<noteq> 1023" "pdi v \<noteq> 768"
    using assms(3,4) kernel_range_iff [of v] by (auto simp: window_iff)
  then show ?thesis
    using kvmm_unmap_page_absent [OF assms(1), of v] kvmm_unmap_page_correct [OF assms(1,2) d]
    by (simp add: window_iff)
qed

theorem kvmm_unmap_page_unmaps_witness:
  "\<exists>s s'. kvmm_init (vmm_boot_at 44 ()) = Inr (True, s) \<and> kvmm_unmap_page 0x3000 s = Inr (True, s') \<and>
     mmu_translate s' 0x3004 = None \<and> mmu_translate s' 0x4004 = mmu_translate s 0x4004"
proof -
  obtain s where s: "kvmm_init (vmm_boot_at 44 ()) = Inr (True, s)" "vmm_inv s" "mmu_translate s 0x3000 \<noteq> None"
    by (rule vmm_boot_after [of 44 "()"]) auto
  then obtain s' where s': "kvmm_unmap_page 0x3000 s = Inr (True, s')"
    and tr: "\<forall>w < 0xFFC00000. mmu_translate s' w = (if pfn w = pfn 0x3000 then None else mmu_translate s w)"
    using kvmm_unmap_page_unmaps [of s "0x3000"] by (auto simp: IS_ALIGNED_TO_def)
  have "mmu_translate s' 0x3004 = None" "mmu_translate s' 0x4004 = mmu_translate s 0x4004"
    using tr [rule_format, of "0x3004"] tr [rule_format, of "0x4004"] by (simp_all add: pfn_def)
  then show ?thesis using s(1) s' by blast
qed

text \<open>
  C40. When a page table has to be created and every free frame lies above 4 MiB, in a part of
  the higher half that is not mapped, \<^verbatim>\<open>kvmm_map_page\<close> does not return: clearing the new table
  through \<^verbatim>\<open>PHYS_TO_VIRT\<close> faults, although physical memory is left.
\<close>

theorem kvmm_map_page_faults:
  assumes "vmm_inv s" "IS_ALIGNED_TO v 4096" "IS_ALIGNED_TO p 4096" "\<not> e_present (pd_entry s (pdi v))"
    and "free_pages s \<noteq> {}"
    and "\<forall>k \<in> free_pages s. mmu_translate s (PHYS_TO_VIRT (word_of_nat (4096 * k))) = None"
  shows "kvmm_map_page v p flags s = Inl PageFault"
proof -
  have inv: "pmm_inv s" "recursive_ok s" "paging s" using assms(1) by (simp_all add: vmm_inv_def recursive_ok_def)
  obtain k where k: "k \<in> free_pages s" using assms(5) by blast
  then have "free_run (bitmap_mem s) (unat 1) k" by (simp add: free_run_def free_pages_def)
  then obtain q s1 where q: "kpmm_alloc_pages 1 s = Inr (word_of_nat (4096 * q), s1)" "0 < q" "q < 2 ^ 20"
      "first_fit (bitmap_mem s) (unat 1) q" "pmm_frame s s1"
    using alloc_pages_found [OF inv(1), of 1] by auto
  let ?q = "word_of_nat (4096 * q) :: u32"
  have "q \<in> free_pages s" using q(4) by (simp add: first_fit_def free_run_def free_pages_def)
  then have "mmu_translate s (PHYS_TO_VIRT ?q) = None" using assms(6) by blast
  then have "mmu_translate s1 (PHYS_TO_VIRT ?q) = None"
    using inv(3) frame_pmm [OF q(5)] by (simp add: translate_entries split: if_splits)
  then have fault: "vzero 1024 (PHYS_TO_VIRT ?q) s1 = Inl PageFault"
    by (simp add: numeral_eq_Suc vwrite_def)
  have "unat ?q = 4096 * q" using q(3) by (simp add: unat_word_ariths unat_of_nat)
  then have "?q \<noteq> 0" using q(2) by (metis mult_is_0 neq0_conv unat_0 zero_neq_numeral)
  then show ?thesis
    using assms(2-4) inv(2) q(1) fault
    by (simp add: kvmm_map_page_def map_page_table_def Let_def pde_index_pdi recursive_pde)
qed

theorem kvmm_map_page_faults_witness:
  "\<exists>s. kvmm_init (vmm_boot_at 200 ()) = Inr (True, s) \<and> free_pages s = {1601, 1602, 1603} \<and>
     kvmm_map_page 0xD0000000 0x200000 3 s = Inl PageFault"
proof -
  obtain s where s: "kvmm_init (vmm_boot_at 200 ()) = Inr (True, s)" "vmm_inv s" "free_pages s = {1601, 1602, 1603}"
    and none: "\<And>w. pdi w \<noteq> 0 \<Longrightarrow> pdi w \<noteq> 768 \<Longrightarrow> pdi w \<noteq> 1023 \<Longrightarrow>
      mmu_translate s w = None \<and> \<not> e_present (pd_entry s (pdi w))"
    by (rule vmm_boot_after [of 200 "()"]) auto
  have "mmu_translate s 0xC0641000 = None" "mmu_translate s 0xC0642000 = None"
    "mmu_translate s 0xC0643000 = None"
    "\<not> e_present (pd_entry s (pdi 0xD0000000))"
    using none [of "0xC0641000"] none [of "0xC0642000"] none [of "0xC0643000"] none [of "0xD0000000"] by (simp_all add: pdi_eq)
  then show ?thesis
    using s kvmm_map_page_faults [of s "0xD0000000" "0x200000" 3]
    by (simp add: IS_ALIGNED_TO_def PHYS_TO_VIRT_def KERNEL_VIRTUAL_BASE_def)
qed

end
