(* ===== verification/Kmemory.thy ===== *)
theory Kmemory
  imports Vmm
begin

text \<open>
  The bytes of the kernel's address space and the memory primitives
  (\<^verbatim>\<open>src/utils/kstdlib/kmemory\<close>). A byte is read and written at a virtual address that the
  page tables must map. The headers of the heap are kept as records beside the bytes: reading
  a byte of a header yields its little-endian encoding, and writing one is the error \<open>Overrun\<close>,
  so a write that leaves its block is never silent.
\<close>

section \<open>State\<close>

record kmalloc_header =
  h_free :: u32
  h_size :: u32
  h_next :: u32

record heap_state = vmm_state +
  mem :: "u32 \<Rightarrow> u8"
  hdrs :: "u32 \<rightharpoonup> kmalloc_header"
  kernel_heap_base :: u32
  kernel_heap_brk :: u32
  kernel_heap_limit :: u32
  kernel_heap_lh :: u32

text \<open>\<^verbatim>\<open>sizeof(kmalloc_header_t)\<close>.\<close>

definition header_size :: u32 where
  "header_size = 12"

definition header_byte :: "kmalloc_header \<Rightarrow> nat \<Rightarrow> u8" where
  "header_byte h j =
    ucast (drop_bit (8 * (j mod 4))
      (if j < 4 then h_free h else if j < 8 then h_size h else h_next h))"

text \<open>The header an address lies in, and its offset there.\<close>

definition header_at :: "'z heap_state_scheme \<Rightarrow> u32 \<Rightarrow> (kmalloc_header \<times> nat) option" where
  "header_at s a =
    (case find (\<lambda>j. hdrs s (a - word_of_nat j) \<noteq> None) [0..<12] of
       None \<Rightarrow> None
     | Some j \<Rightarrow> map_option (\<lambda>h. (h, j)) (hdrs s (a - word_of_nat j)))"

section \<open>Bytes\<close>

definition rd8 :: "u32 \<Rightarrow> 'z heap_state_scheme \<Rightarrow> u8 kres" where
  "rd8 a s =
    (if mmu_translate s a = None then Inl PageFault
     else case header_at s a of Some (h, j) \<Rightarrow> Inr (header_byte h j) | None \<Rightarrow> Inr (mem s a))"

definition wr8 :: "u32 \<Rightarrow> u8 \<Rightarrow> 'z heap_state_scheme \<Rightarrow> 'z heap_state_scheme kres" where
  "wr8 a b s =
    (if mmu_translate s a = None then Inl PageFault
     else if header_at s a \<noteq> None then Inl Overrun
     else Inr (s\<lparr>mem := (mem s)(a := b)\<rparr>))"

section \<open>Memory primitives\<close>

fun memset_loop :: "nat \<Rightarrow> u32 \<Rightarrow> u8 \<Rightarrow> 'z heap_state_scheme \<Rightarrow> 'z heap_state_scheme kres" where
  "memset_loop 0 ptr byte s = Inr s"
| "memset_loop (Suc len) ptr byte s = bindE (wr8 ptr byte s) (memset_loop len (ptr + 1) byte)"

definition kmemset ::
    "u32 \<Rightarrow> u8 \<Rightarrow> u32 \<Rightarrow> 'z heap_state_scheme \<Rightarrow> (u32 \<times> 'z heap_state_scheme) kres" where
  "kmemset addr byte len s =
    (if addr = 0 then Inr (0, s)
     else bindE (memset_loop (unat len) addr byte s) (\<lambda>s. Inr (addr, s)))"

text \<open>A 16-bit store is its two bytes, low byte first.\<close>

fun wmemset_loop :: "nat \<Rightarrow> u32 \<Rightarrow> u16 \<Rightarrow> 'z heap_state_scheme \<Rightarrow> 'z heap_state_scheme kres" where
  "wmemset_loop 0 ptr w s = Inr s"
| "wmemset_loop (Suc len) ptr w s =
    bindE (wr8 ptr (ucast w) s) (\<lambda>s.
    bindE (wr8 (ptr + 1) (ucast (drop_bit 8 w)) s) (wmemset_loop len (ptr + 2) w))"

definition kwmemset ::
    "u32 \<Rightarrow> u16 \<Rightarrow> u32 \<Rightarrow> 'z heap_state_scheme \<Rightarrow> (u32 \<times> 'z heap_state_scheme) kres" where
  "kwmemset addr w len s =
    (if addr = 0 then Inr (0, s)
     else bindE (wmemset_loop (unat len) addr w s) (\<lambda>s. Inr (addr, s)))"

fun copy_up :: "nat \<Rightarrow> u32 \<Rightarrow> u32 \<Rightarrow> 'z heap_state_scheme \<Rightarrow> 'z heap_state_scheme kres" where
  "copy_up 0 dst src s = Inr s"
| "copy_up (Suc n) dst src s =
    bindE (rd8 src s) (\<lambda>b. bindE (wr8 dst b s) (copy_up n (dst + 1) (src + 1)))"

fun copy_down :: "nat \<Rightarrow> u32 \<Rightarrow> u32 \<Rightarrow> 'z heap_state_scheme \<Rightarrow> 'z heap_state_scheme kres" where
  "copy_down 0 dst src s = Inr s"
| "copy_down (Suc n) dst src s =
    bindE (rd8 src s) (\<lambda>b. bindE (wr8 dst b s) (copy_down n (dst - 1) (src - 1)))"

definition kmemcpy ::
    "u32 \<Rightarrow> u32 \<Rightarrow> u32 \<Rightarrow> 'z heap_state_scheme \<Rightarrow> (u32 \<times> 'z heap_state_scheme) kres" where
  "kmemcpy dst src n s =
    (if dst = 0 \<or> src = 0 then Inr (0, s)
     else bindE (copy_up (unat n) dst src s) (\<lambda>s. Inr (dst, s)))"

definition kmemmove ::
    "u32 \<Rightarrow> u32 \<Rightarrow> u32 \<Rightarrow> 'z heap_state_scheme \<Rightarrow> (u32 \<times> 'z heap_state_scheme) kres" where
  "kmemmove dst src n s =
    (if dst = 0 \<or> src = 0 then Inr (0, s)
     else if src < dst then
       bindE (copy_down (unat n) (dst + (n - 1)) (src + (n - 1)) s) (\<lambda>s. Inr (dst, s))
     else bindE (copy_up (unat n) dst src s) (\<lambda>s. Inr (dst, s)))"

section \<open>Ordinary memory\<close>

text \<open>The \<open>n\<close> bytes from \<open>a\<close> are mapped, hold no header and do not wrap around.\<close>

definition plain :: "'z heap_state_scheme \<Rightarrow> u32 \<Rightarrow> nat \<Rightarrow> bool" where
  "plain s a n \<longleftrightarrow> unat a + n \<le> 2 ^ 32 \<and>
     (\<forall>x. unat a \<le> unat x \<and> unat x < unat a + n \<longrightarrow> mmu_translate s x \<noteq> None \<and> header_at s x = None)"

text \<open>Memory after filling a range, and after moving bytes \<open>lo\<close> to \<open>hi - 1\<close> of a range.\<close>

definition filled :: "(u32 \<Rightarrow> u8) \<Rightarrow> u32 \<Rightarrow> u8 \<Rightarrow> nat \<Rightarrow> u32 \<Rightarrow> u8" where
  "filled f a b n x = (if unat a \<le> unat x \<and> unat x < unat a + n then b else f x)"

definition moved :: "(u32 \<Rightarrow> u8) \<Rightarrow> u32 \<Rightarrow> u32 \<Rightarrow> nat \<Rightarrow> nat \<Rightarrow> u32 \<Rightarrow> u8" where
  "moved f dst src lo hi x =
    (if unat dst + lo \<le> unat x \<and> unat x < unat dst + hi then f (src + (x - dst)) else f x)"

named_theorems mem_simps \<open>state components an update of the bytes keeps\<close>

lemma translate_mem [mem_simps]: "mmu_translate (s\<lparr>mem := f\<rparr>) x = mmu_translate s x"
  by (simp add: mmu_translate_def pte_of_def pde_of_def)

lemma header_at_mem [mem_simps]: "header_at (s\<lparr>mem := f\<rparr>) x = header_at s x"
  by (simp add: header_at_def cong: option.case_cong)

lemma header_at_None_iff: "header_at s a = None \<longleftrightarrow> (\<forall>j < 12. hdrs s (a - word_of_nat j) = None)"
proof (cases "find (\<lambda>j. hdrs s (a - word_of_nat j) \<noteq> None) [0..<12]")
  case None
  then have "header_at s a = None" unfolding header_at_def by simp
  moreover have "\<forall>j < 12. hdrs s (a - word_of_nat j) = None"
    using None by (auto simp: find_None_iff)
  ultimately show ?thesis by simp
next
  case (Some j)
  then have "j < 12" "hdrs s (a - word_of_nat j) \<noteq> None" by (auto simp: find_Some_iff)
  moreover have "header_at s a = map_option (\<lambda>h. (h, j)) (hdrs s (a - word_of_nat j))"
    using Some unfolding header_at_def by simp
  ultimately show ?thesis by auto
qed

lemma plain_mem [mem_simps]: "plain (s\<lparr>mem := f\<rparr>) a n = plain s a n"
  by (simp add: plain_def mem_simps)

lemma unat_offset: "unat (a :: u32) + i < 2 ^ 32 \<Longrightarrow> unat (a + word_of_nat i) = unat a + i"
  by (simp add: unat_word_ariths unat_of_nat)

lemma plain_access:
  assumes "plain s a n" "i < n"
  shows "rd8 (a + word_of_nat i) (s\<lparr>mem := f\<rparr>) = Inr (f (a + word_of_nat i))"
    and "wr8 (a + word_of_nat i) b (s\<lparr>mem := f\<rparr>) = Inr (s\<lparr>mem := f(a + word_of_nat i := b)\<rparr>)"
  using assms unat_offset [of a i] by (auto simp: plain_def rd8_def wr8_def mem_simps)

lemma memset_loop_plain:
  assumes "plain s a n" "i + k = n"
  shows "memset_loop k (a + word_of_nat i) b (s\<lparr>mem := filled (mem s) a b i\<rparr>) =
    Inr (s\<lparr>mem := filled (mem s) a b n\<rparr>)"
  using assms(2)
proof (induction k arbitrary: i)
  case 0
  then show ?case by simp
next
  case (Suc k)
  then have i: "i < n" "unat (a + word_of_nat i) = unat a + i"
    using assms(1) by (auto simp: plain_def intro!: unat_offset)
  have "(filled (mem s) a b i)(a + word_of_nat i := b) = filled (mem s) a b (Suc i)"
    using i(2) by (auto simp: filled_def fun_eq_iff word_unat_eq_iff less_Suc_eq)
  then have "memset_loop (Suc k) (a + word_of_nat i) b (s\<lparr>mem := filled (mem s) a b i\<rparr>) =
      memset_loop k (a + word_of_nat i + 1) b (s\<lparr>mem := filled (mem s) a b (Suc i)\<rparr>)"
    using plain_access(2) [OF assms(1) i(1)] by simp
  then show ?case using Suc.IH [of "Suc i"] Suc.prems by (simp add: ac_simps)
qed

lemma kmemset_plain:
  assumes "plain s a (unat n)" "a \<noteq> 0"
  shows "kmemset a b n s = Inr (a, s\<lparr>mem := filled (mem s) a b (unat n)\<rparr>)"
proof -
  have "filled (mem s) a b 0 = mem s" by (rule ext) (auto simp: filled_def)
  then show ?thesis using memset_loop_plain [OF assms(1), of 0 "unat n" b] assms(2)
    by (simp add: kmemset_def)
qed

text \<open>Both copy loops, when the bytes still to be read have not been overwritten.\<close>

lemma copy_step:
  assumes dst: "plain s dst n" and src: "plain s src n"
    and sep: "dst \<le> src \<or> unat src + n \<le> unat dst" and i: "i < n"
  shows "rd8 (src + word_of_nat i) (s\<lparr>mem := moved (mem s) dst src 0 i\<rparr>) = Inr (mem s (src + word_of_nat i))"
    and "wr8 (dst + word_of_nat i) (mem s (src + word_of_nat i)) (s\<lparr>mem := moved (mem s) dst src 0 i\<rparr>) =
      Inr (s\<lparr>mem := moved (mem s) dst src 0 (Suc i)\<rparr>)"
proof -
  have u: "unat (dst + word_of_nat i) = unat dst + i" "unat (src + word_of_nat i) = unat src + i"
    using dst src i by (auto simp: plain_def intro!: unat_offset)
  let ?f = "moved (mem s) dst src 0 i"
  have "?f (src + word_of_nat i) = mem s (src + word_of_nat i)"
    using sep i u by (auto simp: moved_def word_le_nat_alt)
  then show "rd8 (src + word_of_nat i) (s\<lparr>mem := ?f\<rparr>) = Inr (mem s (src + word_of_nat i))"
    using plain_access(1) [OF src i] by simp
  have "?f(dst + word_of_nat i := mem s (src + word_of_nat i)) = moved (mem s) dst src 0 (Suc i)"
    using u(1) by (auto simp: moved_def fun_eq_iff word_unat_eq_iff less_Suc_eq)
      (simp add: word_unat_eq_iff [symmetric] flip: u(1))
  then show "wr8 (dst + word_of_nat i) (mem s (src + word_of_nat i)) (s\<lparr>mem := ?f\<rparr>) =
      Inr (s\<lparr>mem := moved (mem s) dst src 0 (Suc i)\<rparr>)"
    using plain_access(2) [OF dst i] by simp
qed

lemma copy_up_plain:
  assumes dst: "plain s dst n" and src: "plain s src n"
    and sep: "dst \<le> src \<or> unat src + n \<le> unat dst" and "i + k = n"
  shows "copy_up k (dst + word_of_nat i) (src + word_of_nat i) (s\<lparr>mem := moved (mem s) dst src 0 i\<rparr>) =
    Inr (s\<lparr>mem := moved (mem s) dst src 0 n\<rparr>)"
  using assms(4)
proof (induction k arbitrary: i)
  case 0
  then show ?case by simp
next
  case (Suc k)
  then show ?case using copy_step [OF dst src sep, of i] Suc.IH [of "Suc i"] by (simp add: ac_simps)
qed

lemma copy_down_plain:
  assumes dst: "plain s dst n" and src: "plain s src n" and sep: "src < dst" and "k \<le> n"
  shows "copy_down k (dst + word_of_nat k - 1) (src + word_of_nat k - 1)
      (s\<lparr>mem := moved (mem s) dst src k n\<rparr>) =
    Inr (s\<lparr>mem := moved (mem s) dst src 0 n\<rparr>)"
  using assms(4)
proof (induction k)
  case 0
  then show ?case by simp
next
  case (Suc k)
  then have i: "k < n" "unat (dst + word_of_nat k) = unat dst + k" "unat (src + word_of_nat k) = unat src + k"
    using dst src by (auto simp: plain_def intro!: unat_offset)
  let ?f = "moved (mem s) dst src (Suc k) n"
  have rd: "?f (src + word_of_nat k) = mem s (src + word_of_nat k)"
    using sep i by (auto simp: moved_def word_less_nat_alt)
  have "?f(dst + word_of_nat k := mem s (src + word_of_nat k)) = moved (mem s) dst src k n"
    using i by (auto simp: moved_def fun_eq_iff word_unat_eq_iff Suc_le_eq)
      (simp add: word_unat_eq_iff [symmetric] flip: i(2))
  then have "copy_down (Suc k) (dst + word_of_nat k) (src + word_of_nat k) (s\<lparr>mem := ?f\<rparr>) =
      copy_down k (dst + word_of_nat k - 1) (src + word_of_nat k - 1) (s\<lparr>mem := moved (mem s) dst src k n\<rparr>)"
    using plain_access(1) [OF src i(1)] plain_access(2) [OF dst i(1)] rd by simp
  then show ?case using Suc.IH Suc.prems by simp
qed

lemma moved_none: "moved f dst src n n = f"
  by (rule ext) (auto simp: moved_def)

lemma kmemcpy_plain:
  assumes "plain s dst (unat n)" "plain s src (unat n)" "dst \<noteq> 0" "src \<noteq> 0"
    and "dst \<le> src \<or> unat src + unat n \<le> unat dst"
  shows "kmemcpy dst src n s = Inr (dst, s\<lparr>mem := moved (mem s) dst src 0 (unat n)\<rparr>)"
  using copy_up_plain [OF assms(1,2,5), of 0 "unat n"] assms(3,4) by (simp add: kmemcpy_def moved_none)

lemma kmemmove_plain:
  assumes "plain s dst (unat n)" "plain s src (unat n)" "dst \<noteq> 0" "src \<noteq> 0"
  shows "kmemmove dst src n s = Inr (dst, s\<lparr>mem := moved (mem s) dst src 0 (unat n)\<rparr>)"
proof (cases "src < dst")
  case True
  then show ?thesis using copy_down_plain [OF assms(1,2) True order_refl] assms(3,4)
    by (simp add: kmemmove_def moved_none add_diff_eq)
next
  case False
  then have "dst \<le> src" by simp
  then show ?thesis using False copy_up_plain [OF assms(1,2), of 0 "unat n"] assms(3,4)
    by (simp add: kmemmove_def moved_none)
qed

text \<open>Memory after filling a range with 16-bit words.\<close>

definition wfilled :: "(u32 \<Rightarrow> u8) \<Rightarrow> u32 \<Rightarrow> u16 \<Rightarrow> nat \<Rightarrow> u32 \<Rightarrow> u8" where
  "wfilled f a w n x =
    (if unat a \<le> unat x \<and> unat x < unat a + 2 * n
     then if even (unat x - unat a) then ucast w else ucast (drop_bit 8 w) else f x)"

lemma wmemset_loop_plain:
  assumes "plain s a (2 * n)" "i + k = n"
  shows "wmemset_loop k (a + word_of_nat (2 * i)) w (s\<lparr>mem := wfilled (mem s) a w i\<rparr>) =
    Inr (s\<lparr>mem := wfilled (mem s) a w n\<rparr>)"
  using assms(2)
proof (induction k arbitrary: i)
  case 0
  then show ?case by simp
next
  case (Suc k)
  define A B where "A = a + word_of_nat (2 * i)" and "B = a + word_of_nat (Suc (2 * i))"
  have ix: "2 * i < 2 * n" "Suc (2 * i) < 2 * n" using Suc.prems by auto
  then have u: "unat A = unat a + 2 * i" "unat B = unat a + Suc (2 * i)"
    using assms(1) unat_offset [of a "2 * i"] unat_offset [of a "Suc (2 * i)"]
    by (simp_all add: plain_def A_def B_def del: of_nat_mult of_nat_Suc)
  have eqs: "x = A \<longleftrightarrow> unat x = unat a + 2 * i" "x = B \<longleftrightarrow> unat x = unat a + Suc (2 * i)" for x
    by (simp_all add: word_unat_eq_iff u)
  have upd: "(wfilled (mem s) a w i)(A := ucast w, B := ucast (drop_bit 8 w)) = wfilled (mem s) a w (Suc i)"
    by (rule ext) (simp only: fun_upd_def eqs, auto simp: wfilled_def)
  have "A + 1 = B" and next_a: "A + 2 = a + word_of_nat (2 * Suc i)" by (simp_all add: A_def B_def)
  then have "wmemset_loop (Suc k) A w (s\<lparr>mem := wfilled (mem s) a w i\<rparr>) =
      wmemset_loop k (A + 2) w (s\<lparr>mem := wfilled (mem s) a w (Suc i)\<rparr>)"
    using plain_access(2) [OF assms(1) ix(1), folded A_def] plain_access(2) [OF assms(1) ix(2), folded B_def]
    by (simp flip: upd)
  moreover have "wmemset_loop k (A + 2) w (s\<lparr>mem := wfilled (mem s) a w (Suc i)\<rparr>) = Inr (s\<lparr>mem := wfilled (mem s) a w n\<rparr>)"
    unfolding next_a by (rule Suc.IH) (use Suc.prems in simp)
  ultimately show ?case unfolding A_def by (rule trans)
qed

lemma kwmemset_plain:
  assumes "plain s a (2 * unat n)" "a \<noteq> 0"
  shows "kwmemset a w n s = Inr (a, s\<lparr>mem := wfilled (mem s) a w (unat n)\<rparr>)"
proof -
  have "wfilled (mem s) a w 0 = mem s" by (rule ext) (auto simp: wfilled_def)
  then show ?thesis using wmemset_loop_plain [OF assms(1), of 0 "unat n" w] assms(2)
    by (simp add: kwmemset_def)
qed

section \<open>Properties\<close>

text \<open>
  C17. \<^verbatim>\<open>kmemmove\<close> is a correct move for every overlap of source and destination: afterwards
  each destination byte is the byte the source had before the call, and no other byte changed.
\<close>

theorem kmemmove_correct:
  assumes "plain s dst (unat n)" "plain s src (unat n)" "dst \<noteq> 0" "src \<noteq> 0"
  shows "\<exists>s'. kmemmove dst src n s = Inr (dst, s') \<and> s' = s\<lparr>mem := mem s'\<rparr> \<and>
    (\<forall>i < unat n. mem s' (dst + word_of_nat i) = mem s (src + word_of_nat i)) \<and>
    (\<forall>x. unat x < unat dst \<or> unat dst + unat n \<le> unat x \<longrightarrow> mem s' x = mem s x)"
proof -
  note kmemmove_plain [OF assms]
  moreover have "moved (mem s) dst src 0 (unat n) (dst + word_of_nat i) = mem s (src + word_of_nat i)"
    if "i < unat n" for i
    using that assms(1) unat_offset [of dst i] by (auto simp: moved_def plain_def)
  ultimately show ?thesis by (auto simp: moved_def)
qed

text \<open>A machine with paging off, no heap, and the bytes \<open>f\<close>.\<close>

definition flat_memory :: "(u32 \<Rightarrow> u8) \<Rightarrow> heap_state" where
  "flat_memory f = \<lparr>kernel_early_heap_start = 0, kernel_early_heap_end = 0,
     kernel_early_heap_available = False, kpmm_bitmap = 0, bitmap_mem = [],
     kpmm_bitmap_bytes_amout = 0, kpmm_pages_amount = 0, kpmm_free_pages_amount = 0,
     pmem = (\<lambda>f i. 0), cr3 = 0, paging = False, kvmm_page_directory = 0,
     mem = f, hdrs = (\<lambda>a. None), kernel_heap_base = 0, kernel_heap_brk = 0,
     kernel_heap_limit = 0, kernel_heap_lh = 0\<rparr>"

lemma flat_memory_plain: "unat a + n \<le> 2 ^ 32 \<Longrightarrow> plain (flat_memory f) a n"
  by (simp add: plain_def mmu_translate_def header_at_None_iff)
     (simp add: flat_memory_def)

lemma mem_flat_memory [simp]: "mem (flat_memory f) = f"
  by (simp add: flat_memory_def)

theorem kmemmove_correct_witness:
  "\<exists>s'. kmemmove 0x1001 0x1000 3 (flat_memory (\<lambda>x. ucast x)) = Inr (0x1001, s') \<and>
     mem s' 0x1001 = 0 \<and> mem s' 0x1002 = 1 \<and> mem s' 0x1003 = 2 \<and> mem s' 0x1004 = 4"
proof -
  let ?s = "flat_memory (\<lambda>x. ucast x)"
  have "plain ?s 0x1001 (unat (3::u32))" "plain ?s 0x1000 (unat (3::u32))"
    by (simp_all add: flat_memory_plain)
  then obtain s' where run: "kmemmove 0x1001 0x1000 3 ?s = Inr (0x1001, s')"
    and in_range: "\<forall>i < unat (3::u32). mem s' (0x1001 + word_of_nat i) = mem ?s (0x1000 + word_of_nat i)"
    and rest: "\<forall>x. unat x < unat (0x1001::u32) \<or> unat (0x1001::u32) + unat (3::u32) \<le> unat x \<longrightarrow> mem s' x = mem ?s x"
    using kmemmove_correct [of ?s "0x1001" 3 "0x1000"] by auto
  have "mem s' 0x1001 = 0" "mem s' 0x1002 = 1" "mem s' 0x1003 = 2"
    using in_range [rule_format, of 0] in_range [rule_format, of 1] in_range [rule_format, of 2] by simp_all
  moreover have "mem s' 0x1004 = 4" using rest [rule_format, of "0x1004"] by simp
  ultimately show ?thesis using run by blast
qed

end
