(* ===== verification/Kmalloc.thy ===== *)
theory Kmalloc
  imports Kmemory
begin

text \<open>
  The kernel heap (\<^verbatim>\<open>src/kernel/memory/api\<close>): blocks of whole pages, each behind a 12-byte
  header, linked from the youngest to the oldest. The search of \<^verbatim>\<open>kmalloc\<close> follows pointers and
  is a partial function, shown to return under the heap's invariant. The locale
  \<open>heap_allocator\<close> is the contract the file system and the scheduler rely on.
\<close>

section \<open>Headers\<close>

definition KMALLOC_PAGE_SIZE :: u32 where
  "KMALLOC_PAGE_SIZE = 4096"

definition KMALLOC_GO_AFTER_HEADER :: "u32 \<Rightarrow> u32" where
  "KMALLOC_GO_AFTER_HEADER h = h + header_size"

definition KMALLOC_GO_BEFORE_HEADER :: "u32 \<Rightarrow> u32" where
  "KMALLOC_GO_BEFORE_HEADER p = p - header_size"

text \<open>Access to a header as a record: it must be mapped, and there must be one to read.\<close>

definition rd_hdr :: "u32 \<Rightarrow> 'z heap_state_scheme \<Rightarrow> kmalloc_header kres" where
  "rd_hdr a s =
    (if mmu_translate s a = None then Inl PageFault else from_option PageFault (hdrs s a))"

definition wr_hdr :: "u32 \<Rightarrow> kmalloc_header \<Rightarrow> 'z heap_state_scheme \<Rightarrow> 'z heap_state_scheme kres" where
  "wr_hdr a h s =
    (if mmu_translate s a = None then Inl PageFault else Inr (s\<lparr>hdrs := (hdrs s)(a \<mapsto> h)\<rparr>))"

section \<open>Operations\<close>

text \<open>The arguments are the linker symbols \<^verbatim>\<open>__kernel_heap_start\<close> and \<^verbatim>\<open>__kernel_heap_end\<close>.\<close>

definition kmalloc_init ::
    "u32 \<Rightarrow> u32 \<Rightarrow> 'z heap_state_scheme \<Rightarrow> (bool \<times> 'z heap_state_scheme) kres" where
  "kmalloc_init heap_start heap_end s =
    bindE (kpmm_alloc_pages 1 s) (\<lambda>(first_frame, s).
    let s = s\<lparr>kernel_heap_base := heap_start\<rparr> in
    if first_frame = 0 then Inl Panic
    else
      bindE (kvmm_map_page (kernel_heap_base s) first_frame (KVMM_FLAG_PRESENT OR KVMM_FLAG_RW) s) (\<lambda>(ok, s).
      if \<not> ok then Inl Panic
      else
        let header = kernel_heap_base s in
        bindE (wr_hdr header \<lparr>h_free = OK_TRUE, h_size = KMALLOC_PAGE_SIZE - header_size, h_next = 0\<rparr> s) (\<lambda>s.
        Inr (True, s\<lparr>kernel_heap_brk := kernel_heap_base s + KMALLOC_PAGE_SIZE,
                     kernel_heap_limit := heap_end, kernel_heap_lh := header\<rparr>))))"

partial_function (option) find_free_from ::
    "u32 \<Rightarrow> u32 \<Rightarrow> 'z heap_state_scheme \<Rightarrow> u32 kres option" where
  "find_free_from sz tmp_header s =
    (if tmp_header = 0 then Some (Inr 0)
     else case rd_hdr tmp_header s of
       Inl e \<Rightarrow> Some (Inl e)
     | Inr h \<Rightarrow>
         if h_free h = OK_TRUE \<and> h_size h \<ge> sz then Some (Inr tmp_header)
         else find_free_from sz (h_next h) s)"

definition find_free_heap_header :: "u32 \<Rightarrow> 'z heap_state_scheme \<Rightarrow> u32 kres" where
  "find_free_heap_header sz s =
    returned (find_free_from sz (kernel_heap_lh s) s)"

definition pages_to_get :: "u32 \<Rightarrow> u32" where
  "pages_to_get sz = (sz + header_size + KMALLOC_PAGE_SIZE - 1) div KMALLOC_PAGE_SIZE"

definition create_heap_header ::
    "u32 \<Rightarrow> 'z heap_state_scheme \<Rightarrow> (u32 \<times> 'z heap_state_scheme) kres" where
  "create_heap_header sz s =
    (let header = kernel_heap_brk s; pages = pages_to_get sz in
     if sz = 0 \<or> pages = 0 then Inr (0, s)
     else if kernel_heap_brk s + sz + header_size > kernel_heap_limit s then Inr (0, s)
     else
       bindE (kpmm_alloc_pages pages s) (\<lambda>(frame, s).
       if frame = 0 then Inr (0, s)
       else
         bindE (kvmm_map_range header frame (KVMM_FLAG_PRESENT OR KVMM_FLAG_RW) pages s) (\<lambda>(ok, s).
         if \<not> ok then Inr (0, s)
         else
           bindE (wr_hdr header \<lparr>h_free = KO_FALSE, h_size = KMALLOC_PAGE_SIZE * pages - header_size,
                                  h_next = kernel_heap_lh s\<rparr> s) (\<lambda>s.
           Inr (header, s\<lparr>kernel_heap_lh := header,
                          kernel_heap_brk := kernel_heap_brk s + KMALLOC_PAGE_SIZE * pages\<rparr>)))))"

definition kmalloc :: "u32 \<Rightarrow> 'z heap_state_scheme \<Rightarrow> (u32 \<times> 'z heap_state_scheme) kres" where
  "kmalloc sz s =
    (if sz = 0 then Inr (0, s)
     else
       let sz = ALIGN_UP sz 8 in
       bindE (find_free_heap_header sz s) (\<lambda>header.
       if header = 0 then
         bindE (create_heap_header sz s) (\<lambda>(header, s).
         Inr (if header \<noteq> 0 then KMALLOC_GO_AFTER_HEADER header else 0, s))
       else
         bindE (rd_hdr header s) (\<lambda>h.
         bindE (wr_hdr header (h\<lparr>h_free := KO_FALSE\<rparr>) s) (\<lambda>s.
         Inr (KMALLOC_GO_AFTER_HEADER header, s)))))"

definition kcalloc :: "u32 \<Rightarrow> 'z heap_state_scheme \<Rightarrow> (u32 \<times> 'z heap_state_scheme) kres" where
  "kcalloc sz s =
    (if sz = 0 then Inr (0, s)
     else
       bindE (kmalloc sz s) (\<lambda>(ptr, s).
       bindE (kmemset ptr 0 (ALIGN_UP sz 8) s) (\<lambda>(_, s).
       Inr (ptr, s))))"

definition kfree :: "u32 \<Rightarrow> 'z heap_state_scheme \<Rightarrow> (bool \<times> 'z heap_state_scheme) kres" where
  "kfree ptr s =
    (if ptr = 0 \<or> ptr < kernel_heap_base s \<or> ptr > kernel_heap_brk s then Inr (False, s)
     else
       let header = KMALLOC_GO_BEFORE_HEADER ptr in
       bindE (rd_hdr header s) (\<lambda>h.
       if h_free h = OK_TRUE then Inr (False, s)
       else bindE (wr_hdr header (h\<lparr>h_free := OK_TRUE\<rparr>) s) (\<lambda>s. Inr (True, s))))"

definition krealloc ::
    "u32 \<Rightarrow> u32 \<Rightarrow> 'z heap_state_scheme \<Rightarrow> (u32 \<times> 'z heap_state_scheme) kres" where
  "krealloc ptr sz s =
    bindE (if sz = 0
           then bindE (rd_hdr (KMALLOC_GO_BEFORE_HEADER ptr) s) (\<lambda>h. Inr (h_size h))
           else Inr sz) (\<lambda>sz.
    bindE (kmalloc sz s) (\<lambda>(new_ptr, s).
    if ptr \<noteq> 0 then
      bindE (kmemcpy new_ptr ptr sz s) (\<lambda>(_, s).
      bindE (kfree ptr s) (\<lambda>(_, s).
      Inr (new_ptr, s)))
    else Inr (new_ptr, s)))"

section \<open>The invariant\<close>

text \<open>
  Following \<open>h_next\<close> from \<open>h\<close> visits the headers \<open>as\<close>, whose blocks fill \<open>[base, hi)\<close>
  without gaps, and ends in \<^verbatim>\<open>NULL\<close>.
\<close>

fun chain :: "(u32 \<rightharpoonup> kmalloc_header) \<Rightarrow> nat \<Rightarrow> nat \<Rightarrow> u32 \<Rightarrow> u32 list \<Rightarrow> bool" where
  "chain m base hi h [] \<longleftrightarrow> h = 0 \<and> hi = base"
| "chain m base hi h (a # as) \<longleftrightarrow> h = a \<and> a \<noteq> 0 \<and>
     (\<exists>hh. m a = Some hh \<and> unat a + 12 + unat (h_size hh) = hi \<and> unat a mod 4096 = 0 \<and>
       hi mod 4096 = 0 \<and> (h_free hh = OK_TRUE \<or> h_free hh = KO_FALSE) \<and>
       chain m base (unat a) (h_next hh) as)"

definition heap_inv :: "'z heap_state_scheme \<Rightarrow> bool" where
  "heap_inv s \<longleftrightarrow> vmm_inv s \<and>
     0 < unat (kernel_heap_base s) \<and> unat (kernel_heap_base s) mod 4096 = 0 \<and>
     unat (kernel_heap_brk s) mod 4096 = 0 \<and> unat (kernel_heap_limit s) mod 4096 = 0 \<and>
     kernel_heap_brk s \<le> kernel_heap_limit s \<and>
     unat (kernel_heap_limit s) - 1 < 4194304 * (unat (kernel_heap_base s) div 4194304 + 1) \<and>
     pdi (kernel_heap_base s) \<noteq> 1023 \<and> pdi (kernel_heap_base s) \<noteq> 768 \<and>
     e_present (pd_entry s (pdi (kernel_heap_base s))) \<and>
     (\<exists>as. chain (hdrs s) (unat (kernel_heap_base s)) (unat (kernel_heap_brk s)) (kernel_heap_lh s) as \<and>
        set as = dom (hdrs s)) \<and>
     (\<forall>w. kernel_heap_base s \<le> w \<and> w < kernel_heap_brk s \<longrightarrow> mmu_translate s w \<noteq> None) \<and>
     (\<forall>w. kernel_heap_brk s \<le> w \<and> w < kernel_heap_limit s \<longrightarrow> mmu_translate s w = None)"

text \<open>The blocks in use: data address and size.\<close>

definition live_blocks :: "'z heap_state_scheme \<Rightarrow> (u32 \<times> nat) set" where
  "live_blocks s =
    {(a + header_size, unat (h_size hh)) | a hh. hdrs s a = Some hh \<and> h_free hh = KO_FALSE}"

section \<open>Facts on chains\<close>

lemma chain_bounds:
  "chain m base hi h as \<Longrightarrow> base \<le> hi \<and> (\<forall>a \<in> set as. base \<le> unat a \<and> unat a + 12 \<le> hi)"
proof (induction as arbitrary: hi h)
  case Nil
  then show ?case by simp
next
  case (Cons a as)
  then obtain hh where "m a = Some hh" "unat a + 12 + unat (h_size hh) = hi"
    "chain m base (unat a) (h_next hh) as" by auto
  with Cons.IH show ?case by fastforce
qed

lemma chain_block_end:
  "chain m base hi h as \<Longrightarrow> a \<in> set as \<Longrightarrow> m a = Some hh \<Longrightarrow> unat a + 12 + unat (h_size hh) \<le> hi"
proof (induction as arbitrary: hi h)
  case Nil
  then show ?case by simp
next
  case (Cons b as)
  then obtain hb where b: "m b = Some hb" "unat b + 12 + unat (h_size hb) = hi"
    "chain m base (unat b) (h_next hb) as" by auto
  then show ?case using Cons.IH [OF b(3)] Cons.prems by (cases "a = b") fastforce+
qed

lemma chain_member:
  "chain m base hi h as \<Longrightarrow> a \<in> set as \<Longrightarrow> m a = Some hh \<Longrightarrow>
    unat a mod 4096 = 0 \<and> (h_free hh = OK_TRUE \<or> h_free hh = KO_FALSE)"
  by (induction as arbitrary: hi h) auto

lemma chain_dom: "chain m base hi h as \<Longrightarrow> set as \<subseteq> dom m"
  by (induction as arbitrary: hi h) auto

lemma chain_update_outside:
  "a \<notin> set as \<Longrightarrow> chain (m(a := x)) base hi h as = chain m base hi h as"
  by (induction as arbitrary: hi h) auto

text \<open>Changing only the free flag of a header keeps the chain.\<close>

lemma chain_set_free:
  assumes "chain m base hi h as" "m a = Some hh" "f = OK_TRUE \<or> f = KO_FALSE"
  shows "chain (m(a \<mapsto> hh\<lparr>h_free := f\<rparr>)) base hi h as"
proof -
  define m' where "m' = m(a \<mapsto> hh\<lparr>h_free := f\<rparr>)"
  have at: "m' b = (if b = a then Some (hh\<lparr>h_free := f\<rparr>) else m b)" for b by (simp add: m'_def)
  have "chain m base hi h as \<Longrightarrow> chain m' base hi h as"
  proof (induction as arbitrary: hi h)
    case Nil
    then show ?case by simp
  next
    case (Cons b as)
    then obtain hb where hb: "m b = Some hb" "chain m base (unat b) (h_next hb) as" by auto
    from Cons.IH [OF hb(2)] show ?case using Cons.prems hb assms(2,3) at [of b] by (cases "b = a") auto
  qed
  then show ?thesis using assms(1) by (simp add: m'_def)
qed

text \<open>The blocks of a chain do not overlap, header included.\<close>

lemma chain_disjoint:
  assumes "chain m base hi h as" "a \<in> set as" "b \<in> set as" "a \<noteq> b" "m a = Some ha" "m b = Some hb"
  shows "unat a + 12 + unat (h_size ha) \<le> unat b \<or> unat b + 12 + unat (h_size hb) \<le> unat a"
  using assms
proof (induction as arbitrary: hi h)
  case Nil
  then show ?case by simp
next
  case (Cons c as)
  then obtain hc where c: "m c = Some hc" "unat c + 12 + unat (h_size hc) = hi"
    "chain m base (unat c) (h_next hc) as" by auto
  have "unat x + 12 + unat (h_size hx) \<le> unat c" if "x \<in> set as" "m x = Some hx" for x hx
    using chain_block_end [OF c(3) that] .
  then show ?case using Cons.IH [OF c(3)] Cons.prems by (cases "a = c"; cases "b = c") auto
qed

section \<open>The search returns\<close>

lemma heap_block_mapped:
  assumes "heap_inv s" "hdrs s a = Some hh"
  shows "kernel_heap_base s \<le> a" and "unat a + 12 + unat (h_size hh) \<le> unat (kernel_heap_brk s)"
    and "mmu_translate s a \<noteq> None" and "a \<noteq> 0" and "unat a mod 4096 = 0"
    and "h_free hh = OK_TRUE \<or> h_free hh = KO_FALSE"
proof -
  obtain as where as: "chain (hdrs s) (unat (kernel_heap_base s)) (unat (kernel_heap_brk s)) (kernel_heap_lh s) as"
    "set as = dom (hdrs s)"
    using assms(1) by (auto simp: heap_inv_def)
  then have a: "a \<in> set as" using assms(2) by auto
  show base: "kernel_heap_base s \<le> a"
    using chain_bounds [OF as(1)] a by (simp add: word_le_nat_alt)
  show le: "unat a + 12 + unat (h_size hh) \<le> unat (kernel_heap_brk s)"
    using chain_block_end [OF as(1) a assms(2)] .
  then show "mmu_translate s a \<noteq> None"
    using base assms(1) by (simp add: heap_inv_def word_less_nat_alt)
  show "a \<noteq> 0" using base assms(1) by (auto simp: heap_inv_def)
  show "unat a mod 4096 = 0" and "h_free hh = OK_TRUE \<or> h_free hh = KO_FALSE"
    using chain_member [OF as(1) a assms(2)] by simp_all
qed

text \<open>
  Under the invariant the search returns: the first header of the chain that is free and large
  enough, or \<^verbatim>\<open>NULL\<close> when there is none.
\<close>

lemma find_free_chain:
  assumes "chain (hdrs s) base hi h as" "\<And>a. a \<in> set as \<Longrightarrow> mmu_translate s a \<noteq> None"
  shows "\<exists>r. find_free_from sz h s = Some (Inr r) \<and>
    (if r = 0 then (\<forall>a \<in> set as. \<forall>hh. hdrs s a = Some hh \<longrightarrow> \<not> (h_free hh = OK_TRUE \<and> sz \<le> h_size hh))
     else r \<in> set as \<and> (\<exists>hh. hdrs s r = Some hh \<and> h_free hh = OK_TRUE \<and> sz \<le> h_size hh))"
  using assms
proof (induction as arbitrary: h hi)
  case Nil
  then show ?case by (simp add: find_free_from.simps)
next
  case (Cons a as)
  then obtain hh where hh: "h = a" "a \<noteq> 0" "hdrs s a = Some hh" "chain (hdrs s) base (unat a) (h_next hh) as"
    by auto
  have rd: "rd_hdr a s = Inr hh" using Cons.prems(2) [of a] hh(3) by (simp add: rd_hdr_def)
  show ?case
  proof (cases "h_free hh = OK_TRUE \<and> sz \<le> h_size hh")
    case True
    then show ?thesis using hh rd by (subst find_free_from.simps) simp
  next
    case False
    obtain r where "find_free_from sz (h_next hh) s = Some (Inr r)"
      and "if r = 0 then (\<forall>a \<in> set as. \<forall>hh. hdrs s a = Some hh \<longrightarrow> \<not> (h_free hh = OK_TRUE \<and> sz \<le> h_size hh))
        else r \<in> set as \<and> (\<exists>hh. hdrs s r = Some hh \<and> h_free hh = OK_TRUE \<and> sz \<le> h_size hh)"
      using Cons.IH [OF hh(4)] Cons.prems(2) by auto
    then show ?thesis using hh rd False
      by (subst find_free_from.simps) (auto split: if_splits)
  qed
qed

lemma find_free_returns:
  assumes "heap_inv s"
  shows "\<exists>r. find_free_heap_header sz s = Inr r \<and>
    (if r = 0 then (\<forall>a hh. hdrs s a = Some hh \<longrightarrow> \<not> (h_free hh = OK_TRUE \<and> sz \<le> h_size hh))
     else (\<exists>hh. hdrs s r = Some hh \<and> h_free hh = OK_TRUE \<and> sz \<le> h_size hh))"
proof -
  obtain as where as: "chain (hdrs s) (unat (kernel_heap_base s)) (unat (kernel_heap_brk s)) (kernel_heap_lh s) as"
    "set as = dom (hdrs s)"
    using assms(1) by (auto simp: heap_inv_def)
  have "mmu_translate s a \<noteq> None" if "a \<in> set as" for a
    using heap_block_mapped(3) [OF assms] that as(2) by auto
  from find_free_chain [OF as(1) this, of sz] show ?thesis
    using as(2) by (fastforce simp: find_free_heap_header_def split: if_splits)
qed

section \<open>Mapping within a present table\<close>

lemma map_page_in_table:
  assumes inv: "vmm_inv s" and al: "IS_ALIGNED_TO v 4096" "IS_ALIGNED_TO p 4096"
    and flags: "flags AND KVMM_FLAG_PRESENT \<noteq> 0" and d: "pdi v \<noteq> 1023" "e_present (pd_entry s (pdi v))"
    and unmapped: "mmu_translate s v = None"
  shows "\<exists>f. kvmm_map_page v p flags s = Inr (True, s\<lparr>pmem := f\<rparr>) \<and> page_mapped v p s (s\<lparr>pmem := f\<rparr>) \<and>
    pd_entry (s\<lparr>pmem := f\<rparr>) = pd_entry s"
proof -
  have rec: "recursive_ok s" "paging s" using inv by (simp_all add: vmm_inv_def recursive_ok_def)
  have p: "p AND 0xFFF = 0" using frame_of_page(2) [OF aligned_page [OF al(2)]] .
  have free: "\<not> e_present (pt_entry s (pdi v) (pti v))"
    using unmapped d by (simp add: translate_entries [OF rec(2)] split: if_splits)
  have "map_page_table (ucast (pdi v)) flags s = Inr (True, s)"
    using d rec by (simp add: map_page_table_def recursive_pde)
  note run = map_page_present [OF rec(1) al this rec(1) d(2) free]
  show ?thesis
    using run map_page_entry [OF inv d free p flags] put_pte(1) [OF inv d] by blast
qed

lemma map_range_in_table:
  assumes "vmm_inv s" and al: "IS_ALIGNED_TO v 4096" "IS_ALIGNED_TO p 4096"
    and flags: "flags AND KVMM_FLAG_PRESENT \<noteq> 0" and top: "unat v + 4096 * (i + n) \<le> 0xFFC00000"
    and "e_present (pd_entry s d)" "\<And>j. j < i + n \<Longrightarrow> pdi (v + KPMM_PAGE_SIZE * word_of_nat j) = d"
    and "\<And>j. j \<in> {i..<i + n} \<Longrightarrow> mmu_translate s (v + KPMM_PAGE_SIZE * word_of_nat j) = None"
  shows "\<exists>f. map_range_from n (word_of_nat i) v p flags s = Inr (True, s\<lparr>pmem := f\<rparr>) \<and>
    range_mapped i n v p s (s\<lparr>pmem := f\<rparr>) \<and> pd_entry (s\<lparr>pmem := f\<rparr>) = pd_entry s"
  using assms(1,5,6,7,8)
proof (induction n arbitrary: i s)
  case 0
  then show ?case by (intro exI [of _ "pmem s"]) (simp add: range_mapped_def)
next
  case (Suc n)
  let ?w = "\<lambda>j. v + KPMM_PAGE_SIZE * word_of_nat j"
  have pg: "unat (pfn (?w j)) = unat v div 4096 + j" "IS_ALIGNED_TO (?w j) 4096" "pdi (?w j) \<noteq> 1023"
    if "j < i + Suc n" for j
    using range_page [OF al(1) Suc.prems(2) that] by simp_all
  have fresh: "pfn (?w i) \<noteq> pfn (?w j)" if "j \<in> {Suc i..<Suc i + n}" for j
    using pg(1) [of i] pg(1) [of j] that by auto
  obtain f1 where s1: "kvmm_map_page (?w i) (p + KPMM_PAGE_SIZE * word_of_nat i) flags s = Inr (True, s\<lparr>pmem := f1\<rparr>)"
      "page_mapped (?w i) (p + KPMM_PAGE_SIZE * word_of_nat i) s (s\<lparr>pmem := f1\<rparr>)"
      "pd_entry (s\<lparr>pmem := f1\<rparr>) = pd_entry s"
    using map_page_in_table [OF Suc.prems(1) pg(2) phys_page_aligned [OF al(2)] flags pg(3), of i]
      Suc.prems(3) Suc.prems(4) [of i] Suc.prems(5) [of i] by auto
  have none: "mmu_translate (s\<lparr>pmem := f1\<rparr>) (?w j) = None" if "j \<in> {Suc i..<Suc i + n}" for j
    using s1(2) that fresh [OF that] pg(3) [of j] Suc.prems(5) [of j]
    unfolding page_mapped_def by auto
  have "vmm_inv (s\<lparr>pmem := f1\<rparr>)" using s1(2) by (simp add: page_mapped_def)
  then obtain f where f: "map_range_from n (word_of_nat (Suc i)) v p flags (s\<lparr>pmem := f1\<rparr>) = Inr (True, s\<lparr>pmem := f\<rparr>)"
      "range_mapped (Suc i) n v p (s\<lparr>pmem := f1\<rparr>) (s\<lparr>pmem := f\<rparr>)" "pd_entry (s\<lparr>pmem := f\<rparr>) = pd_entry s"
    using Suc.IH [of "s\<lparr>pmem := f1\<rparr>" "Suc i"] s1(3) none Suc.prems by auto
  have "map_range_from (Suc n) (word_of_nat i) v p flags s = Inr (True, s\<lparr>pmem := f\<rparr>)"
    using s1(1) f(1) by (simp add: add.commute)
  then show ?case
    using f(3) range_mapped_step [OF s1(2) f(2) fresh pg(3)] by auto
qed

section \<open>Updates that keep the page tables\<close>

lemma translate_heap [mem_simps]:
  "mmu_translate (s\<lparr>hdrs := m\<rparr>) x = mmu_translate s x"
  "mmu_translate (s\<lparr>kernel_heap_lh := l\<rparr>) x = mmu_translate s x"
  "mmu_translate (s\<lparr>kernel_heap_brk := b\<rparr>) x = mmu_translate s x"
  by (simp_all add: mmu_translate_def pte_of_def pde_of_def)

lemma pd_entry_heap [mem_simps]:
  "pd_entry (s\<lparr>hdrs := m\<rparr>) = pd_entry s" "pt_entry (s\<lparr>hdrs := m\<rparr>) = pt_entry s"
  "pd_entry (s\<lparr>kernel_heap_lh := l\<rparr>) = pd_entry s" "pt_entry (s\<lparr>kernel_heap_lh := l\<rparr>) = pt_entry s"
  "pd_entry (s\<lparr>kernel_heap_brk := b\<rparr>) = pd_entry s" "pt_entry (s\<lparr>kernel_heap_brk := b\<rparr>) = pt_entry s"
  "pd_entry (s\<lparr>mem := f\<rparr>) = pd_entry s" "pt_entry (s\<lparr>mem := f\<rparr>) = pt_entry s"
  by (simp_all add: fun_eq_iff pd_entry_def pt_entry_def)

lemma vmm_inv_heap [mem_simps]:
  "vmm_inv (s\<lparr>hdrs := m\<rparr>) = vmm_inv s" "vmm_inv (s\<lparr>kernel_heap_lh := l\<rparr>) = vmm_inv s"
  "vmm_inv (s\<lparr>kernel_heap_brk := b\<rparr>) = vmm_inv s" "vmm_inv (s\<lparr>mem := f\<rparr>) = vmm_inv s"
  by (simp_all add: vmm_inv_def recursive_ok_def pmm_inv_def free_pages_def mem_simps)

lemma heap_inv_mem [mem_simps]: "heap_inv (s\<lparr>mem := f\<rparr>) = heap_inv s"
  by (simp add: heap_inv_def mem_simps)

lemma live_blocks_mem [mem_simps]: "live_blocks (s\<lparr>mem := f\<rparr>) = live_blocks s"
  by (simp add: live_blocks_def)

text \<open>Marking a block used or free keeps the invariant.\<close>

lemma heap_inv_set_free:
  assumes "heap_inv s" "hdrs s a = Some hh" "f = OK_TRUE \<or> f = KO_FALSE"
  shows "heap_inv (s\<lparr>hdrs := (hdrs s)(a \<mapsto> hh\<lparr>h_free := f\<rparr>)\<rparr>)"
proof -
  obtain as where as: "chain (hdrs s) (unat (kernel_heap_base s)) (unat (kernel_heap_brk s)) (kernel_heap_lh s) as"
    "set as = dom (hdrs s)"
    using assms(1) by (auto simp: heap_inv_def)
  then have "chain ((hdrs s)(a \<mapsto> hh\<lparr>h_free := f\<rparr>)) (unat (kernel_heap_base s)) (unat (kernel_heap_brk s))
      (kernel_heap_lh s) as" "set as = dom ((hdrs s)(a \<mapsto> hh\<lparr>h_free := f\<rparr>))"
    using chain_set_free [OF as(1) assms(2,3)] assms(2) by (auto simp: dom_def)
  then have "\<exists>as. chain ((hdrs s)(a \<mapsto> hh\<lparr>h_free := f\<rparr>)) (unat (kernel_heap_base s)) (unat (kernel_heap_brk s))
      (kernel_heap_lh s) as \<and> set as = dom ((hdrs s)(a \<mapsto> hh\<lparr>h_free := f\<rparr>))" by blast
  then show ?thesis using assms(1) unfolding heap_inv_def by (simp add: mem_simps)
qed

lemma live_use:
  assumes "hdrs s a = Some hh" "h_free hh = OK_TRUE"
  shows "live_blocks (s\<lparr>hdrs := (hdrs s)(a \<mapsto> hh\<lparr>h_free := KO_FALSE\<rparr>)\<rparr>) =
      insert (a + header_size, unat (h_size hh)) (live_blocks s)"
    and "a + header_size \<notin> fst ` live_blocks s"
  using assms by (auto simp: live_blocks_def)

lemma live_release:
  assumes "hdrs s a = Some hh" "h_free hh = KO_FALSE"
  shows "live_blocks (s\<lparr>hdrs := (hdrs s)(a \<mapsto> hh\<lparr>h_free := OK_TRUE\<rparr>)\<rparr>) =
      live_blocks s - {(a + header_size, unat (h_size hh))}"
  using assms by (auto simp: live_blocks_def) (metis option.inject)

section \<open>A new block\<close>

lemma pages_to_get_unat:
  assumes "unat sz + 12 + 4095 < 2 ^ 32"
  shows "unat (pages_to_get sz) = (unat sz + 12 + 4095) div 4096"
proof -
  have "unat (sz + 12 + 4096 - 1 :: u32) = unat sz + 12 + 4095"
    using assms by (simp add: unat_word_ariths flip: add_diff_eq)
  then show ?thesis
    by (simp add: pages_to_get_def header_size_def KMALLOC_PAGE_SIZE_def unat_div_distrib)
qed

lemma page_round:
  fixes brk lim n :: nat
  assumes "brk mod 4096 = 0" "lim mod 4096 = 0" "brk + n \<le> lim"
  shows "brk + 4096 * ((n + 4095) div 4096) \<le> lim"
proof -
  obtain b l where "brk = 4096 * b" "lim = 4096 * l" using assms(1,2) by (auto elim!: dvdE)
  then have "n \<le> 4096 * (l - b)" "b \<le> l" using assms(3) by simp_all
  then have "(n + 4095) div 4096 \<le> l - b" by simp
  then show ?thesis using \<open>brk = _\<close> \<open>lim = _\<close> \<open>b \<le> l\<close> by simp
qed

lemma pfn_unat: "unat (pfn x) = unat x div 4096"
  using unat_u32_less [of x] by (simp add: pfn_def unsigned_ucast_eq take_bit_nat_eq_self unat_drop_bit)

text \<open>The pages between two page-aligned addresses.\<close>

lemma page_in_range:
  fixes w v :: u32
  assumes "unat v mod 4096 = 0" "unat v \<le> unat w" "unat w < unat v + 4096 * n" "unat v + 4096 * n \<le> 2 ^ 32"
  shows "\<exists>j < n. pfn w = pfn (v + KPMM_PAGE_SIZE * word_of_nat j)"
proof -
  let ?j = "(unat w - unat v) div 4096"
  have j: "?j < n" using assms(2,3) by (simp add: less_mult_imp_div_less)
  then have u: "unat (v + KPMM_PAGE_SIZE * word_of_nat ?j) = unat v + 4096 * ?j"
    using assms(4) by (simp add: KPMM_PAGE_SIZE_def unat_word_ariths unat_of_nat)
  obtain k where k: "unat v = 4096 * k" using assms(1) by auto
  have "unat w div 4096 = k + ?j" using assms(2) k by (metis div_mult_self2 le_add_diff_inverse add.commute zero_neq_numeral)
  then have "pfn w = pfn (v + KPMM_PAGE_SIZE * word_of_nat ?j)"
    unfolding word_unat_eq_iff pfn_unat u using k by simp
  then show ?thesis using j by blast
qed

lemma page_outside:
  fixes w v :: u32
  assumes "unat v mod 4096 = 0" "unat w < unat v \<or> unat v + 4096 * n \<le> unat w" "j < n"
    and "unat v + 4096 * n \<le> 2 ^ 32"
  shows "pfn w \<noteq> pfn (v + KPMM_PAGE_SIZE * word_of_nat j)"
proof -
  have u: "unat (v + KPMM_PAGE_SIZE * word_of_nat j) = unat v + 4096 * j"
    using assms(3,4) by (simp add: KPMM_PAGE_SIZE_def unat_word_ariths unat_of_nat)
  obtain k where k: "unat v = 4096 * k" using assms(1) by auto
  have "unat w div 4096 < k \<or> k + n \<le> unat w div 4096"
    using assms(2) k by (auto simp: less_mult_imp_div_less less_eq_div_iff_mult_less_eq)
  then show ?thesis
    unfolding word_unat_eq_iff pfn_unat u using k assms(3) by auto
qed

lemma pdi_in_heap:
  assumes "kernel_heap_base s \<le> w" "w < kernel_heap_limit s"
    and "unat (kernel_heap_limit s) - 1 < 4194304 * (unat (kernel_heap_base s) div 4194304 + 1)"
  shows "pdi w = pdi (kernel_heap_base s)"
proof -
  let ?b = "unat (kernel_heap_base s)"
  have "4194304 * (?b div 4194304) \<le> unat w" "unat w < 4194304 * (?b div 4194304 + 1)"
    using assms times_div_less_eq_dividend [of 4194304 ?b]
    by (simp_all add: word_le_nat_alt word_less_nat_alt)
  then have "unat w div 4194304 = ?b div 4194304" by (intro div_nat_eqI) simp_all
  then show ?thesis by (simp add: word_unat_eq_iff pdi_unat)
qed

text \<open>The requests whose arithmetic stays within 32 bits.\<close>

definition req_fits :: "u32 \<Rightarrow> 'z heap_state_scheme \<Rightarrow> bool" where
  "req_fits sz s \<longleftrightarrow> 0 < unat sz \<and> unat (kernel_heap_limit s) + unat sz + 8192 \<le> 2 ^ 32"

lemma heap_inv_alloc:
  assumes "heap_inv s" "pmm_frame s s'" "pmm_inv s'" "free_pages s' \<subseteq> free_pages s"
  shows "heap_inv s'"
proof -
  have "vmm_inv s'" using vmm_inv_alloc assms by (auto simp: heap_inv_def)
  moreover have "mmu_translate s' = mmu_translate s" "pd_entry s' = pd_entry s" "hdrs s' = hdrs s"
    "kernel_heap_base s' = kernel_heap_base s" "kernel_heap_brk s' = kernel_heap_brk s"
    "kernel_heap_limit s' = kernel_heap_limit s" "kernel_heap_lh s' = kernel_heap_lh s"
    using assms(2) by (auto simp: pmm_frame_def fun_eq_iff mmu_translate_def pde_of_def pte_of_def pd_entry_def)
  ultimately show ?thesis using assms(1) unfolding heap_inv_def by simp
qed

text \<open>The state with a block of \<open>pg\<close> pages at \<open>s\<close>'s break added to the heap.\<close>

abbreviation grown :: "u32 \<Rightarrow> 'z heap_state_scheme \<Rightarrow> 'z heap_state_scheme" where
  "grown pg s \<equiv> s\<lparr>hdrs := (hdrs s)(kernel_heap_brk s \<mapsto> \<lparr>h_free = KO_FALSE,
       h_size = KMALLOC_PAGE_SIZE * pg - header_size, h_next = kernel_heap_lh s\<rparr>),
     kernel_heap_lh := kernel_heap_brk s,
     kernel_heap_brk := kernel_heap_brk s + KMALLOC_PAGE_SIZE * pg\<rparr>"

lemma heap_base_brk: "heap_inv s \<Longrightarrow> unat (kernel_heap_base s) \<le> unat (kernel_heap_brk s)"
  using chain_bounds by (auto simp: heap_inv_def)

lemma brk_fresh: "heap_inv s \<Longrightarrow> hdrs s (kernel_heap_brk s) = None"
proof (rule ccontr)
  assume "heap_inv s" "hdrs s (kernel_heap_brk s) \<noteq> None"
  then obtain hh where "hdrs s (kernel_heap_brk s) = Some hh" by auto
  from heap_block_mapped(2) [OF \<open>heap_inv s\<close> this] show False by simp
qed

lemma heap_inv_grown:
  assumes inv: "heap_inv s" and vmm: "vmm_inv (s\<lparr>pmem := f\<rparr>)" and pd: "pd_entry (s\<lparr>pmem := f\<rparr>) = pd_entry s"
    and map: "range_mapped 0 (unat pg) (kernel_heap_brk s) fr s (s\<lparr>pmem := f\<rparr>)"
    and pg: "0 < unat pg" "unat (kernel_heap_brk s) + 4096 * unat pg \<le> unat (kernel_heap_limit s)"
  shows "heap_inv (grown pg (s\<lparr>pmem := f\<rparr>))"
proof -
  let ?b = "kernel_heap_brk s" and ?base = "kernel_heap_base s" and ?lim = "kernel_heap_limit s"
  let ?s = "s\<lparr>pmem := f\<rparr>"
  let ?b' = "?b + KMALLOC_PAGE_SIZE * pg"
  let ?h = "\<lparr>h_free = KO_FALSE, h_size = KMALLOC_PAGE_SIZE * pg - header_size, h_next = kernel_heap_lh s\<rparr>"
  note i = inv [unfolded heap_inv_def]
  have lim: "unat ?lim < 4294967296" by (rule unat_u32_less)
  have b': "unat ?b' = unat ?b + 4096 * unat pg"
    using pg lim by (simp add: KMALLOC_PAGE_SIZE_def unat_word_ariths)
  have "unat (KMALLOC_PAGE_SIZE * pg) = 4096 * unat pg"
    using pg lim by (simp add: KMALLOC_PAGE_SIZE_def unat_word_ariths)
  then have hs: "unat (h_size ?h) = 4096 * unat pg - 12"
    using pg(1) by (simp add: header_size_def unat_sub word_le_nat_alt)
  have base_le: "?base \<le> ?b" using i chain_bounds by (auto simp: word_le_nat_alt)
  then have b0: "?b \<noteq> 0" using i by auto
  obtain as where as: "chain (hdrs s) (unat ?base) (unat ?b) (kernel_heap_lh s) as" "set as = dom (hdrs s)"
    using i by blast
  have nin: "?b \<notin> set as" using brk_fresh [OF inv] as(2) by auto
  have "chain ((hdrs s)(?b \<mapsto> ?h)) (unat ?base) (unat ?b') ?b (?b # as)"
    using as(1) nin b0 hs b' pg(1) i by (simp add: chain_update_outside)
  moreover have "set (?b # as) = dom ((hdrs s)(?b \<mapsto> ?h))" using as(2) by auto
  ultimately have ch: "\<exists>as. chain ((hdrs s)(?b \<mapsto> ?h)) (unat ?base) (unat ?b') ?b as \<and>
      set as = dom ((hdrs s)(?b \<mapsto> ?h))" by blast
  have win: "pdi w \<noteq> 1023" if "?base \<le> w" "w < ?lim" for w
    using pdi_in_heap [OF that] i by simp
  have old: "mmu_translate ?s w = mmu_translate s w"
    if "?base \<le> w" "w < ?lim" "w < ?b \<or> ?b' \<le> w" for w
  proof -
    have "pfn w \<noteq> pfn (?b + KPMM_PAGE_SIZE * word_of_nat j)" if "j < unat pg" for j
      using page_outside [of ?b w "unat pg" j] \<open>w < ?b \<or> ?b' \<le> w\<close> that i b' lim pg
      by (auto simp: word_le_nat_alt word_less_nat_alt)
    then show ?thesis using map win [OF that(1,2)] by (simp add: range_mapped_def)
  qed
  have new: "mmu_translate ?s w \<noteq> None" if w: "?b \<le> w" "w < ?b'" for w
  proof -
    have "\<exists>j < unat pg. pfn w = pfn (?b + KPMM_PAGE_SIZE * word_of_nat j)"
      using w i b' lim pg by (intro page_in_range) (auto simp: word_le_nat_alt word_less_nat_alt)
    then show ?thesis using map by (auto simp: range_mapped_def)
  qed
  have lo: "mmu_translate ?s w \<noteq> None" if "?base \<le> w" "w < ?b'" for w
    using that old [of w] new [of w] i b' pg by (cases "w < ?b") (auto simp: word_le_nat_alt word_less_nat_alt)
  have hi: "mmu_translate ?s w = None" if "?b' \<le> w" "w < ?lim" for w
    using that old [of w] i b' base_le by (auto simp: word_le_nat_alt word_less_nat_alt)
  show ?thesis
    using vmm ch lo hi i pd b' pg unfolding heap_inv_def
    by (simp add: mem_simps word_le_nat_alt)
qed

lemma pmm_frame_heap:
  assumes "pmm_frame s s'"
  shows "hdrs s' = hdrs s" "kernel_heap_base s' = kernel_heap_base s" "kernel_heap_brk s' = kernel_heap_brk s"
    and "kernel_heap_limit s' = kernel_heap_limit s" "kernel_heap_lh s' = kernel_heap_lh s"
    and "mem s' = mem s" "mmu_translate s' = mmu_translate s"
  using assms
  by (auto simp: pmm_frame_def fun_eq_iff mmu_translate_def pde_of_def pte_of_def)

lemma grow_pages:
  assumes inv: "heap_inv s" and fr: "IS_ALIGNED_TO fr 4096" and pg: "0 < unat pg"
    and room: "unat (kernel_heap_brk s) + 4096 * unat pg \<le> unat (kernel_heap_limit s)"
  shows "\<exists>f. kvmm_map_range (kernel_heap_brk s) fr (KVMM_FLAG_PRESENT OR KVMM_FLAG_RW) pg s =
      Inr (True, s\<lparr>pmem := f\<rparr>) \<and> heap_inv (grown pg (s\<lparr>pmem := f\<rparr>)) \<and>
    mmu_translate (s\<lparr>pmem := f\<rparr>) (kernel_heap_brk s) \<noteq> None"
proof -
  let ?b = "kernel_heap_brk s" and ?base = "kernel_heap_base s" and ?lim = "kernel_heap_limit s"
  let ?w = "\<lambda>j. ?b + KPMM_PAGE_SIZE * word_of_nat j"
  note i = inv [unfolded heap_inv_def]
  have lim: "unat ?lim < 4294967296" by (rule unat_u32_less)
  have base_le: "unat ?base \<le> unat ?b" using i chain_bounds by auto
  have al: "IS_ALIGNED_TO ?b 4096"
    using i by (simp add: IS_ALIGNED_TO_def word_unat_eq_iff unat_mod_distrib)
  have wj: "unat (?w j) = unat ?b + 4096 * j" if "j < unat pg" for j
    using that room lim by (simp add: KPMM_PAGE_SIZE_def unat_word_ariths unat_of_nat)
  then have in_heap: "?base \<le> ?w j" "?b \<le> ?w j" "?w j < ?lim" if "j < unat pg" for j
    using that room base_le by (simp_all add: word_le_nat_alt word_less_nat_alt)
  have pdiw: "pdi (?w j) = pdi ?base" if "j < unat pg" for j
    using pdi_in_heap [OF in_heap(1,3) [OF that]] i by simp
  have "unat ?base div 4194304 \<noteq> 1023" using i pdi_eq [of ?base 1023] by simp
  then have "unat ?base div 4194304 + 1 \<le> 1023" using unat_u32_less [of ?base] by simp
  then have "unat ?lim \<le> 4194304 * 1023" using i by (simp; linarith)
  then have top: "unat ?b + 4096 * (0 + unat pg) \<le> 0xFFC00000" using room by simp
  have flags: "(KVMM_FLAG_PRESENT OR KVMM_FLAG_RW) AND KVMM_FLAG_PRESENT \<noteq> 0"
    by (simp add: KVMM_FLAG_PRESENT_def KVMM_FLAG_RW_def)
  obtain f where f: "map_range_from (unat pg) (word_of_nat 0) ?b fr (KVMM_FLAG_PRESENT OR KVMM_FLAG_RW) s =
      Inr (True, s\<lparr>pmem := f\<rparr>)" "range_mapped 0 (unat pg) ?b fr s (s\<lparr>pmem := f\<rparr>)"
      "pd_entry (s\<lparr>pmem := f\<rparr>) = pd_entry s"
    using map_range_in_table [OF _ al fr flags top, of s "pdi ?base"] i pdiw in_heap by auto
  have "vmm_inv (s\<lparr>pmem := f\<rparr>)" using f(2) by (simp add: range_mapped_def)
  note heap_inv_grown [OF inv this f(3,2) pg room]
  moreover have "mmu_translate (s\<lparr>pmem := f\<rparr>) ?b \<noteq> None"
  proof -
    have "pfn ?b = pfn (?w 0)" by simp
    then show ?thesis using f(2) pg unfolding range_mapped_def by (metis atLeastLessThan_iff add_0 le0 option.discI)
  qed
  moreover have "kvmm_map_range ?b fr (KVMM_FLAG_PRESENT OR KVMM_FLAG_RW) pg s = Inr (True, s\<lparr>pmem := f\<rparr>)"
    using f(1) al fr by (simp add: kvmm_map_range_def)
  ultimately show ?thesis by blast
qed

lemma create_grows:
  assumes inv: "heap_inv s" and sz: "sz \<noteq> 0" and pg0: "pages_to_get sz \<noteq> 0"
    and lim: "\<not> kernel_heap_brk s + sz + header_size > kernel_heap_limit s"
    and room: "unat (kernel_heap_brk s) + 4096 * unat (pages_to_get sz) \<le> unat (kernel_heap_limit s)"
    and run: "\<exists>q. free_run (bitmap_mem s) (unat (pages_to_get sz)) q"
  defines "pg \<equiv> pages_to_get sz" and "b \<equiv> kernel_heap_brk s"
  shows "\<exists>s'. create_heap_header sz s = Inr (b, s') \<and> b \<noteq> 0 \<and> heap_inv s' \<and> mem s' = mem s \<and>
    kernel_heap_limit s' = kernel_heap_limit s \<and>
    hdrs s' = (hdrs s)(b \<mapsto> \<lparr>h_free = KO_FALSE, h_size = KMALLOC_PAGE_SIZE * pg - header_size,
      h_next = kernel_heap_lh s\<rparr>) \<and> unat (KMALLOC_PAGE_SIZE * pg - header_size) = 4096 * unat pg - 12 \<and>
    unat (kernel_heap_brk s') = unat b + 4096 * unat pg \<and> card (free_pages s) \<le> card (free_pages s') + unat pg"
proof -
  have pmm: "pmm_inv s" using inv by (simp add: heap_inv_def vmm_inv_def)
  have pg: "0 < pg" "0 < unat pg" using pg0 by (simp_all add: pg_def word_neq_0_conv unat_gt_0)
  obtain fr s1 where al: "kpmm_alloc_pages pg s = Inr (fr, s1)" "fr \<noteq> 0"
    using alloc_found_nonnull [OF pmm pg(1)] run by (auto simp: pg_def)
  note blk = pmm_alloc_block(2) [OF pmm al]
  have fr: "pmm_frame s s1" using blk by simp
  note eqs = pmm_frame_heap [OF fr]
  have inv1: "heap_inv s1" using heap_inv_alloc [OF inv] blk by blast
  have "IS_ALIGNED_TO fr 4096"
    using kpmm_page_aligned [OF pmm al(1)] by (simp add: IS_ALIGNED_TO_def word_unat_eq_iff unat_mod_distrib)
  then obtain f where f: "kvmm_map_range b fr (KVMM_FLAG_PRESENT OR KVMM_FLAG_RW) pg s1 = Inr (True, s1\<lparr>pmem := f\<rparr>)"
      "heap_inv (grown pg (s1\<lparr>pmem := f\<rparr>))" "mmu_translate (s1\<lparr>pmem := f\<rparr>) b \<noteq> None"
    using grow_pages [OF inv1 _ pg(2), of fr] room eqs by (auto simp: pg_def b_def)
  have b0: "b \<noteq> 0" using heap_base_brk [OF inv] inv by (auto simp: b_def heap_inv_def)
  have "unat (KMALLOC_PAGE_SIZE * pg) = 4096 * unat pg"
    using room unat_u32_less [of "kernel_heap_limit s"] by (simp add: KMALLOC_PAGE_SIZE_def pg_def unat_word_ariths)
  then have hs: "unat (KMALLOC_PAGE_SIZE * pg - header_size) = 4096 * unat pg - 12"
    using pg(2) by (simp add: header_size_def unat_sub word_le_nat_alt)
  have "create_heap_header sz s = Inr (b, grown pg (s1\<lparr>pmem := f\<rparr>))"
    using sz pg0 lim al f(1,3) eqs
    by (simp add: create_heap_header_def Let_def wr_hdr_def pg_def [symmetric] b_def [symmetric])
  moreover have "unat (b + KMALLOC_PAGE_SIZE * pg) = unat b + 4096 * unat pg"
    using room unat_u32_less [of "kernel_heap_limit s"]
    by (simp add: KMALLOC_PAGE_SIZE_def pg_def b_def unat_word_ariths)
  moreover have "card (free_pages s) \<le> card (free_pages (grown pg (s1\<lparr>pmem := f\<rparr>))) + unat pg"
    using blk diff_card_le_card_Diff [of "block_pages fr pg" "free_pages s"]
    by (simp add: block_pages_def free_pages_def)
  ultimately show ?thesis using f(2) b0 hs eqs by (simp add: b_def)
qed

lemma create_heap_header_correct:
  assumes inv: "heap_inv s" and fits: "req_fits sz s"
  defines "pg \<equiv> pages_to_get sz"
  shows "case create_heap_header sz s of
      Inl e \<Rightarrow> e = Panic \<and> free_pages s \<noteq> {} \<and> (\<forall>q. \<not> {q..<q + unat pg} \<subseteq> free_pages s)
    | Inr (h, s') \<Rightarrow>
        if h = 0 then s' = s \<and>
          (free_pages s = {} \<or> unat (kernel_heap_limit s) < unat (kernel_heap_brk s) + unat sz + 12)
        else h = kernel_heap_brk s \<and> heap_inv s' \<and> unat sz + 12 \<le> 4096 * unat pg \<and>
          hdrs s' = (hdrs s)(h \<mapsto> \<lparr>h_free = KO_FALSE, h_size = KMALLOC_PAGE_SIZE * pg - header_size,
            h_next = kernel_heap_lh s\<rparr>) \<and> mem s' = mem s \<and>
          kernel_heap_limit s' = kernel_heap_limit s \<and> unat (KMALLOC_PAGE_SIZE * pg - header_size) = 4096 * unat pg - 12"
proof -
  let ?b = "kernel_heap_brk s" and ?lim = "kernel_heap_limit s"
  note i = inv [unfolded heap_inv_def]
  have vmm: "vmm_inv s" "pmm_inv s" using i by (simp_all add: vmm_inv_def)
  have ble: "unat ?b \<le> unat ?lim" using i by (simp add: word_le_nat_alt)
  have sz: "0 < unat sz" "unat ?lim + unat sz + 8192 \<le> 4294967296" using fits by (simp_all add: req_fits_def)
  have pgu: "unat pg = (unat sz + 12 + 4095) div 4096"
    unfolding pg_def using sz by (intro pages_to_get_unat) simp
  have pg0: "pg \<noteq> 0" "0 < pg" "0 < unat pg"
    using pgu sz(1) by (auto simp: unat_eq_0 [symmetric] word_less_nat_alt)
  have cap: "unat sz + 12 \<le> 4096 * unat pg" unfolding pgu by simp
  have sum: "unat (?b + sz + header_size) = unat ?b + unat sz + 12"
    using ble sz by (simp add: header_size_def unat_word_ariths)
  show ?thesis
  proof (cases "?b + sz + header_size > ?lim")
    case True
    then have "create_heap_header sz s = Inr (0, s)"
      by (simp add: create_heap_header_def Let_def pg_def [symmetric])
    moreover have "unat ?lim < unat ?b + unat sz + 12" using True sum by (simp add: word_less_nat_alt)
    ultimately show ?thesis by simp
  next
    case False
    then have "unat ?b + (unat sz + 12) \<le> unat ?lim" using sum by (simp add: word_less_nat_alt)
    then have room: "unat ?b + 4096 * unat pg \<le> unat ?lim"
      using page_round [of "unat ?b" "unat ?lim" "unat sz + 12"] i unfolding pgu by simp
    show ?thesis
    proof (cases "\<exists>q. free_run (bitmap_mem s) (unat pg) q")
      case none: False
      have "create_heap_header sz s = (if free_pages s = {} then Inr (0, s) else Inl Panic)"
        using alloc_pages_none [OF vmm(2) pg0(2)] none False pg0 sz(1)
        by (auto simp: create_heap_header_def Let_def pg_def [symmetric])
      then show ?thesis using none by (simp add: free_run_free_pages)
    next
      case True
      have "sz \<noteq> 0" using sz(1) by auto
      from create_grows [OF inv this pg0(1) [unfolded pg_def] False] room True
      show ?thesis using cap by (auto simp: pg_def)
    qed
  qed
qed

section \<open>Allocation and release\<close>

definition heap_request :: "u32 \<Rightarrow> 'z heap_state_scheme \<Rightarrow> bool" where
  "heap_request sz s \<longleftrightarrow> 0 < unat sz \<and> unat (kernel_heap_limit s) + unat sz + 2 ^ 14 \<le> 2 ^ 32"

definition fits_free :: "u32 \<Rightarrow> 'z heap_state_scheme \<Rightarrow> bool" where
  "fits_free sz s \<longleftrightarrow> (\<exists>a hh. hdrs s a = Some hh \<and> h_free hh = OK_TRUE \<and> ALIGN_UP sz 8 \<le> h_size hh)"

lemma align8:
  assumes "heap_request sz s"
  shows "unat (ALIGN_UP sz 8) = (unat sz + 7) div 8 * 8" and "unat sz \<le> unat (ALIGN_UP sz 8)"
    and "req_fits (ALIGN_UP sz 8) s"
proof -
  show eq: "unat (ALIGN_UP sz 8) = (unat sz + 7) div 8 * 8"
    using unat_ALIGN_UP [of 8 3 sz] assms by (simp add: heap_request_def)
  show "unat sz \<le> unat (ALIGN_UP sz 8)" unfolding eq by simp
  have "(unat sz + 7) div 8 * 8 \<le> unat sz + 7" by simp
  then show "req_fits (ALIGN_UP sz 8) s"
    using assms unfolding req_fits_def eq by (simp add: heap_request_def) linarith
qed

lemma kmalloc_correct:
  assumes inv: "heap_inv s" and req: "heap_request sz s"
  shows "case kmalloc sz s of
      Inl e \<Rightarrow> e = Panic \<and> \<not> fits_free sz s \<and> free_pages s \<noteq> {} \<and>
        (\<forall>q. \<not> {q..<q + unat (pages_to_get (ALIGN_UP sz 8))} \<subseteq> free_pages s)
    | Inr (p, s') \<Rightarrow>
        if p = 0 then s' = s \<and> \<not> fits_free sz s \<and>
          (free_pages s = {} \<or> unat (kernel_heap_limit s) < unat (kernel_heap_brk s) + unat (ALIGN_UP sz 8) + 12)
        else heap_inv s' \<and> mem s' = mem s \<and> kernel_heap_limit s' = kernel_heap_limit s \<and>
          p \<notin> fst ` live_blocks s \<and>
          (\<exists>m \<ge> unat (ALIGN_UP sz 8). live_blocks s' = insert (p, m) (live_blocks s))"
proof -
  let ?sz = "ALIGN_UP sz 8"
  obtain r where find: "find_free_heap_header ?sz s = Inr r"
    and r: "if r = 0 then (\<forall>a hh. hdrs s a = Some hh \<longrightarrow> \<not> (h_free hh = OK_TRUE \<and> ?sz \<le> h_size hh))
     else (\<exists>hh. hdrs s r = Some hh \<and> h_free hh = OK_TRUE \<and> ?sz \<le> h_size hh)"
    using find_free_returns [OF inv] by blast
  have sz0: "sz \<noteq> 0" using req by (auto simp: heap_request_def)
  show ?thesis
  proof (cases "r = 0")
    case False
    then obtain hh where hh: "hdrs s r = Some hh" "h_free hh = OK_TRUE" "?sz \<le> h_size hh" using r by auto
    note blk = heap_block_mapped [OF inv hh(1)]
    let ?s' = "s\<lparr>hdrs := (hdrs s)(r \<mapsto> hh\<lparr>h_free := KO_FALSE\<rparr>)\<rparr>"
    have "kmalloc sz s = Inr (r + header_size, ?s')"
      using sz0 find False hh(1) blk(3)
      by (simp add: kmalloc_def Let_def rd_hdr_def wr_hdr_def KMALLOC_GO_AFTER_HEADER_def)
    moreover have "heap_inv ?s'" using heap_inv_set_free [OF inv hh(1)] by simp
    moreover have "r + header_size \<noteq> 0"
    proof -
      have "unat (r + header_size) = unat r + 12"
        using blk(2) unat_u32_less [of "kernel_heap_brk s"] by (simp add: header_size_def unat_word_ariths)
      then show ?thesis by (auto simp: unat_eq_0 [symmetric])
    qed
    moreover have "unat ?sz \<le> unat (h_size hh)" using hh(3) by (simp add: word_le_nat_alt)
    ultimately show ?thesis using live_use [OF hh(1,2)] by auto
  next
    case True
    then have none: "\<not> fits_free sz s" using r by (auto simp: fits_free_def)
    have run: "kmalloc sz s = bindE (create_heap_header ?sz s) (\<lambda>(header, s).
         Inr (if header \<noteq> 0 then KMALLOC_GO_AFTER_HEADER header else 0, s))"
      using sz0 find True by (simp add: kmalloc_def Let_def)
    note new = create_heap_header_correct [OF inv align8(3) [OF req]]
    show ?thesis
    proof (cases "create_heap_header ?sz s")
      case (Inl e)
      then show ?thesis using run new none by simp
    next
      case (Inr hs)
      obtain h s' where hs: "hs = (h, s')" by (cases hs)
      show ?thesis
      proof (cases "h = 0")
        case True
        then show ?thesis using run new none Inr hs by simp
      next
        case False
        then have h: "h = kernel_heap_brk s" "heap_inv s'" "mem s' = mem s \<and> kernel_heap_limit s' = kernel_heap_limit s"
          "hdrs s' = (hdrs s)(h \<mapsto> \<lparr>h_free = KO_FALSE, h_size = KMALLOC_PAGE_SIZE * pages_to_get ?sz - header_size,
            h_next = kernel_heap_lh s\<rparr>)"
          "unat ?sz \<le> unat (KMALLOC_PAGE_SIZE * pages_to_get ?sz - header_size)"
          using new Inr hs by auto
        have fresh: "hdrs s h = None" using brk_fresh [OF inv] h(1) by simp
        have live: "live_blocks s' = insert (h + header_size, unat (KMALLOC_PAGE_SIZE * pages_to_get ?sz - header_size)) (live_blocks s)"
          unfolding live_blocks_def h(4) using fresh by auto
        have "h + header_size \<notin> fst ` live_blocks s" using fresh by (auto simp: live_blocks_def)
        moreover have "h + header_size \<noteq> 0"
        proof -
          have "hdrs s' h \<noteq> None" using h(4) by simp
          then obtain hh where "hdrs s' h = Some hh" by blast
          from heap_block_mapped(2) [OF h(2) this] have "unat (h + header_size) = unat h + 12"
            using unat_u32_less [of "kernel_heap_brk s'"] by (simp add: header_size_def unat_word_ariths)
          then show ?thesis by (auto simp: unat_eq_0 [symmetric])
        qed
        ultimately show ?thesis
          using run Inr hs False h live by (auto simp: KMALLOC_GO_AFTER_HEADER_def)
      qed
    qed
  qed
qed

text \<open>Room for \<open>k\<close> more blocks of one page each.\<close>

definition room :: "nat \<Rightarrow> 'z heap_state_scheme \<Rightarrow> bool" where
  "room k s \<longleftrightarrow> k \<le> card (free_pages s) \<and> unat (kernel_heap_brk s) + 4096 * k \<le> unat (kernel_heap_limit s)"

lemma kmalloc_room:
  assumes inv: "heap_inv s" and req: "heap_request n s" "unat n \<le> 4080" and room: "room (Suc k) s"
  shows "\<exists>p s'. kmalloc n s = Inr (p, s') \<and> p \<noteq> 0 \<and> room k s'"
proof -
  let ?sz = "ALIGN_UP n 8"
  have sz: "0 < unat ?sz" "unat ?sz \<le> 4080" "n \<noteq> 0" "?sz \<noteq> 0"
    using align8(1,2) [OF req(1)] req by (auto simp: heap_request_def)
  have "(unat ?sz + 12 + 4095) div 4096 = 1" using sz(1,2) by (intro div_nat_eqI) simp_all
  then have pg: "pages_to_get ?sz = 1"
    using pages_to_get_unat [of ?sz] sz(2) by (simp add: word_unat_eq_iff)
  have free: "free_pages s \<noteq> {}" using room by (auto simp: room_def)
  have lim: "unat (kernel_heap_brk s) + 4096 \<le> unat (kernel_heap_limit s)" using room by (simp add: room_def)
  have nz: "p \<noteq> 0" if "kmalloc n s = Inr (p, s')" for p s'
    using kmalloc_correct [OF inv req(1)] that free lim sz(2) by auto
  obtain r where find: "find_free_heap_header ?sz s = Inr r"
    and r: "r \<noteq> 0 \<Longrightarrow> \<exists>hh. hdrs s r = Some hh"
    using find_free_returns [OF inv, of ?sz] by (auto split: if_splits)
  have "\<exists>p s'. kmalloc n s = Inr (p, s') \<and> room k s'"
  proof (cases "r = 0")
    case False
    then obtain hh where hh: "hdrs s r = Some hh" using r by blast
    have "kmalloc n s = Inr (r + header_size, s\<lparr>hdrs := (hdrs s)(r \<mapsto> hh\<lparr>h_free := KO_FALSE\<rparr>)\<rparr>)"
      using sz(3) find False hh heap_block_mapped(3) [OF inv hh]
      by (simp add: kmalloc_def Let_def rd_hdr_def wr_hdr_def KMALLOC_GO_AFTER_HEADER_def)
    moreover have "room k (s\<lparr>hdrs := h\<rparr>)" for h using room by (simp add: room_def free_pages_def)
    ultimately show ?thesis by blast
  next
    case True
    obtain q where "q \<in> free_pages s" using free by blast
    then have run: "\<exists>q. free_run (bitmap_mem s) (unat (pages_to_get ?sz)) q"
      by (auto simp: free_run_free_pages pg intro: exI [of _ q])
    have ok: "\<not> kernel_heap_brk s + ?sz + header_size > kernel_heap_limit s"
      using lim sz(2) unat_u32_less [of "kernel_heap_limit s"]
      by (simp add: header_size_def word_less_nat_alt unat_word_ariths)
    obtain s' where s': "create_heap_header ?sz s = Inr (kernel_heap_brk s, s')"
        "kernel_heap_limit s' = kernel_heap_limit s" "unat (kernel_heap_brk s') = unat (kernel_heap_brk s) + 4096"
        "card (free_pages s) \<le> card (free_pages s') + 1"
      using create_grows [OF inv sz(4) _ ok _ run] lim pg by auto
    then have "room k s'" using room by (simp add: room_def)
    then show ?thesis using s'(1) find True sz(3) by (simp add: kmalloc_def Let_def)
  qed
  then show ?thesis using nz by blast
qed

lemma live_header:
  assumes "heap_inv s" "(p, m) \<in> live_blocks s"
  shows "\<exists>a hh. hdrs s a = Some hh \<and> h_free hh = KO_FALSE \<and> p = a + header_size \<and> m = unat (h_size hh) \<and>
    unat p = unat a + 12 \<and> unat p + m \<le> unat (kernel_heap_brk s) \<and>
    unat (kernel_heap_base s) + 12 \<le> unat p"
proof -
  obtain a hh where a: "hdrs s a = Some hh" "h_free hh = KO_FALSE" "p = a + header_size" "m = unat (h_size hh)"
    using assms(2) by (auto simp: live_blocks_def)
  note blk = heap_block_mapped [OF assms(1) a(1)]
  have "unat p = unat a + 12"
    using a(3) blk(2) unat_u32_less [of "kernel_heap_brk s"] by (simp add: header_size_def unat_word_ariths)
  then show ?thesis using a blk by (auto simp: word_le_nat_alt)
qed

lemma live_disjoint:
  assumes "heap_inv s" "(p, m) \<in> live_blocks s" "(q, k) \<in> live_blocks s" "p \<noteq> q"
  shows "unat p + m \<le> unat q \<or> unat q + k \<le> unat p"
proof -
  obtain a ha where a: "hdrs s a = Some ha" "p = a + header_size" "m = unat (h_size ha)" "unat p = unat a + 12"
    using live_header [OF assms(1,2)] by blast
  obtain b hb where b: "hdrs s b = Some hb" "q = b + header_size" "k = unat (h_size hb)" "unat q = unat b + 12"
    using live_header [OF assms(1,3)] by blast
  obtain as where as: "chain (hdrs s) (unat (kernel_heap_base s)) (unat (kernel_heap_brk s)) (kernel_heap_lh s) as"
    "set as = dom (hdrs s)"
    using assms(1) by (auto simp: heap_inv_def)
  have "a \<noteq> b" "a \<in> set as" "b \<in> set as" using a b assms(4) as(2) by auto
  from chain_disjoint [OF as(1) this(2,3,1) a(1) b(1)] show ?thesis using a b by auto
qed

lemma kfree_release:
  assumes "heap_inv s" "(p, m) \<in> live_blocks s"
  obtains a hh where "hdrs s a = Some hh" "h_free hh = KO_FALSE" "p = a + header_size" "m = unat (h_size hh)"
    and "kfree p s = Inr (True, s\<lparr>hdrs := (hdrs s)(a \<mapsto> hh\<lparr>h_free := OK_TRUE\<rparr>)\<rparr>)"
proof -
  obtain a hh where a: "hdrs s a = Some hh" "h_free hh = KO_FALSE" "p = a + header_size" "m = unat (h_size hh)"
    and u: "unat p = unat a + 12" "unat p + m \<le> unat (kernel_heap_brk s)" "unat (kernel_heap_base s) + 12 \<le> unat p"
    using live_header [OF assms] by blast
  have "p \<noteq> 0" using u by (auto simp: unat_eq_0 [symmetric])
  then have "kfree p s = Inr (True, s\<lparr>hdrs := (hdrs s)(a \<mapsto> hh\<lparr>h_free := OK_TRUE\<rparr>)\<rparr>)"
    using a u heap_block_mapped(3) [OF assms(1) a(1)]
    by (auto simp: kfree_def Let_def KMALLOC_GO_BEFORE_HEADER_def rd_hdr_def wr_hdr_def word_less_nat_alt)
  then show thesis using that a by blast
qed

lemma kfree_live:
  assumes "heap_inv s" "(p, m) \<in> live_blocks s"
  shows "\<exists>s'. kfree p s = Inr (True, s') \<and> heap_inv s' \<and> live_blocks s' = live_blocks s - {(p, m)} \<and>
    mem s' = mem s \<and> kernel_heap_limit s' = kernel_heap_limit s"
proof (rule kfree_release [OF assms])
  fix a hh assume a: "hdrs s a = Some hh" "h_free hh = KO_FALSE" "p = a + header_size" "m = unat (h_size hh)"
    and "kfree p s = Inr (True, s\<lparr>hdrs := (hdrs s)(a \<mapsto> hh\<lparr>h_free := OK_TRUE\<rparr>)\<rparr>)"
  then show ?thesis using heap_inv_set_free [OF assms(1) a(1)] live_release [OF a(1,2)] by simp
qed

lemma kfree_fits:
  assumes "heap_inv s" "(p, m) \<in> live_blocks s" "kfree p s = Inr (r, s')" "unat (ALIGN_UP n 8) \<le> m"
  shows "fits_free n s'"
  by (rule kfree_release [OF assms(1,2)])
    (use assms(3,4) in \<open>auto simp: fits_free_def word_le_nat_alt\<close>)

lemma kfree_double:
  assumes "heap_inv s" "hdrs s a = Some hh" "h_free hh = OK_TRUE"
  shows "kfree (a + header_size) s = Inr (False, s)"
  using heap_block_mapped(3) [OF assms(1,2)] assms(2,3)
  by (auto simp: kfree_def Let_def KMALLOC_GO_BEFORE_HEADER_def rd_hdr_def)

section \<open>The contract of the heap\<close>

text \<open>A client's history: it asks for bytes and frees blocks it holds.\<close>

datatype heap_op = New u32 | Del nat

fun heap_step ::
    "(u32 \<Rightarrow> 's \<Rightarrow> (u32 \<times> 's) kres) \<Rightarrow> (u32 \<Rightarrow> 's \<Rightarrow> (bool \<times> 's) kres) \<Rightarrow> heap_op \<Rightarrow>
     (u32 \<times> u32) list \<times> 's \<Rightarrow> ((u32 \<times> u32) list \<times> 's) kres" where
  "heap_step al fr (New n) (held, s) =
    bindE (al n s) (\<lambda>(p, s). Inr (if p = 0 then held else (p, n) # held, s))"
| "heap_step al fr (Del i) (held, s) =
    (if i < length held then
       bindE (fr (fst (held ! i)) s) (\<lambda>(_, s). Inr (take i held @ drop (Suc i) held, s))
     else Inr (held, s))"

fun run_heap ::
    "(u32 \<Rightarrow> 's \<Rightarrow> (u32 \<times> 's) kres) \<Rightarrow> (u32 \<Rightarrow> 's \<Rightarrow> (bool \<times> 's) kres) \<Rightarrow> heap_op list \<Rightarrow>
     (u32 \<times> u32) list \<times> 's \<Rightarrow> ((u32 \<times> u32) list \<times> 's) kres" where
  "run_heap al fr [] c = Inr c"
| "run_heap al fr (op # ops) c = bindE (heap_step al fr op c) (run_heap al fr ops)"

text \<open>Two blocks, given by address and length, do not overlap.\<close>

definition apart :: "u32 \<times> u32 \<Rightarrow> u32 \<times> u32 \<Rightarrow> bool" where
  "apart b c \<longleftrightarrow> unat (fst b) + unat (snd b) \<le> unat (fst c) \<or> unat (fst c) + unat (snd c) \<le> unat (fst b)"

locale heap_allocator =
  fixes al :: "u32 \<Rightarrow> 's \<Rightarrow> (u32 \<times> 's) kres"
    and fr :: "u32 \<Rightarrow> 's \<Rightarrow> (bool \<times> 's) kres"
    and inv :: "'s \<Rightarrow> bool"
    and ok :: "u32 \<Rightarrow> 's \<Rightarrow> bool"
    and live :: "'s \<Rightarrow> (u32 \<times> nat) set"
  assumes al_null: "inv s \<Longrightarrow> ok n s \<Longrightarrow> al n s = Inr (0, s') \<Longrightarrow> s' = s"
    and al_block: "inv s \<Longrightarrow> ok n s \<Longrightarrow> al n s = Inr (p, s') \<Longrightarrow> p \<noteq> 0 \<Longrightarrow>
      inv s' \<and> (\<forall>k. ok k s' = ok k s) \<and> p \<notin> fst ` live s \<and>
      (\<exists>m \<ge> unat n. live s' = insert (p, m) (live s))"
    and fr_block: "inv s \<Longrightarrow> (p, m) \<in> live s \<Longrightarrow>
      \<exists>s'. fr p s = Inr (True, s') \<and> inv s' \<and> (\<forall>k. ok k s' = ok k s) \<and> live s' = live s - {(p, m)}"
    and live_sep: "inv s \<Longrightarrow> (p, m) \<in> live s \<Longrightarrow> (q, k) \<in> live s \<Longrightarrow> p \<noteq> q \<Longrightarrow>
      unat p + m \<le> unat q \<or> unat q + k \<le> unat p"
begin

definition holds :: "(u32 \<times> u32) list \<times> 's \<Rightarrow> bool" where
  "holds c \<longleftrightarrow> inv (snd c) \<and> distinct (map fst (fst c)) \<and>
     (\<forall>(p, n) \<in> set (fst c). \<exists>m \<ge> unat n. (p, m) \<in> live (snd c))"

definition all_ok :: "heap_op list \<Rightarrow> 's \<Rightarrow> bool" where
  "all_ok ops s \<longleftrightarrow> (\<forall>n. New n \<in> set ops \<longrightarrow> ok n s)"

lemma new_keeps:
  assumes "holds (held, s)" "ok n s" "heap_step al fr (New n) (held, s) = Inr (held', s')"
  shows "holds (held', s')" and "\<forall>k. ok k s' = ok k s"
proof -
  obtain p where al: "al n s = Inr (p, s')" and held': "held' = (if p = 0 then held else (p, n) # held)"
    using assms(3) by (auto simp: kres_simps)
  have inv: "inv s" using assms(1) by (simp add: holds_def)
  have "holds (held', s') \<and> (\<forall>k. ok k s' = ok k s)"
  proof (cases "p = 0")
    case True
    then show ?thesis using al_null [OF inv assms(2)] al held' assms(1) by simp
  next
    case False
    note blk = al_block [OF inv assms(2) al False]
    then obtain m where m: "m \<ge> unat n" "live s' = insert (p, m) (live s)" by blast
    have "p \<notin> fst ` set held" using assms(1) blk by (force simp: holds_def)
    then show ?thesis using blk m False held' assms(1) by (fastforce simp: holds_def)
  qed
  then show "holds (held', s')" and "\<forall>k. ok k s' = ok k s" by simp_all
qed

lemma del_keeps:
  assumes "holds (held, s)" "heap_step al fr (Del i) (held, s) = Inr (held', s')"
  shows "holds (held', s')" and "\<forall>k. ok k s' = ok k s"
proof -
  have "holds (held', s') \<and> (\<forall>k. ok k s' = ok k s)"
  proof (cases "i < length held")
    case False
    then show ?thesis using assms by simp
  next
    case True
    obtain p n where pn: "held ! i = (p, n)" by (cases "held ! i")
    let ?rest = "take i held @ drop (Suc i) held"
    have split: "held = take i held @ (p, n) # drop (Suc i) held"
      using id_take_nth_drop [OF True] pn by simp
    have inv: "inv s" "(p, n) \<in> set held" using assms(1) pn True by (auto simp: holds_def in_set_conv_nth)
    then obtain m where m: "(p, m) \<in> live s" using assms(1) by (auto simp: holds_def)
    obtain t where t: "fr p s = Inr (True, t)" "inv t" "\<forall>k. ok k t = ok k s" "live t = live s - {(p, m)}"
      using fr_block [OF inv(1) m] by blast
    then have eqs: "held' = ?rest" "s' = t" using assms(2) True pn by simp_all
    have dist: "distinct (map fst (take i held @ (p, n) # drop (Suc i) held))"
      using assms(1) split by (simp add: holds_def)
    have "\<exists>m \<ge> unat k. (q, m) \<in> live t" if q: "(q, k) \<in> set ?rest" for q k
    proof -
      have "(q, k) \<in> set held" using q by (auto dest: in_set_takeD in_set_dropD)
      then obtain m' where "m' \<ge> unat k" "(q, m') \<in> live s" using assms(1) by (auto simp: holds_def)
      moreover have "q \<noteq> p" using dist q by force
      ultimately show ?thesis using t(4) by blast
    qed
    then have "\<forall>(q, k) \<in> set ?rest. \<exists>m \<ge> unat k. (q, m) \<in> live t" by blast
    moreover have "distinct (map fst ?rest)" using dist by auto
    ultimately show ?thesis using eqs t by (simp add: holds_def)
  qed
  then show "holds (held', s')" and "\<forall>k. ok k s' = ok k s" by simp_all
qed

lemma run_holds:
  assumes "holds c" "all_ok ops (snd c)" "run_heap al fr ops c = Inr c'"
  shows "holds c'"
  using assms
proof (induction ops arbitrary: c)
  case Nil
  then show ?case by simp
next
  case (Cons op ops)
  obtain held s where c: "c = (held, s)" by (cases c)
  obtain held1 s1 where step: "heap_step al fr op (held, s) = Inr (held1, s1)"
    and run: "run_heap al fr ops (held1, s1) = Inr c'"
    using Cons.prems(3) c by (auto simp: kres_simps)
  have "holds (held1, s1) \<and> (\<forall>k. ok k s1 = ok k s)"
  proof (cases op)
    case (New n)
    then show ?thesis using new_keeps [of held s n held1 s1] Cons.prems(1,2) step c by (simp add: all_ok_def)
  next
    case (Del i)
    then show ?thesis using del_keeps [of held s i held1 s1] Cons.prems(1) step c by simp
  qed
  then show ?case using Cons.IH [of "(held1, s1)"] Cons.prems(2) run c by (simp add: all_ok_def)
qed

lemma holds_apart:
  assumes "holds (held, s)"
  shows "sorted_wrt apart held"
proof -
  have "apart b c" if bc: "b \<in> set held" "c \<in> set held" "fst b \<noteq> fst c" for b c
  proof -
    obtain m where m: "m \<ge> unat (snd b)" "(fst b, m) \<in> live s" using assms bc(1) by (fastforce simp: holds_def)
    obtain k where k: "k \<ge> unat (snd c)" "(fst c, k) \<in> live s" using assms bc(2) by (fastforce simp: holds_def)
    have "inv s" using assms by (simp add: holds_def)
    from live_sep [OF this m(2) k(2) bc(3)] m(1) k(1) show ?thesis by (auto simp: apart_def)
  qed
  moreover have "distinct (map fst held)" using assms by (simp add: holds_def)
  ultimately show ?thesis
  proof (induction held)
    case Nil
    then show ?case by simp
  next
    case (Cons b held)
    then show ?case by (auto simp: image_iff)
  qed
qed

end

lemma kmalloc_block:
  assumes "heap_inv s" "heap_request n s" "kmalloc n s = Inr (p, s')"
  shows "p = 0 \<Longrightarrow> s' = s" and "p \<noteq> 0 \<Longrightarrow> heap_inv s' \<and> mem s' = mem s \<and>
      kernel_heap_limit s' = kernel_heap_limit s \<and> p \<notin> fst ` live_blocks s \<and>
      (\<exists>m \<ge> unat n. live_blocks s' = insert (p, m) (live_blocks s))"
proof -
  note spec = kmalloc_correct [OF assms(1,2)]
  show "p = 0 \<Longrightarrow> s' = s" using spec by (simp add: assms(3))
  assume "p \<noteq> 0"
  then have keep: "heap_inv s' \<and> mem s' = mem s \<and> kernel_heap_limit s' = kernel_heap_limit s \<and> p \<notin> fst ` live_blocks s" and
    "\<exists>m \<ge> unat (ALIGN_UP n 8). live_blocks s' = insert (p, m) (live_blocks s)"
    using spec by (simp_all add: assms(3))
  then obtain m where "m \<ge> unat (ALIGN_UP n 8)" "live_blocks s' = insert (p, m) (live_blocks s)" by blast
  then show "heap_inv s' \<and> mem s' = mem s \<and>
      kernel_heap_limit s' = kernel_heap_limit s \<and> p \<notin> fst ` live_blocks s \<and>
      (\<exists>m \<ge> unat n. live_blocks s' = insert (p, m) (live_blocks s))"
    using keep align8(2) [OF assms(2)] order_trans by blast
qed

text \<open>
  The sizes a client may ask for: with the heap's limit and 16 KiB added they stay below 4 GiB, so that the rounding and the
  page count do not wrap around. A size of zero gives \<^verbatim>\<open>NULL\<close>.
\<close>

definition heap_size_ok :: "u32 \<Rightarrow> 'z heap_state_scheme \<Rightarrow> bool" where
  "heap_size_ok n s \<longleftrightarrow> unat (kernel_heap_limit s) + unat n + 2 ^ 14 \<le> 2 ^ 32"

lemma kmalloc_any_block:
  assumes "heap_inv s" "heap_size_ok n s" "kmalloc n s = Inr (p, s')"
  shows "p = 0 \<Longrightarrow> s' = s" and "p \<noteq> 0 \<Longrightarrow> heap_inv s' \<and> kernel_heap_limit s' = kernel_heap_limit s \<and>
      p \<notin> fst ` live_blocks s \<and> (\<exists>m \<ge> unat n. live_blocks s' = insert (p, m) (live_blocks s))"
proof -
  have "n = 0 \<and> p = 0 \<and> s' = s \<or> heap_request n s"
    using assms(2,3) by (cases "n = 0") (auto simp: kmalloc_def heap_size_ok_def heap_request_def unat_gt_0)
  then show "p = 0 \<Longrightarrow> s' = s" and "p \<noteq> 0 \<Longrightarrow> heap_inv s' \<and> kernel_heap_limit s' = kernel_heap_limit s \<and>
      p \<notin> fst ` live_blocks s \<and> (\<exists>m \<ge> unat n. live_blocks s' = insert (p, m) (live_blocks s))"
    using kmalloc_block [OF assms(1) _ assms(3)] by auto
qed

interpretation kheap: heap_allocator kmalloc kfree heap_inv heap_size_ok live_blocks
proof unfold_locales
  fix s s' :: "'a heap_state_scheme" and n p q :: u32 and m k :: nat
  assume inv: "heap_inv s"
  show "heap_size_ok n s \<Longrightarrow> kmalloc n s = Inr (0, s') \<Longrightarrow> s' = s"
    using kmalloc_any_block(1) [OF inv] by blast
  show "heap_size_ok n s \<Longrightarrow> kmalloc n s = Inr (p, s') \<Longrightarrow> p \<noteq> 0 \<Longrightarrow>
      heap_inv s' \<and> (\<forall>k. heap_size_ok k s' = heap_size_ok k s) \<and> p \<notin> fst ` live_blocks s \<and>
      (\<exists>m \<ge> unat n. live_blocks s' = insert (p, m) (live_blocks s))"
    using kmalloc_any_block(2) [OF inv, of n p s'] by (auto simp: heap_size_ok_def)
  show "(p, m) \<in> live_blocks s \<Longrightarrow>
      \<exists>s'. kfree p s = Inr (True, s') \<and> heap_inv s' \<and> (\<forall>k. heap_size_ok k s' = heap_size_ok k s) \<and>
        live_blocks s' = live_blocks s - {(p, m)}"
    using kfree_live [OF inv, of p m] by (auto simp: heap_size_ok_def)
  show "(p, m) \<in> live_blocks s \<Longrightarrow> (q, k) \<in> live_blocks s \<Longrightarrow> p \<noteq> q \<Longrightarrow>
      unat p + m \<le> unat q \<or> unat q + k \<le> unat p"
    using live_disjoint [OF inv] by blast
qed

section \<open>The data of a block\<close>

lemma block_plain:
  assumes inv: "heap_inv s" and live: "(p, m) \<in> live_blocks s"
  shows "plain s p m"
proof -
  obtain a ha where a: "hdrs s a = Some ha" "m = unat (h_size ha)" "unat p = unat a + 12"
    "unat p + m \<le> unat (kernel_heap_brk s)" "unat (kernel_heap_base s) + 12 \<le> unat p"
    using live_header [OF inv live] by blast
  obtain as where as: "chain (hdrs s) (unat (kernel_heap_base s)) (unat (kernel_heap_brk s)) (kernel_heap_lh s) as"
    "set as = dom (hdrs s)"
    using inv by (auto simp: heap_inv_def)
  have "mmu_translate s x \<noteq> None \<and> header_at s x = None" if x: "unat p \<le> unat x" "unat x < unat p + m" for x
  proof
    show "mmu_translate s x \<noteq> None"
      using inv a x by (auto simp: heap_inv_def word_le_nat_alt word_less_nat_alt)
    have "hdrs s (x - word_of_nat j) = None" if j: "j < 12" for j
    proof (rule ccontr)
      assume "hdrs s (x - word_of_nat j) \<noteq> None"
      then obtain hb where b: "hdrs s (x - word_of_nat j) = Some hb" by blast
      have u: "unat (x - word_of_nat j) = unat x - j" using x a j by (intro unat_sub_nat) simp
      then have ne: "a \<noteq> x - word_of_nat j" using x a j by auto
      have "a \<in> set as" "x - word_of_nat j \<in> set as" using a(1) b as(2) by auto
      from chain_disjoint [OF as(1) this ne a(1) b] show False using u x a j by auto
    qed
    then show "header_at s x = None" by (simp add: header_at_None_iff)
  qed
  moreover have "unat p + m \<le> 2 ^ 32" using a(4) unat_u32_less [of "kernel_heap_brk s"] by simp
  ultimately show ?thesis by (simp add: plain_def)
qed

lemma plain_prefix: "plain s a n \<Longrightarrow> k \<le> n \<Longrightarrow> plain s a k"
  by (auto simp: plain_def)

lemma kcalloc_block:
  assumes inv: "heap_inv s" and req: "heap_request n s" and run: "kmalloc n s = Inr (p, s1)" "p \<noteq> 0"
  shows "kcalloc n s = Inr (p, s1\<lparr>mem := filled (mem s) p 0 (unat (ALIGN_UP n 8))\<rparr>)"
proof -
  have spec: "heap_inv s1" "mem s1 = mem s" "\<exists>m \<ge> unat (ALIGN_UP n 8). live_blocks s1 = insert (p, m) (live_blocks s)"
    using kmalloc_correct [OF inv req] run(2) by (simp_all add: run(1))
  then obtain m where m: "m \<ge> unat (ALIGN_UP n 8)" "(p, m) \<in> live_blocks s1" by blast
  have "plain s1 p (unat (ALIGN_UP n 8))" using plain_prefix [OF block_plain [OF spec(1) m(2)] m(1)] .
  then have "kmemset p 0 (ALIGN_UP n 8) s1 = Inr (p, s1\<lparr>mem := filled (mem s) p 0 (unat (ALIGN_UP n 8))\<rparr>)"
    using kmemset_plain run(2) spec(2) by metis
  moreover have "n \<noteq> 0" using req by (auto simp: heap_request_def)
  ultimately show ?thesis using run(1) by (simp add: kcalloc_def)
qed

section \<open>Initialisation\<close>

text \<open>What the operations of the memory managers keep of a larger state.\<close>

definition vmm_frame :: "'z vmm_state_scheme \<Rightarrow> 'z vmm_state_scheme \<Rightarrow> bool" where
  "vmm_frame s s' \<longleftrightarrow>
     (\<exists>m c f. s' = s\<lparr>bitmap_mem := m, kpmm_free_pages_amount := c, pmem := f\<rparr>)"

lemma vmm_frame_refl [simp]: "vmm_frame s s"
  unfolding vmm_frame_def
  by (intro exI [of _ "bitmap_mem s"] exI [of _ "kpmm_free_pages_amount s"] exI [of _ "pmem s"]) simp

lemma vmm_frame_trans: "vmm_frame s t \<Longrightarrow> vmm_frame t u \<Longrightarrow> vmm_frame s u"
  unfolding vmm_frame_def by (elim exE) (intro exI, simp)

lemma vwrite_frame: "vwrite v x s = Inr s' \<Longrightarrow> vmm_frame s s'"
  unfolding vmm_frame_def vwrite_def
  by (auto simp: kres_simps intro!: exI [of _ "bitmap_mem s"] exI [of _ "kpmm_free_pages_amount s"])

lemma vzero_keeps: "vzero n v s = Inr s' \<Longrightarrow> vmm_frame s s'"
proof (induction n arbitrary: v s)
  case (Suc n)
  then show ?case by (auto simp: kres_simps) (metis vwrite_frame vmm_frame_trans)
qed simp

lemma pmm_vmm_frame: "pmm_frame s s' \<Longrightarrow> vmm_frame s s'"
  unfolding pmm_frame_def vmm_frame_def by (elim exE conjE) (intro exI [of _ "pmem s"] exI, simp)

lemma map_page_frame:
  assumes "pmm_inv s" "kvmm_map_page v p flags s = Inr (ok, s')"
  shows "vmm_frame s s'"
proof -
  have table: "vmm_frame s t" if "map_page_table d flags s = Inr (b, t)" for d b t
  proof -
    have al: "vmm_frame s u" if "kpmm_alloc_pages 1 s = Inr (q, u)" for q u
      using pmm_alloc_block [OF assms(1) that] pmm_vmm_frame by (cases "q = 0") auto
    show ?thesis using that
      unfolding map_page_table_def Let_def
      by (auto simp: kres_simps split: if_splits dest!: al vzero_keeps vwrite_frame intro: vmm_frame_trans)
  qed
  then show ?thesis using assms(2)
    by (auto simp: kvmm_map_page_def Let_def kres_simps split: if_splits
        dest!: table vwrite_frame intro: vmm_frame_trans)
qed

text \<open>The place the linker script gives the heap: whole pages under one directory entry.\<close>

definition heap_range_ok :: "u32 \<Rightarrow> u32 \<Rightarrow> bool" where
  "heap_range_ok st en \<longleftrightarrow> unat st mod 4096 = 0 \<and> 0 < unat st \<and> unat en mod 4096 = 0 \<and>
     unat st + 4096 \<le> unat en \<and> unat en - 1 < 4194304 * (unat st div 4194304 + 1) \<and>
     pdi st \<noteq> 768 \<and> pdi st \<noteq> 1023"

lemma vmm_heap_fields [mem_simps]:
  "mmu_translate (s\<lparr>kernel_heap_base := b\<rparr>) x = mmu_translate s x"
  "mmu_translate (s\<lparr>kernel_heap_limit := b\<rparr>) x = mmu_translate s x"
  "pd_entry (s\<lparr>kernel_heap_base := b\<rparr>) = pd_entry s" "pt_entry (s\<lparr>kernel_heap_base := b\<rparr>) = pt_entry s"
  "pd_entry (s\<lparr>kernel_heap_limit := b\<rparr>) = pd_entry s" "pt_entry (s\<lparr>kernel_heap_limit := b\<rparr>) = pt_entry s"
  "low_free (s\<lparr>kernel_heap_base := b\<rparr>) = low_free s"
  by (simp_all add: fun_eq_iff mmu_translate_def pte_of_def pde_of_def pd_entry_def pt_entry_def
      low_free_def free_pages_def)

lemma vmm_inv_heap_fields [mem_simps]:
  "vmm_inv (s\<lparr>kernel_heap_base := b\<rparr>) = vmm_inv s" "vmm_inv (s\<lparr>kernel_heap_limit := b\<rparr>) = vmm_inv s"
  by (simp_all add: vmm_inv_def recursive_ok_def pmm_inv_def free_pages_def mem_simps)

lemma init_first_page:
  assumes vmm: "vmm_inv s" and range: "heap_range_ok st en" and room: "2 \<le> card (low_free s)"
    and unmapped: "\<forall>w. st \<le> w \<and> w < en \<longrightarrow> mmu_translate s w = None"
  shows "\<exists>fr s1 s2. kpmm_alloc_pages 1 s = Inr (fr, s1) \<and> fr \<noteq> 0 \<and>
    kvmm_map_page st fr (KVMM_FLAG_PRESENT OR KVMM_FLAG_RW) (s1\<lparr>kernel_heap_base := st\<rparr>) = Inr (True, s2) \<and>
    page_mapped st fr s s2 \<and> vmm_frame (s\<lparr>kernel_heap_base := st\<rparr>) s2 \<and>
    card (low_free s) \<le> card (low_free s2) + 2"
proof -
  have pmm: "pmm_inv s" using vmm by (simp add: vmm_inv_def)
  have "low_free s \<noteq> {}" using room by auto
  then obtain fr s1 where al: "kpmm_alloc_pages 1 s = Inr (fr, s1)" "fr \<noteq> 0"
    using alloc_low_page [OF pmm] by blast
  note blk = pmm_alloc_block(2) [OF pmm al]
  have inv1: "vmm_inv s1" using vmm_inv_alloc [OF vmm] blk by blast
  let ?s1 = "s1\<lparr>kernel_heap_base := st\<rparr>"
  have "block_pages fr 1 = {unat fr div 4096}" by (auto simp: block_pages_def)
  then have "low_free s1 = low_free s - {unat fr div 4096}" using blk by (auto simp: low_free_def)
  then have c1: "card (low_free s) - 1 \<le> card (low_free s1)"
    using diff_card_le_card_Diff [of "{unat fr div 4096}" "low_free s"] by simp
  then have "1 \<le> card (low_free s1)" using room by simp
  then have "low_free s1 \<noteq> {}" by auto
  then have low: "e_present (pd_entry ?s1 (pdi st)) \<or> low_free ?s1 \<noteq> {}" by (simp add: mem_simps)
  have alig: "IS_ALIGNED_TO st 4096" "IS_ALIGNED_TO fr 4096"
    using range kpmm_page_aligned [OF pmm al(1)]
    by (simp_all add: heap_range_ok_def IS_ALIGNED_TO_def word_unat_eq_iff unat_mod_distrib)
  have flags: "(KVMM_FLAG_PRESENT OR KVMM_FLAG_RW) AND KVMM_FLAG_PRESENT \<noteq> 0"
    by (simp add: KVMM_FLAG_PRESENT_def KVMM_FLAG_RW_def)
  have tr1: "mmu_translate s1 = mmu_translate s" using pmm_frame_heap(7) blk by blast
  have "mmu_translate ?s1 st = None"
    using unmapped range tr1 by (simp add: mem_simps heap_range_ok_def word_less_nat_alt)
  moreover have "vmm_inv ?s1" "pdi st \<noteq> 1023" using inv1 range by (simp_all add: mem_simps heap_range_ok_def)
  ultimately obtain s2 where s2: "kvmm_map_page st fr (KVMM_FLAG_PRESENT OR KVMM_FLAG_RW) ?s1 = Inr (True, s2)"
      "page_mapped st fr ?s1 s2" "card (low_free ?s1) \<le> card (low_free s2) + 1"
    using kvmm_map_page_correct [OF _ alig flags _ _ low] by blast
  have "page_mapped st fr s s2"
    using s2(2) tr1 by (simp add: page_mapped_def mem_simps)
  moreover have "vmm_frame ?s1 s2"
    using map_page_frame [OF _ s2(1)] \<open>vmm_inv ?s1\<close> by (simp add: vmm_inv_def)
  moreover have "vmm_frame (s\<lparr>kernel_heap_base := st\<rparr>) ?s1"
  proof -
    obtain m c where "s1 = s\<lparr>bitmap_mem := m, kpmm_free_pages_amount := c\<rparr>"
      using blk by (auto simp: pmm_frame_def)
    then show ?thesis unfolding vmm_frame_def
      by (intro exI [of _ m] exI [of _ c] exI [of _ "pmem s"]) simp
  qed
  moreover have "card (low_free s) \<le> card (low_free s2) + 2" using c1 s2(3) by (simp add: mem_simps)
  ultimately show ?thesis using al s2(1) vmm_frame_trans by blast
qed

lemma kmalloc_init_establishes:
  assumes vmm: "vmm_inv s" and range: "heap_range_ok st en" and room: "2 \<le> card (low_free s)"
    and unmapped: "\<forall>w. st \<le> w \<and> w < en \<longrightarrow> mmu_translate s w = None" and empty: "hdrs s = Map.empty"
  shows "\<exists>s'. kmalloc_init st en s = Inr (True, s') \<and> heap_inv s' \<and> live_blocks s' = {} \<and>
    hdrs s' = [st \<mapsto> \<lparr>h_free = OK_TRUE, h_size = 4084, h_next = 0\<rparr>] \<and> kernel_heap_limit s' = en \<and>
    kernel_heap_brk s' = st + 4096 \<and> card (low_free s) \<le> card (low_free s') + 2"
proof -
  obtain fr s1 s2 where al: "kpmm_alloc_pages 1 s = Inr (fr, s1)" "fr \<noteq> 0"
    and run: "kvmm_map_page st fr (KVMM_FLAG_PRESENT OR KVMM_FLAG_RW) (s1\<lparr>kernel_heap_base := st\<rparr>) = Inr (True, s2)"
    and pm: "page_mapped st fr s s2" and frame: "vmm_frame (s\<lparr>kernel_heap_base := st\<rparr>) s2"
    and low: "card (low_free s) \<le> card (low_free s2) + 2"
    using init_first_page [OF assms(1-4)] by blast
  have eqs: "kernel_heap_base s2 = st" "hdrs s2 = hdrs s" using frame by (auto simp: vmm_frame_def)
  let ?h = "\<lparr>h_free = OK_TRUE, h_size = 4084, h_next = 0\<rparr>"
  define s' where "s' = s2\<lparr>hdrs := [st \<mapsto> ?h], kernel_heap_brk := st + 4096,
      kernel_heap_limit := en, kernel_heap_lh := st\<rparr>"
  have st0: "mmu_translate s2 st \<noteq> None" using pm by (simp add: page_mapped_def)
  then have init: "kmalloc_init st en s = Inr (True, s')"
    using al run eqs empty
    by (simp add: kmalloc_init_def Let_def wr_hdr_def KMALLOC_PAGE_SIZE_def header_size_def s'_def)
  note r = range [unfolded heap_range_ok_def]
  have brk: "unat (st + 4096) = unat st + 4096"
    using r unat_u32_less [of en] by (simp add: unat_word_ariths)
  have "paging s2" using pm by (simp add: page_mapped_def vmm_inv_def recursive_ok_def)
  then have pde: "e_present (pd_entry s2 (pdi st))"
    using st0 by (simp add: translate_entries split: if_splits)
  have "pfn w = pfn st \<longleftrightarrow> st \<le> w \<and> w < st + 4096" for w
  proof -
    obtain k where k: "unat st = 4096 * k" using r by auto
    have "unat w div 4096 = k \<longleftrightarrow> 4096 * k \<le> unat w \<and> unat w < 4096 * k + 4096"
      by (auto intro!: div_nat_eqI dest: sym)
    then show ?thesis using k brk by (simp add: word_unat_eq_iff pfn_unat word_le_nat_alt word_less_nat_alt)
  qed
  note page = this
  have mapped: "mmu_translate s2 w \<noteq> None" if "st \<le> w" "w < st + 4096" for w
    using pm page [of w] that by (simp add: page_mapped_def)
  have above: "mmu_translate s2 w = None" if "st + 4096 \<le> w" "w < en" for w
  proof -
    have "st \<le> w" "pfn w \<noteq> pfn st" using that brk page [of w]
      by (auto simp: word_le_nat_alt word_less_nat_alt)
    moreover have "unat w div 4194304 = unat st div 4194304"
    proof (rule div_nat_eqI)
      have "4194304 * (unat st div 4194304) \<le> unat st" by simp
      moreover have "unat w \<le> unat en - 1" "unat st \<le> unat w" "unat en - 1 < 4194304 * (unat st div 4194304 + 1)"
        using that r \<open>st \<le> w\<close> by (simp_all add: word_le_nat_alt word_less_nat_alt)
      moreover define k where "k = unat st div 4194304"
      ultimately have "4194304 * k \<le> unat w" "unat w < 4194304 * Suc k" by simp_all
      then show "4194304 * (unat st div 4194304) \<le> unat w" "unat w < 4194304 * Suc (unat st div 4194304)"
        by (simp_all only: k_def)
    qed
    then have "pdi w \<noteq> 1023" using r by (simp add: pdi_eq)
    ultimately show ?thesis using pm unmapped that(2) by (simp add: page_mapped_def)
  qed
  have "heap_inv s'"
    unfolding heap_inv_def s'_def using pm r brk pde mapped above eqs
    by (simp add: mem_simps page_mapped_def word_le_nat_alt) (intro exI [of _ "[st]"], auto)
  moreover have "live_blocks s' = {}" by (auto simp: live_blocks_def s'_def)
  moreover have "low_free s' = low_free s2" by (simp add: s'_def low_free_def free_pages_def)
  ultimately show ?thesis using init low by (simp add: s'_def)
qed

section \<open>Properties\<close>

text \<open>
  C16. \<^verbatim>\<open>kmalloc_init\<close> on an unmapped range of whole pages under one directory entry, with two
  free frames below 4 MiB, establishes the heap's invariant: one free block of one page, no
  block in use.
\<close>

theorem kmalloc_init_correct:
  assumes "vmm_inv s" "heap_range_ok st en" "2 \<le> card (low_free s)"
    and "\<forall>w. st \<le> w \<and> w < en \<longrightarrow> mmu_translate s w = None" and "hdrs s = Map.empty"
  shows "\<exists>s'. kmalloc_init st en s = Inr (True, s') \<and> heap_inv s' \<and> live_blocks s' = {} \<and>
    hdrs s' = [st \<mapsto> \<lparr>h_free = OK_TRUE, h_size = 4084, h_next = 0\<rparr>]"
  using kmalloc_init_establishes [OF assms] by blast

definition no_heap :: "unit heap_state_ext" where
  "no_heap = heap_state.fields (\<lambda>a. 0) Map.empty 0 0 0 0"

lemma heap_range_example: "heap_range_ok 0xD0000000 0xD0064000"
  by (simp add: heap_range_ok_def pdi_eq)

lemma before_heap:
  obtains s where "kvmm_init (vmm_boot_at 44 no_heap) = Inr (True, s)" "vmm_inv s" "2 < card (low_free s)"
    "\<forall>w. 0xD0000000 \<le> w \<and> w < 0xD0064000 \<longrightarrow> mmu_translate s w = None" "hdrs s = Map.empty"
proof -
  obtain s where s: "kvmm_init (vmm_boot_at 44 no_heap) = Inr (True, s)" "vmm_inv s" "low_free s = {353, 354, 355}"
    and none: "\<And>w. pdi w \<noteq> 0 \<Longrightarrow> pdi w \<noteq> 768 \<Longrightarrow> pdi w \<noteq> 1023 \<Longrightarrow> mmu_translate s w = None"
    and more: "vmm_state.more s = no_heap"
    by (rule vmm_boot_after [of 44 no_heap]) (use vmm_boot_low_free in auto)
  have "mmu_translate s w = None" if "0xD0000000 \<le> w" "w < 0xD0064000" for w
  proof -
    have "unat w div 4194304 = 832"
      using that by (intro div_nat_eqI) (simp_all add: word_le_nat_alt word_less_nat_alt)
    then show ?thesis by (intro none) (simp_all add: pdi_eq)
  qed
  moreover have "hdrs s = Map.empty" using more by (cases s) (simp add: no_heap_def heap_state.defs)
  moreover have "2 < card (low_free s)" unfolding s(3) by simp
  ultimately show thesis using that [OF s(1,2)] by blast
qed

theorem kmalloc_init_correct_witness:
  "\<exists>s s'. kvmm_init (vmm_boot_at 44 no_heap) = Inr (True, s) \<and>
     kmalloc_init 0xD0000000 0xD0064000 s = Inr (True, s') \<and> heap_inv s' \<and> live_blocks s' = {}"
proof -
  obtain s where s: "kvmm_init (vmm_boot_at 44 no_heap) = Inr (True, s)" "vmm_inv s" "2 < card (low_free s)"
    "\<forall>w. 0xD0000000 \<le> w \<and> w < 0xD0064000 \<longrightarrow> mmu_translate s w = None" "hdrs s = Map.empty"
    by (rule before_heap)
  from kmalloc_init_correct [OF s(2) heap_range_example _ s(4,5)] s(1,3) show ?thesis by auto
qed

text \<open>The heap as the later witnesses use it: one free block, nothing in use, a frame left.\<close>

definition heap_ready :: "heap_state \<Rightarrow> bool" where
  "heap_ready s \<longleftrightarrow> (\<exists>s0. kvmm_init (vmm_boot_at 44 no_heap) = Inr (True, s0) \<and>
     kmalloc_init 0xD0000000 0xD0064000 s0 = Inr (True, s))"

lemma heap_ready_facts:
  assumes "heap_ready s"
  shows "heap_inv s" "live_blocks s = {}" "hdrs s = [0xD0000000 \<mapsto> \<lparr>h_free = OK_TRUE, h_size = 4084, h_next = 0\<rparr>]"
    and "kernel_heap_limit s = 0xD0064000" "kernel_heap_brk s = 0xD0001000" "free_pages s \<noteq> {}"
proof -
  obtain s0 where s0: "kvmm_init (vmm_boot_at 44 no_heap) = Inr (True, s0)" "vmm_inv s0" "2 < card (low_free s0)"
    "\<forall>w. 0xD0000000 \<le> w \<and> w < 0xD0064000 \<longrightarrow> mmu_translate s0 w = None" "hdrs s0 = Map.empty"
    by (rule before_heap)
  have "kmalloc_init 0xD0000000 0xD0064000 s0 = Inr (True, s)" using assms s0(1) by (auto simp: heap_ready_def)
  with kmalloc_init_establishes [OF s0(2) heap_range_example _ s0(4,5)] s0(3)
  have "heap_inv s \<and> live_blocks s = {} \<and> kernel_heap_limit s = 0xD0064000 \<and> kernel_heap_brk s = 0xD0001000 \<and>
    hdrs s = [0xD0000000 \<mapsto> \<lparr>h_free = OK_TRUE, h_size = 4084, h_next = 0\<rparr>] \<and> card (low_free s0) \<le> card (low_free s) + 2"
    by auto
  moreover from this s0(3) have "0 < card (low_free s)" by linarith
  then have "free_pages s \<noteq> {}" by (auto simp: low_free_def)
  ultimately show "heap_inv s" "live_blocks s = {}" "hdrs s = [0xD0000000 \<mapsto> \<lparr>h_free = OK_TRUE, h_size = 4084, h_next = 0\<rparr>]"
    and "kernel_heap_limit s = 0xD0064000" "kernel_heap_brk s = 0xD0001000" "free_pages s \<noteq> {}" by simp_all
qed

lemma heap_ready_exists: "\<exists>s. heap_ready s"
proof -
  obtain s0 where s0: "kvmm_init (vmm_boot_at 44 no_heap) = Inr (True, s0)" "vmm_inv s0" "2 < card (low_free s0)"
    "\<forall>w. 0xD0000000 \<le> w \<and> w < 0xD0064000 \<longrightarrow> mmu_translate s0 w = None" "hdrs s0 = Map.empty"
    by (rule before_heap)
  with kmalloc_init_establishes [OF s0(2) heap_range_example _ s0(4,5)] show ?thesis
    by (auto simp: heap_ready_def)
qed

text \<open>
  C15. \<^verbatim>\<open>kmalloc\<close> of a size that is not zero and does not wrap around (\<open>heap_request\<close>) always returns or panics, and its outcome
  is determined: it returns a block of at least the requested size that was not in use, and only that block becomes in use;
  it returns \<^verbatim>\<open>NULL\<close>, changing nothing, only when no free block is large enough and either the heap's limit is reached or no
  page frame is free; it panics only when frames are free but not enough of them in a row. Nothing is said of the block's
  alignment: it starts 12 bytes behind its header.
\<close>

theorem kmalloc_spec:
  assumes "heap_inv s" "heap_request n s"
  shows "case kmalloc n s of
      Inl e \<Rightarrow> e = Panic \<and> \<not> fits_free n s \<and> free_pages s \<noteq> {} \<and>
        (\<forall>q. \<not> {q..<q + unat (pages_to_get (ALIGN_UP n 8))} \<subseteq> free_pages s)
    | Inr (p, s') \<Rightarrow>
        if p = 0 then s' = s \<and> \<not> fits_free n s \<and>
          (free_pages s = {} \<or> unat (kernel_heap_limit s) < unat (kernel_heap_brk s) + unat (ALIGN_UP n 8) + 12)
        else heap_inv s' \<and> mem s' = mem s \<and> p \<notin> fst ` live_blocks s \<and>
          (\<exists>m \<ge> unat n. live_blocks s' = insert (p, m) (live_blocks s))"
proof (cases "kmalloc n s")
  case (Inl e)
  then show ?thesis using kmalloc_correct [OF assms] by simp
next
  case (Inr r)
  obtain p s' where r: "r = (p, s')" by (cases r)
  show ?thesis
    using kmalloc_correct [OF assms] kmalloc_block [OF assms, of p s'] Inr r by auto
qed

lemma heap_ready_kmalloc:
  assumes "heap_ready s"
  shows "kmalloc 100 s = Inr (0xD000000C, s\<lparr>hdrs := [0xD0000000 \<mapsto> \<lparr>h_free = KO_FALSE, h_size = 4084, h_next = 0\<rparr>]\<rparr>)"
proof -
  note f = heap_ready_facts [OF assms]
  have lh: "kernel_heap_lh s = 0xD0000000"
  proof -
    obtain as where "chain (hdrs s) (unat (kernel_heap_base s)) (unat (kernel_heap_brk s)) (kernel_heap_lh s) as"
      "set as = dom (hdrs s)" using f(1) by (auto simp: heap_inv_def)
    then show ?thesis using f(3) by (cases as) auto
  qed
  have m: "mmu_translate s 0xD0000000 \<noteq> None"
    using heap_block_mapped(3) [OF f(1), of "0xD0000000"] f(3) by simp
  have "find_free_from 104 0xD0000000 s = Some (Inr 0xD0000000)"
    using m f(3) by (subst find_free_from.simps) (simp add: rd_hdr_def)
  then show ?thesis
    using m f(3) lh
    by (simp add: kmalloc_def Let_def ALIGN_UP_def find_free_heap_header_def rd_hdr_def wr_hdr_def
        KMALLOC_GO_AFTER_HEADER_def header_size_def)
qed

lemma heap_ready_request: "heap_ready s \<Longrightarrow> unat n \<le> 0x20000000 \<Longrightarrow> n \<noteq> 0 \<Longrightarrow> heap_request n s"
  using heap_ready_facts(4) [of s] by (simp add: heap_request_def unat_gt_0)

theorem kmalloc_spec_witness:
  "\<exists>s s' m. heap_ready s \<and> kmalloc 100 s = Inr (0xD000000C, s') \<and> heap_inv s' \<and> 100 \<le> m \<and>
     live_blocks s' = {(0xD000000C, m)}"
proof -
  obtain s where s: "heap_ready s" using heap_ready_exists by blast
  note f = heap_ready_facts [OF s]
  from kmalloc_spec [OF f(1) heap_ready_request [OF s], of 100] heap_ready_kmalloc [OF s] f(2) s
  show ?thesis by auto
qed

text \<open>
  C2. Whatever sequence of \<^verbatim>\<open>kmalloc\<close> and \<^verbatim>\<open>kfree\<close> calls a client makes, in any order, freeing blocks it holds and asking for
  sizes that do not wrap around (\<open>heap_size_ok\<close>: with the heap's limit and 16 KiB added they stay below 4 GiB), when no call
  panics, the byte ranges of the blocks it holds never overlap, every one of them is in use, and the heap's invariant holds.
  The bound is needed: \<open>kmalloc_wraps_around\<close> shows a request just below 4 GiB that gets a block of 4084 bytes.
\<close>

theorem heap_blocks_apart:
  assumes "heap_inv s" "\<forall>n. New n \<in> set ops \<longrightarrow> heap_size_ok n s"
    and "run_heap kmalloc kfree ops ([], s) = Inr (held, s')"
  shows "heap_inv s' \<and> sorted_wrt apart held \<and>
    (\<forall>(p, n) \<in> set held. \<exists>m \<ge> unat n. (p, m) \<in> live_blocks s')"
proof -
  have "kheap.holds ([], s)" "kheap.all_ok ops s"
    using assms(1,2) by (simp_all add: kheap.holds_def kheap.all_ok_def)
  then have h: "kheap.holds (held, s')" using kheap.run_holds assms(3) by fastforce
  then show ?thesis using kheap.holds_apart [OF h] by (simp add: kheap.holds_def)
qed

text \<open>Two blocks of which the first is freed, and a third that takes its place.\<close>

theorem heap_blocks_apart_witness:
  "\<exists>s p q s'. heap_ready s \<and> run_heap kmalloc kfree [New 100, New 200, Del 1, New 50] ([], s) = Inr ([(q, 50), (p, 200)], s') \<and>
     apart (q, 50) (p, 200) \<and> heap_inv s' \<and> (\<exists>m \<ge> 50. (q, m) \<in> live_blocks s') \<and> (\<exists>m \<ge> 200. (p, m) \<in> live_blocks s')"
proof -
  obtain s where s: "heap_ready s" using heap_ready_exists by blast
  note f = heap_ready_facts [OF s]
  define t where "t = s\<lparr>hdrs := [0xD0000000 \<mapsto> \<lparr>h_free = KO_FALSE, h_size = 4084, h_next = 0\<rparr>]\<rparr>"
  have t: "kmalloc 100 s = Inr (0xD000000C, t)" using heap_ready_kmalloc [OF s] by (simp add: t_def)
  have it: "heap_inv t" using kmalloc_block(2) [OF f(1) heap_ready_request [OF s] t] by simp
  have lt: "(0xD000000C, 4084) \<in> live_blocks t" by (simp add: t_def live_blocks_def header_size_def)
  have "free_pages t \<noteq> {}" using f(6) by (simp add: t_def free_pages_def)
  then have "Suc 0 \<le> card (free_pages t)" by (simp add: Suc_le_eq card_gt_0_iff finite_free_pages)
  then have "room (Suc 0) t" using f(4,5) unfolding room_def by (simp add: t_def)
  moreover have rq: "heap_request 200 t" "heap_request 50 t"
    using heap_ready_request [OF s, of 200] heap_ready_request [OF s, of 50] by (simp_all add: t_def heap_request_def)
  ultimately obtain p u where u: "kmalloc 200 t = Inr (p, u)" "p \<noteq> 0" using kmalloc_room [OF it rq(1), of 0] by auto
  note ub = kmalloc_block(2) [OF it rq(1) u]
  then have lu: "(0xD000000C, 4084) \<in> live_blocks u" using lt by auto
  obtain v where v: "kfree 0xD000000C u = Inr (True, v)" "heap_inv v" "kernel_heap_limit v = kernel_heap_limit u"
    using kfree_live [OF _ lu] ub by auto
  have fit: "fits_free 50 v" using kfree_fits [OF _ lu v(1), of 50] ub by (simp add: ALIGN_UP_def)
  have rv: "heap_request 50 v" using rq(2) ub v(3) by (simp add: heap_request_def)
  obtain q w where w: "kmalloc 50 v = Inr (q, w)" "q \<noteq> 0"
    using kmalloc_correct [OF v(2) rv] fit by (cases "kmalloc 50 v") (auto split: if_splits)
  have run: "run_heap kmalloc kfree [New 100, New 200, Del 1, New 50] ([], s) = Inr ([(q, 50), (p, 200)], w)"
    using t u v(1) w by simp
  have sz: "heap_size_ok n s" if "n \<in> {100, 200, 50}" for n using that f(4) by (auto simp: heap_size_ok_def)
  have "heap_inv w \<and> apart (q, 50) (p, 200) \<and> (\<exists>m \<ge> 50. (q, m) \<in> live_blocks w) \<and> (\<exists>m \<ge> 200. (p, m) \<in> live_blocks w)"
    using heap_blocks_apart [OF f(1) _ run] sz by auto
  then show ?thesis using s run by blast
qed

text \<open>
  C19. \<^verbatim>\<open>kfree\<close> of a block in use succeeds and makes exactly that block free again; \<^verbatim>\<open>kfree\<close> of
  a block that is already free reports failure and changes nothing.
\<close>

theorem kfree_spec:
  assumes "heap_inv s" "hdrs s a = Some hh"
  shows "if h_free hh = KO_FALSE
    then \<exists>s'. kfree (a + header_size) s = Inr (True, s') \<and> heap_inv s' \<and>
      live_blocks s' = live_blocks s - {(a + header_size, unat (h_size hh))} \<and>
      kfree (a + header_size) s' = Inr (False, s')
    else kfree (a + header_size) s = Inr (False, s)"
proof (cases "h_free hh = KO_FALSE")
  case False
  then show ?thesis using kfree_double [OF assms] heap_block_mapped(6) [OF assms] by simp
next
  case True
  then have live: "(a + header_size, unat (h_size hh)) \<in> live_blocks s"
    using assms(2) by (auto simp: live_blocks_def)
  let ?s' = "s\<lparr>hdrs := (hdrs s)(a \<mapsto> hh\<lparr>h_free := OK_TRUE\<rparr>)\<rparr>"
  have inv: "heap_inv ?s'" using heap_inv_set_free [OF assms] by simp
  have "kfree (a + header_size) ?s' = Inr (False, ?s')" using kfree_double [OF inv, of a] by simp
  moreover have "kfree (a + header_size) s = Inr (True, ?s')"
    using kfree_live [OF assms(1) live] assms(2) True heap_block_mapped(3) [OF assms]
    by (auto simp: kfree_def Let_def KMALLOC_GO_BEFORE_HEADER_def rd_hdr_def wr_hdr_def split: if_splits)
  ultimately show ?thesis using True inv live_release [OF assms(2) True] by simp
qed

theorem kfree_spec_witness:
  "\<exists>s t t'. heap_ready s \<and> kfree 0xD000000C s = Inr (False, s) \<and> kmalloc 100 s = Inr (0xD000000C, t) \<and>
     kfree 0xD000000C t = Inr (True, t') \<and> live_blocks t' = {} \<and> kfree 0xD000000C t' = Inr (False, t')"
proof -
  obtain s where s: "heap_ready s" using heap_ready_exists by blast
  note f = heap_ready_facts [OF s]
  let ?hh = "\<lparr>h_free = KO_FALSE, h_size = 4084, h_next = 0\<rparr> :: kmalloc_header"
  define t where "t = s\<lparr>hdrs := [0xD0000000 \<mapsto> ?hh]\<rparr>"
  have t: "kmalloc 100 s = Inr (0xD000000C, t)" using heap_ready_kmalloc [OF s] by (simp add: t_def)
  have it: "heap_inv t" using kmalloc_block(2) [OF f(1) heap_ready_request [OF s] t] by simp
  have lt: "live_blocks t = {(0xD000000C, 4084)}" by (auto simp: t_def live_blocks_def header_size_def)
  have "kfree 0xD000000C s = Inr (False, s)" using kfree_spec [OF f(1), of "0xD0000000"] f(3) by (auto simp: header_size_def)
  moreover obtain t' where "kfree 0xD000000C t = Inr (True, t')" "live_blocks t' = {}" "kfree 0xD000000C t' = Inr (False, t')"
    using kfree_spec [OF it, of "0xD0000000" ?hh] lt by (auto simp: t_def header_size_def)
  ultimately show ?thesis using s t by blast
qed

text \<open>
  When \<^verbatim>\<open>kcalloc\<close> returns a block, its requested bytes are zero, every byte outside the
  request rounded up to 8 is untouched, and the block becomes in use as with \<^verbatim>\<open>kmalloc\<close>.
\<close>

theorem kcalloc_zeroes:
  assumes "heap_inv s" "heap_request n s" "kmalloc n s = Inr (p, s1)" "p \<noteq> 0"
  shows "\<exists>s'. kcalloc n s = Inr (p, s') \<and> heap_inv s' \<and> live_blocks s' = live_blocks s1 \<and>
    (\<forall>i < unat n. mem s' (p + word_of_nat i) = 0) \<and>
    (\<forall>x. unat x < unat p \<or> unat p + unat (ALIGN_UP n 8) \<le> unat x \<longrightarrow> mem s' x = mem s x)"
proof -
  let ?s' = "s1\<lparr>mem := filled (mem s) p 0 (unat (ALIGN_UP n 8))\<rparr>"
  note blk = kmalloc_block(2) [OF assms]
  then obtain m where m: "unat n \<le> m" "(p, m) \<in> live_blocks s1" by blast
  have inv: "heap_inv ?s'" using blk by (simp add: mem_simps)
  have "unat p + m \<le> 2 ^ 32" using block_plain [of s1 p m] blk m(2) by (simp add: plain_def)
  then have "unat (p + word_of_nat i) = unat p + i" if "i < unat n" for i
    using that m(1) by (intro unat_offset) simp
  then have "\<forall>i < unat n. mem ?s' (p + word_of_nat i) = 0"
    using align8(2) [OF assms(2)] by (simp add: filled_def)
  then show ?thesis
    using kcalloc_block [OF assms] inv by (auto simp: mem_simps filled_def)
qed

theorem kcalloc_zeroes_witness:
  "\<exists>s s'. heap_ready s \<and> kcalloc 100 s = Inr (0xD000000C, s') \<and> heap_inv s' \<and> mem s' 0xD000000D = 0"
proof -
  obtain s where s: "heap_ready s" using heap_ready_exists by blast
  from kcalloc_zeroes [OF heap_ready_facts(1) [OF s] heap_ready_request [OF s] heap_ready_kmalloc [OF s]]
  obtain s' where "kcalloc 100 s = Inr (0xD000000C, s')" "heap_inv s'"
    and z: "\<forall>i < unat (100::u32). mem s' (0xD000000C + word_of_nat i) = 0" by auto
  then show ?thesis using s z [rule_format, of 1] by auto
qed

text \<open>
  When the new block cannot be had, \<^verbatim>\<open>krealloc\<close> returns \<^verbatim>\<open>NULL\<close> and still frees the old
  block: the caller's data is no longer in use.
\<close>

theorem krealloc_frees_on_failure:
  assumes "heap_inv s" "(p, m) \<in> live_blocks s" "n \<noteq> 0" "kmalloc n s = Inr (0, s)"
  shows "\<exists>s'. krealloc p n s = Inr (0, s') \<and> heap_inv s' \<and> live_blocks s' = live_blocks s - {(p, m)}"
proof -
  have "p \<noteq> 0" using live_header [OF assms(1,2)] by auto
  then show ?thesis
    using kfree_live [OF assms(1,2)] assms(3,4) by (auto simp: krealloc_def kmemcpy_def)
qed

theorem krealloc_frees_on_failure_witness:
  "\<exists>s s1 s'. heap_ready s \<and> kmalloc 100 s = Inr (0xD000000C, s1) \<and>
     krealloc 0xD000000C 0x100000 s1 = Inr (0, s') \<and> live_blocks s' = {}"
proof -
  obtain s where s: "heap_ready s" using heap_ready_exists by blast
  note f = heap_ready_facts [OF s]
  note al = heap_ready_kmalloc [OF s]
  define s1 where "s1 = s\<lparr>hdrs := [0xD0000000 \<mapsto> \<lparr>h_free = KO_FALSE, h_size = 4084, h_next = 0\<rparr>]\<rparr>"
  have inv1: "heap_inv s1"
    using kmalloc_block(2) [OF f(1) heap_ready_request [OF s] al] by (simp add: s1_def)
  have live: "live_blocks s1 = {(0xD000000C, 4084)}"
    by (auto simp: s1_def live_blocks_def header_size_def)
  have "\<not> fits_free 0x100000 s1" by (auto simp: fits_free_def s1_def split: if_splits)
  moreover have req: "heap_request 0x100000 s1" using f(4) by (simp add: heap_request_def s1_def)
  ultimately have "kmalloc 0x100000 s1 = Inr (0, s1)"
    using find_free_returns [OF inv1, of "ALIGN_UP 0x100000 8"] f(4,5)
    by (auto simp: kmalloc_def Let_def create_heap_header_def fits_free_def ALIGN_UP_def header_size_def
        pages_to_get_def KMALLOC_PAGE_SIZE_def s1_def split: if_splits)
  then show ?thesis
    using krealloc_frees_on_failure [OF inv1, of "0xD000000C" 4084 "0x100000"] live s al
    by (auto simp: s1_def)
qed

text \<open>
  A request just below 4 GiB is not refused: the page count of \<^verbatim>\<open>create_heap_header\<close> wraps
  around to 1, and \<^verbatim>\<open>kmalloc\<close> returns a block of 4084 bytes for it.
\<close>

theorem kmalloc_wraps_around:
  assumes "heap_inv s" "0xFFFFFFF1 \<le> n" "n \<le> 0xFFFFFFF8" "free_pages s \<noteq> {}"
    and "unat (kernel_heap_brk s) + 4096 \<le> unat (kernel_heap_limit s)"
    and "\<forall>a hh. hdrs s a = Some hh \<longrightarrow> h_size hh < 0xFFFFFFF8"
  shows "\<exists>p s'. kmalloc n s = Inr (p, s') \<and> p \<noteq> 0 \<and> live_blocks s' = insert (p, 4084) (live_blocks s)"
proof -
  have un: "0xFFFFFFF1 \<le> unat n" "unat n \<le> 0xFFFFFFF8" using assms(2,3) by (simp_all add: word_le_nat_alt)
  have al: "ALIGN_UP n 8 = 0xFFFFFFF8"
  proof -
    have "(unat n + 7) div 8 = 536870911" using un by (intro div_nat_eqI) simp_all
    then show ?thesis using unat_ALIGN_UP [of 8 3 n] un by (simp add: word_unat_eq_iff)
  qed
  have pg: "pages_to_get 0xFFFFFFF8 = 1"
    by (simp add: pages_to_get_def header_size_def KMALLOC_PAGE_SIZE_def)
  obtain r where find: "find_free_heap_header 0xFFFFFFF8 s = Inr r"
    and r: "if r = 0 then True else (\<exists>hh. hdrs s r = Some hh \<and> h_free hh = OK_TRUE \<and> 0xFFFFFFF8 \<le> h_size hh)"
    using find_free_returns [OF assms(1), of "0xFFFFFFF8"] by auto
  then have r0: "r = 0" using assms(6) by (auto simp: not_le [symmetric] split: if_splits)
  obtain k where "k \<in> free_pages s" using assms(4) by blast
  then have run: "\<exists>q. free_run (bitmap_mem s) (unat (pages_to_get 0xFFFFFFF8)) q"
    unfolding pg by (intro exI [of _ k]) (simp add: free_run_def free_pages_def)
  have "unat (kernel_heap_brk s + 0xFFFFFFF8 + header_size) = unat (kernel_heap_brk s) + 4"
    using assms(5) unat_u32_less [of "kernel_heap_limit s"] by (simp add: header_size_def unat_word_ariths)
  then have lim: "\<not> kernel_heap_brk s + 0xFFFFFFF8 + header_size > kernel_heap_limit s"
    using assms(5) by (simp add: word_less_nat_alt)
  obtain s' where s': "create_heap_header 0xFFFFFFF8 s = Inr (kernel_heap_brk s, s')" "kernel_heap_brk s \<noteq> 0"
      "heap_inv s'" "hdrs s' = (hdrs s)(kernel_heap_brk s \<mapsto> \<lparr>h_free = KO_FALSE, h_size = 4084, h_next = kernel_heap_lh s\<rparr>)"
    using create_grows [OF assms(1) _ _ lim _ run] assms(5) pg
    by (auto simp: KMALLOC_PAGE_SIZE_def header_size_def)
  have "n \<noteq> 0" using un by auto
  then have "kmalloc n s = Inr (kernel_heap_brk s + header_size, s')"
    using find r0 s'(1,2) by (simp add: kmalloc_def Let_def al KMALLOC_GO_AFTER_HEADER_def)
  moreover have "live_blocks s' = insert (kernel_heap_brk s + header_size, 4084) (live_blocks s)"
    unfolding live_blocks_def s'(4) using brk_fresh [OF assms(1)] by auto
  moreover have "kernel_heap_brk s + header_size \<noteq> 0"
    using live_header [OF s'(3), of "kernel_heap_brk s + header_size" 4084] calculation(2) by auto
  ultimately show ?thesis by blast
qed

theorem kmalloc_wraps_around_witness:
  "\<exists>s p s'. heap_ready s \<and> kmalloc 0xFFFFFFF1 s = Inr (p, s') \<and> (p, 4084) \<in> live_blocks s'"
proof -
  obtain s where s: "heap_ready s" using heap_ready_exists by blast
  note f = heap_ready_facts [OF s]
  have "\<forall>a hh. hdrs s a = Some hh \<longrightarrow> h_size hh < 0xFFFFFFF8" using f(3) by (auto split: if_splits)
  from kmalloc_wraps_around [OF f(1) _ _ f(6) _ this, of "0xFFFFFFF1"] f(4,5) s show ?thesis by auto
qed

end
