(* ===== verification/Kstring.thy ===== *)
theory Kstring
  imports Kmemory
begin

text \<open>
  The string functions (\<^verbatim>\<open>src/utils/kstdlib/kstring\<close>) over the bytes of memory. A string ends at
  its first zero byte, so each loop is a partial function; \<open>cstr\<close> says that the bytes at an
  address are a given string, and under it every function is shown to return.
  \<^verbatim>\<open>char\<close> is signed, so a difference of characters is a difference of signed bytes.
\<close>

section \<open>Operations\<close>

partial_function (option) strlen_loop ::
    "u32 \<Rightarrow> u32 \<Rightarrow> 'z heap_state_scheme \<Rightarrow> u32 kres option" where
  "strlen_loop string len s =
    (case rd8 string s of
       Inl e \<Rightarrow> Some (Inl e)
     | Inr c \<Rightarrow> if c = 0 then Some (Inr len) else strlen_loop (string + 1) (len + 1) s)"

definition kstrlen :: "u32 \<Rightarrow> 'z heap_state_scheme \<Rightarrow> u32 kres" where
  "kstrlen string s = (if string = 0 then Inr 0 else returned (strlen_loop string 0 s))"

partial_function (option) strcmp_loop ::
    "u32 \<Rightarrow> u32 \<Rightarrow> 'z heap_state_scheme \<Rightarrow> int kres option" where
  "strcmp_loop string_a string_b s =
    (case rd8 string_a s of
       Inl e \<Rightarrow> Some (Inl e)
     | Inr a \<Rightarrow>
         (case rd8 string_b s of
            Inl e \<Rightarrow> Some (Inl e)
          | Inr b \<Rightarrow>
              if a = b \<and> a \<noteq> 0 then strcmp_loop (string_a + 1) (string_b + 1) s
              else Some (Inr (sint a - sint b))))"

definition kstrcmp :: "u32 \<Rightarrow> u32 \<Rightarrow> 'z heap_state_scheme \<Rightarrow> int kres" where
  "kstrcmp string_a string_b s =
    (if string_a = 0 \<or> string_b = 0 then Inr (- 1) else returned (strcmp_loop string_a string_b s))"

text \<open>\<open>n\<close> counts the characters still to compare; the loop stops at the last one.\<close>

fun strncmp_loop :: "nat \<Rightarrow> u32 \<Rightarrow> u32 \<Rightarrow> 'z heap_state_scheme \<Rightarrow> int kres" where
  "strncmp_loop n string_a string_b s =
    bindE (rd8 string_a s) (\<lambda>a. bindE (rd8 string_b s) (\<lambda>b.
      if a = b \<and> a \<noteq> 0 \<and> n > 1 then strncmp_loop (n - 1) (string_a + 1) (string_b + 1) s
      else Inr (sint a - sint b)))"

definition kstrncmp :: "u32 \<Rightarrow> u32 \<Rightarrow> u32 \<Rightarrow> 'z heap_state_scheme \<Rightarrow> int kres" where
  "kstrncmp string_a string_b n s =
    (if string_a = 0 \<or> string_b = 0 then Inr (- 1)
     else if n = 0 then Inr 0
     else strncmp_loop (unat n) string_a string_b s)"

partial_function (option) strcpy_loop ::
    "u32 \<Rightarrow> u32 \<Rightarrow> 'z heap_state_scheme \<Rightarrow> 'z heap_state_scheme kres option" where
  "strcpy_loop dst src s =
    (case rd8 src s of
       Inl e \<Rightarrow> Some (Inl e)
     | Inr c \<Rightarrow>
         (case wr8 dst c s of
            Inl e \<Rightarrow> Some (Inl e)
          | Inr s' \<Rightarrow> if c = 0 then Some (Inr s') else strcpy_loop (dst + 1) (src + 1) s'))"

definition kstrcpy :: "u32 \<Rightarrow> u32 \<Rightarrow> 'z heap_state_scheme \<Rightarrow> (u32 \<times> 'z heap_state_scheme) kres" where
  "kstrcpy dst src s =
    (if dst = 0 \<or> src = 0 then Inr (dst, s)
     else bindE (returned (strcpy_loop dst src s)) (\<lambda>s. Inr (dst, s)))"

fun strncpy_loop :: "nat \<Rightarrow> u32 \<Rightarrow> u32 \<Rightarrow> 'z heap_state_scheme \<Rightarrow> 'z heap_state_scheme kres" where
  "strncpy_loop 0 dst src s = bindE (rd8 dst s) (\<lambda>_. Inr s)"
| "strncpy_loop (Suc n) dst src s =
    bindE (rd8 dst s) (\<lambda>d.
    if d = 0 then Inr s
    else bindE (rd8 src s) (\<lambda>c. bindE (wr8 dst c s) (strncpy_loop n (dst + 1) (src + 1))))"

definition kstrncpy ::
    "u32 \<Rightarrow> u32 \<Rightarrow> u32 \<Rightarrow> 'z heap_state_scheme \<Rightarrow> (u32 \<times> 'z heap_state_scheme) kres" where
  "kstrncpy dst src n s =
    (if dst = 0 \<or> src = 0 \<or> n = 0 then Inr (dst, s)
     else bindE (strncpy_loop (unat n) dst src s) (\<lambda>s. Inr (dst, s)))"

partial_function (option) strend_loop :: "u32 \<Rightarrow> 'z heap_state_scheme \<Rightarrow> u32 kres option" where
  "strend_loop string s =
    (case rd8 string s of
       Inl e \<Rightarrow> Some (Inl e)
     | Inr c \<Rightarrow> if c = 0 then Some (Inr string) else strend_loop (string + 1) s)"

text \<open>The second loop of \<^verbatim>\<open>kstrcat\<close> and the store of the terminator after it.\<close>

definition kstrcat :: "u32 \<Rightarrow> u32 \<Rightarrow> 'z heap_state_scheme \<Rightarrow> (u32 \<times> 'z heap_state_scheme) kres" where
  "kstrcat string_a string_b s =
    (if string_a = 0 \<or> string_b = 0 then Inr (0, s)
     else
       bindE (returned (strend_loop string_a s)) (\<lambda>end_a.
       bindE (returned (strcpy_loop end_a string_b s)) (\<lambda>s.
       Inr (string_a, s))))"

section \<open>Strings in memory\<close>

definition cstr :: "'z heap_state_scheme \<Rightarrow> u32 \<Rightarrow> u8 list \<Rightarrow> bool" where
  "cstr s a xs \<longleftrightarrow> plain s a (Suc (length xs)) \<and> 0 \<notin> set xs \<and>
     (\<forall>i < length xs. mem s (a + word_of_nat i) = xs ! i) \<and> mem s (a + word_of_nat (length xs)) = 0"

lemma cstr_rd8:
  assumes "cstr s a xs" "i \<le> length xs"
  shows "rd8 (a + word_of_nat i) s = Inr (if i = length xs then 0 else xs ! i)"
proof -
  have "plain s a (Suc (length xs))" using assms(1) by (simp add: cstr_def)
  from plain_access(1) [OF this, of i "mem s"] show ?thesis
    using assms by (simp add: cstr_def)
qed

lemma cstr_nonzero: "cstr s a xs \<Longrightarrow> i < length xs \<Longrightarrow> xs ! i \<noteq> 0"
  by (metis cstr_def nth_mem)

lemma strlen_loop_cstr:
  assumes "cstr s a xs" "i \<le> length xs"
  shows "strlen_loop (a + word_of_nat i) (word_of_nat i) s = Some (Inr (word_of_nat (length xs)))"
  using assms(2)
proof (induction "length xs - i" arbitrary: i)
  case 0
  then show ?case using cstr_rd8 [OF assms(1), of i] by (subst strlen_loop.simps) simp
next
  case (Suc n)
  then have "i < length xs" by simp
  then show ?case
    using cstr_rd8 [OF assms(1), of i] cstr_nonzero [OF assms(1)] Suc(1) [of "Suc i"] Suc(2)
    by (subst strlen_loop.simps) (simp add: ac_simps)
qed

lemma strend_loop_cstr:
  assumes "cstr s a xs" "i \<le> length xs"
  shows "strend_loop (a + word_of_nat i) s = Some (Inr (a + word_of_nat (length xs)))"
  using assms(2)
proof (induction "length xs - i" arbitrary: i)
  case 0
  then show ?case using cstr_rd8 [OF assms(1), of i] by (subst strend_loop.simps) simp
next
  case (Suc n)
  then have "i < length xs" by simp
  then show ?case
    using cstr_rd8 [OF assms(1), of i] cstr_nonzero [OF assms(1)] Suc(1) [of "Suc i"] Suc(2)
    by (subst strend_loop.simps) (simp add: ac_simps)
qed

text \<open>Comparison of strings as lists: the difference at the first place they differ.\<close>

fun str_diff :: "u8 list \<Rightarrow> u8 list \<Rightarrow> int" where
  "str_diff [] [] = 0"
| "str_diff [] (y # ys) = - sint y"
| "str_diff (x # xs) [] = sint x"
| "str_diff (x # xs) (y # ys) = (if x = y then str_diff xs ys else sint x - sint y)"

lemma str_diff_zero: "0 \<notin> set xs \<Longrightarrow> 0 \<notin> set ys \<Longrightarrow> str_diff xs ys = 0 \<longleftrightarrow> xs = ys"
proof -
  have z: "sint x = 0 \<longleftrightarrow> x = 0" for x :: u8 using word_eq_iff_signed [of x 0, where 'a = int] by simp
  show "0 \<notin> set xs \<Longrightarrow> 0 \<notin> set ys \<Longrightarrow> str_diff xs ys = 0 \<longleftrightarrow> xs = ys"
    by (induction xs ys rule: str_diff.induct) (auto simp: z simp flip: word_eq_iff_signed)
qed

lemma strcmp_loop_cstr:
  assumes a: "cstr s a xs" and b: "cstr s b ys" and "i \<le> length xs" "i \<le> length ys"
  shows "strcmp_loop (a + word_of_nat i) (b + word_of_nat i) s = Some (Inr (str_diff (drop i xs) (drop i ys)))"
  using assms(3,4)
proof (induction "length xs - i" arbitrary: i)
  case 0
  then have "drop i xs = []" "i = length xs" by simp_all
  then show ?case
    using cstr_rd8 [OF a, of i] cstr_rd8 [OF b, of i] 0
    by (subst strcmp_loop.simps) (auto simp: Cons_nth_drop_Suc [symmetric])
next
  case (Suc n)
  then have i: "i < length xs" by simp
  show ?case
  proof (cases "i < length ys")
    case True
    then show ?thesis
      using cstr_rd8 [OF a, of i] cstr_rd8 [OF b, of i] i cstr_nonzero [OF a i] Suc(1) [of "Suc i"] Suc(2)
      by (subst strcmp_loop.simps) (simp add: Cons_nth_drop_Suc [symmetric] ac_simps)
  next
    case False
    then show ?thesis
      using cstr_rd8 [OF a, of i] cstr_rd8 [OF b, of i] i cstr_nonzero [OF a i] Suc
      by (subst strcmp_loop.simps) (simp add: Cons_nth_drop_Suc [symmetric])
  qed
qed

section \<open>Copying\<close>

lemma strcpy_loop_cstr:
  assumes src: "cstr s src xs" and dst: "plain s dst (Suc (length xs))"
    and sep: "dst \<le> src \<or> unat src + Suc (length xs) \<le> unat dst" and "i \<le> length xs"
  shows "strcpy_loop (dst + word_of_nat i) (src + word_of_nat i) (s\<lparr>mem := moved (mem s) dst src 0 i\<rparr>) =
    Some (Inr (s\<lparr>mem := moved (mem s) dst src 0 (Suc (length xs))\<rparr>))"
  using assms(4)
proof (induction "length xs - i" arbitrary: i)
  case 0
  then have i: "i = length xs" by simp
  show ?case
    using copy_step [OF dst _ sep, of i] src i
    by (subst strcpy_loop.simps) (simp add: cstr_def)
next
  case (Suc n)
  then have i: "i < length xs" by simp
  have x: "mem s (src + word_of_nat i) = xs ! i" "xs ! i \<noteq> 0" "plain s src (Suc (length xs))"
    using src i cstr_nonzero [OF src i] by (simp_all add: cstr_def)
  show ?case
    using copy_step [OF dst x(3) sep, of i] x i Suc(1) [of "Suc i"] Suc(2)
    by (subst strcpy_loop.simps) (simp add: ac_simps)
qed

lemma strcpy_loop_start:
  assumes "cstr s src xs" "plain s dst (Suc (length xs))"
    and "dst \<le> src \<or> unat src + Suc (length xs) \<le> unat dst"
  shows "strcpy_loop dst src s = Some (Inr (s\<lparr>mem := moved (mem s) dst src 0 (Suc (length xs))\<rparr>))"
  using strcpy_loop_cstr [OF assms, of 0] by (simp add: moved_none)

text \<open>What a copied string looks like at its new place.\<close>

lemma moved_at:
  assumes "plain s dst (Suc n)" "i \<le> n"
  shows "moved (mem s) dst src 0 (Suc n) (dst + word_of_nat i) = mem s (src + word_of_nat i)"
  using assms unat_offset [of dst i] by (auto simp: moved_def plain_def)

lemma cstr_moved:
  assumes "cstr s src xs" "plain s dst (Suc (length xs))"
  shows "cstr (s\<lparr>mem := moved (mem s) dst src 0 (Suc (length xs))\<rparr>) dst xs"
  using assms moved_at [OF assms(2)] by (simp add: cstr_def mem_simps)

section \<open>Properties\<close>

text \<open>
  On strings in memory \<^verbatim>\<open>kstrcmp\<close> returns, with the signed difference of the first
  characters that differ; it returns 0 exactly when the strings are equal. \<^verbatim>\<open>kstrlen\<close> returns the
  length.
\<close>

theorem kstrcmp_correct:
  assumes "cstr s a xs" "cstr s b ys" "a \<noteq> 0" "b \<noteq> 0"
  shows "kstrcmp a b s = Inr (str_diff xs ys) \<and> (kstrcmp a b s = Inr 0 \<longleftrightarrow> xs = ys) \<and>
    kstrlen a s = Inr (word_of_nat (length xs))"
proof -
  have "0 \<notin> set xs" "0 \<notin> set ys" using assms(1,2) by (simp_all add: cstr_def)
  then have "str_diff xs ys = 0 \<longleftrightarrow> xs = ys" by (rule str_diff_zero)
  moreover have "kstrcmp a b s = Inr (str_diff xs ys)"
    using strcmp_loop_cstr [OF assms(1,2), of 0] assms(3,4) by (simp add: kstrcmp_def)
  moreover have "kstrlen a s = Inr (word_of_nat (length xs))"
    using strlen_loop_cstr [OF assms(1), of 0] assms(3) by (simp add: kstrlen_def)
  ultimately show ?thesis by simp
qed

text \<open>Two strings in flat memory: "ls" at 0x1000 and "cd" at 0x2000.\<close>

definition two_strings :: heap_state where
  "two_strings = flat_memory ((\<lambda>x. 0)(0x1000 := 0x6C, 0x1001 := 0x73, 0x2000 := 0x63, 0x2001 := 0x64))"

lemma two_strings_cstr: "cstr two_strings 0x1000 [0x6C, 0x73]" "cstr two_strings 0x2000 [0x63, 0x64]"
proof -
  have "plain two_strings 0x1000 3" "plain two_strings 0x2000 3"
    by (simp_all add: two_strings_def flat_memory_plain)
  then show "cstr two_strings 0x1000 [0x6C, 0x73]" "cstr two_strings 0x2000 [0x63, 0x64]"
    by (auto simp: cstr_def two_strings_def less_Suc_eq numeral_3_eq_3)
qed

theorem kstrcmp_correct_witness:
  "kstrcmp 0x1000 0x2000 two_strings = Inr 9 \<and> kstrlen 0x1000 two_strings = Inr 2"
  using kstrcmp_correct [OF two_strings_cstr] by simp

text \<open>
  \<^verbatim>\<open>kstrcat\<close> appends: with room behind the first string and the second one elsewhere, the
  destination afterwards holds the concatenation, and no byte outside it changes.
\<close>

theorem kstrcat_correct:
  assumes "cstr s a xs" "cstr s b ys" "a \<noteq> 0" "b \<noteq> 0" and "plain s a (Suc (length xs + length ys))"
    and "unat a + Suc (length xs + length ys) \<le> unat b \<or> unat b + Suc (length ys) \<le> unat a"
  shows "\<exists>s'. kstrcat a b s = Inr (a, s') \<and> cstr s' a (xs @ ys) \<and>
    (\<forall>x. unat x < unat a \<or> unat a + Suc (length xs + length ys) \<le> unat x \<longrightarrow> mem s' x = mem s x)"
proof -
  let ?e = "a + word_of_nat (length xs)"
  have e: "unat ?e = unat a + length xs"
    using assms(5) by (intro unat_offset) (simp add: plain_def)
  have pe: "plain s ?e (Suc (length ys))" using assms(5) by (auto simp: plain_def e)
  let ?s' = "s\<lparr>mem := moved (mem s) ?e b 0 (Suc (length ys))\<rparr>"
  have cpy: "strcpy_loop ?e b s = Some (Inr ?s')"
    using assms(6) e by (intro strcpy_loop_start [OF assms(2) pe]) (auto simp: word_le_nat_alt)
  have run: "kstrcat a b s = Inr (a, ?s')"
    using strend_loop_cstr [OF assms(1), of 0] cpy assms(3,4) by (simp add: kstrcat_def)
  have low: "mem ?s' (a + word_of_nat i) = xs ! i" if "i < length xs" for i
  proof -
    have "unat (a + word_of_nat i) = unat a + i"
      using that assms(5) by (intro unat_offset) (simp add: plain_def)
    then show ?thesis using that e assms(1) by (simp add: moved_def cstr_def)
  qed
  have high: "mem ?s' (a + word_of_nat (length xs + j)) = (if j = length ys then 0 else ys ! j)" if "j \<le> length ys" for j
    using moved_at [OF pe that, of b] assms(2) that by (simp add: cstr_def ac_simps)
  have "cstr ?s' a (xs @ ys)"
    unfolding cstr_def
  proof (intro conjI allI impI)
    show "plain ?s' a (Suc (length (xs @ ys)))" using assms(5) by (simp add: mem_simps)
    show "0 \<notin> set (xs @ ys)" using assms(1,2) by (simp add: cstr_def)
    show "mem ?s' (a + word_of_nat (length (xs @ ys))) = 0" using high [of "length ys"] by simp
    fix i
    assume "i < length (xs @ ys)"
    then show "mem ?s' (a + word_of_nat i) = (xs @ ys) ! i"
      using low [of i] high [of "i - length xs"] by (cases "i < length xs") (auto simp: nth_append)
  qed
  then show ?thesis using run e by (auto simp: moved_def)
qed

theorem kstrcat_correct_witness:
  "\<exists>s'. kstrcat 0x1000 0x2000 two_strings = Inr (0x1000, s') \<and> cstr s' 0x1000 [0x6C, 0x73, 0x63, 0x64]"
proof -
  have "plain two_strings 0x1000 (Suc (length [0x6C, 0x73 :: u8] + length [0x63, 0x64 :: u8]))"
    by (simp add: two_strings_def flat_memory_plain)
  from kstrcat_correct [OF two_strings_cstr _ _ this] show ?thesis by auto
qed

text \<open>
  \<^verbatim>\<open>kstrncpy\<close> tests the destination instead of the source: copying onto an empty string
  copies nothing, whatever the source holds.
\<close>

theorem kstrncpy_empty_destination:
  assumes "cstr s dst []"
  shows "kstrncpy dst src n s = Inr (dst, s)"
proof -
  have "rd8 dst s = Inr 0" using cstr_rd8 [OF assms, of 0] by simp
  then show ?thesis by (cases "unat n") (auto simp: kstrncpy_def)
qed

theorem kstrncpy_empty_destination_witness:
  "kstrncpy 0x3000 0x1000 2 two_strings = Inr (0x3000, two_strings)"
proof -
  have "cstr two_strings 0x3000 []"
    using flat_memory_plain [of "0x3000" 1] by (simp add: cstr_def two_strings_def)
  from kstrncpy_empty_destination [OF this] show ?thesis .
qed

end
