(* ===== verification/Knumber.thy ===== *)
theory Knumber
  imports Prelude
begin

text \<open>
  Characters and numbers (\<^verbatim>\<open>src/utils/kstdlib/kctype\<close>, \<^verbatim>\<open>src/utils/kstdlib/kstdlib\<close>, and the
  conversions at the head of \<^verbatim>\<open>kstdio/kprintf/ksprintf.c\<close>). Strings are the characters before the
  terminating zero; running past the terminator is \<open>Overrun\<close>. The 64-bit division is the
  shift-and-subtract loop of the code, shown equal to division.
\<close>

section \<open>Characters\<close>

abbreviation code :: "char \<Rightarrow> int" where
  "code c \<equiv> of_char c"

definition kisdigit :: "char \<Rightarrow> bool" where
  "kisdigit c = (code c \<ge> code CHR ''0'' \<and> code c \<le> code CHR ''9'')"

definition kisprint :: "int \<Rightarrow> bool" where
  "kisprint character = (character \<ge> 0x20 \<and> character \<le> 0x7E)"

section \<open>Division of 64-bit values\<close>

text \<open>The loop over the bits below \<open>i\<close>, from the highest.\<close>

fun divmod_loop :: "nat \<Rightarrow> u64 \<Rightarrow> u32 \<Rightarrow> u64 \<Rightarrow> u64 \<Rightarrow> u64 \<times> u64" where
  "divmod_loop 0 value base quot carry = (quot, carry)"
| "divmod_loop (Suc i) value base quot carry =
    (let carry = push_bit 1 carry OR (drop_bit i value AND 1) in
     if carry \<ge> ucast base
     then divmod_loop i value base (quot OR push_bit i 1) (carry - ucast base)
     else divmod_loop i value base quot carry)"

definition kdivmod_u64 :: "u64 \<Rightarrow> u32 \<Rightarrow> u64 \<times> u32" where
  "kdivmod_u64 value base =
    (let (quot, carry) = divmod_loop 64 value base 0 0 in (quot, ucast carry))"

section \<open>Parsing\<close>

definition K_LONG_MAX :: u64 where
  "K_LONG_MAX = 0x7FFFFFFFFFFFFFFF"

definition skip_spaces :: "string \<Rightarrow> string" where
  "skip_spaces p = dropWhile (\<lambda>c. c = CHR '' '' \<or> c = CHR 0x09) p"

definition char_to_digit :: "char \<Rightarrow> int" where
  "char_to_digit c =
    (if code c \<ge> code CHR ''0'' \<and> code c \<le> code CHR ''9'' then code c - code CHR ''0''
     else if code c \<ge> code CHR ''a'' \<and> code c \<le> code CHR ''f'' then code c - code CHR ''a'' + 10
     else if code c \<ge> code CHR ''A'' \<and> code c \<le> code CHR ''F'' then code c - code CHR ''A'' + 10
     else - 1)"

text \<open>Returns the base and the rest of the string.\<close>

definition detect_base :: "string \<Rightarrow> int \<Rightarrow> int \<times> string" where
  "detect_base p base =
    (if base \<noteq> 0 then (base, p)
     else if take 1 p = ''0'' \<and> (take 1 (drop 1 p) = ''x'' \<or> take 1 (drop 1 p) = ''X'') then (16, drop 2 p)
     else if take 1 p = ''0'' then (8, drop 1 p)
     else (10, p))"

text \<open>\<open>None\<close> is the return value 0, \<open>Some\<close> the updated value with return value 1.\<close>

definition accumulate :: "u64 \<Rightarrow> int \<Rightarrow> int \<Rightarrow> u64 option" where
  "accumulate value base digit =
    (let (limit, limit_rem) = kdivmod_u64 K_LONG_MAX (word_of_int base) in
     if sint value > sint limit then None
     else if sint value = sint limit \<and> digit > sint limit_rem then None
     else Some (value * word_of_int base + word_of_int digit))"

text \<open>The loop over the digits: \<open>None\<close> is its early return of 0.\<close>

fun strtol_loop :: "string \<Rightarrow> int \<Rightarrow> u64 \<Rightarrow> bool \<Rightarrow> (u64 \<times> bool) option" where
  "strtol_loop [] base value parsed = Some (value, parsed)"
| "strtol_loop (c # p) base value parsed =
    (let digit = char_to_digit c in
     if digit < 0 \<or> digit \<ge> base then Some (value, parsed)
     else case accumulate value base digit of
         None \<Rightarrow> None
       | Some value \<Rightarrow> strtol_loop p base value True)"

text \<open>The sign and what follows it.\<close>

definition strtol_sign :: "string \<Rightarrow> u64 \<times> string" where
  "strtol_sign p =
    (if take 1 p = ''-'' then (- 1, drop 1 p)
     else if take 1 p = ''+'' then (1, drop 1 p)
     else (1, p))"

text \<open>The result and what is stored through \<open>ok\<close>; \<open>None\<close> is a \<^verbatim>\<open>NULL\<close> string.\<close>

definition kstrtol :: "string option \<Rightarrow> int \<Rightarrow> u64 \<times> bool" where
  "kstrtol str base =
    (case str of
       None \<Rightarrow> (0, False)
     | Some str \<Rightarrow>
         let (sign, p) = strtol_sign (skip_spaces str);
             (base, p) = detect_base p base
         in if base < 2 \<or> base > 16 then (0, False)
            else case strtol_loop p base 0 False of
                None \<Rightarrow> (0, False)
              | Some (value, parsed) \<Rightarrow> if \<not> parsed then (0, False) else (value * sign, True))"

text \<open>\<^verbatim>\<open>katoi\<close>: the first loop leaves the string when it has no digit.\<close>

fun atoi_skip :: "string \<Rightarrow> nat \<Rightarrow> (nat \<times> string) kres" where
  "atoi_skip [] minus_count = Inl Overrun"
| "atoi_skip (c # buffer) minus_count =
    (if kisdigit c then Inr (minus_count, c # buffer)
     else atoi_skip buffer (if c = CHR ''-'' then Suc minus_count else minus_count))"

fun atoi_loop :: "string \<Rightarrow> u32 \<Rightarrow> u32" where
  "atoi_loop [] result = result"
| "atoi_loop (c # buffer) result =
    (if \<not> kisdigit c then result
     else atoi_loop buffer (result * 10 + word_of_int (code c - code CHR ''0'')))"

definition katoi :: "string \<Rightarrow> u32 kres" where
  "katoi buffer =
    bindE (atoi_skip buffer 0) (\<lambda>(minus_count, buffer).
    Inr (atoi_loop buffer 0 * (if minus_count mod 2 = 0 then 1 else - 1)))"

section \<open>Printing\<close>

definition digit_chars :: "bool \<Rightarrow> string" where
  "digit_chars uppercase = (if uppercase then ''0123456789ABCDEF'' else ''0123456789abcdef'')"

text \<open>
  The two loops of \<^verbatim>\<open>kuitoa\<close>: digits go into \<^verbatim>\<open>temp[32]\<close> from the lowest and come out reversed;
  \<open>left\<close> is the room left in \<^verbatim>\<open>temp\<close>.
\<close>

fun uitoa_loop :: "nat \<Rightarrow> u32 \<Rightarrow> u32 \<Rightarrow> bool \<Rightarrow> string kres" where
  "uitoa_loop left value base uppercase =
    (if value = 0 then Inr []
     else if left = 0 then Inl Overrun
     else if base = 0 then Inl Panic
     else if unat (value mod base) \<ge> 16 then Inl Overrun
     else bindE (uitoa_loop (left - 1) (value div base) base uppercase) (\<lambda>rest.
          Inr (rest @ [digit_chars uppercase ! unat (value mod base)])))"

definition kuitoa :: "u32 \<Rightarrow> u32 \<Rightarrow> bool \<Rightarrow> string kres" where
  "kuitoa value base uppercase =
    (if value = 0 then Inr ''0'' else uitoa_loop 32 value base uppercase)"

fun uitoa64_loop :: "nat \<Rightarrow> u64 \<Rightarrow> u32 \<Rightarrow> bool \<Rightarrow> string kres" where
  "uitoa64_loop left value base uppercase =
    (if value = 0 then Inr []
     else if left = 0 then Inl Overrun
     else
       let (quot, remainder) = kdivmod_u64 value base in
       if unat remainder \<ge> 16 then Inl Overrun
       else bindE (uitoa64_loop (left - 1) quot base uppercase) (\<lambda>rest.
            Inr (rest @ [digit_chars uppercase ! unat remainder])))"

definition kuitoa64 :: "u64 \<Rightarrow> u32 \<Rightarrow> bool \<Rightarrow> string kres" where
  "kuitoa64 value base uppercase =
    (if value = 0 then Inr ''0'' else uitoa64_loop 32 value base uppercase)"

definition kitoa64 :: "u64 \<Rightarrow> string kres" where
  "kitoa64 value =
    (if sint value < 0
     then bindE (kuitoa64 (- value) 10 False) (\<lambda>ds. Inr (CHR ''-'' # ds))
     else kuitoa64 value 10 False)"

definition kitoa :: "u32 \<Rightarrow> string kres" where
  "kitoa value =
    (if sint value < 0
     then bindE (kuitoa (- value) 10 False) (\<lambda>ds. Inr (CHR ''-'' # ds))
     else kuitoa value 10 False)"


section \<open>The division loop divides\<close>

lemma carry_step:
  fixes carry v :: u64
  assumes "unat carry < 2 ^ 32" "i < 64"
  shows "unat (push_bit 1 carry OR (drop_bit i v AND 1)) = 2 * unat carry + (unat v div 2 ^ i) mod 2"
proof -
  have dis: "push_bit 1 carry AND (drop_bit i v AND 1) = 0"
    by (rule bit_word_eqI) (auto simp: bit_and_iff bit_push_bit_iff bit_1_iff simp del: push_bit_Suc One_nat_def)
  have hi: "push_bit 1 carry = word_of_nat (2 * unat carry)"
    by (simp add: push_bit_eq_mult)
  have lo: "drop_bit i v AND 1 = word_of_nat ((unat v div 2 ^ i) mod 2)"
    by (rule word_unat_eq_iff [THEN iffD2])
      (simp add: and_one_eq unat_mod unat_drop_bit_eq unat_of_nat flip: drop_bit_eq_div)
  have sum: "push_bit 1 carry OR (drop_bit i v AND 1)
      = (word_of_nat (2 * unat carry + (unat v div 2 ^ i) mod 2) :: u64)"
    using disjunctive_add_eq_or [OF dis] unfolding hi lo of_nat_add by (rule sym)
  have "2 * unat carry + (unat v div 2 ^ i) mod 2 < 2 * 2 ^ 32 + 2"
    using assms by (intro add_less_mono) auto
  then show ?thesis
    unfolding sum unat_of_nat by (intro mod_less) simp
qed

lemma divmod_loop_eq:
  fixes q c :: u64
  assumes "b \<noteq> 0" "unat c < unat b" "i \<le> 64" "\<forall>j<i. \<not> bit q j"
  shows "divmod_loop i v b q c =
    (q + word_of_nat ((2 ^ i * unat c + unat v mod 2 ^ i) div unat b),
     word_of_nat ((2 ^ i * unat c + unat v mod 2 ^ i) mod unat b))"
  using assms
proof (induction i arbitrary: q c)
  case 0
  then show ?case by simp
next
  case (Suc i)
  define d where "d = push_bit 1 c OR (drop_bit i v AND 1)"
  let ?B = "unat b" and ?r = "unat v mod 2 ^ i"
  have b32: "?B < 2 ^ 32" using unsigned_less [of b] by simp
  have b0: "0 < ?B" using Suc.prems(1) by (simp add: unat_gt_0)
  have ud: "unat d = 2 * unat c + (unat v div 2 ^ i) mod 2"
    unfolding d_def by (rule carry_step) (use Suc.prems b32 in auto)
  have total: "2 ^ Suc i * unat c + unat v mod 2 ^ Suc i = 2 ^ i * unat d + ?r"
    using ud by (simp add: mod_mult2_eq [of _ "2 ^ i" 2, simplified mult.commute] algebra_simps
        power_Suc2 del: power_Suc)
  have ub: "unat (ucast b :: u64) = ?B" by (simp add: unat_u32_to_u64)
  have step: "divmod_loop (Suc i) v b q c =
      (if ucast b \<le> d then divmod_loop i v b (q OR push_bit i 1) (d - ucast b)
       else divmod_loop i v b q d)"
    unfolding divmod_loop.simps Let_def d_def ..
  show ?case
  proof (cases "ucast b \<le> d")
    case True
    then have le: "?B \<le> unat d" using ub by (simp add: word_le_nat_alt)
    have sub: "unat (d - ucast b) = unat d - ?B"
      using True ub by (simp add: unat_sub)
    have small: "unat (d - ucast b) < ?B" using sub ud Suc.prems(2) by simp
    have dis: "q AND push_bit i 1 = 0"
      by (rule bit_word_eqI) (use Suc.prems(4) in \<open>auto simp: bit_simps\<close>)
    have q': "q OR push_bit i 1 = q + 2 ^ i"
      using disjunctive_add_eq_or [OF dis] by (simp add: push_bit_eq_mult)
    have bits: "\<forall>j<i. \<not> bit (q OR push_bit i 1) j"
      using Suc.prems(4) by (auto simp: bit_simps)
    have split: "2 ^ i * unat d + ?r = (2 ^ i * (unat d - ?B) + ?r) + 2 ^ i * ?B"
      by (subst le_add_diff_inverse2 [OF le, symmetric]) (simp only: add_mult_distrib2 ac_simps)
    have dv: "(2 ^ i * unat d + ?r) div ?B = (2 ^ i * (unat d - ?B) + ?r) div ?B + 2 ^ i"
      unfolding split using b0 by simp
    have md: "(2 ^ i * unat d + ?r) mod ?B = (2 ^ i * (unat d - ?B) + ?r) mod ?B"
      unfolding split by simp
    show ?thesis
      using Suc.IH [OF Suc.prems(1) small Suc_leD [OF Suc.prems(3)] bits]
      unfolding step total dv md if_P [OF True] sub q' by (simp add: ac_simps)
  next
    case False
    then have "unat d < ?B" using ub by (simp add: word_le_nat_alt)
    moreover have "\<forall>j<i. \<not> bit q j" using Suc.prems(4) by simp
    ultimately show ?thesis
      unfolding step total if_not_P [OF False] using Suc.IH [OF Suc.prems(1)] Suc.prems(3) by simp
  qed
qed

lemma kdivmod_u64_eq:
  assumes "b \<noteq> 0"
  shows "kdivmod_u64 v b = (v div ucast b, ucast (v mod ucast b))"
proof -
  have ub: "unat (ucast b :: u64) = unat b" by (simp add: unat_u32_to_u64)
  have "divmod_loop 64 v b 0 0 = (word_of_nat (unat v div unat b), word_of_nat (unat v mod unat b))"
    using divmod_loop_eq [OF assms, of 0 64 0 v] assms unsigned_less [of v, where 'a = nat]
    by (simp add: unat_gt_0)
  moreover have "v div ucast b = word_of_nat (unat v div unat b)"
    by (rule word_unat_eq_iff [THEN iffD2])
      (use le_less_trans [OF div_le_dividend unsigned_less [of v, where 'a = nat]] in
        \<open>simp add: unat_div ub unat_of_nat\<close>)
  moreover have "v mod ucast b = word_of_nat (unat v mod unat b)"
    by (rule word_unat_eq_iff [THEN iffD2])
      (use le_less_trans [OF mod_less_eq_dividend unsigned_less [of v, where 'a = nat]] in
        \<open>simp add: unat_mod ub unat_of_nat\<close>)
  ultimately show ?thesis by (simp add: kdivmod_u64_def)
qed


section \<open>Digits and the number they denote\<close>

definition is_digit :: "nat \<Rightarrow> char \<Rightarrow> bool" where
  "is_digit b c = (0 \<le> char_to_digit c \<and> char_to_digit c < int b)"

definition digits_value :: "nat \<Rightarrow> nat \<Rightarrow> string \<Rightarrow> nat" where
  "digits_value b = foldl (\<lambda>n c. n * b + nat (char_to_digit c))"

lemma digits_value_simps [simp]:
  "digits_value b n [] = n"
  "digits_value b n (c # ds) = digits_value b (n * b + nat (char_to_digit c)) ds"
  "digits_value b n (ds @ [c]) = digits_value b n ds * b + nat (char_to_digit c)"
  by (simp_all add: digits_value_def)

lemma digits_value_ge: "0 < b \<Longrightarrow> n \<le> digits_value b n ds"
proof (induction ds arbitrary: n)
  case (Cons c ds)
  have "n \<le> n * b + nat (char_to_digit c)" using Cons.prems by (cases b) auto
  also have "\<dots> \<le> digits_value b n (c # ds)" using Cons by simp
  finally show ?case .
qed simp

lemma digit_of_char:
  assumes "d < 16"
  shows "char_to_digit (digit_chars u ! d) = int d"
proof -
  have "\<forall>d\<in>set [0..<16]. \<forall>u. char_to_digit (digit_chars u ! d) = int d"
    by code_simp
  then show ?thesis using assms by simp
qed

section \<open>Parsing computes the value and detects overflow\<close>

abbreviation long_max :: nat where
  "long_max \<equiv> 2 ^ 63 - 1"

lemma sint_small:
  fixes w :: "'a::len word"
  assumes "unat w < 2 ^ (LENGTH('a) - 1)"
  shows "sint w = int (unat w)"
proof -
  have "uint w < 2 ^ (LENGTH('a) - 1)"
    using assms by (metis of_nat_less_iff of_nat_numeral of_nat_power uint_nat)
  then show ?thesis
    by (simp add: sint_uint signed_take_bit_int_eq_self order.trans [OF _ uint_ge_0])
qed

lemma if_or: "(if a then x else if b then x else y) = (if a \<or> b then x else y)"
  by simp

lemma if_less_None: "(if m < (n::nat) then None else x) = (if n \<le> m then x else None)"
  by auto

text \<open>The overflow test before the multiplication is the overflow of the multiplication.\<close>

lemma limit_test:
  assumes "0 \<le> d" "d < int b"
  shows "(n > m div b \<or> n = m div b \<and> d > int (m mod b)) = (m < n * b + nat d)"
proof -
  define q r where "q = m div b" and "r = m mod b"
  obtain e where e: "d = int e" "e < b" using assms zero_le_imp_eq_int by auto
  then have eq: "m = q * b + r" "r < b" by (simp_all add: q_def r_def)
  consider "n < q" | "n = q" | "n > q" by linarith
  then have "(n > q \<or> n = q \<and> e > r) = (q * b + r < n * b + e)"
  proof cases
    case 1
    then have "Suc n * b \<le> q * b" by (intro mult_le_mono1) simp
    with e 1 show ?thesis by simp
  next
    case 3
    then have "Suc q * b \<le> n * b" by (intro mult_le_mono1) simp
    with eq 3 show ?thesis by simp
  qed simp
  then show ?thesis by (simp add: e(1) flip: q_def r_def eq(1))
qed

lemma accumulate_eq:
  assumes b: "2 \<le> b" "b \<le> 16" and d: "0 \<le> d" "d < int b" and n: "n \<le> long_max"
  shows "accumulate (word_of_nat n) (int b) d =
    (if n * b + nat d \<le> long_max then Some (word_of_nat (n * b + nat d)) else None)"
proof -
  have b32: "word_of_int (int b) = (word_of_nat b :: u32)" "unat (word_of_nat b :: u32) = b"
    using b by (simp_all add: unat_of_nat)
  then have b0: "(word_of_nat b :: u32) \<noteq> 0" using b by auto
  have b64: "unat (ucast (word_of_nat b :: u32) :: u64) = b"
    using b32 by (simp add: unat_u32_to_u64)
  have K: "unat K_LONG_MAX = long_max" by (simp add: K_LONG_MAX_def)
  have lim: "unat (K_LONG_MAX div ucast (word_of_nat b :: u32)) = long_max div b"
    by (simp only: unat_div b64 K)
  have "unat (K_LONG_MAX mod ucast (word_of_nat b :: u32)) = long_max mod b"
    by (simp only: unat_mod b64 K)
  moreover have small: "long_max mod b < 16"
    using b by (intro less_le_trans [OF mod_less_divisor]) auto
  ultimately have "ucast (K_LONG_MAX mod ucast (word_of_nat b :: u32)) = (word_of_nat (long_max mod b) :: u32)"
    by (metis of_nat_unat)
  moreover have "sint (word_of_nat (long_max mod b) :: u32) = int (long_max mod b)"
    using small by (subst sint_small) (auto simp: unat_of_nat)
  ultimately have rem: "sint (ucast (K_LONG_MAX mod ucast (word_of_nat b :: u32)) :: u32) = int (long_max mod b)"
    by simp
  have "sint (K_LONG_MAX div ucast (word_of_nat b :: u32)) = int (long_max div b)"
    using lim by (subst sint_small) (auto intro: le_less_trans [OF div_le_dividend])
  moreover have "sint (word_of_nat n :: u64) = int n"
    using n by (subst sint_small) (auto simp: unat_of_nat)
  ultimately have "accumulate (word_of_nat n) (int b) d =
      (if n > long_max div b \<or> n = long_max div b \<and> d > int (long_max mod b) then None
       else Some (word_of_nat n * word_of_int (int b) + word_of_int d))"
    unfolding accumulate_def b32(1) kdivmod_u64_eq [OF b0] Let_def prod.case rem if_or
    by (simp only: of_nat_less_iff of_nat_eq_iff of_int_of_nat_eq)
  moreover have "word_of_nat n * word_of_int (int b) + word_of_int d = (word_of_nat (n * b + nat d) :: u64)"
    using d by (simp add: of_nat_nat)
  ultimately show ?thesis
    unfolding limit_test [OF d] if_less_None by (simp only:)
qed

lemma strtol_loop_digits:
  assumes b: "2 \<le> b" "b \<le> 16" and ds: "list_all (is_digit b) ds" and n: "n \<le> long_max"
  shows "strtol_loop (ds @ tail) (int b) (word_of_nat n) parsed =
    (if digits_value b n ds \<le> long_max
     then strtol_loop tail (int b) (word_of_nat (digits_value b n ds)) (parsed \<or> ds \<noteq> []) else None)"
  using ds n
proof (induction ds arbitrary: n parsed)
  case (Cons c ds)
  let ?m = "n * b + nat (char_to_digit c)"
  have c: "0 \<le> char_to_digit c" "char_to_digit c < int b" using Cons.prems by (auto simp: is_digit_def)
  show ?case
  proof (cases "?m \<le> long_max")
    case True
    then show ?thesis
      using Cons.IH [of ?m True] Cons.prems c b accumulate_eq [OF b c Cons.prems(2)]
      by (simp add: Let_def)
  next
    case False
    moreover have "?m \<le> digits_value b ?m ds" using b by (intro digits_value_ge) simp
    ultimately have "\<not> digits_value b ?m ds \<le> long_max" by linarith
    then show ?thesis
      using False Cons.prems c accumulate_eq [OF b c Cons.prems(2)] by (simp add: Let_def)
  qed
qed (use n in simp)


lemma strtol_loop_stops:
  assumes "2 \<le> b" "case tail of [] \<Rightarrow> True | c # _ \<Rightarrow> \<not> is_digit b c"
  shows "strtol_loop tail (int b) v parsed = Some (v, parsed)"
  using assms by (cases tail) (auto simp: is_digit_def Let_def)

lemma digit_not_sign:
  assumes "is_digit b c"
  shows "c \<noteq> CHR ''-''" "c \<noteq> CHR ''+''" "c \<noteq> CHR '' ''" "c \<noteq> CHR 0x09"
  using assms by (auto simp: is_digit_def char_to_digit_def)

lemma kstrtol_number:
  assumes b: "2 \<le> b" "b \<le> 16" and ds: "list_all (is_digit b) ds" "ds \<noteq> []"
    and tail: "case tail of [] \<Rightarrow> True | c # _ \<Rightarrow> \<not> is_digit b c"
    and sp: "list_all (\<lambda>c. c = CHR '' '' \<or> c = CHR 0x09) sp" and sign: "sign \<in> {'''', ''-'', ''+''}"
  shows "kstrtol (Some (sp @ sign @ ds @ tail)) (int b) =
    (if digits_value b 0 ds \<le> long_max
     then (word_of_nat (digits_value b 0 ds) * (if sign = ''-'' then - 1 else 1), True) else (0, False))"
proof -
  obtain c es where c: "ds = c # es" "is_digit b c" using ds by (cases ds) auto
  have skip: "skip_spaces (sp @ sign @ ds @ tail) = sign @ ds @ tail"
    using sp sign digit_not_sign [OF c(2)] by (induction sp) (auto simp: skip_spaces_def c(1))
  have "strtol_sign (sign @ ds @ tail) = ((if sign = ''-'' then - 1 else 1), ds @ tail)"
    using sign digit_not_sign [OF c(2)] by (auto simp: strtol_sign_def c(1))
  moreover have "strtol_loop (ds @ tail) (int b) 0 False =
      (if digits_value b 0 ds \<le> long_max then Some (word_of_nat (digits_value b 0 ds), True) else None)"
    using strtol_loop_digits [OF b ds(1), of 0 tail False] strtol_loop_stops [OF b(1) tail] ds(2) by simp
  ultimately show ?thesis
    using b by (simp add: kstrtol_def skip detect_base_def)
qed

section \<open>Printing gives the digits of the value\<close>

text \<open>\<open>s\<close> is the numeral of \<open>n\<close> in base \<open>b\<close>: valid digits, no leading zero, value \<open>n\<close>.\<close>

definition numeral_for :: "nat \<Rightarrow> nat \<Rightarrow> string \<Rightarrow> bool" where
  "numeral_for b n s \<longleftrightarrow>
    list_all (is_digit b) s \<and> s \<noteq> [] \<and> digits_value b 0 s = n \<and> (n \<noteq> 0 \<longrightarrow> hd s \<noteq> CHR ''0'') \<and> (n = 0 \<longrightarrow> s = ''0'')"

lemma digit_nonzero:
  assumes "d < 16" "d \<noteq> 0"
  shows "digit_chars u ! d \<noteq> CHR ''0''"
  using digit_of_char [OF assms(1), of u] assms(2) by (auto simp: char_to_digit_def)

lemma numeral_for_snoc:
  assumes "2 \<le> b" "b \<le> 16" "d < b" "q \<noteq> 0" "numeral_for b q s"
  shows "numeral_for b (q * b + d) (s @ [digit_chars u ! d])"
  using assms digit_of_char [of d u] by (auto simp: numeral_for_def is_digit_def)

lemma numeral_for_digit:
  assumes "b \<le> 16" "d < b" "d \<noteq> 0"
  shows "numeral_for b d [digit_chars u ! d]"
  using assms digit_of_char [of d u] digit_nonzero [of d u] by (auto simp: numeral_for_def is_digit_def)

lemma numeral_for_zero: "2 \<le> b \<Longrightarrow> numeral_for b 0 ''0''"
  by (simp add: numeral_for_def is_digit_def char_to_digit_def)

text \<open>The common shape of the two printing loops, over an exact division step.\<close>

lemma numeral_step:
  assumes "2 \<le> b" "b \<le> 16" "n \<noteq> 0" and rest: "n div b \<noteq> 0 \<Longrightarrow> numeral_for b (n div b) s" "n div b = 0 \<Longrightarrow> s = []"
  shows "numeral_for b n (s @ [digit_chars u ! (n mod b)])"
proof (cases "n div b = 0")
  case True
  moreover have "n mod b = n" using True assms(1) by (simp add: div_eq_0_iff)
  ultimately show ?thesis
    using numeral_for_digit [of b n u] rest(2) assms by (simp add: div_eq_0_iff)
next
  case False
  then show ?thesis
    using numeral_for_snoc [of b "n mod b" "n div b" s u] rest(1) assms by simp
qed

declare uitoa_loop.simps [simp del] uitoa64_loop.simps [simp del]

lemma uitoa_loop_numeral:
  assumes "2 \<le> unat base" "unat base \<le> 16" "unat v < unat base ^ left"
  shows "\<exists>s. uitoa_loop left v base u = Inr s \<and> (if v = 0 then s = [] else numeral_for (unat base) (unat v) s)"
  using assms(3)
proof (induction left arbitrary: v)
  case (Suc left)
  show ?case
  proof (cases "v = 0")
    case False
    have "unat (v div base) < unat base ^ left"
      using Suc.prems assms(1) by (simp add: unat_div less_mult_imp_div_less mult.commute)
    from Suc.IH [OF this] obtain s where s: "uitoa_loop left (v div base) base u = Inr s"
      "if v div base = 0 then s = [] else numeral_for (unat base) (unat (v div base)) s" by blast
    have "unat (v mod base) < 16" "base \<noteq> 0" "unat v \<noteq> 0"
      using assms(1,2) False by (auto simp: unat_mod unat_eq_0 intro: less_le_trans [OF mod_less_divisor])
    moreover from this have "numeral_for (unat base) (unat v) (s @ [digit_chars u ! (unat v mod unat base)])"
      using s(2) by (intro numeral_step [OF assms(1,2)]) (auto simp: unat_div unat_eq_0 simp flip: unat_div split: if_splits)
    ultimately show ?thesis
      using False s(1) by (subst uitoa_loop.simps) (simp add: bindE_def unat_mod)
  qed (subst uitoa_loop.simps, simp)
qed (simp add: unat_eq_0 uitoa_loop.simps)

lemma uitoa64_loop_numeral:
  assumes "2 \<le> unat base" "unat base \<le> 16" "unat v < unat base ^ left"
  shows "\<exists>s. uitoa64_loop left v base u = Inr s \<and> (if v = 0 then s = [] else numeral_for (unat base) (unat v) s)"
  using assms(3)
proof (induction left arbitrary: v)
  case (Suc left)
  show ?case
  proof (cases "v = 0")
    case False
    have b64: "unat (ucast base :: u64) = unat base" and b0: "base \<noteq> 0"
      using assms(1) by (auto simp: unat_u32_to_u64)
    define q where "q = v div ucast base"
    have q: "unat q = unat v div unat base" by (simp add: q_def unat_div b64)
    have "unat q < unat base ^ left"
      using Suc.prems assms(1) by (simp add: q less_mult_imp_div_less mult.commute)
    from Suc.IH [OF this] obtain s where s: "uitoa64_loop left q base u = Inr s"
      "if q = 0 then s = [] else numeral_for (unat base) (unat q) s" by blast
    have m: "unat v mod unat base < unat base" using assms(1) by simp
    then have "unat (ucast (v mod ucast base) :: u32) = unat v mod unat base"
      using assms(2) by (simp add: unsigned_ucast_eq unat_mod b64 take_bit_nat_eq_self)
    moreover have "unat v \<noteq> 0" using False by (simp add: unat_eq_0)
    moreover from this have "numeral_for (unat base) (unat v) (s @ [digit_chars u ! (unat v mod unat base)])"
      using s(2) by (intro numeral_step [OF assms(1,2)]) (auto simp: unat_eq_0 simp flip: q split: if_splits)
    ultimately show ?thesis
      using False s(1) m assms(2)
      by (subst uitoa64_loop.simps) (simp add: bindE_def kdivmod_u64_eq [OF b0] flip: q_def)
  qed (subst uitoa64_loop.simps, simp)
qed (simp add: unat_eq_0 uitoa64_loop.simps)


section \<open>Properties\<close>

text \<open>
  The 64-step shift-and-subtract loop of \<^verbatim>\<open>kdivmod_u64\<close> is 64-bit division: for every value and
  every non-zero base it returns the quotient and stores the remainder, the carry never wrapping.
\<close>

theorem kdivmod_u64_divides:
  assumes "base \<noteq> 0"
  shows "kdivmod_u64 v base = (v div ucast base, ucast (v mod ucast base))"
  using assms by (rule kdivmod_u64_eq)

theorem kdivmod_u64_divides_witness:
  "kdivmod_u64 0xFFFFFFFFFFFFFFFF 10 = (0x1999999999999999, 5)"
proof -
  have "kdivmod_u64 0xFFFFFFFFFFFFFFFF 10
      = (0xFFFFFFFFFFFFFFFF div ucast (10 :: u32), ucast (0xFFFFFFFFFFFFFFFF mod ucast (10 :: u32) :: u64))"
    by (rule kdivmod_u64_divides) simp
  then show ?thesis by simp
qed

text \<open>
  C22. \<^verbatim>\<open>kstrtol\<close> on blanks, an optional sign, a non-empty run of digits of the base and any rest
  that does not go on with a digit: it stores success and returns the signed value of the digits
  when that value is at most \<^verbatim>\<open>LONG_MAX\<close>, and returns 0 with failure when it is larger, without the
  64-bit accumulation ever wrapping, for every base from 2 to 16.
\<close>

theorem kstrtol_correct:
  assumes "2 \<le> b" "b \<le> 16" "list_all (is_digit b) ds" "ds \<noteq> []"
    and "case tail of [] \<Rightarrow> True | c # _ \<Rightarrow> \<not> is_digit b c"
    and "list_all (\<lambda>c. c = CHR '' '' \<or> c = CHR 0x09) sp" and "sign \<in> {'''', ''-'', ''+''}"
  shows "kstrtol (Some (sp @ sign @ ds @ tail)) (int b) =
    (if digits_value b 0 ds \<le> 2 ^ 63 - 1
     then (word_of_nat (digits_value b 0 ds) * (if sign = ''-'' then - 1 else 1), True) else (0, False))"
  using assms by (rule kstrtol_number)

theorem kstrtol_correct_witness:
  "kstrtol (Some ''  -7fFz'') 16 = (- 2047, True) \<and>
   kstrtol (Some ''9223372036854775808'') 10 = (0, False)"
proof
  have "kstrtol (Some (''  '' @ ''-'' @ ''7fF'' @ ''z'')) (int 16) =
      (if digits_value 16 0 ''7fF'' \<le> 2 ^ 63 - 1
       then (word_of_nat (digits_value 16 0 ''7fF'') * (if ''-'' = ''-'' then - 1 else 1), True) else (0, False))"
    by (rule kstrtol_correct) (simp_all add: is_digit_def char_to_digit_def)
  then show "kstrtol (Some ''  -7fFz'') 16 = (- 2047, True)"
    by (simp add: char_to_digit_def)
  have "kstrtol (Some ([] @ [] @ ''9223372036854775808'' @ [])) (int 10) =
      (if digits_value 10 0 ''9223372036854775808'' \<le> 2 ^ 63 - 1
       then (word_of_nat (digits_value 10 0 ''9223372036854775808'') * (if [] = ''-'' then - 1 else 1), True)
       else (0, False))"
    by (rule kstrtol_correct) (simp_all add: is_digit_def char_to_digit_def)
  then show "kstrtol (Some ''9223372036854775808'') 10 = (0, False)"
    by (simp add: char_to_digit_def)
qed

text \<open>
  C23. \<^verbatim>\<open>kuitoa\<close> in every base from 2 to 16 returns, for every 32-bit value, the numeral of the value:
  digits of the base, no leading zero, and the value of the digits is the value printed. In
  particular the 32 bytes of \<^verbatim>\<open>temp\<close> are never overrun, binary included.
\<close>

theorem kuitoa_prints:
  assumes "2 \<le> unat base" "unat base \<le> 16"
  shows "\<exists>s. kuitoa v base u = Inr s \<and> numeral_for (unat base) (unat v) s"
proof -
  have "unat v < 2 ^ 32" using unsigned_less [of v] by simp
  also have "(2::nat) ^ 32 \<le> unat base ^ 32" using assms(1) by (rule power_mono) simp
  finally show ?thesis
    using uitoa_loop_numeral [OF assms, of v 32 u] numeral_for_zero [OF assms(1)]
    by (auto simp: kuitoa_def split: if_splits)
qed

theorem kuitoa_prints_witness:
  "\<exists>s. kuitoa 0xFFFFFFFF 2 False = Inr s \<and> numeral_for 2 (2 ^ 32 - 1) s"
  using kuitoa_prints [of 2 "0xFFFFFFFF" False] by simp

lemma kuitoa64_decimal: "\<exists>s. kuitoa64 v 10 u = Inr s \<and> numeral_for 10 (unat v) s"
proof -
  have "unat v < 2 ^ 64" using unsigned_less [of v] by simp
  also have "(2::nat) ^ 64 \<le> 10 ^ 32" by simp
  finally show ?thesis
    using uitoa64_loop_numeral [of 10 v 32 u] numeral_for_zero [of 10]
    by (auto simp: kuitoa64_def split: if_splits)
qed

lemma kstrtol_numeral:
  assumes "numeral_for 10 n s" "n \<le> long_max"
  shows "kstrtol (Some s) 10 = (word_of_nat n, True)" "kstrtol (Some (CHR ''-'' # s)) 10 = (- word_of_nat n, True)"
  using kstrtol_number [of 10 s "[]" "[]" "[]"] kstrtol_number [of 10 s "[]" "[]" "''-''"] assms
  by (simp_all add: numeral_for_def)

lemma unat_uminus_small:
  fixes v :: u64
  assumes "sint v < 0" "sint v \<noteq> - (2 ^ 63)"
  shows "unat (- v) \<le> long_max"
proof -
  have "sint v \<ge> - (2 ^ 63)" using sint_greater_eq [of v] by simp
  with assms have "0 \<le> - sint v" "- sint v < 2 ^ 63" by auto
  moreover have "uint (- v) = - sint v mod 2 ^ 64"
    using uint_word_of_int [of "- sint v", where 'a = 64] by simp
  ultimately have "uint (- v) < 9223372036854775808" by simp
  moreover have "int (unat (- v)) = uint (- v)" by simp
  ultimately have "unat (- v) < 9223372036854775808" by linarith
  then show ?thesis by simp
qed

text \<open>
  C21. Printing a signed 64-bit value with \<^verbatim>\<open>kitoa64\<close> and parsing the text with \<^verbatim>\<open>kstrtol\<close> in base 10
  gives the value back, for every value but \<^verbatim>\<open>LONG_MIN\<close>, whose magnitude the parser rejects.
\<close>

theorem kitoa64_kstrtol_roundtrip:
  assumes "sint v \<noteq> - (2 ^ 63)"
  shows "\<exists>s. kitoa64 v = Inr s \<and> kstrtol (Some s) 10 = (v, True)"
proof (cases "sint v < 0")
  case True
  obtain s where s: "kuitoa64 (- v) 10 False = Inr s" "numeral_for 10 (unat (- v)) s"
    using kuitoa64_decimal by blast
  with kstrtol_numeral(2) [OF s(2) unat_uminus_small [OF True assms]] True show ?thesis
    by (simp add: kitoa64_def bindE_def)
next
  case False
  obtain s where s: "kuitoa64 v 10 False = Inr s" "numeral_for 10 (unat v) s"
    using kuitoa64_decimal by blast
  have "uint v = sint v"
    using False sint_less [of v] uint_word_of_int [of "sint v", where 'a = 64] by simp
  then have "unat v \<le> long_max"
    using sint_less [of v] unfolding unat_eq_nat_uint by simp
  with kstrtol_numeral(1) [OF s(2)] s(1) False show ?thesis by (simp add: kitoa64_def)
qed

theorem kitoa64_kstrtol_roundtrip_witness:
  "\<exists>s. kitoa64 (- 9223372036854775807) = Inr s \<and> kstrtol (Some s) 10 = (- 9223372036854775807, True)"
  by (rule kitoa64_kstrtol_roundtrip) simp

text \<open>\<^verbatim>\<open>kstrtol\<close> with base detection takes the zero of \<open>''0''\<close> for an octal prefix and then reports
  that no number was read; \<^verbatim>\<open>katoi\<close> on a string without a digit runs past the terminator.\<close>

lemma kstrtol_zero_rejected: "kstrtol (Some ''0'') 0 = (0, False)"
  by (simp add: kstrtol_def skip_spaces_def strtol_sign_def detect_base_def)

lemma katoi_overruns:
  assumes "\<forall>c\<in>set s. \<not> kisdigit c"
  shows "katoi s = Inl Overrun"
proof -
  have "atoi_skip s n = Inl Overrun" for n
    using assms by (induction s arbitrary: n) auto
  then show ?thesis by (simp add: katoi_def bindE_def)
qed

end
