(* ===== verification/Keyboard.thy ===== *)
theory Keyboard
  imports Prelude "HOL-Library.Sublist"
begin

text \<open>
  The PS/2 keyboard (\<^verbatim>\<open>src/kernel/misc/keyboard.c\<close>, \<^verbatim>\<open>src/kernel/interruption/irq/irq_keyboard_press.c\<close>):
  the scancode tables, the modifier state, and the 128-byte ring between the interrupt handler,
  which pushes, and \<^verbatim>\<open>kkeyboard_getchar\<close>, which pops. The locale \<open>bounded_queue\<close> is the contract of
  such a ring; it is interpreted on \<^verbatim>\<open>kkeyboard_push\<close> and \<^verbatim>\<open>kkeyboard_pop\<close>.
\<close>

section \<open>State\<close>

datatype keymap_t = KKEYMAP_QWERTY | KKEYMAP_AZERTY

record keyboard_state =
  keymap :: keymap_t
  keyboard_buffer :: "u8 list"
  keyboard_head :: u32
  keyboard_tail :: u32
  shift_pressed :: u32
  caps_lock_activated :: u32

definition KEYBOARD_BUFFER_SIZE :: u32 where
  "KEYBOARD_BUFFER_SIZE = 128"

section \<open>Scancode tables\<close>

definition scancode_to_ascii_qwerty :: "u8 list" where
  "scancode_to_ascii_qwerty = [
    0x00, 0x1B, 0x31, 0x32, 0x33, 0x34, 0x35, 0x36, 0x37, 0x38, 0x39, 0x30, 0x2D, 0x3D, 0x08,
    0x09, 0x71, 0x77, 0x65, 0x72, 0x74, 0x79, 0x75, 0x69, 0x6F, 0x70, 0x5B, 0x5D, 0x0A, 0x00,
    0x61, 0x73, 0x64, 0x66, 0x67, 0x68, 0x6A, 0x6B, 0x6C, 0x3B, 0x27, 0x60, 0x00, 0x5C, 0x7A,
    0x78, 0x63, 0x76, 0x62, 0x6E, 0x6D, 0x2C, 0x2E, 0x2F, 0x00, 0x2A, 0x00, 0x20] @ replicate 70 0"

definition scancode_to_ascii_qwerty_shift :: "u8 list" where
  "scancode_to_ascii_qwerty_shift = [
    0x00, 0x1B, 0x21, 0x40, 0x23, 0x24, 0x25, 0x5E, 0x26, 0x2A, 0x28, 0x29, 0x5F, 0x2B, 0x08,
    0x09, 0x51, 0x57, 0x45, 0x52, 0x54, 0x59, 0x55, 0x49, 0x4F, 0x50, 0x7B, 0x7D, 0x0A, 0x00,
    0x41, 0x53, 0x44, 0x46, 0x47, 0x48, 0x4A, 0x4B, 0x4C, 0x3A, 0x22, 0x7E, 0x00, 0x7C, 0x5A,
    0x58, 0x43, 0x56, 0x42, 0x4E, 0x4D, 0x3C, 0x3E, 0x3F, 0x00, 0x2A, 0x00, 0x20] @ replicate 70 0"

definition scancode_to_ascii_azerty :: "u8 list" where
  "scancode_to_ascii_azerty = [
    0x00, 0x1B, 0x26, 0x82, 0x22, 0x27, 0x28, 0x2D, 0x8A, 0x5F, 0x87, 0x85, 0x29, 0x3D, 0x08,
    0x09, 0x61, 0x7A, 0x65, 0x72, 0x74, 0x79, 0x75, 0x69, 0x6F, 0x70, 0x5E, 0x24, 0x0A, 0x00,
    0x71, 0x73, 0x64, 0x66, 0x67, 0x68, 0x6A, 0x6B, 0x6C, 0x6D, 0x97, 0x88, 0x00, 0x2A, 0x77,
    0x78, 0x63, 0x76, 0x62, 0x6E, 0x2C, 0x3B, 0x2E, 0x2F, 0x00, 0x2A, 0x00, 0x20] @ replicate 70 0"

definition scancode_to_ascii_azerty_shift :: "u8 list" where
  "scancode_to_ascii_azerty_shift = [
    0x00, 0x1B, 0x31, 0x32, 0x33, 0x34, 0x35, 0x36, 0x37, 0x38, 0x39, 0x30, 0xB0, 0x2B, 0x08,
    0x09, 0x41, 0x5A, 0x45, 0x52, 0x54, 0x59, 0x55, 0x49, 0x4F, 0x50, 0xA8, 0xA3, 0x0A, 0x00,
    0x51, 0x53, 0x44, 0x46, 0x47, 0x48, 0x4A, 0x4B, 0x4C, 0x4D, 0x25, 0xB5, 0x00, 0x2A, 0x57,
    0x58, 0x43, 0x56, 0x42, 0x4E, 0x3F, 0x2E, 0x2F, 0xA7, 0x00, 0x2A, 0x00, 0x20] @ replicate 70 0"

definition kkeyboard_get_keymap_values :: "keymap_t \<Rightarrow> u32 \<Rightarrow> u8 list" where
  "kkeyboard_get_keymap_values km shifted =
    (case km of
       KKEYMAP_QWERTY \<Rightarrow>
         if shifted \<noteq> 0 then scancode_to_ascii_qwerty_shift else scancode_to_ascii_qwerty
     | KKEYMAP_AZERTY \<Rightarrow>
         if shifted \<noteq> 0 then scancode_to_ascii_azerty_shift else scancode_to_ascii_azerty)"

section \<open>The ring\<close>

definition kkeyboard_push :: "u8 \<Rightarrow> keyboard_state \<Rightarrow> keyboard_state kres" where
  "kkeyboard_push c s =
    (let next = (keyboard_head s + 1) mod KEYBOARD_BUFFER_SIZE in
     if next \<noteq> keyboard_tail s then
       if unat (keyboard_head s) < length (keyboard_buffer s)
       then Inr (s\<lparr>keyboard_buffer := (keyboard_buffer s)[unat (keyboard_head s) := c],
                   keyboard_head := next\<rparr>)
       else Inl Overrun
     else Inr s)"

text \<open>The element is an \<^verbatim>\<open>int8_t\<close>, widened with its sign.\<close>

definition kkeyboard_pop :: "keyboard_state \<Rightarrow> (int \<times> keyboard_state) kres" where
  "kkeyboard_pop s =
    (if keyboard_head s = keyboard_tail s then Inr (- 1, s)
     else if unat (keyboard_tail s) < length (keyboard_buffer s)
     then Inr (sint (keyboard_buffer s ! unat (keyboard_tail s)),
               s\<lparr>keyboard_tail := (keyboard_tail s + 1) mod KEYBOARD_BUFFER_SIZE\<rparr>)
     else Inl Overrun)"

section \<open>The interrupt handler\<close>

definition KEY_LEFT_SHIFT :: u8 where "KEY_LEFT_SHIFT = 0x2A"

definition KEY_RIGHT_SHIFT :: u8 where "KEY_RIGHT_SHIFT = 0x36"

definition KEY_CAPS_LOCK :: u8 where "KEY_CAPS_LOCK = 0x3A"

definition KEY_IS_PRESSED :: "u8 \<Rightarrow> bool" where
  "KEY_IS_PRESSED x = (x AND 0x80 = 0)"

text \<open>
  The argument is the byte read from port \<^verbatim>\<open>0x60\<close>. The end-of-interrupt command to the interrupt controller changes nothing
  of this state and is left out.
\<close>

definition irq_keyboard_press :: "u8 \<Rightarrow> keyboard_state \<Rightarrow> keyboard_state kres" where
  "irq_keyboard_press kcode s =
    (let scancodes = kkeyboard_get_keymap_values (keymap s) (shift_pressed s XOR caps_lock_activated s) in
     if KEY_IS_PRESSED kcode then
       if kcode = KEY_LEFT_SHIFT \<or> kcode = KEY_RIGHT_SHIFT then Inr (s\<lparr>shift_pressed := 1\<rparr>)
       else if kcode = KEY_CAPS_LOCK then
         Inr (s\<lparr>caps_lock_activated := caps_lock_activated s XOR 1\<rparr>)
       else if unat kcode \<ge> length scancodes then Inl Overrun
       else if scancodes ! unat kcode \<noteq> 0 then kkeyboard_push (scancodes ! unat kcode) s
       else Inr s
     else if kcode XOR 0x80 = KEY_LEFT_SHIFT \<or> kcode XOR 0x80 = KEY_RIGHT_SHIFT then
       Inr (s\<lparr>shift_pressed := 0\<rparr>)
     else Inr s)"

text \<open>
  \<^verbatim>\<open>kkeyboard_getchar\<close> halts until the next interrupt while the ring is empty. \<open>pending\<close> are the
  scancodes of the keyboard interrupts still to come; when there is none left the call never
  returns. The result is the character, the state and the interrupts not yet taken.
\<close>

fun kkeyboard_getchar :: "u8 list \<Rightarrow> keyboard_state \<Rightarrow> (u8 \<times> u8 list \<times> keyboard_state) kres" where
  "kkeyboard_getchar pending s =
    bindE (kkeyboard_pop s) (\<lambda>(c, s).
    let character = word_of_int c :: u8 in
    if sint character = - 1 then
      (case pending of
         [] \<Rightarrow> Inl NoReturn
       | kcode # pending \<Rightarrow> bindE (irq_keyboard_press kcode s) (kkeyboard_getchar pending))
    else Inr (character, pending, s))"

declare kkeyboard_getchar.simps [simp del]


section \<open>Bounded queues\<close>

datatype 'a queue_op = Push 'a | Pop

fun run_queue ::
    "('a \<Rightarrow> 's \<Rightarrow> 's kres) \<Rightarrow> ('s \<Rightarrow> ('b \<times> 's) kres) \<Rightarrow> 'a queue_op list \<Rightarrow> 's \<Rightarrow> ('b list \<times> 's) kres" where
  "run_queue push pop [] s = Inr ([], s)"
| "run_queue push pop (Push x # ops) s = bindE (push x s) (run_queue push pop ops)"
| "run_queue push pop (Pop # ops) s =
    bindE (pop s) (\<lambda>(r, s). bindE (run_queue push pop ops s) (\<lambda>(rs, s). Inr (r # rs, s)))"

text \<open>The specification: a list that takes elements at its end while it is shorter than \<open>cap\<close>.\<close>

fun spec_queue :: "nat \<Rightarrow> ('a \<Rightarrow> 'b) \<Rightarrow> 'b \<Rightarrow> 'a queue_op list \<Rightarrow> 'a list \<Rightarrow> 'b list \<times> 'a list" where
  "spec_queue cap view none [] q = ([], q)"
| "spec_queue cap view none (Push x # ops) q =
    spec_queue cap view none ops (if length q < cap then q @ [x] else q)"
| "spec_queue cap view none (Pop # ops) [] =
    (let (rs, q) = spec_queue cap view none ops [] in (none # rs, q))"
| "spec_queue cap view none (Pop # ops) (x # q) =
    (let (rs, q) = spec_queue cap view none ops q in (view x # rs, q))"

locale bounded_queue =
  fixes push :: "'a \<Rightarrow> 's \<Rightarrow> 's kres" and pop :: "'s \<Rightarrow> ('b \<times> 's) kres"
    and inv :: "'s \<Rightarrow> bool" and contents :: "'s \<Rightarrow> 'a list"
    and cap :: nat and view :: "'a \<Rightarrow> 'b" and none :: 'b
  assumes push_law: "inv s \<Longrightarrow> \<exists>s'. push x s = Inr s' \<and> inv s' \<and>
      contents s' = (if length (contents s) < cap then contents s @ [x] else contents s)"
    and pop_empty: "inv s \<Longrightarrow> contents s = [] \<Longrightarrow> pop s = Inr (none, s)"
    and pop_law: "inv s \<Longrightarrow> contents s = x # q \<Longrightarrow>
      \<exists>s'. pop s = Inr (view x, s') \<and> inv s' \<and> contents s' = q"
begin

lemma run_refines:
  "inv s \<Longrightarrow> \<exists>s'. run_queue push pop ops s = Inr (fst (spec_queue cap view none ops (contents s)), s') \<and>
    inv s' \<and> contents s' = snd (spec_queue cap view none ops (contents s))"
proof (induction ops arbitrary: s)
  case (Cons op ops)
  show ?case
  proof (cases op)
    case (Push x)
    obtain s1 where s1: "push x s = Inr s1" "inv s1"
      "contents s1 = (if length (contents s) < cap then contents s @ [x] else contents s)"
      using push_law [OF Cons.prems] by blast
    show ?thesis using Cons.IH [OF s1(2)] s1 Push by simp
  next
    case Pop
    show ?thesis
    proof (cases "contents s")
      case Nil
      show ?thesis
        using Cons.IH [OF Cons.prems] pop_empty [OF Cons.prems Nil] Nil Pop
        by (auto split: prod.splits)
    next
      case (Cons x q)
      obtain s1 where s1: "pop s = Inr (view x, s1)" "inv s1" "contents s1 = q"
        using pop_law [OF Cons.prems Cons] by blast
      show ?thesis
        using Cons.IH [OF s1(2)] s1 Cons Pop by (auto split: prod.splits)
    qed
  qed
qed simp

end

section \<open>The ring is a queue of at most 127 bytes\<close>

definition kb_inv :: "keyboard_state \<Rightarrow> bool" where
  "kb_inv s \<longleftrightarrow> length (keyboard_buffer s) = 128 \<and> unat (keyboard_head s) < 128 \<and> unat (keyboard_tail s) < 128"

definition kb_contents :: "keyboard_state \<Rightarrow> u8 list" where
  "kb_contents s = map (\<lambda>i. keyboard_buffer s ! ((unat (keyboard_tail s) + i) mod 128))
     [0..<(unat (keyboard_head s) + 128 - unat (keyboard_tail s)) mod 128]"

lemma next_index: "unat x < 128 \<Longrightarrow> unat ((x + 1) mod KEYBOARD_BUFFER_SIZE) = (unat x + 1) mod 128" for x :: u32
  by (simp add: KEYBOARD_BUFFER_SIZE_def unat_mod unat_word_ariths)

text \<open>Arithmetic of two indices below 128.\<close>

lemma ring_count:
  fixes h t :: nat
  assumes "h < 128" "t < 128"
  defines "n \<equiv> (h + 128 - t) mod 128"
  shows "(t + n) mod 128 = h" and "n < 128" and "n = 127 \<longleftrightarrow> (h + 1) mod 128 = t"
    and "n \<noteq> 127 \<Longrightarrow> ((h + 1) mod 128 + 128 - t) mod 128 = n + 1" and "n = 0 \<longleftrightarrow> h = t"
    and "n \<noteq> 0 \<Longrightarrow> n - 1 = (h + 128 - (t + 1) mod 128) mod 128"
proof -
  have n: "n = (if t \<le> h then h - t else h + 128 - t)"
    using assms(1,2) by (auto simp: n_def le_mod_geq)
  have up: "(x + 1) mod 128 = (if x = 127 then 0 else x + 1)" if "x < 128" for x :: nat
    using that by auto
  show "(t + n) mod 128 = h" "n < 128" "n = 0 \<longleftrightarrow> h = t"
    using assms(1,2) by (auto simp: n)
  show "n = 127 \<longleftrightarrow> (h + 1) mod 128 = t"
    using assms(1,2) unfolding n up [OF assms(1)] by (auto split: if_splits)
  show "((h + 1) mod 128 + 128 - t) mod 128 = n + 1" if "n \<noteq> 127"
    using assms(1,2) that unfolding n up [OF assms(1)] by (auto simp: le_mod_geq split: if_splits)
  show "n - 1 = (h + 128 - (t + 1) mod 128) mod 128" if "n \<noteq> 0"
    using assms(1,2) that unfolding n up [OF assms(2)] by (auto simp: le_mod_geq split: if_splits)
qed

lemma upt_map_Suc: "0 < n \<Longrightarrow> [0..<n] = 0 # map Suc [0..<n - 1]"
  by (simp add: upt_conv_Cons map_Suc_upt)

lemma ring_index:
  fixes h t i :: nat
  assumes "h < 128" "t < 128" "i < (h + 128 - t) mod 128"
  shows "(t + i) mod 128 \<noteq> h"
proof
  assume eq: "(t + i) mod 128 = h"
  define n where "n = (h + 128 - t) mod 128"
  have "(t + n) mod 128 = (t + i) mod 128" "i < n" "n < 128"
    using ring_count(1,2) [OF assms(1,2)] eq assms(3) by (simp_all add: n_def)
  then have "128 dvd n - i"
    by (simp add: mod_eq_dvd_iff_nat)
  with \<open>i < n\<close> \<open>n < 128\<close> show False by (auto dest: dvd_imp_le)
qed

lemma kb_push_law:
  assumes "kb_inv s"
  shows "\<exists>s'. kkeyboard_push c s = Inr s' \<and> kb_inv s' \<and>
    kb_contents s' = (if length (kb_contents s) < 127 then kb_contents s @ [c] else kb_contents s)"
proof -
  let ?h = "unat (keyboard_head s)" and ?t = "unat (keyboard_tail s)"
  let ?n = "(?h + 128 - ?t) mod 128"
  have b: "?h < 128" "?t < 128" "length (keyboard_buffer s) = 128" using assms by (auto simp: kb_inv_def)
  note r = ring_count [OF b(1,2)] and nx = next_index [OF b(1)]
  have full: "(keyboard_head s + 1) mod KEYBOARD_BUFFER_SIZE = keyboard_tail s \<longleftrightarrow> ?n = 127"
    using r(3) nx by (simp add: word_unat_eq_iff)
  show ?thesis
  proof (cases "?n = 127")
    case True
    then show ?thesis using assms full by (simp add: kkeyboard_push_def kb_contents_def)
  next
    case False
    have upd: "(keyboard_buffer s)[?h := c] ! ((?t + i) mod 128) = keyboard_buffer s ! ((?t + i) mod 128)"
      if "i < ?n" for i
      using ring_index [OF b(1,2) that] by simp
    define s' where "s' = s\<lparr>keyboard_buffer := (keyboard_buffer s)[?h := c],
      keyboard_head := (keyboard_head s + 1) mod KEYBOARD_BUFFER_SIZE\<rparr>"
    have "[0..<?n + 1] = [0..<?n] @ [?n]" by simp
    then have "kb_contents s' = kb_contents s @ [c]"
      using b r(1) r(4) [OF False] nx upd by (auto simp: kb_contents_def s'_def)
    moreover have "kkeyboard_push c s = Inr s'" "kb_inv s'"
      using False full b nx by (auto simp: kkeyboard_push_def kb_inv_def Let_def s'_def)
    moreover have "length (kb_contents s) = ?n" by (simp add: kb_contents_def)
    then have "length (kb_contents s) < 127" using False r(2) by linarith
    ultimately show ?thesis by simp
  qed
qed

lemma kb_pop_empty:
  assumes "kb_inv s" "kb_contents s = []"
  shows "kkeyboard_pop s = Inr (- 1, s)"
  using assms ring_count(5) [of "unat (keyboard_head s)" "unat (keyboard_tail s)"]
  by (simp add: kb_contents_def kb_inv_def kkeyboard_pop_def word_unat_eq_iff)

lemma kb_pop_law:
  assumes "kb_inv s" "kb_contents s = c # q"
  shows "\<exists>s'. kkeyboard_pop s = Inr (sint c, s') \<and> kb_inv s' \<and> kb_contents s' = q"
proof -
  let ?h = "unat (keyboard_head s)" and ?t = "unat (keyboard_tail s)"
  let ?n = "(?h + 128 - ?t) mod 128"
  have b: "?h < 128" "?t < 128" "length (keyboard_buffer s) = 128" using assms by (auto simp: kb_inv_def)
  note r = ring_count [OF b(1,2)] and nx = next_index [OF b(2)]
  have "length (kb_contents s) = ?n" by (simp add: kb_contents_def)
  with assms(2) have n: "?n \<noteq> 0" by (metis list.size(3) list.distinct(1) length_0_conv)
  then have up: "[0..<?n] = 0 # map Suc [0..<?n - 1]"
    by (intro upt_map_Suc) simp
  have c: "c = keyboard_buffer s ! ?t"
    and q: "q = map (\<lambda>i. keyboard_buffer s ! ((?t + Suc i) mod 128)) [0..<?n - 1]"
    using assms(2) b unfolding kb_contents_def up by (auto simp: o_def)
  have "((?t + 1) mod 128 + i) mod 128 = (?t + Suc i) mod 128" for i by (simp add: mod_simps)
  moreover have "keyboard_head s \<noteq> keyboard_tail s" using n r(5) by auto
  ultimately show ?thesis
    using n r(6) c q b nx by (auto simp: kkeyboard_pop_def kb_contents_def kb_inv_def)
qed

interpretation kbring: bounded_queue kkeyboard_push kkeyboard_pop kb_inv kb_contents 127 sint "- 1"
  by unfold_locales (use kb_push_law kb_pop_empty kb_pop_law in blast)+


section \<open>From scancodes to characters\<close>

text \<open>
  What a sequence of scancodes types, starting from given modifiers: the make code of a key that
  has a character types it in the table the modifiers select, the shift keys act while held and
  caps lock toggles.
\<close>

fun keys_typed :: "keymap_t \<Rightarrow> bool \<Rightarrow> bool \<Rightarrow> u8 list \<Rightarrow> u8 list" where
  "keys_typed km shift caps [] = []"
| "keys_typed km shift caps (k # ks) =
    (if k \<in> {0x2A, 0x36} then keys_typed km True caps ks
     else if k \<in> {0xAA, 0xB6} then keys_typed km False caps ks
     else if k = 0x3A then keys_typed km shift (\<not> caps) ks
     else if unat k < 128
     then let c = kkeyboard_get_keymap_values km (if shift \<noteq> caps then 1 else 0) ! unat k in
       if c \<noteq> 0 then c # keys_typed km shift caps ks else keys_typed km shift caps ks
     else keys_typed km shift caps ks)"

definition kb_ok :: "keyboard_state \<Rightarrow> bool" where
  "kb_ok s \<longleftrightarrow> kb_inv s \<and> shift_pressed s \<in> {0, 1} \<and> caps_lock_activated s \<in> {0, 1} \<and> 0xFF \<notin> set (kb_contents s)"

definition kb_stream :: "u8 list \<Rightarrow> keyboard_state \<Rightarrow> u8 list" where
  "kb_stream pending s =
    kb_contents s @ keys_typed (keymap s) (shift_pressed s = 1) (caps_lock_activated s = 1) pending"

lemmas scancode_tables = scancode_to_ascii_qwerty_def scancode_to_ascii_qwerty_shift_def
  scancode_to_ascii_azerty_def scancode_to_ascii_azerty_shift_def

lemma keymap_values:
  "length (kkeyboard_get_keymap_values km sh) = 128" "0xFF \<notin> set (kkeyboard_get_keymap_values km sh)"
  by (simp_all add: kkeyboard_get_keymap_values_def scancode_tables split: keymap_t.split)

lemma keymap_entry: "unat k < 128 \<Longrightarrow> kkeyboard_get_keymap_values km sh ! unat k \<noteq> 0xFF" for k :: u8
  using keymap_values [of km sh] by (metis nth_mem)

lemma key_pressed: "KEY_IS_PRESSED k \<longleftrightarrow> unat k < 128"
proof -
  have "k AND 0x80 = 0 \<longleftrightarrow> \<not> bit k 7"
    by (simp add: and_exp_eq_0_iff_not_bit [of k 7, simplified])
  also have "\<dots> \<longleftrightarrow> unat k < 128"
  proof -
    have "bit k 7 \<longleftrightarrow> bit (unat k) 7" by (simp add: bit_unsigned_iff)
    then have "bit k 7 \<longleftrightarrow> odd (unat k div 128)" by (simp add: bit_iff_odd)
    moreover have "unat k < 256" using unsigned_less [of k, where 'a = nat] by simp
    then have "unat k div 128 \<in> {0, 1}" by auto
    ultimately show ?thesis by auto
  qed
  finally show ?thesis by (simp add: KEY_IS_PRESSED_def)
qed

lemmas key_defs = KEY_LEFT_SHIFT_def KEY_RIGHT_SHIFT_def KEY_CAPS_LOCK_def

lemma xor_move: "x XOR y = z \<longleftrightarrow> x = z XOR y" for x y z :: "'a::len word"
  by (metis xor.assoc xor_self_eq xor.right_neutral)

lemma modifiers_xor:
  assumes "a \<in> {0, 1}" "b \<in> {0, 1}"
  shows "(a XOR b \<noteq> (0 :: u32)) = ((a = 1) \<noteq> (b = 1))"
  using assms by auto

lemma keymap_by_bool:
  "kkeyboard_get_keymap_values km sh = kkeyboard_get_keymap_values km (if sh \<noteq> 0 then 1 else 0)"
  by (simp add: kkeyboard_get_keymap_values_def split: keymap_t.split)

text \<open>One interrupt on an empty ring moves what its scancode types from the future into the ring.\<close>

lemma irq_step:
  assumes "kb_ok s" "kb_contents s = []"
  shows "\<exists>s'. irq_keyboard_press k s = Inr s' \<and> kb_ok s' \<and> kb_stream ks s' = kb_stream (k # ks) s"
proof -
  have inv: "kb_inv s" and m: "shift_pressed s \<in> {0, 1}" "caps_lock_activated s \<in> {0, 1}"
    using assms(1) by (auto simp: kb_ok_def)
  have frame: "kb_inv (s\<lparr>shift_pressed := a\<rparr>) = kb_inv s" "kb_inv (s\<lparr>caps_lock_activated := a\<rparr>) = kb_inv s"
    "kb_contents (s\<lparr>shift_pressed := a\<rparr>) = kb_contents s"
    "kb_contents (s\<lparr>caps_lock_activated := a\<rparr>) = kb_contents s" for a
    by (simp_all add: kb_inv_def kb_contents_def)
  define tab where "tab = kkeyboard_get_keymap_values (keymap s) (shift_pressed s XOR caps_lock_activated s)"
  have tab: "tab = kkeyboard_get_keymap_values (keymap s)
      (if (shift_pressed s = 1) \<noteq> (caps_lock_activated s = 1) then 1 else 0)"
    unfolding tab_def by (subst keymap_by_bool) (simp only: modifiers_xor [OF m])
  have len: "length tab = 128" by (simp add: tab_def keymap_values)
  have rel: "k XOR 0x80 = 0x2A \<longleftrightarrow> k = 0xAA" "k XOR 0x80 = 0x36 \<longleftrightarrow> k = 0xB6"
    using xor_move [of k "0x80" "0x2A"] xor_move [of k "0x80" "0x36"] by simp_all
  consider (shift) "k \<in> {0x2A, 0x36}" | (caps) "k = 0x3A" | (release) "k \<in> {0xAA, 0xB6}"
    | (key) "unat k < 128" "k \<notin> {0x2A, 0x36, 0x3A}" | (other) "\<not> unat k < 128" "k \<notin> {0xAA, 0xB6}"
    by auto
  then show ?thesis
  proof cases
    case key
    then have neq: "k \<noteq> 0x2A" "k \<noteq> 0x36" "k \<noteq> 0x3A" "k \<noteq> 0xAA" "k \<noteq> 0xB6" by auto
    let ?c = "tab ! unat k"
    have irq: "irq_keyboard_press k s = (if ?c \<noteq> 0 then kkeyboard_push ?c s else Inr s)"
      using key(1) neq len by (simp add: irq_keyboard_press_def key_pressed key_defs flip: tab_def)
    have typed: "kb_stream (k # ks) s = (if ?c \<noteq> 0 then [?c] else []) @ kb_stream ks s"
      using key(1) neq assms(2) by (simp add: kb_stream_def Let_def tab)
    show ?thesis
    proof (cases "?c = 0")
      case False
      obtain s' where s': "kkeyboard_push ?c s = Inr s'" "kb_inv s'" "kb_contents s' = [?c]"
        using kb_push_law [OF inv, of ?c] assms(2) by auto
      have same: "keymap s' = keymap s" "shift_pressed s' = shift_pressed s"
        "caps_lock_activated s' = caps_lock_activated s"
        using s'(1) by (auto simp: kkeyboard_push_def Let_def split: if_splits)
      have "?c \<noteq> 0xFF" unfolding tab_def by (rule keymap_entry [OF key(1)])
      then show ?thesis
        using irq typed False s' same m assms(2) by (auto simp: kb_ok_def kb_stream_def)
    qed (use irq typed assms in simp)
  qed (use assms m frame rel in \<open>auto simp: irq_keyboard_press_def key_pressed key_defs kb_ok_def kb_stream_def
      Let_def\<close>)
qed

lemma sint_minus_one: "sint c = - 1 \<longleftrightarrow> c = 0xFF" for c :: u8
proof -
  have "(0xFF :: u8) = - 1" by simp
  then show ?thesis by (metis signed_word_eqI sint_n1)
qed

lemma getchar_queued:
  assumes "kb_ok s" "kb_contents s = c # cs"
  shows "\<exists>s'. kkeyboard_getchar pending s = Inr (c, pending, s') \<and> kb_ok s' \<and>
    kb_stream pending s = c # kb_stream pending s'"
proof -
  obtain s' where s': "kkeyboard_pop s = Inr (sint c, s')" "kb_inv s'" "kb_contents s' = cs"
    using kb_pop_law [OF _ assms(2)] assms(1) by (auto simp: kb_ok_def)
  have "keymap s' = keymap s" "shift_pressed s' = shift_pressed s" "caps_lock_activated s' = caps_lock_activated s"
    using s'(1) by (auto simp: kkeyboard_pop_def split: if_splits)
  moreover have "sint c \<noteq> - 1" using assms by (auto simp: kb_ok_def sint_minus_one)
  ultimately show ?thesis
    using s' assms by (subst kkeyboard_getchar.simps) (auto simp: kb_ok_def kb_stream_def simp del: keys_typed.simps)
qed

text \<open>The characters are delivered in the order they are typed.\<close>

lemma getchar_stream:
  assumes "kb_ok s"
  shows "case kb_stream pending s of
      [] \<Rightarrow> kkeyboard_getchar pending s = Inl NoReturn
    | c # cs \<Rightarrow> \<exists>pending' s'. kkeyboard_getchar pending s = Inr (c, pending', s') \<and> kb_ok s' \<and>
        kb_stream pending' s' = cs \<and> suffix pending' pending"
  using assms
proof (induction pending arbitrary: s)
  case Nil
  show ?case
  proof (cases "kb_contents s")
    case Nil
    then show ?thesis using Nil.prems kb_pop_empty [of s]
      by (subst kkeyboard_getchar.simps) (simp add: kb_ok_def kb_stream_def)
  next
    case (Cons c cs)
    then show ?thesis using getchar_queued [OF Nil.prems Cons, of "[]"] by auto
  qed
next
  case (Cons k ks)
  show ?case
  proof (cases "kb_contents s")
    case Nil
    obtain s' where s': "irq_keyboard_press k s = Inr s'" "kb_ok s'" "kb_stream ks s' = kb_stream (k # ks) s"
      using irq_step [OF Cons.prems Nil] by blast
    have "kkeyboard_getchar (k # ks) s = kkeyboard_getchar ks s'"
      using s'(1) kb_pop_empty [of s] Nil Cons.prems by (subst kkeyboard_getchar.simps) (simp add: kb_ok_def)
    then show ?thesis
      using Cons.IH [OF s'(2)] s'(3) by (auto split: list.splits intro: suffix_ConsI)
  next
    case (Cons c cs)
    then show ?thesis using getchar_queued [OF Cons.prems Cons, of "k # ks"] by auto
  qed
qed

section \<open>Properties\<close>

text \<open>
  C24. The keyboard ring refines a bounded first-in first-out queue of 127 bytes: any interleaving of
  \<^verbatim>\<open>kkeyboard_push\<close> and \<^verbatim>\<open>kkeyboard_pop\<close> stays inside the 128-byte buffer, pops return exactly what the
  queue returns (the oldest byte, or -1 when it is empty), and a push is dropped only when 127
  bytes are waiting.
\<close>

theorem keyboard_ring_refines_queue:
  assumes "kb_inv s"
  shows "\<exists>s'. run_queue kkeyboard_push kkeyboard_pop ops s =
      Inr (fst (spec_queue 127 sint (- 1) ops (kb_contents s)), s') \<and>
    kb_inv s' \<and> kb_contents s' = snd (spec_queue 127 sint (- 1) ops (kb_contents s))"
  using assms by (rule kbring.run_refines)

definition keyboard_reset :: keyboard_state where
  "keyboard_reset = \<lparr>keymap = KKEYMAP_AZERTY, keyboard_buffer = replicate 128 0, keyboard_head = 0,
     keyboard_tail = 0, shift_pressed = 0, caps_lock_activated = 0\<rparr>"

lemma keyboard_reset_ok: "kb_inv keyboard_reset" "kb_contents keyboard_reset = []" "kb_ok keyboard_reset"
  by (simp_all add: kb_inv_def kb_ok_def kb_contents_def keyboard_reset_def)

theorem keyboard_ring_refines_queue_witness:
  "\<exists>s'. run_queue kkeyboard_push kkeyboard_pop [Push 97, Push 0xB5, Pop, Pop, Pop] keyboard_reset
     = Inr ([97, - 75, - 1], s') \<and> kb_contents s' = []"
  using keyboard_ring_refines_queue [OF keyboard_reset_ok(1), of "[Push 97, Push 0xB5, Pop, Pop, Pop]"]
  by (auto simp: keyboard_reset_ok(2))

text \<open>
  C26. \<^verbatim>\<open>kkeyboard_getchar\<close> delivers the characters in the order they are typed: it returns the oldest
  queued character, or else the first one the coming scancodes type under the current keymap and
  modifiers, and leaves the rest of that stream to later calls; it never returns only when
  nothing is queued and no coming scancode types anything. No key of either layout types the
  byte \<^verbatim>\<open>0xFF\<close>, which the loop would take for an empty ring.
\<close>

theorem kkeyboard_getchar_in_order:
  assumes "kb_ok s"
  shows "case kb_stream pending s of
      [] \<Rightarrow> kkeyboard_getchar pending s = Inl NoReturn
    | c # cs \<Rightarrow> \<exists>pending' s'. kkeyboard_getchar pending s = Inr (c, pending', s') \<and> kb_ok s' \<and>
        kb_stream pending' s' = cs \<and> suffix pending' pending"
  using assms by (rule getchar_stream)

theorem kkeyboard_getchar_in_order_witness:
  "\<exists>pending' s'. kkeyboard_getchar [0x2A, 0x10, 0xAA, 0x1E] keyboard_reset = Inr (0x41, pending', s') \<and>
     kb_ok s' \<and> kb_stream pending' s' = [0x71]"
proof -
  have "kb_stream [0x2A, 0x10, 0xAA, 0x1E] keyboard_reset = [0x41, 0x71]"
    unfolding kb_stream_def keyboard_reset_ok(2)
    by (simp add: keyboard_reset_def kkeyboard_get_keymap_values_def scancode_tables)
  then show ?thesis
    using kkeyboard_getchar_in_order [OF keyboard_reset_ok(3), of "[0x2A, 0x10, 0xAA, 0x1E]"] by auto
qed

end
