(* ===== verification/Tty.thy ===== *)
theory Tty
  imports Kmemory Knumber
begin

text \<open>
  The text console: the VGA driver (\<^verbatim>\<open>src/drivers/video/vga.c\<close>) on the text buffer at
  \<^verbatim>\<open>0xB8000\<close>, seen at \<^verbatim>\<open>0xC00B8000\<close> after paging, and the terminal on top of it
  (\<^verbatim>\<open>src/kernel/tty\<close>). The bytes of the screen are bytes of kernel memory, so scrolling is the
  model of \<^verbatim>\<open>kmemmove\<close> and \<^verbatim>\<open>kwmemset\<close>. The terminal is shown to refine a grid of 25 lines of 80
  cells with a cursor.
\<close>

section \<open>State and ports\<close>

text \<open>\<open>crtc\<close> are the registers behind the index port \<^verbatim>\<open>0x3D4\<close> and the data port \<^verbatim>\<open>0x3D5\<close>.\<close>

record tty_state = heap_state +
  ktty_cursor_x :: u8
  ktty_cursor_y :: u8
  crtc_index :: u8
  crtc :: "u8 \<Rightarrow> u8"

definition VGA_TEXT_MODE_START_MMIO_ADDR :: u32 where
  "VGA_TEXT_MODE_START_MMIO_ADDR = 0xB8000"

definition VGA_MMIO_ADDR :: u32 where
  "VGA_MMIO_ADDR = PHYS_TO_VIRT VGA_TEXT_MODE_START_MMIO_ADDR"

definition VGA_COLUMNS_MAX :: nat where "VGA_COLUMNS_MAX = 80"

definition VGA_LINES_MAX :: nat where "VGA_LINES_MAX = 25"

definition VGA_TEXT_DEFAULT_COLOR :: u8 where "VGA_TEXT_DEFAULT_COLOR = 0x0F"

definition VGA_TEXT_MODE_CURSOR_REGISTER_ADDR :: u16 where "VGA_TEXT_MODE_CURSOR_REGISTER_ADDR = 0x3D4"

definition VGA_TEXT_MODE_CURSOR_DATA_ADDR :: u16 where "VGA_TEXT_MODE_CURSOR_DATA_ADDR = 0x3D5"

definition outb :: "u16 \<Rightarrow> u8 \<Rightarrow> 'z tty_state_scheme \<Rightarrow> 'z tty_state_scheme" where
  "outb port v s =
    (if port = VGA_TEXT_MODE_CURSOR_REGISTER_ADDR then s\<lparr>crtc_index := v\<rparr>
     else if port = VGA_TEXT_MODE_CURSOR_DATA_ADDR then s\<lparr>crtc := (crtc s)(crtc_index s := v)\<rparr>
     else s)"

definition inb_crtc :: "'z tty_state_scheme \<Rightarrow> u8" where
  "inb_crtc s = crtc s (crtc_index s)"

section \<open>VGA driver\<close>

definition vga_cell :: "u32 \<Rightarrow> nat \<Rightarrow> nat \<Rightarrow> u32" where
  "vga_cell base x y = base + word_of_nat (y * VGA_COLUMNS_MAX * 2 + x * 2)"

definition vga_store :: "u32 \<Rightarrow> nat \<Rightarrow> nat \<Rightarrow> u8 \<Rightarrow> u8 \<Rightarrow> 'z tty_state_scheme \<Rightarrow> 'z tty_state_scheme kres" where
  "vga_store base x y c color s =
    bindE (wr8 (vga_cell base x y) c s) (wr8 (vga_cell base x y + 1) color)"

definition kvga_putc_at :: "u8 \<Rightarrow> u8 \<Rightarrow> u8 \<Rightarrow> u8 \<Rightarrow> 'z tty_state_scheme \<Rightarrow> 'z tty_state_scheme kres" where
  "kvga_putc_at x y c color s =
    (if unat x \<ge> VGA_COLUMNS_MAX \<or> unat y \<ge> VGA_LINES_MAX then Inr s
     else vga_store VGA_MMIO_ADDR (unat x) (unat y) c color s)"

text \<open>The coordinates of a \<^verbatim>\<open>point8_t\<close> are signed.\<close>

definition kvga_set_cursor_position :: "u8 \<Rightarrow> u8 \<Rightarrow> 'z tty_state_scheme \<Rightarrow> 'z tty_state_scheme" where
  "kvga_set_cursor_position x y s =
    (let pos = word_of_int (sint y * int VGA_COLUMNS_MAX + sint x) :: u16;
         s = outb VGA_TEXT_MODE_CURSOR_REGISTER_ADDR 0x0E s;
         s = outb VGA_TEXT_MODE_CURSOR_DATA_ADDR (ucast (drop_bit 8 (pos AND 0xFF00))) s;
         s = outb VGA_TEXT_MODE_CURSOR_REGISTER_ADDR 0x0F s
     in outb VGA_TEXT_MODE_CURSOR_DATA_ADDR (ucast (pos AND 0x00FF)) s)"

definition kvga_hide_cursor :: "'z tty_state_scheme \<Rightarrow> 'z tty_state_scheme" where
  "kvga_hide_cursor s =
    outb VGA_TEXT_MODE_CURSOR_DATA_ADDR 0x20 (outb VGA_TEXT_MODE_CURSOR_REGISTER_ADDR 0x0A s)"

definition kvga_show_cursor :: "'z tty_state_scheme \<Rightarrow> 'z tty_state_scheme" where
  "kvga_show_cursor s =
    (let s = outb VGA_TEXT_MODE_CURSOR_REGISTER_ADDR 0x0A s;
         s = outb VGA_TEXT_MODE_CURSOR_DATA_ADDR ((inb_crtc s AND 0xC0) OR 0) s;
         s = outb VGA_TEXT_MODE_CURSOR_REGISTER_ADDR 0x0B s
     in outb VGA_TEXT_MODE_CURSOR_DATA_ADDR ((inb_crtc s AND 0xE0) OR 15) s)"

definition kvga_scroll_line :: "'z tty_state_scheme \<Rightarrow> 'z tty_state_scheme kres" where
  "kvga_scroll_line s =
    (let vm = VGA_MMIO_ADDR + word_of_nat (VGA_LINES_MAX * VGA_COLUMNS_MAX * 2) - word_of_nat (VGA_COLUMNS_MAX * 2) in
     bindE (kmemmove VGA_MMIO_ADDR (VGA_MMIO_ADDR + word_of_nat (VGA_COLUMNS_MAX * 2))
       (word_of_nat (VGA_COLUMNS_MAX * VGA_LINES_MAX * 2 - VGA_COLUMNS_MAX * 2)) s) (\<lambda>(_, s).
     bindE (kwmemset vm (push_bit 8 (ucast VGA_TEXT_DEFAULT_COLOR) OR 0x20) (word_of_nat VGA_COLUMNS_MAX) s) (\<lambda>(_, s).
     Inr s)))"

text \<open>The character is a signed \<^verbatim>\<open>char\<close>, widened with its sign before the \<^verbatim>\<open>|\<close>.\<close>

definition kvga_fill :: "u8 \<Rightarrow> u8 \<Rightarrow> 'z tty_state_scheme \<Rightarrow> 'z tty_state_scheme kres" where
  "kvga_fill c color s =
    bindE (kwmemset VGA_MMIO_ADDR (push_bit 8 (ucast color) OR scast c)
      (word_of_nat (VGA_COLUMNS_MAX * VGA_LINES_MAX)) s) (\<lambda>(_, s).
    Inr s)"

text \<open>The variants used before paging is on write to the physical address; they do not go through
  \<^verbatim>\<open>kmemset\<close>.\<close>

definition kvga_phys_putc_at :: "u8 \<Rightarrow> u8 \<Rightarrow> u8 \<Rightarrow> u8 \<Rightarrow> 'z tty_state_scheme \<Rightarrow> 'z tty_state_scheme kres" where
  "kvga_phys_putc_at x y c color s =
    (if unat x \<ge> VGA_COLUMNS_MAX \<or> unat y \<ge> VGA_LINES_MAX then Inr s
     else vga_store VGA_TEXT_MODE_START_MMIO_ADDR (unat x) (unat y) c color s)"

fun phys_puts_loop :: "nat \<Rightarrow> nat \<Rightarrow> u8 list \<Rightarrow> u8 \<Rightarrow> 'z tty_state_scheme \<Rightarrow> 'z tty_state_scheme kres" where
  "phys_puts_loop x y [] color s = Inr s"
| "phys_puts_loop x y (c # cs) color s =
    (if x \<ge> VGA_COLUMNS_MAX then Inr s
     else bindE (vga_store VGA_TEXT_MODE_START_MMIO_ADDR x y c color s) (phys_puts_loop (x + 1) y cs color))"

definition kvga_phys_puts_at :: "u8 \<Rightarrow> u8 \<Rightarrow> u8 list option \<Rightarrow> u8 \<Rightarrow> 'z tty_state_scheme \<Rightarrow> 'z tty_state_scheme kres" where
  "kvga_phys_puts_at x y str color s =
    (case str of None \<Rightarrow> Inr s | Some cs \<Rightarrow> phys_puts_loop (unat x) (unat y) cs color s)"

fun phys_fill_loop :: "nat \<Rightarrow> nat \<Rightarrow> u8 \<Rightarrow> u8 \<Rightarrow> 'z tty_state_scheme \<Rightarrow> 'z tty_state_scheme kres" where
  "phys_fill_loop 0 i c color s = Inr s"
| "phys_fill_loop (Suc n) i c color s =
    bindE (vga_store VGA_TEXT_MODE_START_MMIO_ADDR i 0 c color s) (phys_fill_loop n (i + 1) c color)"

definition kvga_phys_fill :: "u8 \<Rightarrow> u8 \<Rightarrow> 'z tty_state_scheme \<Rightarrow> 'z tty_state_scheme kres" where
  "kvga_phys_fill c color s = phys_fill_loop (VGA_COLUMNS_MAX * VGA_LINES_MAX) 0 c color s"

section \<open>Terminal\<close>

definition ktty_putc_at :: "u8 \<Rightarrow> u8 \<Rightarrow> u8 \<Rightarrow> u8 \<Rightarrow> 'z tty_state_scheme \<Rightarrow> 'z tty_state_scheme kres" where
  "ktty_putc_at x y c color s = kvga_putc_at x y c color s"

definition ktty_cursor_set :: "u8 \<Rightarrow> u8 \<Rightarrow> 'z tty_state_scheme \<Rightarrow> 'z tty_state_scheme" where
  "ktty_cursor_set x y s =
    (let s = s\<lparr>ktty_cursor_x := x, ktty_cursor_y := y\<rparr>
     in kvga_set_cursor_position (ktty_cursor_x s) (ktty_cursor_y s) s)"

definition ktty_cursor_get_copy :: "'z tty_state_scheme \<Rightarrow> u8 \<times> u8" where
  "ktty_cursor_get_copy s = (ktty_cursor_x s, ktty_cursor_y s)"

definition ktty_cursor_add :: "int \<Rightarrow> int \<Rightarrow> 'z tty_state_scheme \<Rightarrow> 'z tty_state_scheme" where
  "ktty_cursor_add x y s =
    (let real_x = sint (ktty_cursor_x s) + x;
         real_y = sint (ktty_cursor_y s) + y
     in if real_x \<ge> int VGA_COLUMNS_MAX
        then ktty_cursor_set (word_of_int (real_x mod int VGA_COLUMNS_MAX))
               (word_of_int (real_y + real_x div int VGA_COLUMNS_MAX)) s
        else ktty_cursor_set (word_of_int real_x) (word_of_int real_y) s)"

definition ktty_cursor_set_visibility :: "u32 \<Rightarrow> 'z tty_state_scheme \<Rightarrow> 'z tty_state_scheme" where
  "ktty_cursor_set_visibility visible s =
    (if visible = 1 then kvga_show_cursor s else if visible = 0 then kvga_hide_cursor s else s)"

definition ktty_putc :: "u8 \<Rightarrow> u8 \<Rightarrow> 'z tty_state_scheme \<Rightarrow> 'z tty_state_scheme kres" where
  "ktty_putc c color s =
    (if c = 0x08 then
       let s = (if sint (ktty_cursor_x s) > 0 then ktty_cursor_add (- 1) 0 s
                else if sint (ktty_cursor_y s) > 0
                then ktty_cursor_set (word_of_nat (VGA_COLUMNS_MAX - 1)) (ktty_cursor_y s - 1) s
                else s)
       in kvga_putc_at (ktty_cursor_x s) (ktty_cursor_y s) 0x20 VGA_TEXT_DEFAULT_COLOR s
     else if c = 0x0A then
       if sint (ktty_cursor_y s) \<ge> int VGA_LINES_MAX - 1 then
         bindE (kvga_scroll_line s) (\<lambda>s.
         Inr (ktty_cursor_set 0 (word_of_nat (VGA_LINES_MAX - 1)) s))
       else Inr (ktty_cursor_set 0 (ktty_cursor_y s + 1) s)
     else if sint (ktty_cursor_y s) \<ge> int VGA_LINES_MAX - 1 \<and> sint (ktty_cursor_x s) = int VGA_COLUMNS_MAX - 1 then
       bindE (ktty_putc_at (ktty_cursor_x s) (ktty_cursor_y s) c color s) (\<lambda>s.
       bindE (kvga_scroll_line s) (\<lambda>s.
       Inr (ktty_cursor_set 0 (word_of_nat (VGA_LINES_MAX - 1)) s)))
     else
       bindE (ktty_putc_at (ktty_cursor_x s) (ktty_cursor_y s) c color s) (\<lambda>s.
       Inr (ktty_cursor_add 1 0 s)))"

text \<open>The coordinates of \<^verbatim>\<open>ktty_puts_at\<close> are bytes and wrap around.\<close>

fun puts_at_loop :: "u8 \<Rightarrow> u8 \<Rightarrow> u8 list \<Rightarrow> u8 \<Rightarrow> 'z tty_state_scheme \<Rightarrow> 'z tty_state_scheme kres" where
  "puts_at_loop x y [] color s = Inr s"
| "puts_at_loop x y (c # cs) color s =
    bindE (ktty_putc_at x y c color s) (\<lambda>s.
    let x = x + 1 in
    if unat x \<ge> VGA_COLUMNS_MAX then puts_at_loop 0 (y + 1) cs color s else puts_at_loop x y cs color s)"

definition ktty_puts_at :: "u8 \<Rightarrow> u8 \<Rightarrow> u8 list option \<Rightarrow> u8 \<Rightarrow> 'z tty_state_scheme \<Rightarrow> 'z tty_state_scheme kres" where
  "ktty_puts_at x y str color s =
    (case str of None \<Rightarrow> Inr s | Some cs \<Rightarrow> puts_at_loop x y cs color s)"

fun puts_loop :: "u8 list \<Rightarrow> u8 \<Rightarrow> 'z tty_state_scheme \<Rightarrow> 'z tty_state_scheme kres" where
  "puts_loop [] color s = Inr s"
| "puts_loop (c # cs) color s = bindE (ktty_putc c color s) (puts_loop cs color)"

definition ktty_puts :: "u8 list option \<Rightarrow> u8 \<Rightarrow> 'z tty_state_scheme \<Rightarrow> 'z tty_state_scheme kres" where
  "ktty_puts str color s = (case str of None \<Rightarrow> Inr s | Some cs \<Rightarrow> puts_loop cs color s)"

definition ktty_fill :: "u8 \<Rightarrow> u8 \<Rightarrow> 'z tty_state_scheme \<Rightarrow> 'z tty_state_scheme kres" where
  "ktty_fill c color s = kvga_fill c color s"

text \<open>\<^verbatim>\<open>ktty_put_number\<close>: the first loop finds the divisor of the highest digit, the second prints.\<close>

function number_divisor :: "int \<Rightarrow> u32 \<Rightarrow> u32" where
  "number_divisor divisor_temp divisor =
    (if divisor_temp \<ge> 10 then number_divisor (divisor_temp div 10) (divisor * 10) else divisor)"
  by auto
termination by (relation "measure (\<lambda>(t, d). nat t)") auto

function number_digits :: "u32 \<Rightarrow> u32 \<Rightarrow> u8 \<Rightarrow> 'z tty_state_scheme \<Rightarrow> 'z tty_state_scheme kres" where
  "number_digits number divisor color s =
    (if divisor > 0 then
       bindE (ktty_putc (ucast ((number div divisor) mod 10) + 0x30) color s)
         (number_digits number (divisor div 10) color)
     else Inr s)"
  by auto
termination
  by (relation "measure (\<lambda>(n, d, c, s). unat d)") (auto simp: unat_div word_less_nat_alt)

declare number_divisor.simps [simp del] number_digits.simps [simp del]

definition ktty_put_number :: "u32 \<Rightarrow> u8 \<Rightarrow> 'z tty_state_scheme \<Rightarrow> 'z tty_state_scheme kres" where
  "ktty_put_number number color s =
    bindE (if sint number < 0
           then bindE (ktty_putc 0x2D color s) (\<lambda>s. Inr (- number, s))
           else Inr (number, s)) (\<lambda>(number, s).
    number_digits number (number_divisor (sint number) 1) color s)"


section \<open>A terminal\<close>

text \<open>A grid of 25 lines of 80 cells (character and colour), the cursor's column and its line.\<close>

type_synonym grid = "nat \<Rightarrow> nat \<Rightarrow> u8 \<times> u8"

definition in_grid :: "nat \<Rightarrow> nat \<Rightarrow> bool" where
  "in_grid x y \<longleftrightarrow> x < 80 \<and> y < 25"

definition grid_scroll :: "grid \<Rightarrow> grid" where
  "grid_scroll g y x =
    (if \<not> in_grid x y then (0, 0) else if y < 24 then g (Suc y) x else (0x20, VGA_TEXT_DEFAULT_COLOR))"

definition grid_put :: "nat \<Rightarrow> nat \<Rightarrow> u8 \<times> u8 \<Rightarrow> grid \<Rightarrow> grid" where
  "grid_put x y v g = g(y := (g y)(x := v))"

fun term_newline :: "grid \<times> nat \<times> nat \<Rightarrow> grid \<times> nat \<times> nat" where
  "term_newline (g, x, y) = (if y = 24 then (grid_scroll g, 0, 24) else (g, 0, Suc y))"

fun term_back :: "nat \<times> nat \<Rightarrow> nat \<times> nat" where
  "term_back (x, y) = (if x > 0 then (x - 1, y) else if y > 0 then (79, y - 1) else (x, y))"

fun term_putc :: "u8 \<Rightarrow> u8 \<Rightarrow> grid \<times> nat \<times> nat \<Rightarrow> grid \<times> nat \<times> nat" where
  "term_putc color c (g, x, y) =
    (if c = 0x08 then
       let (x, y) = term_back (x, y) in (grid_put x y (0x20, VGA_TEXT_DEFAULT_COLOR) g, x, y)
     else if c = 0x0A then term_newline (g, x, y)
     else
       let g = grid_put x y (c, color) g in
       if x = 79 then term_newline (g, x, y) else (g, Suc x, y))"

definition term_of :: "'z tty_state_scheme \<Rightarrow> grid \<times> nat \<times> nat" where
  "term_of s =
    (\<lambda>y x. if in_grid x y then (mem s (vga_cell VGA_MMIO_ADDR x y), mem s (vga_cell VGA_MMIO_ADDR x y + 1)) else (0, 0),
     unat (ktty_cursor_x s), unat (ktty_cursor_y s))"

definition tty_inv :: "'z tty_state_scheme \<Rightarrow> bool" where
  "tty_inv s \<longleftrightarrow> plain s VGA_MMIO_ADDR 4000 \<and> in_grid (unat (ktty_cursor_x s)) (unat (ktty_cursor_y s))"

text \<open>The terminal changes only the screen, its cursor and the cursor registers.\<close>

definition tty_erase :: "'z tty_state_scheme \<Rightarrow> 'z tty_state_scheme" where
  "tty_erase s = s\<lparr>mem := (\<lambda>_. 0), ktty_cursor_x := 0, ktty_cursor_y := 0, crtc_index := 0, crtc := (\<lambda>_. 0)\<rparr>"

definition tty_frame :: "'z tty_state_scheme \<Rightarrow> 'z tty_state_scheme \<Rightarrow> bool" where
  "tty_frame s s' \<longleftrightarrow> tty_erase s' = tty_erase s \<and>
    (\<forall>a. unat a < unat VGA_MMIO_ADDR \<or> unat VGA_MMIO_ADDR + 4000 \<le> unat a \<longrightarrow> mem s' a = mem s a)"

lemmas vga_consts = VGA_COLUMNS_MAX_def VGA_LINES_MAX_def

lemma vga_base: "unat VGA_MMIO_ADDR = 0xC00B8000" "VGA_MMIO_ADDR \<noteq> 0" "VGA_MMIO_ADDR = 0xC00B8000"
  by (simp_all add: VGA_MMIO_ADDR_def PHYS_TO_VIRT_def VGA_TEXT_MODE_START_MMIO_ADDR_def KERNEL_VIRTUAL_BASE_def)

lemma unat_vga_cell:
  assumes "in_grid x y"
  shows "unat (vga_cell VGA_MMIO_ADDR x y) = 0xC00B8000 + (160 * y + 2 * x)"
    and "unat (vga_cell VGA_MMIO_ADDR x y + 1) = 0xC00B8000 + (160 * y + 2 * x) + 1"
proof -
  define i where "i = 160 * y + 2 * x"
  have i: "i + 1 < 4000" using assms by (auto simp: in_grid_def i_def)
  have c: "vga_cell VGA_MMIO_ADDR x y = VGA_MMIO_ADDR + word_of_nat i"
    "vga_cell VGA_MMIO_ADDR x y + 1 = VGA_MMIO_ADDR + word_of_nat (i + 1)"
    by (simp_all add: vga_cell_def vga_consts i_def algebra_simps)
  show "unat (vga_cell VGA_MMIO_ADDR x y) = 0xC00B8000 + (160 * y + 2 * x)"
    unfolding c(1) using i by (subst unat_offset) (simp_all add: vga_base(1) i_def)
  show "unat (vga_cell VGA_MMIO_ADDR x y + 1) = 0xC00B8000 + (160 * y + 2 * x) + 1"
    unfolding c(2) using i by (subst unat_offset) (simp_all add: vga_base(1) i_def)
qed

lemma cell_index:
  fixes x y x' y' :: nat
  assumes "x < 80" "x' < 80"
  shows "160 * y + 2 * x = 160 * y' + 2 * x' \<longleftrightarrow> x = x' \<and> y = y'"
proof
  assume "160 * y + 2 * x = 160 * y' + 2 * x'"
  then have eq: "x + 80 * y = x' + 80 * y'" by simp
  have "x = (x + 80 * y) mod 80" "x' = (x' + 80 * y') mod 80" using assms by simp_all
  then have "x = x'" using eq by simp
  then show "x = x' \<and> y = y'" using eq by simp
qed simp

lemma cell_parity: "b + (160 * y + 2 * x) \<noteq> b + (160 * y' + 2 * x') + (1::nat)"
proof
  assume "b + (160 * y + 2 * x) = b + (160 * y' + 2 * x') + 1"
  then have "160 * y + 2 * x = 160 * y' + 2 * x' + 1" by simp
  then have "even (160 * y' + 2 * x' + 1)" by (metis dvd_add dvd_mult2 dvd_triv_left even_numeral)
  then show False by simp
qed

lemma vga_store_plain:
  assumes "plain s VGA_MMIO_ADDR 4000" "in_grid x y"
  shows "vga_store VGA_MMIO_ADDR x y c color s = Inr (s\<lparr>mem := (mem s)
    (vga_cell VGA_MMIO_ADDR x y := c, vga_cell VGA_MMIO_ADDR x y + 1 := color)\<rparr>)"
proof -
  note u = unat_vga_cell [OF assms(2)]
  have r: "160 * y + 2 * x + 1 < 4000" using assms(2) by (auto simp: in_grid_def)
  have "mmu_translate s (vga_cell VGA_MMIO_ADDR x y) \<noteq> None" "header_at s (vga_cell VGA_MMIO_ADDR x y) = None"
    "mmu_translate s (vga_cell VGA_MMIO_ADDR x y + 1) \<noteq> None" "header_at s (vga_cell VGA_MMIO_ADDR x y + 1) = None"
    using assms(1) u r unfolding plain_def vga_base(1) by auto
  then show ?thesis by (simp add: vga_store_def wr8_def mem_simps)
qed

lemma term_of_put:
  assumes "in_grid x y"
  shows "term_of (s\<lparr>mem := (mem s)(vga_cell VGA_MMIO_ADDR x y := c, vga_cell VGA_MMIO_ADDR x y + 1 := color)\<rparr>) =
    (grid_put x y (c, color) (fst (term_of s)), snd (term_of s))"
proof -
  let ?m = "(mem s)(vga_cell VGA_MMIO_ADDR x y := c, vga_cell VGA_MMIO_ADDR x y + 1 := color)"
  have "(?m (vga_cell VGA_MMIO_ADDR x' y'), ?m (vga_cell VGA_MMIO_ADDR x' y' + 1)) =
      (if x' = x \<and> y' = y then (c, color)
       else (mem s (vga_cell VGA_MMIO_ADDR x' y'), mem s (vga_cell VGA_MMIO_ADDR x' y' + 1)))"
    if "in_grid x' y'" for x' y'
  proof -
    note u = unat_vga_cell [OF assms] unat_vga_cell [OF that]
    have "vga_cell VGA_MMIO_ADDR x' y' = vga_cell VGA_MMIO_ADDR x y \<longleftrightarrow> x' = x \<and> y' = y"
      "vga_cell VGA_MMIO_ADDR x' y' + 1 = vga_cell VGA_MMIO_ADDR x y + 1 \<longleftrightarrow> x' = x \<and> y' = y"
      using assms that cell_index [of x' x y' y] unfolding word_unat_eq_iff u by (auto simp: in_grid_def)
    moreover have "vga_cell VGA_MMIO_ADDR x' y' \<noteq> vga_cell VGA_MMIO_ADDR x y + 1"
      "vga_cell VGA_MMIO_ADDR x' y' + 1 \<noteq> vga_cell VGA_MMIO_ADDR x y"
      unfolding word_unat_eq_iff u
      using cell_parity [of "0xC00B8000" y' x' y x] cell_parity [of "0xC00B8000" y x y' x'] by metis+
    ultimately show ?thesis by auto
  qed
  then show ?thesis
    using assms by (auto simp: term_of_def grid_put_def fun_eq_iff)
qed

lemma tty_frame_refl: "tty_frame s s"
  by (simp add: tty_frame_def)

lemma tty_frame_trans: "tty_frame s s' \<Longrightarrow> tty_frame s' s'' \<Longrightarrow> tty_frame s s''"
  by (simp add: tty_frame_def)

lemma plain_frame:
  assumes "tty_frame s s'"
  shows "plain s' a n = plain s a n"
proof -
  have eq: "tty_erase s' = tty_erase s" using assms by (simp add: tty_frame_def)
  have "plain (tty_erase s) a n = plain s a n" for s :: "'a tty_state_scheme"
    by (simp add: tty_erase_def plain_def header_at_None_iff mmu_translate_def pte_of_def pde_of_def)
  then show ?thesis using eq by metis
qed

lemma frame_put:
  assumes "in_grid x y"
  shows "tty_frame s (s\<lparr>mem := (mem s)(vga_cell VGA_MMIO_ADDR x y := c, vga_cell VGA_MMIO_ADDR x y + 1 := color)\<rparr>)"
proof -
  note u = unat_vga_cell [OF assms]
  have "160 * y + 2 * x + 1 < 4000" using assms by (auto simp: in_grid_def)
  then show ?thesis using u by (auto simp: tty_frame_def tty_erase_def vga_base(1))
qed

lemma kvga_putc_at_grid:
  assumes "plain s VGA_MMIO_ADDR 4000" "in_grid (unat x) (unat y)"
  shows "\<exists>s'. kvga_putc_at x y c color s = Inr s' \<and> tty_frame s s' \<and>
    term_of s' = (grid_put (unat x) (unat y) (c, color) (fst (term_of s)), snd (term_of s)) \<and>
    ktty_cursor_x s' = ktty_cursor_x s \<and> ktty_cursor_y s' = ktty_cursor_y s \<and> crtc s' = crtc s"
  using assms(2) unfolding kvga_putc_at_def
  by (simp add: vga_store_plain [OF assms] term_of_put [OF assms(2)] frame_put [OF assms(2)])
    (simp add: in_grid_def vga_consts)

lemma plain_sub:
  assumes "plain s a n" "i + m \<le> n" "unat a + n < 2 ^ 32"
  shows "plain s (a + word_of_nat i) m"
proof -
  have "unat (a + word_of_nat i) = unat a + i" using assms(2,3) by (intro unat_offset) simp
  then show ?thesis using assms unfolding plain_def by auto
qed

lemma kvga_scroll_line_grid:
  assumes "plain s VGA_MMIO_ADDR 4000"
  shows "\<exists>s'. kvga_scroll_line s = Inr s' \<and> tty_frame s s' \<and>
    term_of s' = (grid_scroll (fst (term_of s)), snd (term_of s)) \<and>
    ktty_cursor_x s' = ktty_cursor_x s \<and> ktty_cursor_y s' = ktty_cursor_y s \<and> crtc s' = crtc s"
proof -
  let ?V = VGA_MMIO_ADDR and ?w = "push_bit 8 (ucast VGA_TEXT_DEFAULT_COLOR) OR 0x20 :: u16"
  define m1 where "m1 = moved (mem s) ?V (?V + 160) 0 3840"
  define m2 where "m2 = wfilled m1 (?V + 3840) ?w 80"
  have sub: "plain s ?V 3840" "plain s (?V + 160) 3840" "plain s (?V + 3840) 160"
    using plain_sub [OF assms, of 0 3840] plain_sub [OF assms, of 160 3840] plain_sub [OF assms, of 3840 160]
    by (simp_all add: vga_base(1))
  have "kmemmove ?V (?V + 160) 3840 s = Inr (?V, s\<lparr>mem := m1\<rparr>)"
    unfolding m1_def using kmemmove_plain [of s ?V 3840 "?V + 160"] sub vga_base(2) by (simp add: vga_base(3))
  moreover have "kwmemset (?V + 3840) ?w 80 (s\<lparr>mem := m1\<rparr>) = Inr (?V + 3840, s\<lparr>mem := m2\<rparr>)"
    unfolding m2_def using kwmemset_plain [of "s\<lparr>mem := m1\<rparr>" "?V + 3840" 80 ?w] sub(3)
    by (simp add: mem_simps vga_base(3))
  ultimately have run: "kvga_scroll_line s = Inr (s\<lparr>mem := m2\<rparr>)"
    by (simp add: kvga_scroll_line_def vga_consts Let_def add.commute [of 3840])
  have w: "ucast ?w = (0x20 :: u8)" "ucast (drop_bit 8 ?w) = (0x0F :: u8)"
    by (simp_all add: VGA_TEXT_DEFAULT_COLOR_def)
  have V: "unat ?V = 0xC00B8000" "unat (?V + 3840) = 0xC00B8000 + 3840" by (simp_all add: vga_base)
  have "(m2 (vga_cell ?V x y), m2 (vga_cell ?V x y + 1)) =
      (if y < 24 then (mem s (vga_cell ?V x (Suc y)), mem s (vga_cell ?V x (Suc y) + 1)) else (0x20, 0x0F))"
    if "in_grid x y" for x y
  proof -
    note u = unat_vga_cell [OF that]
    have shift: "?V + 160 + (vga_cell ?V x y - ?V) = vga_cell ?V x (Suc y)"
      "?V + 160 + (vga_cell ?V x y + 1 - ?V) = vga_cell ?V x (Suc y) + 1"
      by (simp_all add: vga_cell_def vga_consts algebra_simps)
    show ?thesis
    proof (cases "y < 24")
      case True
      then have "160 * y + 2 * x + 1 < 3840" using that by (auto simp: in_grid_def)
      then show ?thesis
        using True u unfolding m2_def m1_def by (simp add: wfilled_def moved_def V shift)
    next
      case False
      then have y: "y = 24" "x < 80" using that by (auto simp: in_grid_def)
      then show ?thesis
        using u unfolding m2_def by (simp add: wfilled_def V w [simplified] VGA_TEXT_DEFAULT_COLOR_def)
    qed
  qed
  then have "term_of (s\<lparr>mem := m2\<rparr>) = (grid_scroll (fst (term_of s)), snd (term_of s))"
    by (auto simp: term_of_def grid_scroll_def fun_eq_iff VGA_TEXT_DEFAULT_COLOR_def in_grid_def)
  moreover have "tty_frame s (s\<lparr>mem := m2\<rparr>)"
    by (auto simp: tty_frame_def tty_erase_def m2_def m1_def wfilled_def moved_def V)
  ultimately show ?thesis using run by auto
qed

text \<open>The cursor the hardware shows.\<close>

definition hw_sync :: "'z tty_state_scheme \<Rightarrow> bool" where
  "hw_sync s \<longleftrightarrow> unat (crtc s 0x0E) * 256 + unat (crtc s 0x0F) = 80 * unat (ktty_cursor_y s) + unat (ktty_cursor_x s)"

lemma cursor_bytes:
  fixes w :: u16
  shows "unat (ucast (drop_bit 8 (w AND 0xFF00)) :: u8) = unat w div 256"
    and "unat (ucast (w AND 0x00FF) :: u8) = unat w mod 256"
proof -
  have hi: "(0xFF00 :: u16) = NOT (mask 8)" by (simp add: mask_eq_exp_minus_1)
  have "unat (drop_bit 8 (w AND 0xFF00)) = unat w div 256"
    unfolding hi unat_drop_bit_eq unat_and_not_mask by (simp add: drop_bit_eq_div)
  moreover have "unat w div 256 < 256"
    using unsigned_less [of w, where 'a = nat] by (simp add: less_mult_imp_div_less)
  ultimately show "unat (ucast (drop_bit 8 (w AND 0xFF00)) :: u8) = unat w div 256"
    by (simp add: unsigned_ucast_eq take_bit_nat_eq_self)
  have "w AND 0x00FF = take_bit 8 w" by (simp add: take_bit_eq_mask mask_eq_exp_minus_1)
  then show "unat (ucast (w AND 0x00FF) :: u8) = unat w mod 256"
    by (simp add: unsigned_ucast_eq unsigned_take_bit_eq) (simp add: take_bit_eq_mod)
qed

lemma ktty_cursor_set_grid:
  assumes "in_grid (unat x) (unat y)"
  shows "tty_frame s (ktty_cursor_set x y s)" "term_of (ktty_cursor_set x y s) = (fst (term_of s), unat x, unat y)"
    "hw_sync (ktty_cursor_set x y s)"
proof -
  let ?s' = "ktty_cursor_set x y s"
  have s': "mem ?s' = mem s" "ktty_cursor_x ?s' = x" "ktty_cursor_y ?s' = y" "tty_erase ?s' = tty_erase s"
    by (simp_all add: ktty_cursor_set_def kvga_set_cursor_position_def outb_def Let_def tty_erase_def)
  then show "tty_frame s ?s'" by (simp add: tty_frame_def)
  show "term_of ?s' = (fst (term_of s), unat x, unat y)" unfolding term_of_def s' by simp
  define n where "n = 80 * unat y + unat x"
  have n: "n < 2000" using assms by (auto simp: n_def in_grid_def)
  have "sint y * 80 + sint x = int n"
    using assms sint_small [of x] sint_small [of y] by (simp add: in_grid_def n_def)
  then have pos: "word_of_int (sint y * 80 + sint x) = (word_of_nat n :: u16)" by (simp only: of_int_of_nat_eq)
  have "crtc ?s' 0x0E = ucast (drop_bit 8 (word_of_nat n AND 0xFF00 :: u16))"
    "crtc ?s' 0x0F = ucast (word_of_nat n AND 0x00FF :: u16)"
    by (simp_all add: ktty_cursor_set_def kvga_set_cursor_position_def outb_def Let_def vga_consts pos
        VGA_TEXT_MODE_CURSOR_REGISTER_ADDR_def VGA_TEXT_MODE_CURSOR_DATA_ADDR_def del: of_int_add of_int_mult)
  moreover have "unat (ucast (drop_bit 8 (word_of_nat n AND 0xFF00 :: u16)) :: u8) = n div 256"
    "unat (ucast (word_of_nat n AND 0x00FF :: u16) :: u8) = n mod 256"
    unfolding cursor_bytes using n by (simp_all add: unat_of_nat)
  ultimately show "hw_sync ?s'"
    using s' by (simp add: hw_sync_def n_def)
qed

lemma sint_byte: "unat w < 128 \<Longrightarrow> sint w = int (unat w)" for w :: u8
  by (rule sint_small) simp

lemma byte_cmp:
  fixes w :: u8
  assumes "unat w < 128"
  shows "int n \<le> sint w \<longleftrightarrow> n \<le> unat w" "sint w = int n \<longleftrightarrow> unat w = n" "0 < sint w \<longleftrightarrow> 0 < unat w"
  unfolding sint_byte [OF assms] by (simp_all only: of_nat_le_iff of_nat_eq_iff of_nat_0_less_iff)

lemma unat_byte: "n < 256 \<Longrightarrow> unat (word_of_nat n :: u8) = n"
  by (simp add: unat_of_nat)

text \<open>One character, by the three cases of the code.\<close>

lemma ktty_newline_grid:
  assumes "tty_inv s"
  defines "r \<equiv> (if sint (ktty_cursor_y s) \<ge> int VGA_LINES_MAX - 1
    then bindE (kvga_scroll_line s) (\<lambda>s. Inr (ktty_cursor_set 0 (word_of_nat (VGA_LINES_MAX - 1)) s))
    else Inr (ktty_cursor_set 0 (ktty_cursor_y s + 1) s))"
  shows "\<exists>s'. r = Inr s' \<and> tty_inv s' \<and> tty_frame s s' \<and> hw_sync s' \<and> term_of s' = term_newline (term_of s)"
proof -
  let ?y = "unat (ktty_cursor_y s)"
  have p: "plain s VGA_MMIO_ADDR 4000" and y: "?y < 25" using assms(1) by (auto simp: tty_inv_def in_grid_def)
  have last: "sint (ktty_cursor_y s) \<ge> int VGA_LINES_MAX - 1 \<longleftrightarrow> ?y = 24"
    using y byte_cmp(1) [of "ktty_cursor_y s" 24] by (auto simp: vga_consts)
  have T: "term_of s = (fst (term_of s), unat (ktty_cursor_x s), ?y)" by (simp add: term_of_def)
  have fin: "\<exists>s'. Inr (ktty_cursor_set 0 v t) = Inr s' \<and> tty_inv s' \<and> tty_frame s s' \<and> hw_sync s' \<and>
      term_of s' = (fst (term_of t), 0, unat v)" if "tty_frame s t" "unat v < 25" for t v
  proof -
    have g: "in_grid (unat (0 :: u8)) (unat v)" using that(2) by (simp add: in_grid_def)
    note c = ktty_cursor_set_grid [OF g, of t]
    have f: "tty_frame s (ktty_cursor_set 0 v t)" using tty_frame_trans [OF that(1) c(1)] .
    moreover have "tty_inv (ktty_cursor_set 0 v t)"
      using p plain_frame [OF f] g c(2) by (auto simp: tty_inv_def term_of_def)
    ultimately show ?thesis using c by auto
  qed
  show ?thesis
  proof (cases "?y = 24")
    case True
    obtain t where t: "kvga_scroll_line s = Inr t" "tty_frame s t"
      "term_of t = (grid_scroll (fst (term_of s)), snd (term_of s))"
      using kvga_scroll_line_grid [OF p] by blast
    then show ?thesis
      using fin [OF t(2), of 24] True unfolding r_def last by (subst T) (simp add: vga_consts)
  next
    case False
    then have "unat (ktty_cursor_y s + 1) = Suc ?y" using y by (simp add: unat_word_ariths)
    then show ?thesis
      using fin [OF tty_frame_refl, of "ktty_cursor_y s + 1"] False y unfolding r_def last by (subst T) simp
  qed
qed

lemma ktty_cursor_add_one:
  assumes "unat (ktty_cursor_x s) < 80"
  shows "ktty_cursor_add 1 0 s =
    (if unat (ktty_cursor_x s) = 79 then ktty_cursor_set 0 (ktty_cursor_y s + 1) s
     else ktty_cursor_set (ktty_cursor_x s + 1) (ktty_cursor_y s) s)"
    and "ktty_cursor_add (- 1) 0 s = ktty_cursor_set (ktty_cursor_x s - 1) (ktty_cursor_y s) s"
proof -
  have x: "sint (ktty_cursor_x s) = int (unat (ktty_cursor_x s))" using assms by (intro sint_byte) simp
  show "ktty_cursor_add 1 0 s =
    (if unat (ktty_cursor_x s) = 79 then ktty_cursor_set 0 (ktty_cursor_y s + 1) s
     else ktty_cursor_set (ktty_cursor_x s + 1) (ktty_cursor_y s) s)"
  proof (cases "unat (ktty_cursor_x s) = 79")
    case True
    have "sint (ktty_cursor_x s) = 79" unfolding x True by simp
    then show ?thesis using True by (simp add: ktty_cursor_add_def vga_consts)
  next
    case False
    then have "\<not> sint (ktty_cursor_x s) + 1 \<ge> 80" using assms x by linarith
    then show ?thesis using False by (simp add: ktty_cursor_add_def vga_consts)
  qed
  have "\<not> sint (ktty_cursor_x s) - 1 \<ge> 80" using assms x by linarith
  then show "ktty_cursor_add (- 1) 0 s = ktty_cursor_set (ktty_cursor_x s - 1) (ktty_cursor_y s) s"
    by (simp add: ktty_cursor_add_def vga_consts)
qed

lemma tty_inv_frame:
  assumes "tty_frame s s'" "plain s VGA_MMIO_ADDR 4000" "in_grid (unat (ktty_cursor_x s')) (unat (ktty_cursor_y s'))"
  shows "tty_inv s'"
  using assms plain_frame [OF assms(1)] by (simp add: tty_inv_def)

lemma ktty_back_grid:
  assumes "tty_inv s" "hw_sync s"
  defines "t \<equiv> (if sint (ktty_cursor_x s) > 0 then ktty_cursor_add (- 1) 0 s
     else if sint (ktty_cursor_y s) > 0 then ktty_cursor_set (word_of_nat (VGA_COLUMNS_MAX - 1)) (ktty_cursor_y s - 1) s
     else s)"
  shows "tty_frame s t \<and> tty_inv t \<and> hw_sync t \<and> term_of t = (fst (term_of s), term_back (snd (term_of s)))"
proof -
  have p: "plain s VGA_MMIO_ADDR 4000" and g: "unat (ktty_cursor_x s) < 80" "unat (ktty_cursor_y s) < 25"
    using assms(1) by (auto simp: tty_inv_def in_grid_def)
  have pos: "sint (ktty_cursor_x s) > 0 \<longleftrightarrow> unat (ktty_cursor_x s) > 0" "sint (ktty_cursor_y s) > 0 \<longleftrightarrow> unat (ktty_cursor_y s) > 0"
    using g by (intro byte_cmp(3); simp)+
  have T: "snd (term_of s) = (unat (ktty_cursor_x s), unat (ktty_cursor_y s))" by (simp add: term_of_def)
  have fin: "tty_frame s (ktty_cursor_set x y s) \<and> tty_inv (ktty_cursor_set x y s) \<and> hw_sync (ktty_cursor_set x y s) \<and>
      term_of (ktty_cursor_set x y s) = (fst (term_of s), unat x, unat y)" if "in_grid (unat x) (unat y)" for x y
    using ktty_cursor_set_grid [OF that, of s] p that by (auto intro!: tty_inv_frame simp: term_of_def)
  show ?thesis
  proof (cases "unat (ktty_cursor_x s) > 0")
    case True
    then have "unat (ktty_cursor_x s - 1) = unat (ktty_cursor_x s) - 1" by (simp add: unat_gt_0 unat_minus_one)
    then show ?thesis
      using fin [of "ktty_cursor_x s - 1" "ktty_cursor_y s"] True g ktty_cursor_add_one(2) [OF g(1)]
      unfolding t_def pos T by (simp add: in_grid_def)
  next
    case x: False
    show ?thesis
    proof (cases "unat (ktty_cursor_y s) > 0")
      case True
      then have "unat (ktty_cursor_y s - 1) = unat (ktty_cursor_y s) - 1" by (simp add: unat_gt_0 unat_minus_one)
      then show ?thesis
        using fin [of 79 "ktty_cursor_y s - 1"] True g x unfolding t_def pos T by (simp add: in_grid_def vga_consts)
    next
      case False
      then show ?thesis
        using x assms(1,2) T unfolding t_def pos by (cases "term_of s") (simp add: tty_frame_refl)
    qed
  qed
qed

lemma ktty_putc_grid:
  assumes "tty_inv s" "hw_sync s"
  shows "\<exists>s'. ktty_putc c color s = Inr s' \<and> tty_inv s' \<and> tty_frame s s' \<and> hw_sync s' \<and>
    term_of s' = term_putc color c (term_of s)"
proof -
  let ?x = "ktty_cursor_x s" and ?y = "ktty_cursor_y s"
  have p: "plain s VGA_MMIO_ADDR 4000" and g: "unat ?x < 80" "unat ?y < 25" "in_grid (unat ?x) (unat ?y)"
    using assms(1) by (auto simp: tty_inv_def in_grid_def)
  have T: "term_of s = (fst (term_of s), unat ?x, unat ?y)" by (simp add: term_of_def)
  consider "c = 0x08" | "c = 0x0A" | "c \<noteq> 0x08" "c \<noteq> 0x0A" by blast
  then show ?thesis
  proof cases
    case 1
    define t where "t = (if sint ?x > 0 then ktty_cursor_add (- 1) 0 s
      else if sint ?y > 0 then ktty_cursor_set (word_of_nat (VGA_COLUMNS_MAX - 1)) (?y - 1) s else s)"
    have t: "tty_frame s t" "tty_inv t" "hw_sync t" "term_of t = (fst (term_of s), term_back (snd (term_of s)))"
      using ktty_back_grid [OF assms] by (auto simp: t_def)
    have gt: "plain t VGA_MMIO_ADDR 4000" "in_grid (unat (ktty_cursor_x t)) (unat (ktty_cursor_y t))"
      using t(2) by (auto simp: tty_inv_def)
    obtain s' where s': "kvga_putc_at (ktty_cursor_x t) (ktty_cursor_y t) 0x20 VGA_TEXT_DEFAULT_COLOR t = Inr s'"
      "tty_frame t s'" "ktty_cursor_x s' = ktty_cursor_x t" "ktty_cursor_y s' = ktty_cursor_y t" "crtc s' = crtc t"
      "term_of s' = (grid_put (unat (ktty_cursor_x t)) (unat (ktty_cursor_y t)) (0x20, VGA_TEXT_DEFAULT_COLOR)
         (fst (term_of t)), snd (term_of t))"
      using kvga_putc_at_grid [OF gt] by blast
    have "snd (term_of t) = (unat (ktty_cursor_x t), unat (ktty_cursor_y t))" by (simp add: term_of_def)
    then have "term_of s' = term_putc color c (term_of s)"
      using 1 t(4) s'(6) by (cases "term_of s") (simp split: prod.split)
    moreover have "ktty_putc c color s = Inr s'"
      using 1 s'(1) by (simp add: ktty_putc_def Let_def flip: t_def)
    moreover have "hw_sync s'" using t(3) s'(3-5) by (simp add: hw_sync_def)
    ultimately show ?thesis
      using tty_frame_trans [OF t(1) s'(2)] tty_inv_frame [OF s'(2) gt(1)] gt(2) s'(3,4) by auto
  next
    case 2
    then have pt: "term_putc color c (term_of s) = term_newline (term_of s)" by (cases "term_of s") simp
    have run: "ktty_putc c color s = (if sint ?y \<ge> int VGA_LINES_MAX - 1
      then bindE (kvga_scroll_line s) (\<lambda>s. Inr (ktty_cursor_set 0 (word_of_nat (VGA_LINES_MAX - 1)) s))
      else Inr (ktty_cursor_set 0 (?y + 1) s))"
      unfolding ktty_putc_def 2 by simp
    show ?thesis unfolding run pt by (rule ktty_newline_grid [OF assms(1)])
  next
    case 3
    obtain t where t: "ktty_putc_at ?x ?y c color s = Inr t" "tty_frame s t"
      "ktty_cursor_x t = ?x" "ktty_cursor_y t = ?y"
      "term_of t = (grid_put (unat ?x) (unat ?y) (c, color) (fst (term_of s)), snd (term_of s))"
      using kvga_putc_at_grid [OF p g(3)] unfolding ktty_putc_at_def by blast
    have ti: "tty_inv t" using tty_inv_frame [OF t(2) p] g(3) t(3,4) by simp
    have corner: "sint ?y \<ge> int VGA_LINES_MAX - 1 \<longleftrightarrow> unat ?y = 24" "sint ?x = int VGA_COLUMNS_MAX - 1 \<longleftrightarrow> unat ?x = 79"
      using g byte_cmp(1) [of ?y 24] byte_cmp(2) [of ?x 79] by (auto simp: vga_consts)
    define r where "r = (if sint (ktty_cursor_y t) \<ge> int VGA_LINES_MAX - 1
      then bindE (kvga_scroll_line t) (\<lambda>s. Inr (ktty_cursor_set 0 (word_of_nat (VGA_LINES_MAX - 1)) s))
      else Inr (ktty_cursor_set 0 (ktty_cursor_y t + 1) t))"
    have run: "ktty_putc c color s = (if unat ?x = 79 then r else Inr (ktty_cursor_set (?x + 1) ?y t))"
      using 3 t(1) ktty_cursor_add_one(1) [of t] g t(3,4) unfolding ktty_putc_def r_def corner by (simp add: corner)
    show ?thesis
    proof (cases "unat ?x = 79")
      case True
      obtain s' where "r = Inr s'" "tty_inv s'" "tty_frame t s'" "hw_sync s'" "term_of s' = term_newline (term_of t)"
        using ktty_newline_grid [OF ti] unfolding r_def by blast
      then show ?thesis
        using run True 3 tty_frame_trans [OF t(2)] t(5) by (subst T) (auto simp: term_of_def)
    next
      case False
      then have ux: "unat (?x + 1) = Suc (unat ?x)" using g(1) by (simp add: unat_word_ariths)
      have "in_grid (unat (?x + 1)) (unat ?y)" using g False by (simp add: in_grid_def ux)
      note c = ktty_cursor_set_grid [OF this, of t]
      have "tty_inv (ktty_cursor_set (?x + 1) ?y t)"
        using tty_inv_frame [OF tty_frame_trans [OF t(2) c(1)] p] c(2) \<open>in_grid (unat (?x + 1)) (unat ?y)\<close>
        by (simp add: term_of_def)
      then show ?thesis
        using run False 3 tty_frame_trans [OF t(2) c(1)] c t(5) ux by (subst T) simp
    qed
  qed
qed

lemma puts_loop_grid:
  assumes "tty_inv s" "hw_sync s"
  shows "\<exists>s'. puts_loop cs color s = Inr s' \<and> tty_inv s' \<and> tty_frame s s' \<and> hw_sync s' \<and>
    term_of s' = fold (term_putc color) cs (term_of s)"
  using assms
proof (induction cs arbitrary: s)
  case Nil
  then show ?case by (simp add: tty_frame_refl)
next
  case (Cons c cs)
  obtain t where t: "ktty_putc c color s = Inr t" "tty_inv t" "tty_frame s t" "hw_sync t"
    "term_of t = term_putc color c (term_of s)"
    using ktty_putc_grid [OF Cons.prems] by blast
  show ?case using Cons.IH [OF t(2,4)] t tty_frame_trans [OF t(3)] by fastforce
qed

section \<open>Numbers\<close>

lemma puts_loop_append: "puts_loop (as @ bs) color s = bindE (puts_loop as color s) (puts_loop bs color)"
  by (induction as arbitrary: s) (simp_all add: bindE_def split: sum.split)

text \<open>The digits of \<open>n\<close> below a power of ten, highest first.\<close>

fun dec_digits :: "nat \<Rightarrow> nat \<Rightarrow> u8 list" where
  "dec_digits 0 n = []"
| "dec_digits (Suc k) n = word_of_nat (n div 10 ^ k mod 10 + 0x30) # dec_digits k n"

lemma dec_digits_snoc: "dec_digits (Suc k) n = dec_digits k (n div 10) @ [word_of_nat (n mod 10 + 0x30)]"
proof (induction k)
  case (Suc k)
  have "n div 10 ^ Suc k = n div 10 div 10 ^ k" by (simp add: div_mult2_eq)
  then show ?case using Suc by (simp del: power_Suc)
qed simp

lemma digit_byte:
  assumes "is_digit 10 c"
  shows "(of_char c :: u8) = word_of_nat (nat (char_to_digit c) + 0x30)"
proof -
  have c: "48 \<le> (of_char c :: int)" "(of_char c :: int) \<le> 57" "char_to_digit c = of_char c - 48"
    using assms by (auto simp: is_digit_def char_to_digit_def split: if_splits)
  define n where "n = (of_char c :: nat)"
  have n: "(of_char c :: int) = int n" "(of_char c :: u8) = word_of_nat n" by (simp_all add: n_def of_nat_of_char)
  then have "nat (char_to_digit c) + 0x30 = n" using c by simp
  then show ?thesis using n(2) by simp
qed

lemma digits_bytes:
  "list_all (is_digit 10) s \<Longrightarrow> map of_char s = dec_digits (length s) (digits_value 10 0 s)"
proof (induction s rule: rev_induct)
  case (snoc c s)
  then have c: "is_digit 10 c" "nat (char_to_digit c) < 10" by (auto simp: is_digit_def)
  then have "digits_value 10 0 (s @ [c]) div 10 = digits_value 10 0 s"
    "digits_value 10 0 (s @ [c]) mod 10 = nat (char_to_digit c)"
    by simp_all
  then show ?case using snoc digit_byte [OF c(1)] by (simp add: dec_digits_snoc del: dec_digits.simps(2))
qed simp

lemma digits_bounds:
  assumes "list_all (is_digit 10) s"
  shows "digits_value 10 0 s < 10 ^ length s"
    and "s \<noteq> [] \<Longrightarrow> hd s \<noteq> CHR ''0'' \<Longrightarrow> 10 ^ (length s - 1) \<le> digits_value 10 0 s"
  using assms
proof (induction s rule: rev_induct)
  case (snoc c s)
  {
    case 1
    then show ?case using snoc(1) by (auto simp: is_digit_def)
  next
    case 2
    show ?case
    proof (cases s)
      case Nil
      then have "code c \<noteq> code CHR ''0''" using 2 by (simp only: of_char_eq_iff) simp
      then have "char_to_digit c \<noteq> 0" by (auto simp: char_to_digit_def)
      then show ?thesis using 2 Nil by (auto simp: is_digit_def)
    next
      case (Cons a list)
      then have "10 ^ (length s - 1) \<le> digits_value 10 0 s" using 2 snoc(2) by auto
      then have "10 * 10 ^ (length s - 1) \<le> 10 * digits_value 10 0 s" by simp
      moreover have "(10::nat) * 10 ^ (length s - 1) = 10 ^ length s" using Cons by simp
      ultimately show ?thesis by simp
    qed
  }
qed simp_all

lemma number_divisor_power:
  assumes "int (n div 10 ^ k) < 10" "k = 0 \<or> 10 ^ k \<le> n"
  shows "number_divisor (int n) (10 ^ j) = 10 ^ (j + k)"
  using assms
proof (induction k arbitrary: n j)
  case 0
  then show ?case by (subst number_divisor.simps) simp
next
  case (Suc k)
  have "10 ^ k \<le> n div 10"
    using Suc.prems(2) by (simp add: less_eq_div_iff_mult_less_eq)
  moreover have "n div 10 div 10 ^ k < 10" using Suc.prems(1) by (simp add: div_mult2_eq)
  moreover have "(1::nat) \<le> 10 ^ k" by simp
  ultimately have "number_divisor (int (n div 10)) (10 ^ Suc j) = 10 ^ (Suc j + k)" "10 \<le> n"
    using Suc.IH [of "n div 10" "Suc j"] by (auto, linarith)
  then show ?case by (subst number_divisor.simps) (simp add: zdiv_int mult.commute)
qed

lemma unat_pow10: "k < 10 \<Longrightarrow> unat (10 ^ k :: u32) = 10 ^ k"
proof -
  assume k: "k < 10"
  have "(10::nat) ^ k \<le> 10 ^ 9" using k by (intro power_increasing) auto
  then have "(10::nat) ^ k < 2 ^ 32" by simp
  moreover have "(10 ^ k :: u32) = word_of_nat (10 ^ k)" by simp
  ultimately show ?thesis by (simp only: unat_of_nat) simp
qed

lemma number_digit_byte:
  fixes m :: u32
  assumes "k < 10"
  shows "ucast ((m div 10 ^ k) mod 10) + 0x30 = (word_of_nat (unat m div 10 ^ k mod 10 + 0x30) :: u8)"
proof -
  have "unat ((m div 10 ^ k) mod 10) = unat m div 10 ^ k mod 10"
    by (simp add: unat_mod unat_div unat_pow10 [OF assms])
  then have "(ucast ((m div 10 ^ k) mod 10) :: u8) = word_of_nat (unat m div 10 ^ k mod 10)"
    by (metis of_nat_unat)
  then show ?thesis by simp
qed

lemma number_digits_puts:
  fixes s :: "'z tty_state_scheme"
  assumes "k < 10"
  shows "number_digits m (10 ^ k) color s = puts_loop (dec_digits (Suc k) (unat m)) color s"
  using assms
proof (induction k arbitrary: s)
  case 0
  show ?case
    using number_digit_byte [OF 0, of m]
    by (subst number_digits.simps) (simp add: word_gt_0 bindE_def number_digits.simps [of m 0] split: sum.split)
next
  case (Suc k)
  have "unat (10 ^ Suc k div 10 :: u32) = 10 ^ k" unfolding unat_div unat_pow10 [OF Suc.prems] by simp
  then have "10 ^ Suc k div 10 = (10 ^ k :: u32)" using unat_pow10 [of k] Suc.prems by (simp only: word_unat_eq_iff)
  moreover have "0 < (10 ^ Suc k :: u32)" unfolding word_less_nat_alt unat_pow10 [OF Suc.prems] by simp
  ultimately have "number_digits m (10 ^ Suc k) color s =
      bindE (ktty_putc (ucast ((m div 10 ^ Suc k) mod 10) + 0x30) color s) (number_digits m (10 ^ k) color)"
    by (subst number_digits.simps) (simp only: if_True)
  also have "number_digits m (10 ^ k) color =
      (puts_loop (dec_digits (Suc k) (unat m)) color :: 'z tty_state_scheme \<Rightarrow> 'z tty_state_scheme kres)"
    using Suc by (intro ext) simp
  finally show ?case
    unfolding number_digit_byte [OF Suc.prems] dec_digits.simps(2) [of "Suc k"] puts_loop.simps .
qed

lemma put_digits:
  assumes "numeral_for 10 (unat m) cs" "sint m \<ge> 0"
  shows "number_digits m (number_divisor (sint m) 1) color s = puts_loop (map of_char cs) color s"
proof -
  have n: "list_all (is_digit 10) cs" "cs \<noteq> []" "digits_value 10 0 cs = unat m" "unat m = 0 \<Longrightarrow> cs = ''0''"
    using assms(1) by (auto simp: numeral_for_def)
  define k where "k = length cs - 1"
  have len: "length cs = Suc k" using n(2) by (simp add: k_def)
  have up: "unat m < 10 ^ Suc k" and lo: "k = 0 \<or> 10 ^ k \<le> unat m"
    using digits_bounds [OF n(1)] n(2-4) assms(1) len by (auto simp: numeral_for_def)
  have m: "unat m < 2 ^ 31" "sint m = int (unat m)"
    using assms(2) sint_less [of m] uint_word_of_int [of "sint m", where 'a = 32] by (simp_all add: nat_less_iff unat_eq_nat_uint)
  have "k < 10"
  proof (rule ccontr)
    assume "\<not> k < 10"
    then have "(10::nat) ^ 10 \<le> 10 ^ k" by (intro power_increasing) auto
    with lo m(1) \<open>\<not> k < 10\<close> show False by simp
  qed
  moreover have "unat m div 10 ^ k < 10" using up by (simp add: less_mult_imp_div_less)
  then have "number_divisor (int (unat m)) (10 ^ 0) = 10 ^ (0 + k)"
    using lo by (intro number_divisor_power) simp_all
  ultimately show ?thesis
    using digits_bytes [OF n(1)] number_digits_puts [of k m color s] n(3) len m(2) by simp
qed

section \<open>Properties\<close>

text \<open>
  C25. The terminal refines an 80 by 25 grid with a cursor: printing any string with \<^verbatim>\<open>ktty_puts\<close>
  leaves the screen memory and the cursor as the grid semantics says (wrapping at column 80,
  line feeds, backspace over line ends, scrolling by one line at the bottom), keeps the cursor on
  the screen, keeps the hardware cursor at the cursor, and touches no byte outside the 4000 of the
  text buffer.
\<close>

theorem ktty_puts_refines_terminal:
  assumes "tty_inv s" "hw_sync s"
  shows "\<exists>s'. ktty_puts (Some cs) color s = Inr s' \<and> tty_inv s' \<and> tty_frame s s' \<and> hw_sync s' \<and>
    term_of s' = fold (term_putc color) cs (term_of s)"
  using puts_loop_grid [OF assms, of cs color] by (simp add: ktty_puts_def)

definition tty_reset :: "(u32 \<Rightarrow> u8) \<Rightarrow> tty_state" where
  "tty_reset f = heap_state.extend (flat_memory f)
     \<lparr>ktty_cursor_x = 0, ktty_cursor_y = 24, crtc_index = 0, crtc = (\<lambda>r. if r = 0x0E then 7 else if r = 0x0F then 128 else 0)\<rparr>"

lemma tty_reset_ok: "tty_inv (tty_reset f)" "hw_sync (tty_reset f)"
  by (simp_all add: tty_inv_def hw_sync_def in_grid_def plain_def header_at_None_iff mmu_translate_def vga_base(1))
    (simp_all add: tty_reset_def flat_memory_def heap_state.defs)

theorem ktty_puts_refines_terminal_witness:
  "\<exists>s'. ktty_puts (Some [0x41, 0x0A, 0x42, 0x43]) 7 (tty_reset (\<lambda>_. 0)) = Inr s' \<and>
     fst (term_of s') 23 0 = (0x41, 7) \<and> fst (term_of s') 24 1 = (0x43, 7) \<and> snd (term_of s') = (2, 24)"
proof -
  have "snd (term_of (tty_reset (\<lambda>_. 0))) = (0, 24)"
    by (simp add: term_of_def tty_reset_def flat_memory_def heap_state.defs)
  then obtain g where "term_of (tty_reset (\<lambda>_. 0)) = (g, 0, 24)" by (metis prod.collapse)
  then show ?thesis
    using ktty_puts_refines_terminal [OF tty_reset_ok, of "[0x41, 0x0A, 0x42, 0x43]" 7 "\<lambda>_. 0"]
    by (auto simp: grid_put_def grid_scroll_def in_grid_def)
qed

text \<open>
  \<^verbatim>\<open>ktty_put_number\<close> prints what \<^verbatim>\<open>ksprintf\<close>'s \<^verbatim>\<open>kitoa\<close> writes for the same number: the two
  independent conversions agree on every 32-bit integer but \<^verbatim>\<open>INT_MIN\<close>.
\<close>

theorem ktty_put_number_equals_kitoa:
  assumes "sint number \<noteq> - (2 ^ 31)"
  shows "\<exists>cs. kitoa number = Inr cs \<and> ktty_put_number number color s = ktty_puts (Some (map of_char cs)) color s"
proof -
  have pr: "\<exists>cs. kuitoa m 10 False = Inr cs \<and> numeral_for 10 (unat m) cs" for m :: u32
  proof -
    have "unat m < 2 ^ 32" using unsigned_less [of m] by simp
    also have "(2::nat) ^ 32 \<le> 10 ^ 32" by simp
    finally show ?thesis
      using uitoa_loop_numeral [of 10 m 32 False] numeral_for_zero [of 10] by (auto simp: kuitoa_def split: if_splits)
  qed
  show ?thesis
  proof (cases "sint number < 0")
    case True
    obtain cs where cs: "kuitoa (- number) 10 False = Inr cs" "numeral_for 10 (unat (- number)) cs"
      using pr by blast
    have "sint (- number) = - sint number"
    proof -
      have "sint number \<ge> - (2 ^ 31)" using sint_greater_eq [of number] by simp
      then have r: "- sint number < 2 ^ 31" "0 \<le> - sint number" using True assms by auto
      have "- number = word_of_int (- sint number)" by simp
      then have "sint (- number) = signed_take_bit 31 (- sint number)"
        by (simp only: signed_of_int) simp
      then show ?thesis using r by (simp add: signed_take_bit_int_eq_self)
    qed
    then have "sint (- number) \<ge> 0" using True by simp
    then show ?thesis
      using True cs(1) put_digits [OF cs(2)]
      by (auto simp: kitoa_def ktty_put_number_def ktty_puts_def bindE_assoc bindE_def split: sum.split)
  next
    case False
    obtain cs where cs: "kuitoa number 10 False = Inr cs" "numeral_for 10 (unat number) cs"
      using pr by blast
    then show ?thesis using False put_digits [OF cs(2)] by (simp add: kitoa_def ktty_put_number_def ktty_puts_def)
  qed
qed

theorem ktty_put_number_equals_kitoa_witness:
  "\<exists>cs. kitoa (- 1203) = Inr cs \<and>
     ktty_put_number (- 1203) 7 (tty_reset (\<lambda>_. 0)) = ktty_puts (Some (map of_char cs)) 7 (tty_reset (\<lambda>_. 0))"
  by (rule ktty_put_number_equals_kitoa) simp

text \<open>On \<^verbatim>\<open>INT_MIN\<close> the negation overflows, the first loop stops at once and only one digit is printed.\<close>

lemma ktty_put_number_int_min:
  fixes s :: "'z tty_state_scheme"
  shows "ktty_put_number 0x80000000 color s = ktty_puts (Some [0x2D, 0x38]) color s"
proof -
  have "number_divisor (- 2147483648) 1 = 1" by (subst number_divisor.simps) simp
  moreover have "number_digits (- 2147483648) 1 color t = puts_loop [0x38] color t" for t :: "'z tty_state_scheme"
    by (subst number_digits.simps) (simp add: number_digits.simps [of _ 0] bindE_def split: sum.split)
  ultimately show ?thesis
    by (simp add: ktty_put_number_def ktty_puts_def bindE_def split: sum.split)
qed

end
