(* ===== verification/Vfs_Stat.thy ===== *)
theory Vfs_Stat
  imports Prelude
begin

text \<open>
  File metadata (\<^verbatim>\<open>include/kernel/fs/vfs/vfs_stat.h\<close>, \<^verbatim>\<open>src/kernel/fs/vfs/stat\<close>): the mode bits, the link
  count and the permission checks. The kernel has no clock yet: every time stamp it sets is 0.
\<close>

section \<open>Mode bits\<close>

definition KVFS_STAT_IFMT :: u32 where "KVFS_STAT_IFMT = 0xF000"

definition KVFS_STAT_IFREG :: u32 where "KVFS_STAT_IFREG = 0x8000"

definition KVFS_STAT_IFDIR :: u32 where "KVFS_STAT_IFDIR = 0x4000"

definition KVFS_STAT_IFCHR :: u32 where "KVFS_STAT_IFCHR = 0x2000"

definition KVFS_STAT_MODE_MASK_IT :: "u32 \<Rightarrow> u32" where
  "KVFS_STAT_MODE_MASK_IT mode = mode AND 0x1FF"

definition KVFS_STAT_TYPE :: "u32 \<Rightarrow> u32" where
  "KVFS_STAT_TYPE mode = mode AND KVFS_STAT_IFMT"

definition KVFS_STAT_ISREG :: "u32 \<Rightarrow> bool" where
  "KVFS_STAT_ISREG mode = (KVFS_STAT_TYPE mode = KVFS_STAT_IFREG)"

definition KVFS_STAT_ISDIR :: "u32 \<Rightarrow> bool" where
  "KVFS_STAT_ISDIR mode = (KVFS_STAT_TYPE mode = KVFS_STAT_IFDIR)"

definition KVFS_STAT_ISCHR :: "u32 \<Rightarrow> bool" where
  "KVFS_STAT_ISCHR mode = (KVFS_STAT_TYPE mode = KVFS_STAT_IFCHR)"

section \<open>Metadata\<close>

record vfs_stat =
  st_mode :: u32
  st_nlink :: u32
  st_size :: u64
  st_atime :: u64
  st_mtime :: u64
  st_ctime :: u64
  st_uid :: u32
  st_gid :: u32

record cred =
  c_uid :: u32
  c_gid :: u32

definition kvfs_stat_update_atime :: "vfs_stat \<Rightarrow> vfs_stat" where
  "kvfs_stat_update_atime st = st\<lparr>st_atime := 0\<rparr>"

definition kvfs_stat_update_mtime :: "vfs_stat \<Rightarrow> vfs_stat" where
  "kvfs_stat_update_mtime st = st\<lparr>st_mtime := 0, st_ctime := 0\<rparr>"

definition kvfs_stat_update_ctime :: "vfs_stat \<Rightarrow> vfs_stat" where
  "kvfs_stat_update_ctime st = st\<lparr>st_ctime := 0\<rparr>"

definition kvfs_stat_update_size :: "u32 \<Rightarrow> vfs_stat \<Rightarrow> vfs_stat" where
  "kvfs_stat_update_size new_size st =
    (if st_size st \<noteq> ucast new_size then kvfs_stat_update_mtime (st\<lparr>st_size := ucast new_size\<rparr>) else st)"

definition kvfs_stat_chmod :: "u32 \<Rightarrow> vfs_stat \<Rightarrow> vfs_stat" where
  "kvfs_stat_chmod mode st =
    kvfs_stat_update_ctime (st\<lparr>st_mode := (st_mode st AND KVFS_STAT_IFMT) OR mode\<rparr>)"

definition kvfs_stat_inc_nlink :: "vfs_stat \<Rightarrow> vfs_stat" where
  "kvfs_stat_inc_nlink st = kvfs_stat_update_ctime (st\<lparr>st_nlink := st_nlink st + 1\<rparr>)"

definition kvfs_stat_dec_nlink :: "vfs_stat \<Rightarrow> vfs_stat" where
  "kvfs_stat_dec_nlink st =
    kvfs_stat_update_ctime (if st_nlink st > 0 then st\<lparr>st_nlink := st_nlink st - 1\<rparr> else st)"

definition kvfs_stat_set_nlink :: "u32 \<Rightarrow> vfs_stat \<Rightarrow> vfs_stat" where
  "kvfs_stat_set_nlink nlink st = kvfs_stat_update_ctime (st\<lparr>st_nlink := nlink\<rparr>)"

definition kvfs_stat_create :: "u32 \<Rightarrow> vfs_stat" where
  "kvfs_stat_create mode =
    (let st = \<lparr>st_mode = 0, st_nlink = 0, st_size = 0, st_atime = 0, st_mtime = 0, st_ctime = 0,
               st_uid = 0, st_gid = 0\<rparr>;
         st = kvfs_stat_update_atime st;
         st = kvfs_stat_update_mtime st;
         st = kvfs_stat_chmod mode st
     in if KVFS_STAT_ISDIR mode then kvfs_stat_set_nlink 2 st else kvfs_stat_set_nlink 1 st)"

definition kvfs_stat_copy :: "vfs_stat \<Rightarrow> vfs_stat \<Rightarrow> vfs_stat" where
  "kvfs_stat_copy dst src =
    dst\<lparr>st_atime := st_atime src, st_ctime := st_ctime src, st_mtime := st_mtime src,
        st_mode := st_mode src, st_nlink := st_nlink src, st_size := st_size src,
        st_uid := st_uid src, st_gid := st_gid src\<rparr>"

section \<open>Permissions\<close>

text \<open>
  The three checks differ in the bits they test; \<open>None\<close> is a \<^verbatim>\<open>NULL\<close> argument. The result is the C
  value: the last test returns the masked bit itself.
\<close>

definition kvfs_stat_can_read :: "vfs_stat option \<Rightarrow> cred option \<Rightarrow> u32" where
  "kvfs_stat_can_read stat cred =
    (case (stat, cred) of
       (Some st, Some c) \<Rightarrow>
         if c_uid c = 0 then 1
         else if st_uid st = c_uid c \<and> st_mode st AND 0x100 \<noteq> 0 then 1
         else if st_gid st = c_gid c \<and> st_mode st AND 0x20 \<noteq> 0 then 1
         else st_mode st AND 4
     | _ \<Rightarrow> 0)"

definition kvfs_stat_can_write :: "vfs_stat option \<Rightarrow> cred option \<Rightarrow> u32" where
  "kvfs_stat_can_write stat cred =
    (case (stat, cred) of
       (Some st, Some c) \<Rightarrow>
         if c_uid c = 0 then 1
         else if st_uid st = c_uid c \<and> st_mode st AND 0x80 \<noteq> 0 then 1
         else if st_gid st = c_gid c \<and> st_mode st AND 0x10 \<noteq> 0 then 1
         else st_mode st AND 2
     | _ \<Rightarrow> 0)"

definition kvfs_stat_can_exec :: "vfs_stat option \<Rightarrow> cred option \<Rightarrow> u32" where
  "kvfs_stat_can_exec stat cred =
    (case (stat, cred) of
       (Some st, Some c) \<Rightarrow>
         if c_uid c = 0 then 1
         else if st_uid st = c_uid c \<and> st_mode st AND 0x40 \<noteq> 0 then 1
         else if st_gid st = c_gid c \<and> st_mode st AND 8 \<noteq> 0 then 1
         else st_mode st AND 1
     | _ \<Rightarrow> 0)"

text \<open>The credentials of every call in the kernel: \<^verbatim>\<open>const cred_t cred = {0, 0}\<close>.\<close>

definition root_cred :: cred where
  "root_cred = \<lparr>c_uid = 0, c_gid = 0\<rparr>"

section \<open>Facts\<close>

named_theorems stat_simps \<open>metadata after an update\<close>

lemma mode_types [stat_simps]:
  "KVFS_STAT_ISDIR (m AND 0x1FF OR KVFS_STAT_IFDIR)" "\<not> KVFS_STAT_ISREG (m AND 0x1FF OR KVFS_STAT_IFDIR)"
  "KVFS_STAT_ISREG (m AND 0x1FF OR KVFS_STAT_IFREG)" "\<not> KVFS_STAT_ISDIR (m AND 0x1FF OR KVFS_STAT_IFREG)"
  "\<not> KVFS_STAT_ISCHR (m AND 0x1FF OR KVFS_STAT_IFDIR)" "\<not> KVFS_STAT_ISCHR (m AND 0x1FF OR KVFS_STAT_IFREG)"
proof -
  have z: "(m AND 0x1FF) AND 0xF000 = 0" by (simp add: and.assoc)
  then have "(m AND 0x1FF OR k) AND 0xF000 = k AND 0xF000" for k
    by (simp add: bit.conj_disj_distrib2)
  then show "KVFS_STAT_ISDIR (m AND 0x1FF OR KVFS_STAT_IFDIR)" "\<not> KVFS_STAT_ISREG (m AND 0x1FF OR KVFS_STAT_IFDIR)"
    "KVFS_STAT_ISREG (m AND 0x1FF OR KVFS_STAT_IFREG)" "\<not> KVFS_STAT_ISDIR (m AND 0x1FF OR KVFS_STAT_IFREG)"
    "\<not> KVFS_STAT_ISCHR (m AND 0x1FF OR KVFS_STAT_IFDIR)" "\<not> KVFS_STAT_ISCHR (m AND 0x1FF OR KVFS_STAT_IFREG)"
    by (simp_all add: KVFS_STAT_ISDIR_def KVFS_STAT_ISREG_def KVFS_STAT_ISCHR_def KVFS_STAT_TYPE_def
        KVFS_STAT_IFMT_def KVFS_STAT_IFDIR_def KVFS_STAT_IFREG_def KVFS_STAT_IFCHR_def)
qed

lemma stat_mode [stat_simps]:
  "st_mode (kvfs_stat_create m) = m" "st_mode (kvfs_stat_inc_nlink st) = st_mode st"
  "st_mode (kvfs_stat_dec_nlink st) = st_mode st" "st_mode (kvfs_stat_update_atime st) = st_mode st"
  "st_mode (kvfs_stat_update_mtime st) = st_mode st" "st_mode (kvfs_stat_update_ctime st) = st_mode st"
  "st_mode (kvfs_stat_update_size n st) = st_mode st"
  by (simp_all add: kvfs_stat_create_def kvfs_stat_inc_nlink_def kvfs_stat_dec_nlink_def
      kvfs_stat_update_atime_def kvfs_stat_update_mtime_def kvfs_stat_update_ctime_def kvfs_stat_chmod_def
      kvfs_stat_update_size_def kvfs_stat_set_nlink_def Let_def)

lemma root_can [stat_simps]:
  "kvfs_stat_can_read (Some st) (Some root_cred) = 1" "kvfs_stat_can_write (Some st) (Some root_cred) = 1"
  "kvfs_stat_can_exec (Some st) (Some root_cred) = 1"
  by (simp_all add: kvfs_stat_can_read_def kvfs_stat_can_write_def kvfs_stat_can_exec_def root_cred_def)

lemma stat_copy_eq [stat_simps]: "kvfs_stat_copy dst src = src"
  by (simp add: kvfs_stat_copy_def)

text \<open>
  POSIX takes the bits of the first class a caller belongs to; the checks here grant access when any
  of its classes does, so a file of mode \<^verbatim>\<open>0077\<close> is readable by its owner.
\<close>

lemma can_read_owner_without_bits:
  assumes "st_uid st = c_uid c" "st_mode st AND 0x100 = 0" "st_mode st AND 4 \<noteq> 0"
  shows "kvfs_stat_can_read (Some st) (Some c) \<noteq> 0"
  using assms by (simp add: kvfs_stat_can_read_def)

end
