(* ===== verification/Vfs_Path.thy ===== *)
theory Vfs_Path
  imports Main "HOL-Library.Sublist"
begin

text \<open>
  Path splitting (\<^verbatim>\<open>src/kernel/fs/vfs/vfs_helper.c\<close>). A path is the characters before its terminating
  zero; \<open>None\<close> is a \<^verbatim>\<open>NULL\<close> pointer. The array \<^verbatim>\<open>tokens\<close> and the returned count are the list of the
  components.
\<close>

section \<open>Operations\<close>

definition KVFS_MAX_PATH_PARTS :: nat where "KVFS_MAX_PATH_PARTS = 16"

definition KVFS_MAX_NAME_LEN :: nat where "KVFS_MAX_NAME_LEN = 255"

definition kvfs_is_absolute_path :: "string option \<Rightarrow> bool" where
  "kvfs_is_absolute_path path = (case path of None \<Rightarrow> False | Some p \<Rightarrow> take 1 p = ''/'')"

text \<open>The inner loop: at most \<open>room\<close> characters up to the next slash; the token and what is left.\<close>

fun split_token :: "nat \<Rightarrow> string \<Rightarrow> string \<times> string" where
  "split_token room [] = ([], [])"
| "split_token room (c # p) =
    (if c \<noteq> CHR ''/'' \<and> room > 0
     then let (tok, rest) = split_token (room - 1) p in (c # tok, rest)
     else ([], c # p))"

abbreviation skip_slashes :: "string \<Rightarrow> string" where
  "skip_slashes p \<equiv> dropWhile (\<lambda>c. c = CHR ''/'') p"

lemma split_token_length: "length (fst (split_token n p)) + length (snd (split_token n p)) = length p"
  by (induction n p rule: split_token.induct) (auto simp: split_def Let_def)

lemma split_token_none:
  assumes "split_token n p = ([], rest)" "0 < n" "p \<noteq> []"
  shows "rest = p \<and> hd p = CHR ''/''"
  using assms by (cases p) (auto simp: split_def Let_def split: if_splits)

text \<open>The outer loop, with \<open>left\<close> free entries of \<^verbatim>\<open>tokens\<close>.\<close>

function split_loop :: "nat \<Rightarrow> string \<Rightarrow> string list" where
  "split_loop left p =
    (if p = [] \<or> left = 0 then []
     else
       let (tok, rest) = split_token (KVFS_MAX_NAME_LEN - 1) p in
       if tok \<noteq> [] then tok # split_loop (left - 1) (skip_slashes rest)
       else split_loop left (skip_slashes rest))"
  by auto
termination
proof (relation "measure (\<lambda>(left, p). length p)", goal_cases)
  case (2 left p x tok rest)
  then have "length tok + length rest = length p"
    using split_token_length [of "KVFS_MAX_NAME_LEN - 1" p] by (metis fst_conv snd_conv)
  moreover have "length tok > 0" using 2 by simp
  ultimately have "length rest < length p" by linarith
  then show ?case using length_dropWhile_le [of "\<lambda>c. c = CHR ''/''" rest] by (simp add: le_less_trans)
next
  case (3 left p x tok rest)
  then have "rest = p \<and> hd p = CHR ''/''"
    using split_token_none [of "KVFS_MAX_NAME_LEN - 1" p rest] by (simp add: KVFS_MAX_NAME_LEN_def)
  then show ?case
    using 3 length_dropWhile_le [of "\<lambda>c. c = CHR ''/''" "tl p"] by (cases p) auto
qed simp

declare split_loop.simps [simp del]

definition kvfs_split_path :: "string option \<Rightarrow> string list" where
  "kvfs_split_path path =
    (case path of
       None \<Rightarrow> []
     | Some p \<Rightarrow>
         if kvfs_is_absolute_path (Some p) then ''/'' # split_loop (KVFS_MAX_PATH_PARTS - 1) (skip_slashes p)
         else split_loop KVFS_MAX_PATH_PARTS (skip_slashes p))"

section \<open>Components\<close>

definition component :: "string \<Rightarrow> bool" where
  "component tok \<longleftrightarrow> tok \<noteq> [] \<and> CHR ''/'' \<notin> set tok \<and> length tok < KVFS_MAX_NAME_LEN"

lemma split_token_shape:
  assumes "split_token n p = (tok, rest)"
  shows "p = tok @ rest \<and> CHR ''/'' \<notin> set tok \<and> length tok \<le> n"
  using assms
proof (induction n p arbitrary: tok rule: split_token.induct)
  case (2 room c p)
  show ?case
  proof (cases "c \<noteq> CHR ''/'' \<and> room > 0")
    case True
    obtain t r where tr: "split_token (room - 1) p = (t, r)" by fastforce
    with 2 True show ?thesis by fastforce
  qed (use 2 in auto)
qed simp

lemma split_loop_bounds:
  "list_all component (split_loop left p) \<and> length (split_loop left p) \<le> left"
proof (induction left p rule: split_loop.induct)
  case (1 left p)
  show ?case
  proof (cases "p = [] \<or> left = 0")
    case True
    then show ?thesis by (subst (1 2) split_loop.simps) simp
  next
    case False
    obtain tok rest where tr: "split_token (KVFS_MAX_NAME_LEN - 1) p = (tok, rest)" by fastforce
    note s = split_token_shape [OF tr]
    show ?thesis
    proof (cases "tok = []")
      case True
      then have "split_loop left p = split_loop left (skip_slashes rest)"
        using False tr by (subst split_loop.simps) simp
      then show ?thesis using 1(2) [OF False refl tr [symmetric]] True by simp
    next
      case nonempty: False
      then have eq: "split_loop left p = tok # split_loop (left - 1) (skip_slashes rest)"
        using False tr by (subst split_loop.simps) simp
      have "component tok" using s nonempty by (auto simp: component_def KVFS_MAX_NAME_LEN_def)
      then show ?thesis using 1(1) [OF False refl tr [symmetric]] nonempty False unfolding eq by auto
    qed
  qed
qed

lemma split_token_component:
  assumes "CHR ''/'' \<notin> set tok" "length tok \<le> n" "rest = [] \<or> hd rest = CHR ''/''"
  shows "split_token n (tok @ rest) = (tok, rest)"
  using assms
proof (induction tok arbitrary: n)
  case Nil
  then show ?case by (cases rest) auto
qed (auto simp: split_def Let_def)

lemma skip_slashes_replicate [simp]: "skip_slashes (replicate n CHR ''/'' @ p) = skip_slashes p"
  by (induction n) auto

lemma split_loop_component:
  assumes "component tok" "left > 0" "rest = [] \<or> hd rest = CHR ''/''"
  shows "split_loop left (tok @ rest) = tok # split_loop (left - 1) (skip_slashes rest)"
proof -
  have "split_token (KVFS_MAX_NAME_LEN - 1) (tok @ rest) = (tok, rest)"
    using assms by (intro split_token_component) (auto simp: component_def KVFS_MAX_NAME_LEN_def)
  then show ?thesis
    using assms by (subst split_loop.simps) (auto simp: component_def)
qed

text \<open>The text of a path: each component with the number of slashes that follow it.\<close>

fun path_text :: "(string \<times> nat) list \<Rightarrow> string" where
  "path_text [] = []"
| "path_text ((tok, n) # parts) = tok @ replicate n CHR ''/'' @ path_text parts"

text \<open>Every component but the last is followed by a slash.\<close>

fun path_ok :: "(string \<times> nat) list \<Rightarrow> bool" where
  "path_ok [] = True"
| "path_ok ((tok, n) # parts) = (component tok \<and> (parts \<noteq> [] \<longrightarrow> n > 0) \<and> path_ok parts)"

lemma path_text_start: "path_ok parts \<Longrightarrow> skip_slashes (path_text parts) = path_text parts"
  by (cases parts rule: path_text.cases) (auto simp: component_def neq_Nil_conv dropWhile_append3)

lemma split_loop_path:
  "path_ok parts \<Longrightarrow> split_loop left (path_text parts) = take left (map fst parts)"
proof (induction parts arbitrary: left rule: path_text.induct)
  case 1
  then show ?case by (subst split_loop.simps) simp
next
  case (2 tok n parts)
  show ?case
  proof (cases left)
    case 0
    then show ?thesis by (subst split_loop.simps) simp
  next
    case (Suc k)
    have rest: "replicate n CHR ''/'' @ path_text parts = [] \<or> hd (replicate n CHR ''/'' @ path_text parts) = CHR ''/''"
      using 2(2) by (cases n; cases parts) auto
    show ?thesis
      using 2 Suc split_loop_component [OF _ _ rest, of tok left] path_text_start by simp
  qed
qed

section \<open>Properties\<close>

text \<open>
  C27. \<^verbatim>\<open>kvfs_split_path\<close> recovers the components of a path: however many slashes lead, separate and
  trail them, an absolute path gives the token \<open>/\<close> and its first 15 components, a relative one its
  first 16, in order and unchanged.
\<close>

theorem kvfs_split_path_components:
  assumes "path_ok parts"
  shows "kvfs_split_path (Some (replicate (Suc n) CHR ''/'' @ path_text parts)) = ''/'' # take 15 (map fst parts) \<and>
    kvfs_split_path (Some (path_text parts)) = take 16 (map fst parts)"
proof
  show "kvfs_split_path (Some (replicate (Suc n) CHR ''/'' @ path_text parts)) = ''/'' # take 15 (map fst parts)"
    using split_loop_path [OF assms] path_text_start [OF assms]
    by (simp add: kvfs_split_path_def kvfs_is_absolute_path_def KVFS_MAX_PATH_PARTS_def)
  have "take 1 (path_text parts) \<noteq> ''/''"
    using assms by (cases parts rule: path_text.cases) (auto simp: component_def neq_Nil_conv)
  then show "kvfs_split_path (Some (path_text parts)) = take 16 (map fst parts)"
    using split_loop_path [OF assms] path_text_start [OF assms]
    by (simp add: kvfs_split_path_def kvfs_is_absolute_path_def KVFS_MAX_PATH_PARTS_def)
qed

theorem kvfs_split_path_components_witness:
  "kvfs_split_path (Some ''//bin///sh/'') = [''/'', ''bin'', ''sh'']"
  using kvfs_split_path_components [of "[(''bin'', 3), (''sh'', 1)]" 1]
  by (simp add: component_def KVFS_MAX_NAME_LEN_def numeral_3_eq_3)

text \<open>
  Whatever the path, \<^verbatim>\<open>kvfs_split_path\<close> stays inside \<^verbatim>\<open>tokens[16][255]\<close>: at most 16 tokens, each
  non-empty, without a slash and with room for its terminator, but for the leading \<open>/\<close>.
\<close>

theorem kvfs_split_path_bounds:
  "length (kvfs_split_path path) \<le> 16 \<and>
   list_all component (if kvfs_is_absolute_path path then tl (kvfs_split_path path) else kvfs_split_path path)"
proof (cases path)
  case (Some p)
  then show ?thesis
    using split_loop_bounds [of 15 "skip_slashes p"] split_loop_bounds [of 16 "skip_slashes p"]
    by (simp add: kvfs_split_path_def KVFS_MAX_PATH_PARTS_def)
qed (simp add: kvfs_split_path_def kvfs_is_absolute_path_def)

text \<open>A component longer than 254 characters is not refused: it is cut into several components.\<close>

lemma split_token_full: "CHR ''/'' \<notin> set a \<Longrightarrow> split_token (length a) (a @ b) = (a, b)"
  by (induction a) (auto simp: split_def Let_def, cases b, auto)

lemma long_component_is_cut:
  assumes "CHR ''/'' \<notin> set a" "length a = KVFS_MAX_NAME_LEN - 1" "component b"
  shows "kvfs_split_path (Some (a @ b)) = [a, b]"
proof -
  obtain c as d bs where ab: "a = c # as" "b = d # bs" "c \<noteq> CHR ''/''" "d \<noteq> CHR ''/''"
    using assms by (cases a; cases b) (auto simp: KVFS_MAX_NAME_LEN_def component_def)
  have "split_loop 16 (a @ b) = a # split_loop 15 b"
  proof -
    have "split_token (KVFS_MAX_NAME_LEN - 1) (a @ b) = (a, b)"
      using split_token_full [OF assms(1), of b] assms(2) by metis
    moreover have "a \<noteq> []" "skip_slashes b = b" using ab by auto
    ultimately show ?thesis by (subst split_loop.simps) simp
  qed
  also have "split_loop 15 b = [b]"
    using split_loop_component [OF assms(3), of 15 "[]"] by (simp add: split_loop.simps [of _ "[]"])
  finally show ?thesis
    using ab by (simp add: kvfs_split_path_def kvfs_is_absolute_path_def KVFS_MAX_PATH_PARTS_def)
qed

end
