(* ===== verification/Kobject.thy ===== *)
theory Kobject
  imports Kmalloc Tty Keyboard Vfs_Stat
begin

text \<open>
  The structures the kernel keeps in heap blocks (\<^verbatim>\<open>vfs_node_t\<close>, \<^verbatim>\<open>tmpfs_entry_t\<close>, \<^verbatim>\<open>file_desc_t\<close>,
  \<^verbatim>\<open>fd_dir_t\<close>, \<^verbatim>\<open>task_t\<close>, \<^verbatim>\<open>process_t\<close>) and the kernel's global state. A structure lives in \<open>objs\<close> at the
  address of a block that the model of \<^verbatim>\<open>kmalloc\<close> returned; freeing the block removes it, so an access
  through a dangling pointer, or through a pointer to a structure of another type, is the error
  \<open>PageFault\<close>.
\<close>

section \<open>Structures\<close>

datatype vfs_ops = Ktmpfs_operations

datatype vfs_fs = Tmpfs_fs

record vfs_node =
  n_refcount :: u32
  n_ops :: "vfs_ops option"
  n_fs :: "vfs_fs option"
  n_private :: u32

text \<open>The functions a character device can be given.\<close>

datatype chr_read = Kfs_keyboard_read

datatype chr_write = Kfs_vga_write

text \<open>The union of \<^verbatim>\<open>tmpfs_entry_t\<close>.\<close>

datatype tmpfs_body =
    File (data_ptr: u32) (file_size: u32) (capacity: u32)
  | Chr (chr_rd: "chr_read option") (chr_wr: "chr_write option") (chr_ctx: u32)
  | Dir (child: u32)

record tmpfs_entry =
  e_name :: string
  e_stat :: vfs_stat
  e_parent :: u32
  e_body :: tmpfs_body
  e_next :: u32

record file_desc =
  fd_node :: u32
  fd_offset :: u32
  fd_flags :: u32
  fd_refcount :: u32

record fd_dir =
  dir_fd :: int

record isr_registers =
  r_gs :: u32
  r_fs :: u32
  r_es :: u32
  r_ds :: u32
  r_edi :: u32
  r_esi :: u32
  r_ebp :: u32
  r_esp :: u32
  r_ebx :: u32
  r_edx :: u32
  r_ecx :: u32
  r_eax :: u32
  r_int_no :: u32
  r_err_code :: u32
  r_eip :: u32
  r_cs :: u32
  r_eflags :: u32

datatype task_state = KTASK_IDLE | KTASK_RUNNING | KTASK_PAUSED | KTASK_ZOMBIE

record task =
  t_ctx :: isr_registers
  t_stack_ptr :: u32
  t_stack_size :: u32
  t_state :: task_state
  t_next :: u32
  t_process :: u32

datatype process_state = KPROCESS_ALIVE | KPROCESS_DEAD

record process =
  p_pid :: u32
  p_ppid :: u32
  p_main_thread :: u32
  p_state :: process_state
  p_name :: string
  p_fds :: "u32 list"
  p_page_directory :: u32
  p_page_directory_phys :: u32

datatype kobj =
    Node vfs_node
  | Entry tmpfs_entry
  | Fdesc file_desc
  | Fddir fd_dir
  | Task task
  | Process process

section \<open>The kernel's state\<close>

text \<open>
  \<open>kbd_pending\<close> are the scancodes of the keyboard interrupts still to come, \<open>klog\<close> the messages
  printed with the \<^verbatim>\<open>KPRINTF\<close> macros.
\<close>

record kernel_state = tty_state +
  kbd :: keyboard_state
  kbd_pending :: "u8 list"
  klog :: "string list"
  objs :: "u32 \<rightharpoonup> kobj"
  kvfs_root_mount_dir :: u32
  kvfs_cwd :: u32
  ktask_head :: u32
  ktask_tail :: u32
  ktask_current :: u32
  kscheduler_is_running :: bool
  kprocess_pid_current :: u32

definition klog_put :: "string \<Rightarrow> 'z kernel_state_scheme \<Rightarrow> 'z kernel_state_scheme" where
  "klog_put msg s = s\<lparr>klog := klog s @ [msg]\<rparr>"

section \<open>Access\<close>

definition rd_node :: "u32 \<Rightarrow> 'z kernel_state_scheme \<Rightarrow> vfs_node kres" where
  "rd_node p s = (case objs s p of Some (Node n) \<Rightarrow> Inr n | _ \<Rightarrow> Inl PageFault)"

definition rd_entry :: "u32 \<Rightarrow> 'z kernel_state_scheme \<Rightarrow> tmpfs_entry kres" where
  "rd_entry p s = (case objs s p of Some (Entry e) \<Rightarrow> Inr e | _ \<Rightarrow> Inl PageFault)"

definition rd_fdesc :: "u32 \<Rightarrow> 'z kernel_state_scheme \<Rightarrow> file_desc kres" where
  "rd_fdesc p s = (case objs s p of Some (Fdesc d) \<Rightarrow> Inr d | _ \<Rightarrow> Inl PageFault)"

definition rd_fddir :: "u32 \<Rightarrow> 'z kernel_state_scheme \<Rightarrow> fd_dir kres" where
  "rd_fddir p s = (case objs s p of Some (Fddir d) \<Rightarrow> Inr d | _ \<Rightarrow> Inl PageFault)"

definition rd_task :: "u32 \<Rightarrow> 'z kernel_state_scheme \<Rightarrow> task kres" where
  "rd_task p s = (case objs s p of Some (Task t) \<Rightarrow> Inr t | _ \<Rightarrow> Inl PageFault)"

definition rd_process :: "u32 \<Rightarrow> 'z kernel_state_scheme \<Rightarrow> process kres" where
  "rd_process p s = (case objs s p of Some (Process q) \<Rightarrow> Inr q | _ \<Rightarrow> Inl PageFault)"

text \<open>Storing a structure at an address that holds one already.\<close>

definition wr_obj :: "u32 \<Rightarrow> kobj \<Rightarrow> 'z kernel_state_scheme \<Rightarrow> 'z kernel_state_scheme" where
  "wr_obj p ob s = s\<lparr>objs := (objs s)(p \<mapsto> ob)\<rparr>"

text \<open>
  \<^verbatim>\<open>kmalloc(sizeof(...))\<close>, \<^verbatim>\<open>kcalloc(sizeof(...))\<close> and the assignments to the fields of the new structure; \<^verbatim>\<open>NULL\<close>
  leaves nothing to assign to. \<^verbatim>\<open>kfree\<close> of a structure.
\<close>

definition new_obj :: "u32 \<Rightarrow> kobj \<Rightarrow> 'z kernel_state_scheme \<Rightarrow> (u32 \<times> 'z kernel_state_scheme) kres" where
  "new_obj sz ob s =
    bindE (kmalloc sz s) (\<lambda>(p, s). Inr (p, if p = 0 then s else wr_obj p ob s))"

definition cnew_obj :: "u32 \<Rightarrow> kobj \<Rightarrow> 'z kernel_state_scheme \<Rightarrow> (u32 \<times> 'z kernel_state_scheme) kres" where
  "cnew_obj sz ob s =
    bindE (kcalloc sz s) (\<lambda>(p, s). Inr (p, if p = 0 then s else wr_obj p ob s))"

definition free_obj :: "u32 \<Rightarrow> 'z kernel_state_scheme \<Rightarrow> 'z kernel_state_scheme kres" where
  "free_obj p s = bindE (kfree p s) (\<lambda>(ok, s). Inr (if ok then s\<lparr>objs := (objs s)(p := None)\<rparr> else s))"

end
