(* ===== verification/Chrdev.thy ===== *)
theory Chrdev
  imports Kobject
begin

text \<open>
  The character devices behind \<^verbatim>\<open>/dev\<close>: reading from the keyboard
  (\<^verbatim>\<open>src/drivers/input/keyboard_char_device.c\<close>) and writing to the console
  (\<^verbatim>\<open>src/drivers/video/vga_char_device.c\<close>). An offset argument is passed by value and its new value
  returned.
\<close>

section \<open>Operations\<close>

definition getchar :: "'z kernel_state_scheme \<Rightarrow> (u8 \<times> 'z kernel_state_scheme) kres" where
  "getchar s =
    bindE (kkeyboard_getchar (kbd_pending s) (kbd s)) (\<lambda>(c, pending, k).
    Inr (c, s\<lparr>kbd := k, kbd_pending := pending\<rparr>))"

text \<open>\<open>left\<close> bytes are still to be stored, the next one at \<open>ptr\<close>.\<close>

fun keyboard_read_loop :: "nat \<Rightarrow> u32 \<Rightarrow> 'z kernel_state_scheme \<Rightarrow> 'z kernel_state_scheme kres" where
  "keyboard_read_loop 0 ptr s = Inr s"
| "keyboard_read_loop (Suc left) ptr s =
    bindE (getchar s) (\<lambda>(c, s). bindE (wr8 ptr c s) (keyboard_read_loop left (ptr + 1)))"

definition kfs_keyboard_read ::
    "u32 \<Rightarrow> u32 \<Rightarrow> u32 \<Rightarrow> u32 \<Rightarrow> 'z kernel_state_scheme \<Rightarrow> (u32 \<times> u32 \<times> 'z kernel_state_scheme) kres" where
  "kfs_keyboard_read node offset buffer len s =
    (if node = 0 \<or> buffer = 0 \<or> len = 0 then Inr (0, offset, s)
     else
       bindE (rd_node node s) (\<lambda>n.
       if n_private n = 0 then Inr (0, offset, s)
       else
         bindE (rd_entry (n_private n) s) (\<lambda>e.
         if \<not> KVFS_STAT_ISCHR (st_mode (e_stat e)) then Inr (0, offset, s)
         else
           bindE (keyboard_read_loop (unat len) buffer s) (\<lambda>s.
           bindE (rd_entry (n_private n) s) (\<lambda>e.
           Inr (len, offset + len,
             wr_obj (n_private n) (Entry (e\<lparr>e_stat := kvfs_stat_update_atime (e_stat e)\<rparr>)) s))))))"

fun vga_write_loop :: "nat \<Rightarrow> u32 \<Rightarrow> 'z kernel_state_scheme \<Rightarrow> 'z kernel_state_scheme kres" where
  "vga_write_loop 0 ptr s = Inr s"
| "vga_write_loop (Suc left) ptr s =
    bindE (rd8 ptr s) (\<lambda>b. bindE (ktty_putc b VGA_TEXT_DEFAULT_COLOR s) (vga_write_loop left (ptr + 1)))"

definition kfs_vga_write ::
    "u32 \<Rightarrow> u32 \<Rightarrow> u32 \<Rightarrow> u32 \<Rightarrow> 'z kernel_state_scheme \<Rightarrow> (u32 \<times> u32 \<times> 'z kernel_state_scheme) kres" where
  "kfs_vga_write node offset buffer len s =
    (if node = 0 \<or> buffer = 0 \<or> len = 0 then Inr (0, offset, s)
     else
       bindE (rd_node node s) (\<lambda>n.
       if n_private n = 0 then Inr (0, offset, s)
       else
         bindE (rd_entry (n_private n) s) (\<lambda>e.
         if \<not> KVFS_STAT_ISCHR (st_mode (e_stat e)) then Inr (0, offset, s)
         else
           bindE (vga_write_loop (unat len) buffer s) (\<lambda>s.
           bindE (rd_entry (n_private n) s) (\<lambda>e.
           Inr (len, offset + len,
             wr_obj (n_private n)
               (Entry (e\<lparr>e_stat := kvfs_stat_update_ctime (kvfs_stat_update_mtime (e_stat e))\<rparr>)) s))))))"

end
