(* ===== verification/Kstore.thy ===== *)
theory Kstore
  imports Kobject
begin

text \<open>
  The store of kernel structures that the file system, the scheduler and the processes work on.
  The locale \<open>object_store\<close> states its contract: a new structure gets an address that holds none, no other
  structure changes, and releasing one removes exactly it. The model of \<^verbatim>\<open>kmalloc\<close>, \<^verbatim>\<open>kcalloc\<close> and
  \<^verbatim>\<open>kfree\<close> meets it.
\<close>

section \<open>Access\<close>

text \<open>An access returns exactly when the address holds a structure of the expected type.\<close>

named_theorems rd_simps \<open>accesses to structures\<close>

lemma rd_Inr [rd_simps]:
  "rd_node p s = Inr n \<longleftrightarrow> objs s p = Some (Node n)" "rd_entry p s = Inr e \<longleftrightarrow> objs s p = Some (Entry e)"
  "rd_fdesc p s = Inr d \<longleftrightarrow> objs s p = Some (Fdesc d)" "rd_fddir p s = Inr fd \<longleftrightarrow> objs s p = Some (Fddir fd)"
  "rd_task p s = Inr t \<longleftrightarrow> objs s p = Some (Task t)" "rd_process p s = Inr q \<longleftrightarrow> objs s p = Some (Process q)"
  by (auto simp: rd_node_def rd_entry_def rd_fdesc_def rd_fddir_def rd_task_def rd_process_def
      split: option.splits kobj.splits)

section \<open>What allocation keeps\<close>

text \<open>The operations of the heap change the fields of the memory managers and nothing else.\<close>

definition heap_erase :: "'z heap_state_scheme \<Rightarrow> 'z heap_state_scheme" where
  "heap_erase s = s\<lparr>bitmap_mem := [], kpmm_free_pages_amount := 0, pmem := (\<lambda>_ _. 0), mem := (\<lambda>_. 0),
     hdrs := Map.empty, kernel_heap_brk := 0, kernel_heap_lh := 0\<rparr>"

definition heap_frame :: "'z heap_state_scheme \<Rightarrow> 'z heap_state_scheme \<Rightarrow> bool" where
  "heap_frame s s' \<longleftrightarrow> heap_erase s' = heap_erase s"

lemma heap_frame_refl [simp, intro]: "heap_frame s s"
  by (simp add: heap_frame_def)

lemma heap_frame_trans [trans]: "heap_frame s t \<Longrightarrow> heap_frame t u \<Longrightarrow> heap_frame s u"
  by (simp add: heap_frame_def)

lemma heap_frame_upd [intro]:
  "heap_frame s t \<Longrightarrow> heap_frame s (t\<lparr>hdrs := h\<rparr>)"
  "heap_frame s t \<Longrightarrow> heap_frame s (t\<lparr>mem := mm\<rparr>)"
  "heap_frame s t \<Longrightarrow> heap_frame s (t\<lparr>kernel_heap_lh := lh, kernel_heap_brk := brk\<rparr>)"
  by (simp_all add: heap_frame_def heap_erase_def)

lemma heap_frame_fields:
  assumes "heap_frame s s'"
  shows "objs s' = objs s" "kvfs_root_mount_dir s' = kvfs_root_mount_dir s" "kvfs_cwd s' = kvfs_cwd s"
    "ktask_head s' = ktask_head s" "ktask_tail s' = ktask_tail s" "ktask_current s' = ktask_current s"
    "kscheduler_is_running s' = kscheduler_is_running s" "kprocess_pid_current s' = kprocess_pid_current s"
    "kbd s' = kbd s" "kbd_pending s' = kbd_pending s" "klog s' = klog s"
proof -
  note eq = assms [unfolded heap_frame_def heap_erase_def]
  show "objs s' = objs s" using arg_cong [OF eq, of objs] by simp
  show "kvfs_root_mount_dir s' = kvfs_root_mount_dir s" using arg_cong [OF eq, of kvfs_root_mount_dir] by simp
  show "kvfs_cwd s' = kvfs_cwd s" using arg_cong [OF eq, of kvfs_cwd] by simp
  show "ktask_head s' = ktask_head s" using arg_cong [OF eq, of ktask_head] by simp
  show "ktask_tail s' = ktask_tail s" using arg_cong [OF eq, of ktask_tail] by simp
  show "ktask_current s' = ktask_current s" using arg_cong [OF eq, of ktask_current] by simp
  show "kscheduler_is_running s' = kscheduler_is_running s" using arg_cong [OF eq, of kscheduler_is_running] by simp
  show "kprocess_pid_current s' = kprocess_pid_current s" using arg_cong [OF eq, of kprocess_pid_current] by simp
  show "kbd s' = kbd s" using arg_cong [OF eq, of kbd] by simp
  show "kbd_pending s' = kbd_pending s" using arg_cong [OF eq, of kbd_pending] by simp
  show "klog s' = klog s" using arg_cong [OF eq, of klog] by simp
qed

lemma vmm_frame_heap: "vmm_frame s s' \<Longrightarrow> heap_frame s s'"
  for s :: "'z heap_state_scheme"
  by (auto simp: vmm_frame_def heap_frame_def heap_erase_def)

lemma alloc_mark_frame: "alloc_mark n b s = Inr s' \<Longrightarrow> vmm_frame s s'"
  for s :: "'z vmm_state_scheme"
proof (induction n arbitrary: b s)
  case (Suc n)
  from Suc.prems obtain ok t where t: "kpmm_bitmap_set_value b OK_TRUE s = Inr (ok, t)"
    "alloc_mark n (b + 1) (t\<lparr>kpmm_free_pages_amount := kpmm_free_pages_amount t - 1\<rparr>) = Inr s'"
    by (auto simp: kres_simps)
  from t(1) have "\<exists>m. t = s\<lparr>bitmap_mem := m\<rparr>"
    by (auto simp: kpmm_bitmap_set_value_def Let_def split: if_splits)
  then have "vmm_frame s (t\<lparr>kpmm_free_pages_amount := kpmm_free_pages_amount t - 1\<rparr>)"
    unfolding vmm_frame_def by (elim exE) (intro exI [of _ "pmem s"] exI, simp)
  with Suc.IH [OF t(2)] show ?case using vmm_frame_trans by blast
qed simp

lemma alloc_pages_frame: "kpmm_alloc_pages n s = Inr (p, s') \<Longrightarrow> vmm_frame s s'"
  for s :: "'z vmm_state_scheme"
  by (auto simp: kpmm_alloc_pages_def kres_simps split: if_splits dest: alloc_mark_frame)

lemma map_page_table_frame: "map_page_table d flags s = Inr (b, s') \<Longrightarrow> vmm_frame s s'"
  unfolding map_page_table_def Let_def
  by (auto simp: kres_simps split: if_splits
      dest!: alloc_pages_frame vzero_keeps vwrite_frame intro: vmm_frame_trans)

lemma kvmm_map_page_frame: "kvmm_map_page v p flags s = Inr (ok, s') \<Longrightarrow> vmm_frame s s'"
  by (auto simp: kvmm_map_page_def Let_def kres_simps split: if_splits
      dest!: map_page_table_frame vwrite_frame intro: vmm_frame_trans)

lemma map_range_from_frame: "map_range_from n i v p flags s = Inr (ok, s') \<Longrightarrow> vmm_frame s s'"
proof (induction n arbitrary: i s)
  case (Suc n)
  then show ?case
    by (auto simp: kres_simps split: if_splits dest!: kvmm_map_page_frame intro: vmm_frame_trans)
qed simp

lemma wr_hdr_frame: "wr_hdr a h s = Inr s' \<Longrightarrow> heap_frame s s'"
  by (auto simp: wr_hdr_def split: if_splits)

lemma create_heap_header_frame:
  assumes "create_heap_header n s = Inr (p, s')"
  shows "heap_frame s s'"
  using assms unfolding create_heap_header_def Let_def kvmm_map_range_def
  by (auto simp: kres_simps split: if_splits
      dest!: alloc_pages_frame map_range_from_frame wr_hdr_frame vmm_frame_heap
      intro: heap_frame_trans intro!: heap_frame_upd)

lemma kmalloc_frame: "kmalloc n s = Inr (p, s') \<Longrightarrow> heap_frame s s'"
  by (auto simp: kmalloc_def Let_def kres_simps split: if_splits
      dest!: create_heap_header_frame wr_hdr_frame)

lemma kfree_frame: "kfree p s = Inr (ok, s') \<Longrightarrow> heap_frame s s'"
  by (auto simp: kfree_def Let_def kres_simps split: if_splits dest!: wr_hdr_frame)

text \<open>Writing bytes changes bytes only.\<close>

lemma memset_loop_mem: "memset_loop n a b s = Inr s' \<Longrightarrow> \<exists>f. s' = s\<lparr>mem := f\<rparr>"
proof (induction n arbitrary: a s)
  case 0
  then show ?case by (intro exI [of _ "mem s"]) simp
next
  case (Suc n)
  then show ?case by (fastforce simp: kres_simps wr8_def split: if_splits)
qed

lemma kmemset_mem: "kmemset a b n s = Inr (p, s') \<Longrightarrow> \<exists>f. s' = s\<lparr>mem := f\<rparr>"
  by (auto simp: kmemset_def kres_simps split: if_splits dest: memset_loop_mem intro: exI [of _ "mem s"])

lemma copy_up_mem: "copy_up n d a s = Inr s' \<Longrightarrow> \<exists>f. s' = s\<lparr>mem := f\<rparr>"
proof (induction n arbitrary: d a s)
  case 0
  then show ?case by (intro exI [of _ "mem s"]) simp
next
  case (Suc n)
  then show ?case by (fastforce simp: kres_simps wr8_def split: if_splits)
qed

lemma kmemcpy_mem: "kmemcpy d a n s = Inr (p, s') \<Longrightarrow> \<exists>f. s' = s\<lparr>mem := f\<rparr>"
  by (auto simp: kmemcpy_def kres_simps split: if_splits dest: copy_up_mem intro: exI [of _ "mem s"])

lemma kcalloc_frame: "kcalloc n s = Inr (p, s') \<Longrightarrow> heap_frame s s'"
  by (auto simp: kcalloc_def kres_simps split: if_splits dest!: kmalloc_frame kmemset_mem)


lemmas mem_frame = kmemset_mem kmemcpy_mem

section \<open>Invariant\<close>

text \<open>The addresses of the blocks in use.\<close>

definition held :: "'z heap_state_scheme \<Rightarrow> u32 set" where
  "held s = fst ` live_blocks s"

text \<open>Every structure lies in a block in use, and small requests cannot wrap around the address space.\<close>

definition obj_inv :: "'z kernel_state_scheme \<Rightarrow> bool" where
  "obj_inv s \<longleftrightarrow> heap_inv s \<and> unat (kernel_heap_limit s) + 2 ^ 15 \<le> 2 ^ 32 \<and>
     dom (objs s) \<subseteq> held s"

definition small_request :: "u32 \<Rightarrow> bool" where
  "small_request n \<longleftrightarrow> 0 < unat n \<and> unat n \<le> 2 ^ 14"

lemma heap_inv_objs [simp]:
  "heap_inv (s\<lparr>objs := ob\<rparr>) = heap_inv s" "live_blocks (s\<lparr>objs := ob\<rparr>) = live_blocks s"
  "held (s\<lparr>objs := ob\<rparr>) = held s"
  by (simp_all add: held_def heap_inv_def vmm_inv_def recursive_ok_def pmm_inv_def free_pages_def live_blocks_def
      mmu_translate_def pte_of_def pde_of_def pd_entry_def pt_entry_def)

lemma heap_mem_fields [simp]:
  "heap_inv (s\<lparr>mem := f\<rparr>) = heap_inv s" "live_blocks (s\<lparr>mem := f\<rparr>) = live_blocks s"
  "held (s\<lparr>mem := f\<rparr>) = held s"
  by (simp_all add: held_def heap_inv_def vmm_inv_def recursive_ok_def pmm_inv_def free_pages_def live_blocks_def
      mmu_translate_def pte_of_def pde_of_def pd_entry_def pt_entry_def)

lemma obj_inv_mem [simp]: "obj_inv (s\<lparr>mem := f\<rparr>) = obj_inv s"
  by (simp add: obj_inv_def)

lemma small_heap_request: "obj_inv s \<Longrightarrow> small_request n \<Longrightarrow> heap_request n s"
  by (simp add: obj_inv_def small_request_def heap_request_def)

lemma live_nonzero: "heap_inv s \<Longrightarrow> (0, m) \<notin> live_blocks s"
  using live_header [of s 0 m] by auto

lemma obj_nonzero: "obj_inv s \<Longrightarrow> objs s 0 = None"
  using live_nonzero [of s] by (force simp: obj_inv_def held_def)

section \<open>Allocation\<close>

lemma kmalloc_store:
  assumes inv: "obj_inv s" and n: "small_request n" and run: "kmalloc n s = Inr (p, s')"
  shows "obj_inv s'" and "objs s' = objs s" and "p \<noteq> 0 \<Longrightarrow> p \<notin> held s"
    and "if p = 0 then live_blocks s' = live_blocks s
      else \<exists>m \<ge> unat n. live_blocks s' = insert (p, m) (live_blocks s)"
    and "heap_frame s s'" and "mem s' = mem s"
proof -
  have h: "heap_inv s" "heap_request n s" using inv small_heap_request [OF inv n] by (simp_all add: obj_inv_def)
  note blk = kmalloc_block [OF h run]
  show fr: "heap_frame s s'" using run by (rule kmalloc_frame)
  show ob: "objs s' = objs s" using heap_frame_fields(1) [OF fr] .
  show "obj_inv s'"
  proof (cases "p = 0")
    case False
    then have "heap_inv s'" "kernel_heap_limit s' = kernel_heap_limit s"
      "held s \<subseteq> held s'" using blk(2) by (auto simp: held_def)
    then show ?thesis using inv ob unfolding obj_inv_def by (simp, blast)
  qed (use blk(1) inv in simp)
  show "p \<notin> held s" if "p \<noteq> 0" using blk(2) [OF that] by (simp add: held_def)
  show "if p = 0 then live_blocks s' = live_blocks s
      else \<exists>m \<ge> unat n. live_blocks s' = insert (p, m) (live_blocks s)" using blk by (cases "p = 0") simp_all
  show "mem s' = mem s" using blk by (cases "p = 0") auto
qed

lemma kmalloc_panics:
  assumes "obj_inv s" "small_request n" "kmalloc n s = Inl e"
  shows "e = Panic"
  using kmalloc_correct [of s n] small_heap_request [OF assms(1,2)] assms(1,3) by (simp add: obj_inv_def)

lemma kcalloc_store:
  assumes inv: "obj_inv s" and n: "small_request n"
  shows "kcalloc n s = Inl e \<Longrightarrow> e = Panic"
    and "kcalloc n s = Inr (p, s') \<Longrightarrow> obj_inv s' \<and> objs s' = objs s \<and> heap_frame s s' \<and>
      (p = 0 \<longrightarrow> live_blocks s' = live_blocks s) \<and>
      (p \<noteq> 0 \<longrightarrow> p \<notin> held s \<and> (\<exists>m. live_blocks s' = insert (p, m) (live_blocks s)) \<and>
        mem s' = filled (mem s) p 0 (unat (ALIGN_UP n 8)))"
proof -
  have h: "heap_inv s" "heap_request n s" using inv small_heap_request [OF inv n] by (simp_all add: obj_inv_def)
  have n0: "n \<noteq> 0" using n by (auto simp: small_request_def)
  consider e1 where "kmalloc n s = Inl e1" | s1 where "kmalloc n s = Inr (0, s1)"
    | q s1 where "kmalloc n s = Inr (q, s1)" "q \<noteq> 0"
    by (metis sum.exhaust surj_pair)
  then have "(kcalloc n s = Inl e \<longrightarrow> e = Panic) \<and>
    (kcalloc n s = Inr (p, s') \<longrightarrow> obj_inv s' \<and> objs s' = objs s \<and> heap_frame s s' \<and>
      (p = 0 \<longrightarrow> live_blocks s' = live_blocks s) \<and>
      (p \<noteq> 0 \<longrightarrow> p \<notin> held s \<and> (\<exists>m. live_blocks s' = insert (p, m) (live_blocks s)) \<and>
        mem s' = filled (mem s) p 0 (unat (ALIGN_UP n 8))))"
  proof cases
    case 1
    then show ?thesis using kmalloc_panics [OF inv n] n0 by (simp add: kcalloc_def)
  next
    case 2
    then show ?thesis using kmalloc_store [OF inv n 2] n0 by (auto simp: kcalloc_def kmemset_def)
  next
    case 3
    let ?t = "s1\<lparr>mem := filled (mem s) q 0 (unat (ALIGN_UP n 8))\<rparr>"
    note al = kmalloc_store [OF inv n 3(1)]
    have t: "obj_inv ?t" "objs ?t = objs s" "heap_frame s ?t" "\<exists>m. live_blocks ?t = insert (q, m) (live_blocks s)" "q \<notin> held s"
      "mem ?t = filled (mem s) q 0 (unat (ALIGN_UP n 8))"
      using al 3(2) by auto
    have eq: "kcalloc n s = Inr (q, ?t)" by (rule kcalloc_block [OF h 3])
    show ?thesis unfolding eq using t 3(2) by (metis Inl_Inr_False Inr_inject prod.inject)
  qed
  then show "kcalloc n s = Inl e \<Longrightarrow> e = Panic"
    and "kcalloc n s = Inr (p, s') \<Longrightarrow> obj_inv s' \<and> objs s' = objs s \<and> heap_frame s s' \<and>
      (p = 0 \<longrightarrow> live_blocks s' = live_blocks s) \<and>
      (p \<noteq> 0 \<longrightarrow> p \<notin> held s \<and> (\<exists>m. live_blocks s' = insert (p, m) (live_blocks s)) \<and>
        mem s' = filled (mem s) p 0 (unat (ALIGN_UP n 8)))" by blast+
qed

lemma obj_inv_wr:
  assumes "obj_inv s" "p \<in> held s"
  shows "obj_inv (wr_obj p ob s)"
  using assms by (auto simp: obj_inv_def wr_obj_def)

lemma kfree_store:
  assumes inv: "obj_inv s" and p: "p \<in> held s"
  shows "\<exists>s'. kfree p s = Inr (True, s') \<and> heap_inv s' \<and> heap_frame s s' \<and> mem s' = mem s \<and>
    kernel_heap_limit s' = kernel_heap_limit s \<and> live_blocks s' = {b \<in> live_blocks s. fst b \<noteq> p}"
proof -
  obtain m where m: "(p, m) \<in> live_blocks s" using p by (force simp: held_def)
  have h: "heap_inv s" using inv by (simp add: obj_inv_def)
  have one: "b = (p, m)" if "b \<in> live_blocks s" "fst b = p" for b
    using that m by (auto simp: live_blocks_def)
  obtain s' where s': "kfree p s = Inr (True, s')" "heap_inv s'" "live_blocks s' = live_blocks s - {(p, m)}"
    "mem s' = mem s" "kernel_heap_limit s' = kernel_heap_limit s"
    using kfree_live [OF h m] by blast
  moreover have "live_blocks s - {(p, m)} = {b \<in> live_blocks s. fst b \<noteq> p}"
    by (rule set_eqI) (metis (mono_tags, lifting) Diff_iff fst_conv mem_Collect_eq one singleton_iff)
  ultimately show ?thesis using kfree_frame [OF s'(1)] by (intro exI [of _ s']) simp
qed

section \<open>The contract\<close>

locale object_store =
  fixes make :: "u32 \<Rightarrow> 'o \<Rightarrow> 's \<Rightarrow> (u32 \<times> 's) kres"
    and drop_ob :: "u32 \<Rightarrow> 's \<Rightarrow> 's kres"
    and store_ob :: "u32 \<Rightarrow> 'o \<Rightarrow> 's \<Rightarrow> 's"
    and store :: "'s \<Rightarrow> u32 \<rightharpoonup> 'o"
    and inv :: "'s \<Rightarrow> bool"
    and fits :: "u32 \<Rightarrow> bool"
    and used :: "'s \<Rightarrow> (u32 \<times> nat) set"
    and rest :: "'s \<Rightarrow> 'r"
  assumes make_error: "inv s \<Longrightarrow> fits n \<Longrightarrow> make n ob s = Inl e \<Longrightarrow> e = Panic"
    and make_null: "inv s \<Longrightarrow> fits n \<Longrightarrow> make n ob s = Inr (0, s') \<Longrightarrow>
      inv s' \<and> store s' = store s \<and> used s' = used s \<and> rest s' = rest s"
    and make_new: "inv s \<Longrightarrow> fits n \<Longrightarrow> make n ob s = Inr (p, s') \<Longrightarrow> p \<noteq> 0 \<Longrightarrow>
      inv s' \<and> p \<notin> fst ` used s \<and> store s' = (store s)(p \<mapsto> ob) \<and>
      (\<exists>m. used s' = insert (p, m) (used s)) \<and> rest s' = rest s"
    and drop_it: "inv s \<Longrightarrow> store s p \<noteq> None \<Longrightarrow>
      \<exists>s'. drop_ob p s = Inr s' \<and> inv s' \<and> store s' = (store s)(p := None) \<and>
        used s' = {b \<in> used s. fst b \<noteq> p} \<and> rest s' = rest s"
    and store_it: "inv s \<Longrightarrow> store s p \<noteq> None \<Longrightarrow>
      inv (store_ob p ob s) \<and> store (store_ob p ob s) = (store s)(p \<mapsto> ob) \<and>
      used (store_ob p ob s) = used s \<and> rest (store_ob p ob s) = rest s"
    and stored_used: "inv s \<Longrightarrow> dom (store s) \<subseteq> fst ` used s"
begin

text \<open>The outcome of an allocation: the machine stops, nothing is stored, or one structure is added.\<close>

lemma make_cases:
  assumes "inv s" "fits n"
  obtains "make n ob s = Inl Panic"
  | s' where "make n ob s = Inr (0, s')" "inv s'" "store s' = store s" "used s' = used s" "rest s' = rest s"
  | p m s' where "make n ob s = Inr (p, s')" "p \<noteq> 0" "inv s'" "p \<notin> fst ` used s"
      "store s' = (store s)(p \<mapsto> ob)" "used s' = insert (p, m) (used s)" "rest s' = rest s"
proof (cases "make n ob s")
  case (Inl e)
  then show ?thesis using make_error [OF assms] that(1) by blast
next
  case (Inr r)
  obtain p s' where r: "r = (p, s')" by (cases r)
  show ?thesis
  proof (cases "p = 0")
    case False
    then show ?thesis using make_new [OF assms] Inr r that(3) by blast
  qed (use make_null [OF assms] Inr r that(2) in auto)
qed

text \<open>A structure that is allocated and released again leaves no trace in the store.\<close>

lemma make_drop:
  assumes "inv s" "fits n" "make n ob s = Inr (p, s')" "p \<noteq> 0"
  shows "\<exists>s''. drop_ob p s' = Inr s'' \<and> inv s'' \<and> store s'' = store s \<and> used s'' = used s \<and> rest s'' = rest s"
proof -
  note new = make_new [OF assms]
  then obtain s'' where s'': "drop_ob p s' = Inr s''" "inv s''" "store s'' = (store s')(p := None)"
    "used s'' = {b \<in> used s'. fst b \<noteq> p}" "rest s'' = rest s'"
    using drop_it [of s' p] by auto
  moreover have "{b \<in> used s'. fst b \<noteq> p} = used s" using new by auto
  moreover have "store s p = None" using new stored_used [OF assms(1)] by blast
  ultimately show ?thesis using new by (auto simp: fun_eq_iff)
qed

end

lemma held_insert [simp]: "live_blocks s' = insert (p, m) (live_blocks s) \<Longrightarrow> held s' = insert p (held s)"
  by (simp add: held_def)

text \<open>The part of the state outside the memory managers and the store.\<close>

definition obj_erase :: "'z kernel_state_scheme \<Rightarrow> 'z kernel_state_scheme" where
  "obj_erase s = (heap_erase s)\<lparr>objs := Map.empty\<rparr>"

lemma obj_erase_wr [simp]: "obj_erase (wr_obj p ob s) = obj_erase s"
  by (simp add: obj_erase_def heap_erase_def wr_obj_def)

lemma obj_erase_frame: "heap_frame s s' \<Longrightarrow> obj_erase s' = obj_erase s"
  by (simp add: obj_erase_def heap_frame_def)

lemma obj_erase_del [simp]: "obj_erase (s\<lparr>objs := f\<rparr>) = obj_erase s"
  by (simp add: obj_erase_def heap_erase_def)

lemma free_obj_store:
  assumes inv: "obj_inv s" and p: "p \<in> held s"
  shows "\<exists>s'. free_obj p s = Inr s' \<and> obj_inv s' \<and> objs s' = (objs s)(p := None) \<and>
    live_blocks s' = {b \<in> live_blocks s. fst b \<noteq> p} \<and> obj_erase s' = obj_erase s \<and> mem s' = mem s"
proof -
  obtain t where t: "kfree p s = Inr (True, t)" "heap_inv t" "heap_frame s t" "mem t = mem s"
    "kernel_heap_limit t = kernel_heap_limit s" "live_blocks t = {b \<in> live_blocks s. fst b \<noteq> p}"
    using kfree_store [OF inv p] by blast
  have ob: "objs t = objs s" using heap_frame_fields(1) [OF t(3)] .
  have held: "held t = held s - {p}" using t(6) by (auto simp: held_def)
  then have "obj_inv (t\<lparr>objs := (objs t)(p := None)\<rparr>)"
    using t ob inv by (auto simp: obj_inv_def)
  then show ?thesis using t ob by (simp add: free_obj_def obj_erase_frame)
qed

lemma wr_obj_store:
  assumes "obj_inv s" "p \<in> held s"
  shows "obj_inv (wr_obj p ob s) \<and> objs (wr_obj p ob s) = (objs s)(p \<mapsto> ob) \<and> live_blocks (wr_obj p ob s) = live_blocks s \<and>
    obj_erase (wr_obj p ob s) = obj_erase s"
  using obj_inv_wr [OF assms, of ob] by (simp add: wr_obj_def)

lemma objs_held: "obj_inv s \<Longrightarrow> objs s p \<noteq> None \<Longrightarrow> p \<in> held s"
  by (auto simp: obj_inv_def)

interpretation kobjs: object_store new_obj free_obj wr_obj objs obj_inv small_request live_blocks obj_erase
proof unfold_locales
  fix s s' :: "'z kernel_state_scheme" and n p :: u32 and ob :: kobj and e :: kerror
  assume inv: "obj_inv s"
  show "e = Panic" if "small_request n" "new_obj n ob s = Inl e"
    using that kmalloc_panics [OF inv that(1)] by (auto simp: new_obj_def kres_simps)
  show "obj_inv s' \<and> objs s' = objs s \<and> live_blocks s' = live_blocks s \<and> obj_erase s' = obj_erase s"
    if "small_request n" "new_obj n ob s = Inr (0, s')"
    using that kmalloc_store [OF inv that(1), of 0 s'] by (auto simp: new_obj_def kres_simps obj_erase_frame)
  show "obj_inv s' \<and> p \<notin> fst ` live_blocks s \<and> objs s' = (objs s)(p \<mapsto> ob) \<and>
      (\<exists>m. live_blocks s' = insert (p, m) (live_blocks s)) \<and> obj_erase s' = obj_erase s"
    if small: "small_request n" and run: "new_obj n ob s = Inr (p, s')" and nz: "p \<noteq> 0"
  proof -
    obtain t where t: "kmalloc n s = Inr (p, t)" "s' = wr_obj p ob t"
      using run nz by (auto simp: new_obj_def kres_simps)
    note al = kmalloc_store [OF inv small t(1)]
    obtain m where m: "live_blocks t = insert (p, m) (live_blocks s)" using al(4) nz by auto
    then have "p \<in> held t" by simp
    then show ?thesis using wr_obj_store [OF al(1), of p ob] al nz t(2) m
      by (auto simp: obj_erase_frame held_def)
  qed
  show "\<exists>s'. free_obj p s = Inr s' \<and> obj_inv s' \<and> objs s' = (objs s)(p := None) \<and>
      live_blocks s' = {b \<in> live_blocks s. fst b \<noteq> p} \<and> obj_erase s' = obj_erase s" if "objs s p \<noteq> None"
    using free_obj_store [OF inv objs_held [OF inv that]] by blast
  show "obj_inv (wr_obj p ob s) \<and> objs (wr_obj p ob s) = (objs s)(p \<mapsto> ob) \<and> live_blocks (wr_obj p ob s) = live_blocks s \<and>
      obj_erase (wr_obj p ob s) = obj_erase s" if "objs s p \<noteq> None"
    using wr_obj_store [OF inv objs_held [OF inv that]] .
  show "dom (objs s) \<subseteq> fst ` live_blocks s" using inv by (simp add: obj_inv_def held_def)
qed

interpretation kcobjs: object_store cnew_obj free_obj wr_obj objs obj_inv small_request live_blocks obj_erase
proof unfold_locales
  fix s s' :: "'z kernel_state_scheme" and n p :: u32 and ob :: kobj and e :: kerror
  assume inv: "obj_inv s"
  show "e = Panic" if "small_request n" "cnew_obj n ob s = Inl e"
    using that kcalloc_store(1) [OF inv that(1)] by (auto simp: cnew_obj_def kres_simps)
  show "obj_inv s' \<and> objs s' = objs s \<and> live_blocks s' = live_blocks s \<and> obj_erase s' = obj_erase s"
    if "small_request n" "cnew_obj n ob s = Inr (0, s')"
    using that kcalloc_store(2) [OF inv that(1), of 0 s'] by (auto simp: cnew_obj_def kres_simps obj_erase_frame)
  show "obj_inv s' \<and> p \<notin> fst ` live_blocks s \<and> objs s' = (objs s)(p \<mapsto> ob) \<and>
      (\<exists>m. live_blocks s' = insert (p, m) (live_blocks s)) \<and> obj_erase s' = obj_erase s"
    if small: "small_request n" and run: "cnew_obj n ob s = Inr (p, s')" and nz: "p \<noteq> 0"
  proof -
    obtain t where t: "kcalloc n s = Inr (p, t)" "s' = wr_obj p ob t"
      using run nz by (auto simp: cnew_obj_def kres_simps)
    note al = kcalloc_store(2) [OF inv small t(1)]
    then obtain m where m: "live_blocks t = insert (p, m) (live_blocks s)" using nz by auto
    then have "p \<in> held t" "obj_inv t" using al by simp_all
    then show ?thesis using wr_obj_store [of t p ob] al nz t(2) m by (auto simp: obj_erase_frame held_def)
  qed
  show "\<exists>s'. free_obj p s = Inr s' \<and> obj_inv s' \<and> objs s' = (objs s)(p := None) \<and>
      live_blocks s' = {b \<in> live_blocks s. fst b \<noteq> p} \<and> obj_erase s' = obj_erase s" if "objs s p \<noteq> None"
    using free_obj_store [OF inv objs_held [OF inv that]] by blast
  show "obj_inv (wr_obj p ob s) \<and> objs (wr_obj p ob s) = (objs s)(p \<mapsto> ob) \<and> live_blocks (wr_obj p ob s) = live_blocks s \<and>
      obj_erase (wr_obj p ob s) = obj_erase s" if "objs s p \<noteq> None"
    using wr_obj_store [OF inv objs_held [OF inv that]] .
  show "dom (objs s) \<subseteq> fst ` live_blocks s" using inv by (simp add: obj_inv_def held_def)
qed

end
