(* ===== verification/Tmpfs.thy ===== *)
theory Tmpfs
  imports Chrdev
begin

text \<open>
  The in-memory file system (\<^verbatim>\<open>src/kernel/fs/tmpfs\<close>). A directory is the list of its children, linked
  through \<open>e_next\<close> from \<open>child\<close>; the contents of a file are the bytes at \<open>data_ptr\<close> in kernel memory.
  String arguments are the characters before the terminator, \<open>None\<close> a \<^verbatim>\<open>NULL\<close> pointer.
\<close>

section \<open>Sizes\<close>

text \<open>\<^verbatim>\<open>sizeof\<close> of the structures on the 32-bit target.\<close>

definition sizeof_vfs_node :: u32 where "sizeof_vfs_node = 16"

definition sizeof_tmpfs_entry :: u32 where "sizeof_tmpfs_entry = 324"

text \<open>\<^verbatim>\<open>kstrcpy\<close> into an array of \<^verbatim>\<open>KVFS_MAX_NAME_LEN\<close> characters.\<close>

definition copy_name :: "string \<Rightarrow> string kres" where
  "copy_name name = (if length name < 255 then Inr name else Inl Overrun)"

text \<open>\<^verbatim>\<open>_dir._child\<close> of the union: the word a file keeps its data pointer in.\<close>

definition get_child :: "tmpfs_body \<Rightarrow> u32 kres" where
  "get_child b = (case b of Dir c \<Rightarrow> Inr c | File d _ _ \<Rightarrow> Inr d | Chr _ _ _ \<Rightarrow> Inl PageFault)"

definition set_child :: "u32 \<Rightarrow> tmpfs_body \<Rightarrow> tmpfs_body kres" where
  "set_child c b =
    (case b of Dir _ \<Rightarrow> Inr (Dir c) | File _ n m \<Rightarrow> Inr (File c n m) | Chr _ _ _ \<Rightarrow> Inl PageFault)"

section \<open>Helpers\<close>

definition kvfs_get_fs :: "string option \<Rightarrow> vfs_fs option" where
  "kvfs_get_fs name = (case name of None \<Rightarrow> None | Some n \<Rightarrow> if n = ''tmpfs'' then Some Tmpfs_fs else None)"

definition ktmpfs_create_vfs_node :: "u32 \<Rightarrow> 'z kernel_state_scheme \<Rightarrow> (u32 \<times> 'z kernel_state_scheme) kres" where
  "ktmpfs_create_vfs_node entry s =
    (if entry = 0 then Inr (0, s)
     else
       let fs = kvfs_get_fs (Some ''tmpfs'') in
       if fs = None then bindE (kmalloc sizeof_vfs_node s) (\<lambda>(_, s). Inr (0, s))
       else new_obj sizeof_vfs_node
         (Node \<lparr>n_refcount = 1, n_ops = Some Ktmpfs_operations, n_fs = fs, n_private = entry\<rparr>) s)"

text \<open>The union's member the mode selects.\<close>

definition new_body :: "u32 \<Rightarrow> tmpfs_body" where
  "new_body mode =
    (if KVFS_STAT_ISDIR mode then Dir 0
     else if KVFS_STAT_ISCHR mode then Chr None None 0
     else File 0 0 0)"

definition ktmpfs_create_entry ::
    "u32 \<Rightarrow> string option \<Rightarrow> u32 \<Rightarrow> 'z kernel_state_scheme \<Rightarrow> (u32 \<times> 'z kernel_state_scheme) kres" where
  "ktmpfs_create_entry parent name mode s =
    (case name of
       None \<Rightarrow> Inr (0, s)
     | Some nm \<Rightarrow>
         if parent = 0 then Inr (0, s)
         else
           bindE (rd_entry parent s) (\<lambda>pe.
           if \<not> KVFS_STAT_ISDIR (st_mode (e_stat pe)) then Inr (0, s)
           else
             bindE (get_child (e_body pe)) (\<lambda>next.
             bindE (cnew_obj sizeof_tmpfs_entry
               (Entry \<lparr>e_name = nm, e_stat = kvfs_stat_create mode, e_parent = parent,
                       e_body = new_body mode, e_next = next\<rparr>) s) (\<lambda>(entry, s).
             if entry = 0 then Inr (0, s)
             else
               bindE (copy_name nm) (\<lambda>_.
               bindE (set_child entry (e_body pe)) (\<lambda>b.
               Inr (entry, wr_obj parent (Entry (pe\<lparr>e_body := b\<rparr>)) s)))))))"

text \<open>The walk along the children, with the entry before the current one.\<close>

partial_function (option) remove_scan ::
    "u32 \<Rightarrow> u32 \<Rightarrow> u32 \<Rightarrow> 'z kernel_state_scheme \<Rightarrow> (u32 \<times> u32) kres option" where
  "remove_scan entry prev tmp s =
    (if tmp = entry \<or> tmp = 0 then Some (Inr (prev, tmp))
     else case rd_entry tmp s of
       Inl e \<Rightarrow> Some (Inl e)
     | Inr t \<Rightarrow> remove_scan entry tmp (e_next t) s)"

definition ktmpfs_remove_from_parent_ll ::
    "u32 \<Rightarrow> u32 \<Rightarrow> 'z kernel_state_scheme \<Rightarrow> (bool \<times> 'z kernel_state_scheme) kres" where
  "ktmpfs_remove_from_parent_ll parent entry s =
    (if parent = 0 \<or> entry = 0 then Inr (False, s)
     else
       bindE (rd_entry parent s) (\<lambda>pe.
       bindE (get_child (e_body pe)) (\<lambda>first.
       bindE (returned (remove_scan entry 0 first s)) (\<lambda>(prev, tmp).
       if tmp = 0 then Inr (False, s)
       else
         bindE (rd_entry tmp s) (\<lambda>te.
         bindE (if prev = 0
                then bindE (set_child (e_next te) (e_body pe)) (\<lambda>b.
                     Inr (wr_obj parent (Entry (pe\<lparr>e_body := b\<rparr>)) s))
                else bindE (rd_entry prev s) (\<lambda>pv.
                     Inr (wr_obj prev (Entry (pv\<lparr>e_next := e_next te\<rparr>)) s))) (\<lambda>s.
         bindE (free_obj tmp s) (\<lambda>s.
         bindE (rd_entry parent s) (\<lambda>pe.
         Inr (True, wr_obj parent (Entry (pe\<lparr>e_stat := kvfs_stat_dec_nlink (e_stat pe)\<rparr>)) s)))))))))"

section \<open>Mounting\<close>

text \<open>
  \<open>loc\<close> is never \<^verbatim>\<open>NULL\<close>: \<^verbatim>\<open>kvfs_mount\<close> returns before the call when it is. \<^verbatim>\<open>kstrcpy\<close> returns its
  destination, so the branch that frees the entry again is never taken.
\<close>

definition create_root_entry :: "string \<Rightarrow> 'z kernel_state_scheme \<Rightarrow> (u32 \<times> 'z kernel_state_scheme) kres" where
  "create_root_entry loc s =
    bindE (new_obj sizeof_tmpfs_entry
      (Entry \<lparr>e_name = loc, e_stat = kvfs_stat_create (0x1ED OR KVFS_STAT_IFDIR), e_parent = 0,
              e_body = Dir 0, e_next = 0\<rparr>) s) (\<lambda>(p, s).
    if p = 0 then Inr (0, s) else bindE (copy_name loc) (\<lambda>_. Inr (p, s)))"

definition ktmpfs_mount :: "string \<Rightarrow> 'z kernel_state_scheme \<Rightarrow> (u32 \<times> 'z kernel_state_scheme) kres" where
  "ktmpfs_mount loc s =
    bindE (create_root_entry loc s) (\<lambda>(root_entry, s).
    if root_entry = 0 then Inr (0, s)
    else
      bindE (ktmpfs_create_vfs_node root_entry s) (\<lambda>(root_node, s).
      if root_node = 0 then bindE (free_obj root_entry s) (\<lambda>s. Inr (0, s))
      else Inr (root_node, s)))"

section \<open>Operations on directories\<close>

partial_function (option) find_child ::
    "string \<Rightarrow> u32 \<Rightarrow> 'z kernel_state_scheme \<Rightarrow> u32 kres option" where
  "find_child name c s =
    (if c = 0 then Some (Inr 0)
     else case rd_entry c s of
       Inl e \<Rightarrow> Some (Inl e)
     | Inr ce \<Rightarrow> if e_name ce = name then Some (Inr c) else find_child name (e_next ce) s)"

definition ktmpfs_lookup ::
    "u32 \<Rightarrow> string option \<Rightarrow> 'z kernel_state_scheme \<Rightarrow> (u32 \<times> 'z kernel_state_scheme) kres" where
  "ktmpfs_lookup node next_level s =
    (case next_level of
       None \<Rightarrow> Inr (0, s)
     | Some name \<Rightarrow>
         if node = 0 then Inr (0, s)
         else
           bindE (rd_node node s) (\<lambda>n.
           if n_private n = 0 then Inr (0, s)
           else
             bindE (rd_entry (n_private n) s) (\<lambda>e.
             if \<not> KVFS_STAT_ISDIR (st_mode (e_stat e)) then Inr (0, s)
             else if name = ''.'' then ktmpfs_create_vfs_node (n_private n) s
             else if name = ''..'' then
               ktmpfs_create_vfs_node (if e_parent e = 0 then n_private n else e_parent e) s
             else
               bindE (get_child (e_body e)) (\<lambda>first.
               bindE (returned (find_child name first s)) (\<lambda>c.
               ktmpfs_create_vfs_node c s)))))"

text \<open>\<^verbatim>\<open>kvfs_stat_inc_nlink(&parent->_private->_stat)\<close>.\<close>

definition inc_parent_nlink :: "u32 \<Rightarrow> 'z kernel_state_scheme \<Rightarrow> 'z kernel_state_scheme kres" where
  "inc_parent_nlink p s =
    bindE (rd_entry p s) (\<lambda>e. Inr (wr_obj p (Entry (e\<lparr>e_stat := kvfs_stat_inc_nlink (e_stat e)\<rparr>)) s))"

definition ktmpfs_create ::
    "u32 \<Rightarrow> string option \<Rightarrow> u32 \<Rightarrow> 'z kernel_state_scheme \<Rightarrow> (bool \<times> 'z kernel_state_scheme) kres" where
  "ktmpfs_create parent name mode s =
    (if parent = 0 \<or> name = None then Inr (False, s)
     else
       bindE (rd_node parent s) (\<lambda>n.
       bindE (ktmpfs_create_entry (n_private n) name mode s) (\<lambda>(p, s).
       if p = 0 then Inr (False, s)
       else bindE (inc_parent_nlink (n_private n) s) (\<lambda>s. Inr (True, s)))))"

definition ktmpfs_mkdir ::
    "u32 \<Rightarrow> string option \<Rightarrow> u32 \<Rightarrow> 'z kernel_state_scheme \<Rightarrow> (bool \<times> 'z kernel_state_scheme) kres" where
  "ktmpfs_mkdir parent name mode s =
    (let mode = KVFS_STAT_MODE_MASK_IT mode in
     if parent = 0 \<or> name = None then Inr (False, s)
     else
       bindE (rd_node parent s) (\<lambda>n.
       bindE (ktmpfs_create_entry (n_private n) name (mode OR KVFS_STAT_IFDIR) s) (\<lambda>(p, s).
       if p = 0 then Inr (False, s)
       else bindE (inc_parent_nlink (n_private n) s) (\<lambda>s. Inr (True, s)))))"

definition ktmpfs_rmdir :: "u32 \<Rightarrow> 'z kernel_state_scheme \<Rightarrow> (bool \<times> 'z kernel_state_scheme) kres" where
  "ktmpfs_rmdir dir s =
    (if dir = 0 then Inr (False, s)
     else
       bindE (rd_node dir s) (\<lambda>n.
       if n_private n = 0 then Inr (False, s)
       else
         bindE (rd_entry (n_private n) s) (\<lambda>e.
         if e_parent e = 0 then Inr (False, s)
         else
           bindE (get_child (e_body e)) (\<lambda>c.
           if c \<noteq> 0 then Inr (False, s)
           else ktmpfs_remove_from_parent_ll (e_parent e) (n_private n) s))))"

definition ktmpfs_unlink :: "u32 \<Rightarrow> 'z kernel_state_scheme \<Rightarrow> (bool \<times> 'z kernel_state_scheme) kres" where
  "ktmpfs_unlink node s =
    (if node = 0 then Inr (False, s)
     else
       bindE (rd_node node s) (\<lambda>n.
       if n_private n = 0 then Inr (False, s)
       else
         bindE (rd_entry (n_private n) s) (\<lambda>e.
         if e_parent e = 0 then Inr (False, s)
         else ktmpfs_remove_from_parent_ll (e_parent e) (n_private n) s)))"

record dirent =
  de_inode :: u32
  de_type :: u32
  de_name :: string

definition fill_out_dirent :: "dirent \<Rightarrow> u32 \<Rightarrow> 'z kernel_state_scheme \<Rightarrow> (bool \<times> dirent) kres" where
  "fill_out_dirent dirent res s =
    (if res = 0 then Inr (False, dirent)
     else bindE (rd_entry res s) (\<lambda>e.
       Inr (True, \<lparr>de_inode = 0, de_type = KVFS_STAT_TYPE (st_mode (e_stat e)), de_name = e_name e\<rparr>)))"

fun readdir_skip :: "nat \<Rightarrow> u32 \<Rightarrow> 'z kernel_state_scheme \<Rightarrow> u32 kres" where
  "readdir_skip 0 c s = Inr c"
| "readdir_skip (Suc index) c s =
    (if c = 0 then Inr 0 else bindE (rd_entry c s) (\<lambda>e. readdir_skip index (e_next e) s))"

text \<open>
  \<open>dirent\<close> is what the pointer refers to, \<open>None\<close> when it is \<^verbatim>\<open>NULL\<close>. The result is the return value, the
  contents of \<open>dirent\<close>, the new offset and the state.
\<close>

definition ktmpfs_readdir ::
    "u32 \<Rightarrow> u32 \<Rightarrow> dirent option \<Rightarrow> 'z kernel_state_scheme
      \<Rightarrow> (bool \<times> dirent option \<times> u32 \<times> 'z kernel_state_scheme) kres" where
  "ktmpfs_readdir dir offset dirent s =
    (case dirent of
       None \<Rightarrow> Inr (False, None, offset, s)
     | Some d \<Rightarrow>
         if dir = 0 then Inr (False, Some d, offset, s)
         else
           bindE (rd_node dir s) (\<lambda>n.
           bindE (rd_entry (n_private n) s) (\<lambda>e.
           bindE (get_child (e_body e)) (\<lambda>first.
           let s = wr_obj (n_private n) (Entry (e\<lparr>e_stat := kvfs_stat_update_atime (e_stat e)\<rparr>)) s in
           bindE (readdir_skip (unat offset) first s) (\<lambda>c.
           bindE (fill_out_dirent d c s) (\<lambda>(ok, d).
           Inr (ok, Some d, offset + 1, s)))))))"

text \<open>\<open>dst\<close> is what \<^verbatim>\<open>stat_ptr\<close> points to, \<open>None\<close> when it is \<^verbatim>\<open>NULL\<close>.\<close>

definition ktmpfs_stat :: "u32 \<Rightarrow> vfs_stat option \<Rightarrow> 'z kernel_state_scheme \<Rightarrow> (bool \<times> vfs_stat option) kres" where
  "ktmpfs_stat node dst s =
    (case dst of
       None \<Rightarrow> Inr (False, None)
     | Some d \<Rightarrow>
         if node = 0 then Inr (False, Some d)
         else
           bindE (rd_node node s) (\<lambda>n.
           bindE (rd_entry (n_private n) s) (\<lambda>e.
           Inr (True, Some (kvfs_stat_copy d (e_stat e))))))"

section \<open>Operations on files\<close>

definition ktmpfs_read ::
    "u32 \<Rightarrow> u32 \<Rightarrow> u32 \<Rightarrow> u32 \<Rightarrow> 'z kernel_state_scheme \<Rightarrow> (u32 \<times> u32 \<times> 'z kernel_state_scheme) kres" where
  "ktmpfs_read node offset buffer len s =
    (if node = 0 \<or> buffer = 0 \<or> len = 0 then Inr (0, offset, s)
     else
       bindE (rd_node node s) (\<lambda>n.
       if n_private n = 0 then Inr (0, offset, s)
       else
         bindE (rd_entry (n_private n) s) (\<lambda>e.
         if KVFS_STAT_ISCHR (st_mode (e_stat e)) then
           (case e_body e of
              Chr None _ _ \<Rightarrow> Inr (0, offset, s)
            | Chr (Some Kfs_keyboard_read) _ _ \<Rightarrow> kfs_keyboard_read node offset buffer len s
            | _ \<Rightarrow> Inl PageFault)
         else if \<not> KVFS_STAT_ISREG (st_mode (e_stat e)) then
           Inr (0, offset, klog_put ''tmpfs: cannot read on an entry which is not a file'' s)
         else
           (case e_body e of
              File data sz cap \<Rightarrow>
                if offset > sz then Inr (0, offset, s)
                else
                  let read_content = (if sz - offset > len then len else sz - offset) in
                  bindE (kmemcpy buffer (data + offset) read_content s) (\<lambda>(_, s).
                  bindE (rd_entry (n_private n) s) (\<lambda>e.
                  Inr (read_content, offset + read_content,
                    wr_obj (n_private n) (Entry (e\<lparr>e_stat := kvfs_stat_update_atime (e_stat e)\<rparr>)) s)))
            | _ \<Rightarrow> Inl PageFault))))"

definition ktmpfs_write ::
    "u32 \<Rightarrow> u32 \<Rightarrow> u32 \<Rightarrow> u32 \<Rightarrow> 'z kernel_state_scheme \<Rightarrow> (u32 \<times> u32 \<times> 'z kernel_state_scheme) kres" where
  "ktmpfs_write node offset buffer len s =
    (if node = 0 \<or> buffer = 0 \<or> len = 0 then Inr (0, offset, s)
     else
       bindE (rd_node node s) (\<lambda>n.
       if n_private n = 0 then Inr (0, offset, s)
       else
         bindE (rd_entry (n_private n) s) (\<lambda>e.
         if KVFS_STAT_ISCHR (st_mode (e_stat e)) then
           (case e_body e of
              Chr _ None _ \<Rightarrow> Inr (0, offset, s)
            | Chr _ (Some Kfs_vga_write) _ \<Rightarrow> kfs_vga_write node offset buffer len s
            | _ \<Rightarrow> Inl PageFault)
         else if \<not> KVFS_STAT_ISREG (st_mode (e_stat e)) then
           Inr (0, offset, klog_put ''tmpfs: cannot write on an entry which is not a file'' s)
         else
           (case e_body e of
              File data sz cap \<Rightarrow>
                let new_size = offset + len in
                bindE (if new_size > cap
                       then bindE (krealloc data new_size s) (\<lambda>(tmp_ptr, s).
                            Inr (if tmp_ptr = 0 then None else Some (tmp_ptr, new_size), s))
                       else Inr (Some (data, cap), s)) (\<lambda>(grown, s).
                case grown of
                  None \<Rightarrow>
                    Inr (0, offset, klog_put ''tmpfs: failed to write on an entry, due to a failed realloc'' s)
                | Some (data, cap) \<Rightarrow>
                    bindE (kmemcpy (data + offset) buffer len s) (\<lambda>(_, s).
                    let sz = (if new_size > sz then new_size else sz) in
                    Inr (len, offset + len,
                      wr_obj (n_private n)
                        (Entry (e\<lparr>e_body := File data sz cap,
                                  e_stat := kvfs_stat_update_size sz (e_stat e)\<rparr>)) s)))
            | _ \<Rightarrow> Inl PageFault))))"

end
