(* ===== verification/Tmpfs_Tree.thy ===== *)
theory Tmpfs_Tree
  imports Tmpfs Kstore
begin

text \<open>
  Correctness of the in-memory file system. A directory is the list of the entries that its chain of
  \<open>e_next\<close> pointers reaches; \<open>tree_inv\<close> says that every directory is such a list, that every entry is in the list of
  its parent, and that the member of the union an entry uses is the one its mode names. Creating, finding and removing
  entries are shown to be the operations on these lists.
\<close>

section \<open>Lists of children\<close>

fun siblings :: "(u32 \<rightharpoonup> kobj) \<Rightarrow> u32 \<Rightarrow> u32 list \<Rightarrow> bool" where
  "siblings m c [] \<longleftrightarrow> c = 0"
| "siblings m c (a # as) \<longleftrightarrow> c = a \<and> a \<noteq> 0 \<and> (\<exists>e. m a = Some (Entry e) \<and> siblings m (e_next e) as)"

definition dir_lists :: "(u32 \<rightharpoonup> kobj) \<Rightarrow> u32 \<Rightarrow> u32 list \<Rightarrow> bool" where
  "dir_lists m d cs \<longleftrightarrow> (\<exists>e c. m d = Some (Entry e) \<and> e_body e = Dir c \<and> siblings m c cs)"

text \<open>The member of the union that a mode selects.\<close>

definition body_ok :: "u32 \<Rightarrow> tmpfs_body \<Rightarrow> bool" where
  "body_ok mode b =
    (case b of Dir _ \<Rightarrow> KVFS_STAT_ISDIR mode
     | Chr _ _ _ \<Rightarrow> KVFS_STAT_ISCHR mode
     | File _ _ _ \<Rightarrow> \<not> KVFS_STAT_ISDIR mode \<and> \<not> KVFS_STAT_ISCHR mode)"

definition entry_ok :: "(u32 \<rightharpoonup> kobj) \<Rightarrow> u32 \<Rightarrow> tmpfs_entry \<Rightarrow> bool" where
  "entry_ok m d e \<longleftrightarrow> body_ok (st_mode (e_stat e)) (e_body e) \<and> e_parent e \<noteq> d \<and>
     (\<forall>c. e_body e = Dir c \<longrightarrow>
        (\<exists>cs. siblings m c cs \<and> (\<forall>a \<in> set cs. \<exists>ce. m a = Some (Entry ce) \<and> e_parent ce = d))) \<and>
     (e_parent e \<noteq> 0 \<longrightarrow> (\<exists>cs. dir_lists m (e_parent e) cs \<and> d \<in> set cs))"

definition tree_inv :: "'z kernel_state_scheme \<Rightarrow> bool" where
  "tree_inv s \<longleftrightarrow> obj_inv s \<and> (\<forall>d e. objs s d = Some (Entry e) \<longrightarrow> entry_ok (objs s) d e)"

lemma siblings_unique: "siblings m c as \<Longrightarrow> siblings m c bs \<Longrightarrow> as = bs"
proof (induction as arbitrary: c bs)
  case Nil
  then show ?case by (cases bs) auto
next
  case (Cons a as)
  then show ?case by (cases bs) auto
qed

lemma siblings_suffix: "siblings m c (as @ b # bs) \<Longrightarrow> siblings m b (b # bs)"
  by (induction as arbitrary: c) auto

lemma siblings_distinct: "siblings m c as \<Longrightarrow> distinct as"
proof (induction as arbitrary: c)
  case (Cons a as)
  from Cons.prems obtain e where e: "m a = Some (Entry e)" "siblings m (e_next e) as" by auto
  have "a \<notin> set as"
  proof
    assume "a \<in> set as"
    then obtain us vs where "as = us @ a # vs" by (auto simp: in_set_conv_decomp)
    moreover from this e have "siblings m a (a # vs)" using siblings_suffix by fast
    moreover have "siblings m a (a # as)" using Cons.prems by simp
    ultimately have "vs = as" using siblings_unique [of m a "a # vs" "a # as"] by blast
    then show False using \<open>as = us @ a # vs\<close> by simp
  qed
  then show ?case using Cons.IH [OF e(2)] by simp
qed simp

text \<open>Only the links of the entries of a list matter.\<close>

lemma siblings_cong:
  assumes "siblings m c cs"
    and "\<And>a e. a \<in> set cs \<Longrightarrow> m a = Some (Entry e) \<Longrightarrow> \<exists>e'. m' a = Some (Entry e') \<and> e_next e' = e_next e"
  shows "siblings m' c cs"
  using assms
proof (induction cs arbitrary: c)
  case (Cons a cs)
  from Cons.prems(1) obtain e where e: "c = a" "a \<noteq> 0" "m a = Some (Entry e)" "siblings m (e_next e) cs" by auto
  with Cons.prems(2) obtain e' where "m' a = Some (Entry e')" "e_next e' = e_next e" by fastforce
  with e Cons.IH [OF e(4)] Cons.prems(2) show ?case by auto
qed simp

lemma dir_lists_unique: "dir_lists m d as \<Longrightarrow> dir_lists m d bs \<Longrightarrow> as = bs"
  by (auto simp: dir_lists_def dest: siblings_unique)

lemma dir_lists_distinct: "dir_lists m d cs \<Longrightarrow> distinct cs"
  unfolding dir_lists_def using siblings_distinct by blast

lemma dir_lists_entries: "dir_lists m d cs \<Longrightarrow> a \<in> set cs \<Longrightarrow> a \<noteq> 0 \<and> (\<exists>e. m a = Some (Entry e))"
proof -
  have "siblings m c cs \<Longrightarrow> a \<in> set cs \<Longrightarrow> a \<noteq> 0 \<and> (\<exists>e. m a = Some (Entry e))" for c
    by (induction cs arbitrary: c) auto
  then show "dir_lists m d cs \<Longrightarrow> a \<in> set cs \<Longrightarrow> a \<noteq> 0 \<and> (\<exists>e. m a = Some (Entry e))"
    by (auto simp: dir_lists_def)
qed

text \<open>A change of the store that keeps the links and the directory heads keeps the lists.\<close>

definition same_links :: "(u32 \<rightharpoonup> kobj) \<Rightarrow> (u32 \<rightharpoonup> kobj) \<Rightarrow> bool" where
  "same_links m m' \<longleftrightarrow> (\<forall>a e. m a = Some (Entry e) \<longrightarrow>
     (\<exists>e'. m' a = Some (Entry e') \<and> e_next e' = e_next e \<and> e_parent e' = e_parent e \<and>
       body_ok (st_mode (e_stat e')) (e_body e') = body_ok (st_mode (e_stat e)) (e_body e) \<and>
       (\<forall>c. e_body e' = Dir c \<longleftrightarrow> e_body e = Dir c)))"

lemma same_linksE:
  assumes "same_links m m'" "m a = Some (Entry e)"
  obtains e' where "m' a = Some (Entry e')" "e_next e' = e_next e" "e_parent e' = e_parent e"
    "body_ok (st_mode (e_stat e')) (e_body e') = body_ok (st_mode (e_stat e)) (e_body e)"
    "\<And>c. e_body e' = Dir c \<longleftrightarrow> e_body e = Dir c"
  using assms unfolding same_links_def by blast

lemma same_links_siblings: "same_links m m' \<Longrightarrow> siblings m c cs \<Longrightarrow> siblings m' c cs"
  by (erule siblings_cong) (metis same_linksE)

lemma same_links_lists: "same_links m m' \<Longrightarrow> dir_lists m d cs \<Longrightarrow> dir_lists m' d cs"
  unfolding dir_lists_def using same_links_siblings by (metis same_linksE)

lemma same_links_entry_ok:
  assumes "same_links m m'" "entry_ok m d e" "m d = Some (Entry e)" "m' d = Some (Entry e')"
  shows "entry_ok m' d e'"
proof -
  have e': "e_parent e' = e_parent e" "body_ok (st_mode (e_stat e')) (e_body e')"
    "\<And>c. e_body e' = Dir c \<longleftrightarrow> e_body e = Dir c"
    using same_linksE [OF assms(1,3)] assms(2,4) unfolding entry_ok_def by (metis kobj.inject(2) option.inject)+
  have "\<exists>cs. siblings m' c cs \<and> (\<forall>a \<in> set cs. \<exists>ce. m' a = Some (Entry ce) \<and> e_parent ce = d)" if "e_body e = Dir c" for c
  proof -
    obtain cs where "siblings m c cs" "\<forall>a \<in> set cs. \<exists>ce. m a = Some (Entry ce) \<and> e_parent ce = d"
      using assms(2) \<open>e_body e = Dir c\<close> by (auto simp: entry_ok_def)
    then show ?thesis using same_links_siblings [OF assms(1)] same_linksE [OF assms(1)] by metis
  qed
  moreover have "\<exists>cs. dir_lists m' (e_parent e) cs \<and> d \<in> set cs" if "e_parent e \<noteq> 0"
    using that assms(2) same_links_lists [OF assms(1)] unfolding entry_ok_def by blast
  ultimately show ?thesis using e' assms(2) by (simp add: entry_ok_def)
qed

text \<open>So does a store that differs in other structures only.\<close>

lemma tree_inv_links:
  assumes "tree_inv s" "obj_inv s'" "same_links (objs s) (objs s')"
    and "\<And>a e. objs s' a = Some (Entry e) \<Longrightarrow> \<exists>e0. objs s a = Some (Entry e0)"
  shows "tree_inv s'"
  unfolding tree_inv_def
proof (intro conjI allI impI)
  fix d e assume d: "objs s' d = Some (Entry e)"
  then obtain e0 where "objs s d = Some (Entry e0)" using assms(4) by blast
  then show "entry_ok (objs s') d e"
    using same_links_entry_ok [OF assms(3) _ _ d] assms(1) by (simp add: tree_inv_def)
qed (use assms(2) in simp)

section \<open>Inserting and removing in a list\<close>

abbreviation tree_ok :: "(u32 \<rightharpoonup> kobj) \<Rightarrow> bool" where
  "tree_ok m \<equiv> \<forall>d e. m d = Some (Entry e) \<longrightarrow> entry_ok m d e"

lemma tree_ok_dir:
  assumes "tree_ok m" "dir_lists m d cs" "a \<in> set cs"
  shows "\<exists>e. m a = Some (Entry e) \<and> e_parent e = d"
proof -
  obtain e c where e: "m d = Some (Entry e)" "e_body e = Dir c" "siblings m c cs"
    using assms(2) by (auto simp: dir_lists_def)
  then obtain cs' where "siblings m c cs'" "\<forall>a \<in> set cs'. \<exists>ce. m a = Some (Entry ce) \<and> e_parent ce = d"
    using assms(1) unfolding entry_ok_def by blast
  then show ?thesis using siblings_unique [OF e(3)] assms(3) by blast
qed

lemma tree_ok_lists: "tree_ok m \<Longrightarrow> m d = Some (Entry e) \<Longrightarrow> e_body e = Dir c \<Longrightarrow> \<exists>cs. dir_lists m d cs"
  unfolding entry_ok_def dir_lists_def by blast

lemma insert_child:
  assumes ok: "tree_ok m" and p: "m p = None" "p \<noteq> 0" and d: "d \<noteq> 0" "m d = Some (Entry pe)" "e_body pe = Dir c"
    and ls: "dir_lists m d cs"
    and new: "e_parent ne = d" "e_next ne = c" "body_ok (st_mode (e_stat ne)) (e_body ne)" "\<forall>k. e_body ne = Dir k \<longrightarrow> k = 0"
    and pe': "e_body pe' = Dir p" "e_next pe' = e_next pe" "e_parent pe' = e_parent pe"
      "st_mode (e_stat pe') = st_mode (e_stat pe)"
    and m': "m' = m(p \<mapsto> Entry ne, d \<mapsto> Entry pe')"
  shows "tree_ok m'" and "dir_lists m' d (p # cs)"
    and "\<And>d' cs'. d' \<noteq> d \<Longrightarrow> dir_lists m d' cs' \<Longrightarrow> dir_lists m' d' cs'"
proof -
  have pd: "p \<noteq> d" using p d by auto
  have sib: "siblings m' k ks" if "siblings m k ks" for k ks
    using that by (rule siblings_cong) (use p pe'(2) d pd m' in auto)
  have cs: "siblings m c cs" using ls d by (auto simp: dir_lists_def)
  show new_list: "dir_lists m' d (p # cs)"
    unfolding dir_lists_def using sib [OF cs] pe'(1) p(2) new(2) pd m' by auto
  show others: "dir_lists m' d' cs'" if "d' \<noteq> d" "dir_lists m d' cs'" for d' cs'
    using that sib p m' by (auto simp: dir_lists_def)
  have keep: "\<exists>e'. m' a = Some (Entry e') \<and> e_parent e' = e_parent e" if "m a = Some (Entry e)" for a e
    using that p pe'(3) d pd m' by auto
  have par: "\<exists>ks. dir_lists m' q ks \<and> x \<in> set ks" if "dir_lists m q ks" "x \<in> set ks" for q ks x
    using that others new_list dir_lists_unique [OF ls] by (metis list.set_intros(2))
  show "tree_ok m'"
  proof (intro allI impI)
    fix x xe assume x: "m' x = Some (Entry xe)"
    consider "x = p" | "x = d" | "x \<noteq> p" "x \<noteq> d" by blast
    then show "entry_ok m' x xe"
    proof cases
      case 1
      then have "xe = ne" using x pd m' by simp
      moreover have "p \<in> set (p # cs)" by simp
      moreover have "\<exists>ks. siblings m' k ks \<and> (\<forall>a \<in> set ks. \<exists>ce. m' a = Some (Entry ce) \<and> e_parent ce = p)"
        if "e_body ne = Dir k" for k
        using that new(4) by (intro exI [of _ "[]"]) simp
      ultimately show ?thesis using new new_list 1 pd unfolding entry_ok_def by blast
    next
      case 2
      then have xe: "xe = pe'" using x m' by simp
      have okd: "entry_ok m d pe" using ok d(2) by blast
      have "\<exists>ce. m' a = Some (Entry ce) \<and> e_parent ce = d" if "a \<in> set (p # cs)" for a
        using that tree_ok_dir [OF ok ls] keep new(1) pd m' by (metis fun_upd_apply set_ConsD)
      moreover have "siblings m' p (p # cs)" using new_list pe'(1) m' by (auto simp: dir_lists_def)
      ultimately have "\<exists>ks. siblings m' k ks \<and> (\<forall>a \<in> set ks. \<exists>ce. m' a = Some (Entry ce) \<and> e_parent ce = d)"
        if "e_body pe' = Dir k" for k
        using that pe'(1) by (intro exI [of _ "p # cs"]) simp
      moreover have "\<exists>ks. dir_lists m' (e_parent pe) ks \<and> d \<in> set ks" if "e_parent pe \<noteq> 0"
        using that okd par unfolding entry_ok_def by blast
      moreover have "body_ok (st_mode (e_stat pe')) (e_body pe')"
        using okd pe'(1,4) d(3) by (simp add: entry_ok_def body_ok_def)
      moreover have "e_parent pe \<noteq> d" using okd by (simp add: entry_ok_def)
      ultimately show ?thesis unfolding xe 2 entry_ok_def pe'(3) by blast
    next
      case 3
      then have mx: "m x = Some (Entry xe)" using x m' by simp
      have okx: "entry_ok m x xe" using ok mx by blast
      have "\<exists>ks. siblings m' k ks \<and> (\<forall>a \<in> set ks. \<exists>ce. m' a = Some (Entry ce) \<and> e_parent ce = x)" if "e_body xe = Dir k" for k
        using that okx sib keep unfolding entry_ok_def by metis
      moreover have "e_parent xe \<noteq> 0 \<longrightarrow> (\<exists>ks. dir_lists m' (e_parent xe) ks \<and> x \<in> set ks)"
        using okx par unfolding entry_ok_def by blast
      ultimately show ?thesis using okx by (simp add: entry_ok_def)
    qed
  qed
qed

text \<open>Taking the entry \<open>a\<close> out of the list \<open>us @ a # vs\<close>: what pointed to it points to its successor.\<close>

lemma siblings_unlink:
  assumes "siblings m c (us @ a # vs)" "m a = Some (Entry ae)" "b = last us" "us \<noteq> []" "m b = Some (Entry be)"
    and "m' = (m(b \<mapsto> Entry (be\<lparr>e_next := e_next ae\<rparr>)))(a := None)"
  shows "siblings m' c (us @ vs)"
  using assms
proof (induction us arbitrary: c)
  case (Cons u us)
  have dist: "distinct (u # us @ a # vs)" using siblings_distinct [OF Cons.prems(1)] by simp
  from Cons.prems(1) obtain ue where ue: "c = u" "u \<noteq> 0" "m u = Some (Entry ue)" "siblings m (e_next ue) (us @ a # vs)"
    by auto
  show ?case
  proof (cases "us = []")
    case True
    then have "b = u" "be = ue" using Cons.prems(3,5) ue(3) by simp_all
    moreover have "siblings m (e_next ae) vs" using ue(4) True Cons.prems(2) by auto
    then have "siblings m' (e_next ae) vs"
      by (rule siblings_cong) (use dist True \<open>b = u\<close> Cons.prems(6) in auto)
    ultimately show ?thesis using ue dist True Cons.prems(6) by auto
  next
    case False
    then have "last us \<in> set us" by simp
    then have "b \<noteq> u" "u \<noteq> a" using dist Cons.prems(3) False by auto
    then have "m' u = Some (Entry ue)" using ue(3) Cons.prems(6) by simp
    moreover have "siblings m' (e_next ue) (us @ vs)"
      using Cons.IH [OF ue(4) Cons.prems(2) _ False Cons.prems(5,6)] Cons.prems(3) False by simp
    ultimately show ?thesis using ue by simp
  qed
qed simp

lemma siblings_drop_first:
  assumes "siblings m c (a # vs)" "m a = Some (Entry ae)"
  shows "siblings (m(a := None)) (e_next ae) vs"
proof -
  have "siblings m (e_next ae) vs" "a \<notin> set vs" using assms siblings_distinct [OF assms(1)] by auto
  then show ?thesis by (auto intro: siblings_cong)
qed

lemma remove_child:
  assumes ok: "tree_ok m" and d: "d \<noteq> 0" "m d = Some (Entry pe)" "e_body pe = Dir c"
    and ls: "dir_lists m d (us @ a # vs)"
    and ae: "m a = Some (Entry ae)" "\<forall>k. e_body ae = Dir k \<longrightarrow> k = 0"
    and pe': "e_next pe' = e_next pe" "e_parent pe' = e_parent pe"
      "st_mode (e_stat pe') = st_mode (e_stat pe)" "e_body pe' = Dir c'" "siblings m' c' (us @ vs)"
    and m': "m' d = Some (Entry pe')" "m' a = None"
      "\<And>x. x \<noteq> d \<Longrightarrow> x \<noteq> a \<Longrightarrow> x \<notin> set us \<Longrightarrow> m' x = m x"
      "\<And>x xe. x \<noteq> d \<Longrightarrow> x \<in> set us \<Longrightarrow> m x = Some (Entry xe) \<Longrightarrow>
         \<exists>n. m' x = Some (Entry (xe\<lparr>e_next := n\<rparr>))"
  shows "tree_ok m'" and "dir_lists m' d (us @ vs)"
    and "\<And>d' cs'. d' \<noteq> d \<Longrightarrow> d' \<noteq> a \<Longrightarrow> dir_lists m d' cs' \<Longrightarrow> dir_lists m' d' cs'"
proof -
  have us: "\<exists>e. m u = Some (Entry e) \<and> e_parent e = d" if "u \<in> set (us @ a # vs)" for u
    using tree_ok_dir [OF ok ls that] .
  then have ad: "a \<noteq> d" using ok ae(1) by (force simp: entry_ok_def)
  show list: "dir_lists m' d (us @ vs)" using pe'(4,5) m'(1) by (auto simp: dir_lists_def)
  have body: "\<exists>e'. m' x = Some (Entry e') \<and> e_parent e' = e_parent e \<and> st_mode (e_stat e') = st_mode (e_stat e) \<and>
      (x \<noteq> d \<longrightarrow> e_body e' = e_body e) \<and> (x \<notin> set us \<longrightarrow> e_next e' = e_next e)"
    if "m x = Some (Entry e)" "x \<noteq> a" for x e
  proof (cases "x = d")
    case True
    then show ?thesis using that d pe' m'(1) by auto
  next
    case False
    then show ?thesis using that m'(3) [of x] m'(4) [of x] by (cases "x \<in> set us") auto
  qed
  have was: "\<exists>e. m x = Some (Entry e)" if "m' x = Some (Entry e')" for x e'
    using that m'(2) m'(3) [of x] us [of x] d(2) by (metis Un_iff option.distinct(1) set_append)
  show others: "dir_lists m' d' cs'" if d': "d' \<noteq> d" "d' \<noteq> a" "dir_lists m d' cs'" for d' cs'
  proof -
    obtain e k where e: "m d' = Some (Entry e)" "e_body e = Dir k" "siblings m k cs'"
      using d'(3) by (auto simp: dir_lists_def)
    have "x \<notin> set us \<and> x \<noteq> a" if "x \<in> set cs'" for x
      using tree_ok_dir [OF ok d'(3) that] us [of x] d'(1) by auto
    then have "siblings m' k cs'" using body by (intro siblings_cong [OF e(3)]) metis
    then show ?thesis using body [OF e(1) d'(2)] d'(1) e by (auto simp: dir_lists_def)
  qed
  show "tree_ok m'"
  proof (intro allI impI)
    fix x xe' assume x: "m' x = Some (Entry xe')"
    then obtain xe where mx: "m x = Some (Entry xe)" using was by blast
    have xa: "x \<noteq> a" using x m'(2) by auto
    have xe': "e_parent xe' = e_parent xe" "st_mode (e_stat xe') = st_mode (e_stat xe)" "x \<noteq> d \<longrightarrow> e_body xe' = e_body xe"
      using body [OF mx xa] x by auto
    have okx: "entry_ok m x xe" using ok mx by blast
    have "\<exists>ks. siblings m' k ks \<and> (\<forall>y \<in> set ks. \<exists>ce. m' y = Some (Entry ce) \<and> e_parent ce = x)"
      if k: "e_body xe' = Dir k" for k
    proof -
      obtain ks where ks: "dir_lists m x ks"
        using tree_ok_lists [OF ok mx] xe'(3) k d(2,3) mx by (metis kobj.inject(2) option.inject)
      have "dir_lists m' x (if x = d then us @ vs else ks)" using list others [OF _ xa ks] by auto
      moreover have "\<exists>ce. m' y = Some (Entry ce) \<and> e_parent ce = x" if "y \<in> set (if x = d then us @ vs else ks)" for y
      proof -
        have y: "y \<in> set ks \<and> y \<noteq> a"
        proof (cases "x = d")
          case True
          have "distinct (us @ a # vs)" using ls by (rule dir_lists_distinct)
          moreover have "ks = us @ a # vs" using dir_lists_unique [OF ks] ls True by simp
          ultimately show ?thesis using that True by auto
        next
          case False
          then show ?thesis using that tree_ok_dir [OF ok ks, of y] us [of a] by auto
        qed
        then obtain ce where "m y = Some (Entry ce)" "e_parent ce = x" using tree_ok_dir [OF ok ks] by blast
        then show ?thesis using body [of y ce] y by auto
      qed
      ultimately show ?thesis using x k by (auto simp: dir_lists_def)
    qed
    moreover have "\<exists>ks. dir_lists m' (e_parent xe) ks \<and> x \<in> set ks" if pz: "e_parent xe \<noteq> 0"
    proof -
      obtain ks where ks: "dir_lists m (e_parent xe) ks" "x \<in> set ks" using okx pz unfolding entry_ok_def by blast
      have "e_parent xe \<noteq> a"
      proof
        assume "e_parent xe = a"
        then have "dir_lists m a ks" using ks(1) by simp
        then have "ks = []" using ae by (cases ks) (auto simp: dir_lists_def)
        then show False using ks(2) by simp
      qed
      then show ?thesis
        using others [of "e_parent xe" ks] list ks xa dir_lists_unique [OF ls, of ks]
        by (metis Un_iff list.set(2) insert_iff set_append)
    qed
    ultimately show "entry_ok m' x xe'"
      using okx xe' d(2,3) mx pe'(4) x m'(1) unfolding entry_ok_def
      by (cases "x = d") (auto simp: body_ok_def)
  qed
qed

section \<open>Allocating entries and nodes\<close>

lemma small_sizes [simp]: "small_request sizeof_tmpfs_entry" "small_request sizeof_vfs_node"
  by (simp_all add: small_request_def sizeof_tmpfs_entry_def sizeof_vfs_node_def)

declare stat_mode [simp]

text \<open>The entry and the node that the operations create.\<close>

definition new_entry :: "u32 \<Rightarrow> string \<Rightarrow> u32 \<Rightarrow> u32 \<Rightarrow> tmpfs_entry" where
  "new_entry d nm mode c = \<lparr>e_name = nm, e_stat = kvfs_stat_create mode, e_parent = d,
     e_body = new_body mode, e_next = c\<rparr>"

definition node_of :: "u32 \<Rightarrow> vfs_node" where
  "node_of a = \<lparr>n_refcount = 1, n_ops = Some Ktmpfs_operations, n_fs = Some Tmpfs_fs, n_private = a\<rparr>"

lemma tree_inv_obj: "tree_inv s \<Longrightarrow> obj_inv s"
  by (simp add: tree_inv_def)

lemma tree_inv_other:
  assumes "tree_inv s" "obj_inv s'" "objs s' = (objs s)(p := ob)"
    and "\<forall>e. objs s p \<noteq> Some (Entry e)" "\<forall>e. ob \<noteq> Some (Entry e)"
  shows "tree_inv s'"
  by (rule tree_inv_links [OF assms(1,2)]) (use assms(3,4,5) in \<open>auto simp: same_links_def split: if_splits\<close>)

lemma tree_inv_stat:
  assumes inv: "tree_inv s" and d: "objs s d = Some (Entry e)" and st: "st_mode st = st_mode (e_stat e)"
  shows "tree_inv (wr_obj d (Entry (e\<lparr>e_stat := st\<rparr>)) s)"
proof (rule tree_inv_links [OF inv])
  show "obj_inv (wr_obj d (Entry (e\<lparr>e_stat := st\<rparr>)) s)"
    using kobjs.store_it [OF tree_inv_obj [OF inv], of d] d by simp
qed (use d st in \<open>auto simp: wr_obj_def same_links_def split: if_splits\<close>)

lemma free_address: "tree_inv s \<Longrightarrow> p \<notin> fst ` live_blocks s \<Longrightarrow> objs s p = None"
  using objs_held [OF tree_inv_obj] by (fastforce simp: held_def)

lemma create_vfs_node_spec:
  assumes "tree_inv s" "a \<noteq> 0"
  obtains "ktmpfs_create_vfs_node a s = Inl Panic"
  | s' where "ktmpfs_create_vfs_node a s = Inr (0, s')" "tree_inv s'" "objs s' = objs s" "live_blocks s' = live_blocks s"
      "obj_erase s' = obj_erase s"
  | p m s' where "ktmpfs_create_vfs_node a s = Inr (p, s')" "p \<noteq> 0" "tree_inv s'" "p \<notin> fst ` live_blocks s"
      "objs s' = (objs s)(p \<mapsto> Node (node_of a))" "live_blocks s' = insert (p, m) (live_blocks s)" "obj_erase s' = obj_erase s"
proof -
  have eq: "ktmpfs_create_vfs_node a s = new_obj sizeof_vfs_node (Node (node_of a)) s"
    using assms(2) by (simp add: ktmpfs_create_vfs_node_def kvfs_get_fs_def Let_def node_of_def)
  show thesis
  proof (rule kobjs.make_cases [OF tree_inv_obj [OF assms(1)] small_sizes(2), of "Node (node_of a)"])
    assume "new_obj sizeof_vfs_node (Node (node_of a)) s = Inl Panic"
    then show thesis using that(1) eq by simp
  next
    fix s' assume s': "new_obj sizeof_vfs_node (Node (node_of a)) s = Inr (0, s')" "obj_inv s'" "objs s' = objs s"
      "live_blocks s' = live_blocks s" "obj_erase s' = obj_erase s"
    then have "tree_inv s'" using assms(1) by (simp add: tree_inv_def)
    then show thesis using that(2) s' eq by simp
  next
    fix p m s' assume s': "new_obj sizeof_vfs_node (Node (node_of a)) s = Inr (p, s')" "p \<noteq> 0" "obj_inv s'"
      "p \<notin> fst ` live_blocks s" "objs s' = (objs s)(p \<mapsto> Node (node_of a))" "live_blocks s' = insert (p, m) (live_blocks s)"
      "obj_erase s' = obj_erase s"
    then have "tree_inv s'" using tree_inv_other [OF assms(1) s'(3,5)] free_address [OF assms(1)] by simp
    then show thesis using that(3) s' eq by simp
  qed
qed

lemma create_entry_spec:
  assumes inv: "tree_inv s" and d: "objs s d = Some (Entry pe)" "e_body pe = Dir c"
    and ls: "dir_lists (objs s) d cs" and nm: "length nm < 255"
  obtains "ktmpfs_create_entry d (Some nm) mode s = Inl Panic"
  | s' where "ktmpfs_create_entry d (Some nm) mode s = Inr (0, s')" "tree_inv s'" "objs s' = objs s"
      "live_blocks s' = live_blocks s" "obj_erase s' = obj_erase s"
  | p m s' where "ktmpfs_create_entry d (Some nm) mode s = Inr (p, s')" "p \<noteq> 0" "tree_inv s'" "p \<notin> fst ` live_blocks s"
      "objs s' = (objs s)(p \<mapsto> Entry (new_entry d nm mode c), d \<mapsto> Entry (pe\<lparr>e_body := Dir p\<rparr>))"
      "live_blocks s' = insert (p, m) (live_blocks s)" "obj_erase s' = obj_erase s"
proof -
  let ?ne = "Entry (new_entry d nm mode c)"
  have ok: "tree_ok (objs s)" using inv by (simp add: tree_inv_def)
  have d0: "d \<noteq> 0" using obj_nonzero [OF tree_inv_obj [OF inv]] d by auto
  have "KVFS_STAT_ISDIR (st_mode (e_stat pe))" using ok d by (force simp: entry_ok_def body_ok_def)
  then have eq: "ktmpfs_create_entry d (Some nm) mode s =
      bindE (cnew_obj sizeof_tmpfs_entry ?ne s) (\<lambda>(p, s). if p = 0 then Inr (0, s)
        else Inr (p, wr_obj d (Entry (pe\<lparr>e_body := Dir p\<rparr>)) s))"
    using d d0 nm by (simp add: ktmpfs_create_entry_def rd_entry_def get_child_def set_child_def copy_name_def
        new_entry_def cong: if_cong)
  show thesis
  proof (rule kcobjs.make_cases [OF tree_inv_obj [OF inv] small_sizes(1), of ?ne])
    assume "cnew_obj sizeof_tmpfs_entry ?ne s = Inl Panic"
    then show thesis using that(1) eq by simp
  next
    fix s' assume s': "cnew_obj sizeof_tmpfs_entry ?ne s = Inr (0, s')" "obj_inv s'" "objs s' = objs s"
      "live_blocks s' = live_blocks s" "obj_erase s' = obj_erase s"
    then have "tree_inv s'" using inv by (simp add: tree_inv_def)
    then show thesis using that(2) s' eq by simp
  next
    fix p m t assume t: "cnew_obj sizeof_tmpfs_entry ?ne s = Inr (p, t)" "p \<noteq> 0" "obj_inv t"
      "p \<notin> fst ` live_blocks s" "objs t = (objs s)(p \<mapsto> ?ne)" "live_blocks t = insert (p, m) (live_blocks s)" "obj_erase t = obj_erase s"
    let ?s' = "wr_obj d (Entry (pe\<lparr>e_body := Dir p\<rparr>)) t"
    have st: "obj_inv ?s'" "objs ?s' = (objs s)(p \<mapsto> ?ne, d \<mapsto> Entry (pe\<lparr>e_body := Dir p\<rparr>))"
      "live_blocks ?s' = insert (p, m) (live_blocks s)" "obj_erase ?s' = obj_erase s"
      using kcobjs.store_it [OF t(3), of d] t d by auto
    have "tree_ok (objs ?s')"
      by (rule insert_child(1) [OF ok free_address [OF inv t(4)] t(2) d0 d ls _ _ _ _ _ _ _ _ st(2)])
        (auto simp: new_entry_def new_body_def body_ok_def)
    then have "tree_inv ?s'" using st(1) by (simp add: tree_inv_def)
    then show thesis using that(3) [of p ?s' m] t st eq by simp
  qed
qed

section \<open>Operations on directories\<close>

text \<open>\<open>node\<close> is a handle on the entry \<open>d\<close>, a directory whose children are \<open>cs\<close>.\<close>

definition dir_node :: "(u32 \<rightharpoonup> kobj) \<Rightarrow> u32 \<Rightarrow> u32 \<Rightarrow> u32 list \<Rightarrow> bool" where
  "dir_node m node d cs \<longleftrightarrow> (\<exists>n. m node = Some (Node n) \<and> n_private n = d) \<and> dir_lists m d cs"

text \<open>The store after a child was added to the directory \<open>d\<close>.\<close>

definition with_child :: "(u32 \<rightharpoonup> kobj) \<Rightarrow> u32 \<Rightarrow> u32 \<Rightarrow> string \<Rightarrow> u32 \<Rightarrow> (u32 \<rightharpoonup> kobj) \<Rightarrow> bool" where
  "with_child m d p nm mode m' \<longleftrightarrow> m p = None \<and>
     (\<exists>pe c. m d = Some (Entry pe) \<and> e_body pe = Dir c \<and>
       m' = m(p \<mapsto> Entry (new_entry d nm mode c),
              d \<mapsto> Entry (pe\<lparr>e_body := Dir p, e_stat := kvfs_stat_inc_nlink (e_stat pe)\<rparr>)))"

lemma with_child_lists:
  assumes "tree_ok m" "with_child m d p nm mode m'" "p \<noteq> 0" "d \<noteq> 0" "dir_lists m d cs"
  shows "dir_lists m' d (p # cs)" and "\<And>d' cs'. d' \<noteq> d \<Longrightarrow> dir_lists m d' cs' \<Longrightarrow> dir_lists m' d' cs'"
proof -
  obtain pe c where w: "m p = None" "m d = Some (Entry pe)" "e_body pe = Dir c"
    "m' = m(p \<mapsto> Entry (new_entry d nm mode c),
              d \<mapsto> Entry (pe\<lparr>e_body := Dir p, e_stat := kvfs_stat_inc_nlink (e_stat pe)\<rparr>))"
    using assms(2) by (auto simp: with_child_def)
  note ins = insert_child [OF assms(1) w(1) assms(3,4) w(2,3) assms(5) _ _ _ _ _ _ _ _ w(4)]
  show "dir_lists m' d (p # cs)"
    by (rule ins(2)) (auto simp: new_entry_def new_body_def body_ok_def)
  show "dir_lists m' d' cs'" if "d' \<noteq> d" "dir_lists m d' cs'" for d' cs'
    by (rule ins(3) [OF _ _ _ _ _ _ _ _ that]) (auto simp: new_entry_def new_body_def body_ok_def)
qed

text \<open>What \<^verbatim>\<open>ktmpfs_create\<close> and \<^verbatim>\<open>ktmpfs_mkdir\<close> have in common.\<close>

abbreviation add_child ::
    "u32 \<Rightarrow> string \<Rightarrow> u32 \<Rightarrow> 'z kernel_state_scheme \<Rightarrow> (bool \<times> 'z kernel_state_scheme) kres" where
  "add_child d nm mode s \<equiv>
     bindE (ktmpfs_create_entry d (Some nm) mode s) (\<lambda>(p, s). if p = 0 then Inr (False, s)
       else bindE (inc_parent_nlink d s) (\<lambda>s. Inr (True, s)))"

lemma create_in_dir:
  assumes inv: "tree_inv s" and node: "dir_node (objs s) node d cs" and nm: "length nm < 255"
  obtains "add_child d nm mode s = Inl Panic"
  | s' where "add_child d nm mode s = Inr (False, s')"
      "tree_inv s'" "objs s' = objs s" "live_blocks s' = live_blocks s" "obj_erase s' = obj_erase s"
  | p m s' where "add_child d nm mode s = Inr (True, s')"
      "p \<noteq> 0" "tree_inv s'" "with_child (objs s) d p nm mode (objs s')" "p \<notin> fst ` live_blocks s"
      "live_blocks s' = insert (p, m) (live_blocks s)" "obj_erase s' = obj_erase s"
proof -
  obtain pe c where d: "objs s d = Some (Entry pe)" "e_body pe = Dir c" and ls: "dir_lists (objs s) d cs"
    using node by (auto simp: dir_node_def dir_lists_def)
  show thesis
  proof (rule create_entry_spec [OF inv d ls nm, of mode])
    fix p m s1 assume s1: "ktmpfs_create_entry d (Some nm) mode s = Inr (p, s1)" "p \<noteq> 0" "tree_inv s1" "p \<notin> fst ` live_blocks s"
      "objs s1 = (objs s)(p \<mapsto> Entry (new_entry d nm mode c), d \<mapsto> Entry (pe\<lparr>e_body := Dir p\<rparr>))"
      "live_blocks s1 = insert (p, m) (live_blocks s)" "obj_erase s1 = obj_erase s"
    let ?pe = "pe\<lparr>e_body := Dir p\<rparr>"
    let ?s' = "wr_obj d (Entry (?pe\<lparr>e_stat := kvfs_stat_inc_nlink (e_stat ?pe)\<rparr>)) s1"
    have e: "objs s1 d = Some (Entry ?pe)" using s1(5) by simp
    then have "inc_parent_nlink d s1 = Inr ?s'" by (simp add: inc_parent_nlink_def rd_entry_def)
    moreover have "tree_inv ?s'" by (rule tree_inv_stat [OF s1(3) e]) simp
    moreover have "with_child (objs s) d p nm mode (objs ?s')"
      using d s1(5) free_address [OF inv s1(4)] by (auto simp: with_child_def wr_obj_def)
    moreover have "live_blocks ?s' = live_blocks s1" by (simp add: wr_obj_def)
    ultimately show thesis using that(3) [of ?s' p m] s1 by simp
  qed (use that in simp_all)
qed

lemma ktmpfs_create_eq:
  assumes "dir_node (objs s) node d cs" "node \<noteq> 0"
  shows "ktmpfs_create node (Some nm) mode s =
      add_child d nm mode s"
    and "ktmpfs_mkdir node (Some nm) mode s =
      add_child d nm (mode AND 0x1FF OR KVFS_STAT_IFDIR) s"
  using assms by (auto simp: dir_node_def ktmpfs_create_def ktmpfs_mkdir_def rd_node_def KVFS_STAT_MODE_MASK_IT_def Let_def)

text \<open>The first child of that name.\<close>

definition child_named :: "(u32 \<rightharpoonup> kobj) \<Rightarrow> u32 list \<Rightarrow> string \<Rightarrow> u32 option" where
  "child_named m cs nm = find (\<lambda>a. case m a of Some (Entry e) \<Rightarrow> e_name e = nm | _ \<Rightarrow> False) cs"

lemma find_child_list:
  "siblings (objs s) c cs \<Longrightarrow> find_child nm c s = Some (Inr (case child_named (objs s) cs nm of None \<Rightarrow> 0 | Some a \<Rightarrow> a))"
proof (induction cs arbitrary: c)
  case Nil
  then show ?case by (subst find_child.simps) (simp add: child_named_def)
next
  case (Cons a cs)
  then obtain e where e: "objs s a = Some (Entry e)" "c = a" "a \<noteq> 0" "siblings (objs s) (e_next e) cs" by auto
  show ?case
    using Cons.IH [OF e(4)] e by (subst find_child.simps) (simp add: child_named_def rd_entry_def)
qed

lemma child_named_mem: "child_named m cs nm = Some a \<Longrightarrow> a \<in> set cs"
  by (auto simp: child_named_def find_Some_iff)

lemma ktmpfs_lookup_eq:
  assumes inv: "tree_inv s" and node: "dir_node (objs s) node d cs" "node \<noteq> 0"
  shows "nm \<noteq> ''.'' \<Longrightarrow> nm \<noteq> ''..'' \<Longrightarrow> ktmpfs_lookup node (Some nm) s =
      ktmpfs_create_vfs_node (case child_named (objs s) cs nm of None \<Rightarrow> 0 | Some a \<Rightarrow> a) s"
    and "ktmpfs_lookup node (Some ''.'') s = ktmpfs_create_vfs_node d s"
    and "objs s d = Some (Entry e) \<Longrightarrow> ktmpfs_lookup node (Some ''..'') s =
      ktmpfs_create_vfs_node (if e_parent e = 0 then d else e_parent e) s"
proof -
  obtain n e c where n: "objs s node = Some (Node n)" "n_private n = d"
    and e: "objs s d = Some (Entry e)" "e_body e = Dir c" "siblings (objs s) c cs"
    using node by (auto simp: dir_node_def dir_lists_def)
  have d0: "d \<noteq> 0" using obj_nonzero [OF tree_inv_obj [OF inv]] e by auto
  have dir: "KVFS_STAT_ISDIR (st_mode (e_stat e))"
    using inv e by (force simp: tree_inv_def entry_ok_def body_ok_def)
  show "nm \<noteq> ''.'' \<Longrightarrow> nm \<noteq> ''..'' \<Longrightarrow> ktmpfs_lookup node (Some nm) s =
      ktmpfs_create_vfs_node (case child_named (objs s) cs nm of None \<Rightarrow> 0 | Some a \<Rightarrow> a) s"
    "ktmpfs_lookup node (Some ''.'') s = ktmpfs_create_vfs_node d s"
    "objs s d = Some (Entry e') \<Longrightarrow> ktmpfs_lookup node (Some ''..'') s =
      ktmpfs_create_vfs_node (if e_parent e' = 0 then d else e_parent e') s" for e'
    using node(2) n e d0 dir find_child_list [OF e(3), of nm]
    by (simp_all add: ktmpfs_lookup_def rd_node_def rd_entry_def get_child_def)
qed

lemma remove_scan_list:
  "siblings (objs s) tmp (us @ a # vs) \<Longrightarrow> a \<notin> set us \<Longrightarrow>
    remove_scan a prev tmp s = Some (Inr (last (prev # us), a))"
proof (induction us arbitrary: prev tmp)
  case Nil
  then show ?case by (subst remove_scan.simps) simp
next
  case (Cons u us)
  then obtain e where e: "objs s u = Some (Entry e)" "tmp = u" "u \<noteq> 0" "siblings (objs s) (e_next e) (us @ a # vs)" by auto
  show ?case using Cons.IH [OF e(4), of u] Cons.prems(2) e by (subst remove_scan.simps) (auto simp: rd_entry_def)
qed

text \<open>The directory \<open>d\<close> with the entry \<open>a\<close> unlinked: the store in front of the release of \<open>a\<close>.\<close>

definition relinked :: "u32 \<Rightarrow> u32 list \<Rightarrow> u32 \<Rightarrow> 'z kernel_state_scheme \<Rightarrow> 'z kernel_state_scheme \<Rightarrow> bool" where
  "relinked d us n s t \<longleftrightarrow>
    (if us = [] then \<exists>pe. objs s d = Some (Entry pe) \<and> t = wr_obj d (Entry (pe\<lparr>e_body := Dir n\<rparr>)) s
     else \<exists>be. objs s (last us) = Some (Entry be) \<and> t = wr_obj (last us) (Entry (be\<lparr>e_next := n\<rparr>)) s)"

lemma remove_from_parent_steps:
  assumes ls: "dir_lists (objs s) d (us @ a # vs)" and a: "objs s a = Some (Entry ae)"
    and nz: "d \<noteq> 0" "a \<noteq> 0" "0 \<notin> set us"
  obtains t where "relinked d us (e_next ae) s t"
    "ktmpfs_remove_from_parent_ll d a s =
      bindE (free_obj a t) (\<lambda>s. bindE (rd_entry d s) (\<lambda>pe.
        Inr (True, wr_obj d (Entry (pe\<lparr>e_stat := kvfs_stat_dec_nlink (e_stat pe)\<rparr>)) s)))"
proof -
  obtain pe c where d: "objs s d = Some (Entry pe)" "e_body pe = Dir c" "siblings (objs s) c (us @ a # vs)"
    using ls by (auto simp: dir_lists_def)
  have "a \<notin> set us" using dir_lists_distinct [OF ls] by simp
  note scan = remove_scan_list [OF d(3) this, of 0]
  show thesis
  proof (cases "us = []")
    case True
    then show thesis
      using that [of "wr_obj d (Entry (pe\<lparr>e_body := Dir (e_next ae)\<rparr>)) s"] scan d a nz
      by (simp add: relinked_def ktmpfs_remove_from_parent_ll_def rd_entry_def get_child_def set_child_def)
  next
    case False
    then have last: "last us \<in> set us" by simp
    then obtain be where be: "objs s (last us) = Some (Entry be)" using dir_lists_entries [OF ls, of "last us"] by auto
    have "last us \<noteq> 0" using nz(3) last by metis
    then show thesis
      using that [of "wr_obj (last us) (Entry (be\<lparr>e_next := e_next ae\<rparr>)) s"] scan d a be nz False
      by (simp add: relinked_def ktmpfs_remove_from_parent_ll_def rd_entry_def get_child_def)
  qed
qed

lemma relinked_facts:
  assumes oi: "obj_inv s" and re: "relinked d us (e_next ae) s t"
    and d: "objs s d = Some (Entry pe)" "e_body pe = Dir c" "siblings (objs s) c (us @ a # vs)"
    and a: "objs s a = Some (Entry ae)" and nd: "d \<notin> set (us @ a # vs)"
  shows "obj_inv t" and "live_blocks t = live_blocks s \<and> obj_erase t = obj_erase s" and "objs t a = Some (Entry ae)"
    and "\<exists>c'. objs t d = Some (Entry (pe\<lparr>e_body := Dir c'\<rparr>)) \<and> siblings ((objs t)(a := None)) c' (us @ vs)"
    and "\<And>x. x \<noteq> d \<Longrightarrow> x \<notin> set us \<Longrightarrow> objs t x = objs s x"
    and "\<And>x xe. x \<noteq> d \<Longrightarrow> x \<in> set us \<Longrightarrow> objs s x = Some (Entry xe) \<Longrightarrow> \<exists>n. objs t x = Some (Entry (xe\<lparr>e_next := n\<rparr>))"
proof -
  have dist: "distinct (us @ a # vs)" using siblings_distinct [OF d(3)] .
  have same: "pe\<lparr>e_body := Dir c\<rparr> = pe" using d(2) by simp
  have "obj_inv t \<and> (live_blocks t = live_blocks s \<and> obj_erase t = obj_erase s) \<and> objs t a = Some (Entry ae) \<and>
    (\<exists>c'. objs t d = Some (Entry (pe\<lparr>e_body := Dir c'\<rparr>)) \<and> siblings ((objs t)(a := None)) c' (us @ vs)) \<and>
    (\<forall>x. x \<noteq> d \<longrightarrow> x \<notin> set us \<longrightarrow> objs t x = objs s x) \<and>
    (\<forall>x xe. x \<noteq> d \<longrightarrow> x \<in> set us \<longrightarrow> objs s x = Some (Entry xe) \<longrightarrow> (\<exists>n. objs t x = Some (Entry (xe\<lparr>e_next := n\<rparr>))))"
  proof (cases "us = []")
    case True
    let ?w = "Entry (pe\<lparr>e_body := Dir (e_next ae)\<rparr>)"
    have t: "t = wr_obj d ?w s" using re d True by (auto simp: relinked_def)
    note st = kobjs.store_it [OF oi, of d ?w]
    have "siblings ((objs s)(a := None)) (e_next ae) vs" using siblings_drop_first [of "objs s" c a vs ae] a d(3) True by simp
    then have "siblings ((objs t)(a := None)) (e_next ae) vs"
      by (rule siblings_cong) (use st d t nd in \<open>auto split: if_splits\<close>)
    then show ?thesis using st d t True nd a by auto
  next
    case False
    then have l: "last us \<in> set us" by simp
    obtain be where be: "objs s (last us) = Some (Entry be)" "t = wr_obj (last us) (Entry (be\<lparr>e_next := e_next ae\<rparr>)) s"
      using re False by (auto simp: relinked_def)
    note st = kobjs.store_it [OF oi, of "last us" "Entry (be\<lparr>e_next := e_next ae\<rparr>)"]
    have "siblings ((objs t)(a := None)) c (us @ vs)"
      using siblings_unlink [OF d(3) a refl False be(1)] st be by simp
    moreover have "last us \<noteq> d" "last us \<noteq> a" using l nd dist by auto
    ultimately have main: "obj_inv t" "live_blocks t = live_blocks s \<and> obj_erase t = obj_erase s" "objs t a = Some (Entry ae)"
      "objs t d = Some (Entry (pe\<lparr>e_body := Dir c\<rparr>))" "siblings ((objs t)(a := None)) c (us @ vs)"
      "objs t = (objs s)(last us \<mapsto> Entry (be\<lparr>e_next := e_next ae\<rparr>))"
      using st be d a same by auto
    have "\<exists>n. objs t x = Some (Entry (xe\<lparr>e_next := n\<rparr>))" if "objs s x = Some (Entry xe)" for x xe
      using that be(1) main(6) by (cases "x = last us") (auto intro: exI [of _ "e_next xe"])
    moreover have "\<forall>x. x \<notin> set us \<longrightarrow> objs t x = objs s x" using l main(6) by auto
    ultimately show ?thesis using main by blast
  qed
  then show "obj_inv t" and "live_blocks t = live_blocks s \<and> obj_erase t = obj_erase s" and "objs t a = Some (Entry ae)"
    and "\<exists>c'. objs t d = Some (Entry (pe\<lparr>e_body := Dir c'\<rparr>)) \<and> siblings ((objs t)(a := None)) c' (us @ vs)"
    and "\<And>x. x \<noteq> d \<Longrightarrow> x \<notin> set us \<Longrightarrow> objs t x = objs s x"
    and "\<And>x xe. x \<noteq> d \<Longrightarrow> x \<in> set us \<Longrightarrow> objs s x = Some (Entry xe) \<Longrightarrow> \<exists>n. objs t x = Some (Entry (xe\<lparr>e_next := n\<rparr>))"
    by blast+
qed

lemma remove_from_parent_spec:
  assumes inv: "tree_inv s" and ls: "dir_lists (objs s) d (us @ a # vs)"
    and ae: "objs s a = Some (Entry ae)" "\<forall>k. e_body ae = Dir k \<longrightarrow> k = 0"
  shows "\<exists>s'. ktmpfs_remove_from_parent_ll d a s = Inr (True, s') \<and> tree_inv s' \<and> obj_erase s' = obj_erase s \<and>
     live_blocks s' = {b \<in> live_blocks s. fst b \<noteq> a} \<and> objs s' a = None \<and> dir_lists (objs s') d (us @ vs) \<and>
     (\<forall>d' cs'. d' \<noteq> d \<longrightarrow> d' \<noteq> a \<longrightarrow> dir_lists (objs s) d' cs' \<longrightarrow> dir_lists (objs s') d' cs') \<and>
     (\<forall>x. x \<noteq> a \<longrightarrow> x \<noteq> d \<longrightarrow> x \<notin> set us \<longrightarrow> objs s' x = objs s x) \<and>
     (\<forall>x xe. x \<in> set us \<longrightarrow> objs s x = Some (Entry xe) \<longrightarrow> (\<exists>n. objs s' x = Some (Entry (xe\<lparr>e_next := n\<rparr>))))"
proof -
  have ok: "tree_ok (objs s)" and oi: "obj_inv s" using inv by (simp_all add: tree_inv_def)
  obtain pe c where d: "objs s d = Some (Entry pe)" "e_body pe = Dir c" "siblings (objs s) c (us @ a # vs)"
    using ls by (auto simp: dir_lists_def)
  have nz: "d \<noteq> 0" "a \<noteq> 0" "0 \<notin> set us" using obj_nonzero [OF oi] d ae dir_lists_entries [OF ls] by auto
  have nd: "d \<notin> set (us @ a # vs)"
    using tree_ok_dir [OF ok ls, of d] ok by (force simp: entry_ok_def)
  obtain t where t: "relinked d us (e_next ae) s t" "ktmpfs_remove_from_parent_ll d a s =
      bindE (free_obj a t) (\<lambda>s. bindE (rd_entry d s) (\<lambda>pe.
        Inr (True, wr_obj d (Entry (pe\<lparr>e_stat := kvfs_stat_dec_nlink (e_stat pe)\<rparr>)) s)))"
    using remove_from_parent_steps [OF ls ae(1) nz] by blast
  note rel = relinked_facts [OF oi t(1) d ae(1) nd]
  obtain c' where c': "objs t d = Some (Entry (pe\<lparr>e_body := Dir c'\<rparr>))" "siblings ((objs t)(a := None)) c' (us @ vs)"
    using rel(4) by blast
  obtain u where u: "free_obj a t = Inr u" "obj_inv u" "objs u = (objs t)(a := None)" "live_blocks u = {b \<in> live_blocks t. fst b \<noteq> a}"
    "obj_erase u = obj_erase t"
    using kobjs.drop_it [OF rel(1), of a] rel(3) by auto
  define pe' where "pe' = pe\<lparr>e_body := Dir c', e_stat := kvfs_stat_dec_nlink (e_stat pe)\<rparr>"
  define s' where "s' = wr_obj d (Entry pe') u"
  have ud: "objs u d = Some (Entry (pe\<lparr>e_body := Dir c'\<rparr>))" using u(3) c'(1) nd by auto
  have s': "ktmpfs_remove_from_parent_ll d a s = Inr (True, s')" "obj_inv s'" "live_blocks s' = {b \<in> live_blocks s. fst b \<noteq> a} \<and> obj_erase s' = obj_erase s"
    "objs s' = (objs t)(a := None, d \<mapsto> Entry pe')"
    using t(2) u ud rel(2) kobjs.store_it [OF u(2), of d "Entry pe'"] by (simp_all add: rd_entry_def s'_def pe'_def)
  have sib: "siblings (objs s') c' (us @ vs)"
    by (rule siblings_cong [OF c'(2)]) (use nd s'(4) in \<open>auto split: if_splits\<close>)
  have old: "objs s' x = objs s x" if "x \<noteq> d" "x \<noteq> a" "x \<notin> set us" for x
    using rel(5) that s'(4) by simp
  have link: "\<exists>n. objs s' x = Some (Entry (xe\<lparr>e_next := n\<rparr>))" if "x \<noteq> d" "x \<in> set us" "objs s x = Some (Entry xe)" for x xe
    using rel(6) [OF that] that(1,2) dir_lists_distinct [OF ls] s'(4) by auto
  note rem = remove_child [OF ok nz(1) d(1,2) ls ae, of pe' c' "objs s'"]
  have pe'f: "e_next pe' = e_next pe" "e_parent pe' = e_parent pe" "st_mode (e_stat pe') = st_mode (e_stat pe)"
    "e_body pe' = Dir c'" by (simp_all add: pe'_def)
  have m': "objs s' d = Some (Entry pe')" "objs s' a = None" using s'(4) nd by auto
  note rem = rem [OF pe'f sib m' old link]
  have "tree_inv s'" unfolding tree_inv_def using s'(2) rem(1) by blast
  moreover have "x \<noteq> d" if "x \<in> set us" for x using that nd by auto
  ultimately show ?thesis using s'(1,3) m'(2) rem(2,3) old link by blast
qed

end
