(* ===== verification/Vfs.thy ===== *)
theory Vfs
  imports Tmpfs Vfs_Path
begin

text \<open>
  The virtual file system (\<^verbatim>\<open>src/kernel/fs/vfs\<close>): the permission checks in front of the operations of
  the mounted file system, the resolution of paths, opening, closing and mounting. An address \<open>0\<close> is
  \<^verbatim>\<open>NULL\<close>; \<open>None\<close> is a \<^verbatim>\<open>NULL\<close> string. Calls through \<^verbatim>\<open>node->_ops\<close> go to the tmpfs operations, the
  only ones there are.
\<close>

section \<open>Operations of a node\<close>

text \<open>The stat buffer \<^verbatim>\<open>{0}\<close> that callers pass.\<close>

definition stat_zero :: vfs_stat where
  "stat_zero = \<lparr>st_mode = 0, st_nlink = 0, st_size = 0, st_atime = 0, st_mtime = 0, st_ctime = 0,
                st_uid = 0, st_gid = 0\<rparr>"

text \<open>\<^verbatim>\<open>node->_ops->_f(...)\<close>: a call through a \<^verbatim>\<open>NULL\<close> table faults.\<close>

definition via_ops :: "u32 \<Rightarrow> 'z kernel_state_scheme \<Rightarrow> 'a kres \<Rightarrow> 'a kres" where
  "via_ops node s r =
    bindE (rd_node node s) (\<lambda>n. case n_ops n of None \<Rightarrow> Inl PageFault | Some Ktmpfs_operations \<Rightarrow> r)"

definition kvfs_get_stat :: "u32 \<Rightarrow> vfs_stat option \<Rightarrow> 'z kernel_state_scheme \<Rightarrow> (bool \<times> vfs_stat option) kres" where
  "kvfs_get_stat node out s =
    (if node = 0 then Inr (False, out)
     else
       bindE (rd_node node s) (\<lambda>n.
       case n_ops n of
         None \<Rightarrow> Inr (False, out)
       | Some Ktmpfs_operations \<Rightarrow> if out = None then Inr (False, out) else ktmpfs_stat node out s))"

definition kvfs_stat_from_node :: "u32 \<Rightarrow> vfs_stat option \<Rightarrow> 'z kernel_state_scheme \<Rightarrow> (bool \<times> vfs_stat option) kres" where
  "kvfs_stat_from_node node stat_ptr s =
    (if node = 0 \<or> stat_ptr = None then Inr (False, stat_ptr)
     else via_ops node s (ktmpfs_stat node stat_ptr s))"

definition kvfs_lookup ::
    "u32 \<Rightarrow> string option \<Rightarrow> 'z kernel_state_scheme \<Rightarrow> (u32 \<times> 'z kernel_state_scheme) kres" where
  "kvfs_lookup node next_level s =
    (if node = 0 \<or> next_level = None then Inr (0, s)
     else
       bindE (kvfs_get_stat node (Some stat_zero) s) (\<lambda>(ok, st).
       if \<not> ok then Inr (0, s)
       else if kvfs_stat_can_exec st (Some root_cred) = 0 then Inr (0, s)
       else via_ops node s (ktmpfs_lookup node next_level s)))"

definition kvfs_create ::
    "u32 \<Rightarrow> string option \<Rightarrow> u32 \<Rightarrow> 'z kernel_state_scheme \<Rightarrow> (bool \<times> 'z kernel_state_scheme) kres" where
  "kvfs_create parent name mode s =
    (if parent = 0 \<or> name = None then Inr (False, s)
     else
       bindE (kvfs_get_stat parent (Some stat_zero) s) (\<lambda>(ok, st).
       if \<not> ok then Inr (False, s)
       else if kvfs_stat_can_write st (Some root_cred) = 0 then Inr (False, s)
       else via_ops parent s
         (ktmpfs_create parent name (KVFS_STAT_MODE_MASK_IT mode OR KVFS_STAT_IFREG) s)))"

definition kvfs_mkdir ::
    "u32 \<Rightarrow> string option \<Rightarrow> u32 \<Rightarrow> 'z kernel_state_scheme \<Rightarrow> (bool \<times> 'z kernel_state_scheme) kres" where
  "kvfs_mkdir parent name mode s =
    (if parent = 0 \<or> name = None then Inr (False, s)
     else
       bindE (kvfs_get_stat parent (Some stat_zero) s) (\<lambda>(ok, st).
       if \<not> ok then Inr (False, s)
       else if kvfs_stat_can_write st (Some root_cred) = 0 \<or> kvfs_stat_can_exec st (Some root_cred) = 0
       then Inr (False, s)
       else via_ops parent s
         (ktmpfs_mkdir parent name (KVFS_STAT_MODE_MASK_IT mode OR KVFS_STAT_IFDIR) s)))"

definition kvfs_read ::
    "u32 \<Rightarrow> u32 \<Rightarrow> u32 \<Rightarrow> u32 \<Rightarrow> 'z kernel_state_scheme \<Rightarrow> (u32 \<times> u32 \<times> 'z kernel_state_scheme) kres" where
  "kvfs_read node offset buffer len s =
    (if node = 0 \<or> buffer = 0 \<or> len = 0 then Inr (0, offset, s)
     else
       bindE (kvfs_get_stat node (Some stat_zero) s) (\<lambda>(ok, st).
       if \<not> ok then Inr (0, offset, s)
       else if kvfs_stat_can_read st (Some root_cred) = 0 then Inr (0, offset, s)
       else via_ops node s (ktmpfs_read node offset buffer len s)))"

definition kvfs_write ::
    "u32 \<Rightarrow> u32 \<Rightarrow> u32 \<Rightarrow> u32 \<Rightarrow> 'z kernel_state_scheme \<Rightarrow> (u32 \<times> u32 \<times> 'z kernel_state_scheme) kres" where
  "kvfs_write node offset buffer len s =
    (if node = 0 \<or> buffer = 0 \<or> len = 0 then Inr (0, offset, s)
     else
       bindE (kvfs_get_stat node (Some stat_zero) s) (\<lambda>(ok, st).
       if \<not> ok then Inr (0, offset, s)
       else if kvfs_stat_can_write st (Some root_cred) = 0 then Inr (0, offset, s)
       else via_ops node s (ktmpfs_write node offset buffer len s)))"

text \<open>\<open>offset\<close> is never \<^verbatim>\<open>NULL\<close>: the callers pass the address of a descriptor's field.\<close>

definition kvfs_readdir ::
    "u32 \<Rightarrow> u32 \<Rightarrow> dirent option \<Rightarrow> 'z kernel_state_scheme
      \<Rightarrow> (bool \<times> dirent option \<times> u32 \<times> 'z kernel_state_scheme) kres" where
  "kvfs_readdir node offset out s =
    (if node = 0 \<or> out = None then Inr (False, out, offset, s)
     else
       bindE (rd_node node s) (\<lambda>n.
       if n_ops n = None then Inr (False, out, offset, s)
       else
         bindE (kvfs_get_stat node (Some stat_zero) s) (\<lambda>(ok, st).
         if \<not> ok then Inr (False, out, offset, s)
         else if \<not> KVFS_STAT_ISDIR (st_mode (the st)) then Inr (False, out, offset, s)
         else if kvfs_stat_can_read st (Some root_cred) = 0 \<or> kvfs_stat_can_exec st (Some root_cred) = 0
         then Inr (False, out, offset, s)
         else via_ops node s (ktmpfs_readdir node offset out s))))"

section \<open>Closing and mounting\<close>

definition kvfs_close :: "u32 \<Rightarrow> 'z kernel_state_scheme \<Rightarrow> 'z kernel_state_scheme kres" where
  "kvfs_close node s =
    (if node = 0 \<or> node = kvfs_root_mount_dir s then Inr s
     else
       bindE (rd_node node s) (\<lambda>n.
       if n_refcount n = 0 then Inr s
       else
         let n = n\<lparr>n_refcount := n_refcount n - 1\<rparr>; s = wr_obj node (Node n) s in
         if n_refcount n = 0 then free_obj node s else Inr s))"

definition kvfs_mount ::
    "string option \<Rightarrow> string option \<Rightarrow> 'z kernel_state_scheme \<Rightarrow> (u32 \<times> 'z kernel_state_scheme) kres" where
  "kvfs_mount fs_name location s =
    (case location of
       None \<Rightarrow> Inr (0, s)
     | Some loc \<Rightarrow>
         (case kvfs_get_fs fs_name of
            None \<Rightarrow> Inr (0, s)
          | Some Tmpfs_fs \<Rightarrow>
              bindE (ktmpfs_mount loc s) (\<lambda>(r, s). Inr (r, s\<lparr>kvfs_root_mount_dir := r\<rparr>))))"

section \<open>Paths\<close>

definition kvfs_get_type_string :: "u32 \<Rightarrow> string" where
  "kvfs_get_type_string mode =
    (if KVFS_STAT_ISDIR mode then ''directory'' else if KVFS_STAT_ISREG mode then ''file'' else ''?'')"

text \<open>The loop over the components of a path; a node other than \<open>start\<close> is closed once it is passed.\<close>

fun resolve_loop ::
    "u32 \<Rightarrow> u32 \<Rightarrow> string list \<Rightarrow> 'z kernel_state_scheme \<Rightarrow> (u32 \<times> 'z kernel_state_scheme) kres" where
  "resolve_loop start tmp_node [] s = Inr (tmp_node, s)"
| "resolve_loop start tmp_node (part # parts) s =
    bindE (kvfs_lookup tmp_node (Some part) s) (\<lambda>(next_node, s).
    bindE (if tmp_node \<noteq> start then kvfs_close tmp_node s else Inr s) (\<lambda>s.
    if next_node = 0 then Inr (0, s) else resolve_loop start next_node parts s))"

text \<open>The components without the leading \<^verbatim>\<open>/\<close> of an absolute path.\<close>

definition real_parts :: "string list \<Rightarrow> string list" where
  "real_parts parts = drop (if take 1 (parts ! 0) = ''/'' then 1 else 0) parts"

definition kvfs_resolve_from ::
    "u32 \<Rightarrow> string option \<Rightarrow> 'z kernel_state_scheme \<Rightarrow> (u32 \<times> 'z kernel_state_scheme) kres" where
  "kvfs_resolve_from start path s =
    (if path = None then Inr (0, s)
     else
       let start = (if kvfs_is_absolute_path path \<or> start = 0 then kvfs_root_mount_dir s else start) in
       if start = 0 then Inr (0, s)
       else
         let path_parts = kvfs_split_path path in
         if length path_parts = 0 then Inr (0, s)
         else resolve_loop start start (real_parts path_parts) s)"

text \<open>The node of the parent, and what \<open>out_name\<close> holds afterwards: it is the empty string before.\<close>

definition kvfs_resolve_parent_from ::
    "u32 \<Rightarrow> string option \<Rightarrow> 'z kernel_state_scheme \<Rightarrow> (u32 \<times> string \<times> 'z kernel_state_scheme) kres" where
  "kvfs_resolve_parent_from start path s =
    (if path = None then Inr (0, [], s)
     else
       let start = (if kvfs_is_absolute_path path \<or> start = 0 then kvfs_root_mount_dir s else start) in
       if start = 0 then Inr (0, [], s)
       else
         let path_parts = kvfs_split_path path in
         if length path_parts = 0 then Inr (0, [], s)
         else
           bindE (resolve_loop start start (butlast (real_parts path_parts)) s) (\<lambda>(node, s).
           Inr (node, last path_parts, s)))"

section \<open>Opening\<close>

definition kvfs_lookup_open ::
    "string option \<Rightarrow> 'z kernel_state_scheme \<Rightarrow> (u32 \<times> 'z kernel_state_scheme) kres" where
  "kvfs_lookup_open path s =
    (case path of
       None \<Rightarrow> Inr (0, s)
     | Some p \<Rightarrow>
         if take 1 p = ''/'' then kvfs_resolve_from 0 path s else kvfs_resolve_from (kvfs_cwd s) path s)"

definition KVFS_O_ACCMODE :: u32 where "KVFS_O_ACCMODE = 3"
definition KVFS_O_RDONLY :: u32 where "KVFS_O_RDONLY = 0"
definition KVFS_O_WRONLY :: u32 where "KVFS_O_WRONLY = 1"
definition KVFS_O_RDWR :: u32 where "KVFS_O_RDWR = 2"
definition KVFS_O_CREAT :: u32 where "KVFS_O_CREAT = 0x40"
definition KVFS_O_EXCL :: u32 where "KVFS_O_EXCL = 0x80"
definition KVFS_O_DIRECTORY :: u32 where "KVFS_O_DIRECTORY = 0x10000"

text \<open>Closing one node and giving up.\<close>

definition close_fail :: "u32 \<Rightarrow> 'z kernel_state_scheme \<Rightarrow> (bool \<times> 'z kernel_state_scheme) kres" where
  "close_fail node s = bindE (kvfs_close node s) (\<lambda>s. Inr (False, s))"

text \<open>The block under \<^verbatim>\<open>flags & KVFS_O_CREAT\<close>; \<open>False\<close> when it returned \<^verbatim>\<open>NULL\<close>.\<close>

definition open_create ::
    "u32 \<Rightarrow> string \<Rightarrow> u32 \<Rightarrow> u32 \<Rightarrow> vfs_stat option \<Rightarrow> 'z kernel_state_scheme
      \<Rightarrow> (bool \<times> 'z kernel_state_scheme) kres" where
  "open_create parent file_name flags mode st s =
    (if kvfs_stat_can_write st (Some root_cred) = 0 \<or> kvfs_stat_can_exec st (Some root_cred) = 0
     then close_fail parent s
     else
       bindE (kvfs_lookup parent (Some file_name) s) (\<lambda>(node, s).
       if node \<noteq> 0 then
         bindE (kvfs_close node s) (\<lambda>s.
         if flags AND KVFS_O_EXCL \<noteq> 0 then close_fail parent s else Inr (True, s))
       else
         bindE (if flags AND KVFS_O_DIRECTORY \<noteq> 0 then kvfs_mkdir parent (Some file_name) mode s
                else kvfs_create parent (Some file_name) mode s) (\<lambda>(ok, s).
         if ok then Inr (True, s) else close_fail parent s)))"

text \<open>The access checks after the node was found.\<close>

definition open_allowed :: "u32 \<Rightarrow> vfs_stat option \<Rightarrow> bool" where
  "open_allowed accmode st =
    (if accmode = KVFS_O_RDONLY then kvfs_stat_can_read st (Some root_cred) \<noteq> 0
     else if accmode = KVFS_O_WRONLY then kvfs_stat_can_write st (Some root_cred) \<noteq> 0
     else if accmode = KVFS_O_RDWR then
       \<not> (kvfs_stat_can_read st (Some root_cred) = 0 \<or> kvfs_stat_can_write st (Some root_cred) = 0)
     else True)"

text \<open>From the second lookup to the end.\<close>

definition open_node ::
    "u32 \<Rightarrow> string \<Rightarrow> u32 \<Rightarrow> 'z kernel_state_scheme \<Rightarrow> (u32 \<times> 'z kernel_state_scheme) kres" where
  "open_node parent file_name flags s =
    bindE (kvfs_lookup parent (Some file_name) s) (\<lambda>(node, s).
    if node = 0 then bindE (kvfs_close parent s) (\<lambda>s. Inr (0, s))
    else
      bindE (kvfs_get_stat node (Some stat_zero) s) (\<lambda>(ok, st).
      if \<not> ok then bindE (kvfs_close node s) (\<lambda>s. Inr (0, s))
      else if \<not> open_allowed (flags AND KVFS_O_ACCMODE) st then
        bindE (kvfs_close node s) (\<lambda>s. bindE (kvfs_close parent s) (\<lambda>s. Inr (0, s)))
      else
        bindE (if parent \<noteq> kvfs_cwd s then kvfs_close parent s else Inr s) (\<lambda>s. Inr (node, s))))"

definition kvfs_open ::
    "string option \<Rightarrow> u32 \<Rightarrow> u32 \<Rightarrow> 'z kernel_state_scheme \<Rightarrow> (u32 \<times> 'z kernel_state_scheme) kres" where
  "kvfs_open path flags mode s =
    (case path of
       None \<Rightarrow> Inr (0, s)
     | Some p \<Rightarrow>
         bindE (kvfs_resolve_parent_from (if take 1 p = ''/'' then 0 else kvfs_cwd s) path s)
           (\<lambda>(parent, file_name, s).
         if parent = 0 then Inr (0, s)
         else
           bindE (kvfs_get_stat parent (Some stat_zero) s) (\<lambda>(ok, st).
           if \<not> ok then bindE (kvfs_close parent s) (\<lambda>s. Inr (0, s))
           else
             bindE (if flags AND KVFS_O_CREAT \<noteq> 0 then open_create parent file_name flags mode st s
                    else Inr (True, s)) (\<lambda>(go, s).
             if \<not> go then Inr (0, s) else open_node parent file_name flags s))))"

section \<open>Operations on paths\<close>

definition kvfs_rmdir :: "string option \<Rightarrow> 'z kernel_state_scheme \<Rightarrow> (bool \<times> 'z kernel_state_scheme) kres" where
  "kvfs_rmdir path s =
    (if path = None then Inr (False, s)
     else
       bindE (kvfs_lookup_open path s) (\<lambda>(node, s).
       if node = 0 then Inr (False, s)
       else
         bindE (kvfs_get_stat node (Some stat_zero) s) (\<lambda>(ok, st).
         if \<not> ok then close_fail node s
         else if kvfs_stat_can_write st (Some root_cred) = 0 then close_fail node s
         else if \<not> KVFS_STAT_ISDIR (st_mode (the st)) then
           Inr (False, klog_put ''vfs: this file is not a directory'' s)
         else
           bindE (via_ops node s (ktmpfs_rmdir node s)) (\<lambda>(ok, s).
           if \<not> ok then Inr (False, klog_put ''vfs: error while removing a directory'' s)
           else bindE (kvfs_close node s) (\<lambda>s. Inr (True, s))))))"

definition kvfs_unlink :: "string option \<Rightarrow> 'z kernel_state_scheme \<Rightarrow> (bool \<times> 'z kernel_state_scheme) kres" where
  "kvfs_unlink path s =
    (if path = None then Inr (False, s)
     else
       bindE (kvfs_lookup_open path s) (\<lambda>(node, s).
       if node = 0 then Inr (False, klog_put ''vfs: no such file or directory to unlink'' s)
       else
         bindE (kvfs_get_stat node (Some stat_zero) s) (\<lambda>(ok, st).
         if \<not> ok then close_fail node s
         else if kvfs_stat_can_write st (Some root_cred) = 0 then close_fail node s
         else if \<not> KVFS_STAT_ISREG (st_mode (the st)) then
           Inr (False, klog_put ''vfs: cannot unlink this type of file'' s)
         else
           bindE (via_ops node s (ktmpfs_unlink node s)) (\<lambda>(ok, s).
           if \<not> ok then Inr (False, klog_put ''vfs: error while unlinking the file in fs operation'' s)
           else bindE (kvfs_close node s) (\<lambda>s. Inr (True, s))))))"

definition kvfs_stat ::
    "string option \<Rightarrow> vfs_stat option \<Rightarrow> 'z kernel_state_scheme
      \<Rightarrow> (bool \<times> vfs_stat option \<times> 'z kernel_state_scheme) kres" where
  "kvfs_stat path stat_ptr s =
    (if path = None \<or> stat_ptr = None then Inr (False, stat_ptr, s)
     else
       bindE (kvfs_lookup_open path s) (\<lambda>(node, s).
       if node = 0 then Inr (False, stat_ptr, klog_put ''vfs: cannot open file to get stat metadata'' s)
       else
         bindE (via_ops node s (ktmpfs_stat node stat_ptr s)) (\<lambda>(res, st).
         bindE (kvfs_close node s) (\<lambda>s. Inr (res, st, s)))))"

definition kvfs_chdir :: "string option \<Rightarrow> 'z kernel_state_scheme \<Rightarrow> (int \<times> 'z kernel_state_scheme) kres" where
  "kvfs_chdir path s =
    (if path = None then Inr (- 1, s)
     else
       bindE (kvfs_lookup_open path s) (\<lambda>(dir_to_cd, s).
       if dir_to_cd = 0 then Inr (- 1, s)
       else
         bindE (kvfs_stat_from_node dir_to_cd (Some stat_zero) s) (\<lambda>(ok, st).
         if \<not> ok then bindE (kvfs_close dir_to_cd s) (\<lambda>s. Inr (- 1, s))
         else if \<not> KVFS_STAT_ISDIR (st_mode (the st)) then
           bindE (kvfs_close dir_to_cd s) (\<lambda>s. Inr (- 1, s))
         else
           bindE (kvfs_close (kvfs_cwd s) s) (\<lambda>s. Inr (0, s\<lparr>kvfs_cwd := dir_to_cd\<rparr>)))))"

end
