(* ===== verification/Fd.thy ===== *)
theory Fd
  imports Vfs
begin

text \<open>
  File descriptors (\<^verbatim>\<open>src/kernel/fs/fd\<close>) and the path utilities on top of them
  (\<^verbatim>\<open>src/kernel/fs/fs_utils.c\<close>). A process holds the table of its descriptors; a file descriptor is an
  index into it, \<open>-1\<close> an error.
\<close>

section \<open>The table of a process\<close>

definition KFD_MAX_COUNT :: int where "KFD_MAX_COUNT = 32"
definition KFD_ERROR :: int where "KFD_ERROR = - 1"
definition KFD_ACCESS_READ :: u32 where "KFD_ACCESS_READ = 1"
definition KFD_ACCESS_WRITE :: u32 where "KFD_ACCESS_WRITE = 2"

definition sizeof_file_desc :: u32 where "sizeof_file_desc = 16"
definition sizeof_fd_dir :: u32 where "sizeof_fd_dir = 4"

text \<open>\<^verbatim>\<open>ktask_current ? ktask_current->_process : NULL\<close>.\<close>

definition current_process :: "'z kernel_state_scheme \<Rightarrow> u32 kres" where
  "current_process s =
    (if ktask_current s = 0 then Inr 0 else bindE (rd_task (ktask_current s) s) (\<lambda>t. Inr (t_process t)))"

text \<open>The first free entry of the table, \<^verbatim>\<open>KFD_MAX_COUNT\<close> when there is none.\<close>

fun free_fd_from :: "int \<Rightarrow> u32 list \<Rightarrow> int" where
  "free_fd_from fd [] = fd"
| "free_fd_from fd (d # table) = (if d = 0 then fd else free_fd_from (fd + 1) table)"

definition kfd_create_for_process ::
    "u32 \<Rightarrow> u32 \<Rightarrow> u32 \<Rightarrow> 'z kernel_state_scheme \<Rightarrow> (int \<times> 'z kernel_state_scheme) kres" where
  "kfd_create_for_process process node flags s =
    (if node = 0 \<or> process = 0 then Inr (KFD_ERROR, s)
     else
       bindE (rd_process process s) (\<lambda>p.
       let fd = free_fd_from 0 (p_fds p) in
       if fd \<ge> KFD_MAX_COUNT then Inr (KFD_ERROR, s)
       else
         bindE (new_obj sizeof_file_desc
           (Fdesc \<lparr>fd_node = node, fd_offset = 0, fd_flags = flags, fd_refcount = 1\<rparr>) s)
           (\<lambda>(fd_struct, s).
         if fd_struct = 0 then Inr (KFD_ERROR, s)
         else Inr (fd, wr_obj process (Process (p\<lparr>p_fds := (p_fds p)[nat fd := fd_struct]\<rparr>)) s))))"

definition kfd_create :: "u32 \<Rightarrow> u32 \<Rightarrow> 'z kernel_state_scheme \<Rightarrow> (int \<times> 'z kernel_state_scheme) kres" where
  "kfd_create node flags s = bindE (current_process s) (\<lambda>p. kfd_create_for_process p node flags s)"

definition kfd_get_from_process :: "u32 \<Rightarrow> int \<Rightarrow> 'z kernel_state_scheme \<Rightarrow> u32 kres" where
  "kfd_get_from_process process fd s =
    (if fd < 0 \<or> fd \<ge> KFD_MAX_COUNT \<or> process = 0 then Inr 0
     else bindE (rd_process process s) (\<lambda>p. Inr (p_fds p ! nat fd)))"

definition kfd_get :: "int \<Rightarrow> 'z kernel_state_scheme \<Rightarrow> u32 kres" where
  "kfd_get fd s = bindE (current_process s) (\<lambda>p. kfd_get_from_process p fd s)"

definition kfd_check_access_from_process :: "u32 \<Rightarrow> int \<Rightarrow> u32 \<Rightarrow> 'z kernel_state_scheme \<Rightarrow> bool kres" where
  "kfd_check_access_from_process process fd required_access s =
    (if fd < 0 \<or> fd \<ge> KFD_MAX_COUNT \<or> process = 0 then Inr False
     else
       bindE (rd_process process s) (\<lambda>p.
       let desc = p_fds p ! nat fd in
       if desc = 0 then Inr False
       else
         bindE (rd_fdesc desc s) (\<lambda>d.
         let accmode = fd_flags d AND KVFS_O_ACCMODE;
             allowed = (if accmode = KVFS_O_WRONLY then KFD_ACCESS_WRITE
                        else if accmode = KVFS_O_RDWR then KFD_ACCESS_READ OR KFD_ACCESS_WRITE
                        else KFD_ACCESS_READ) in
         Inr (allowed AND required_access = required_access))))"

definition kfd_check_access :: "int \<Rightarrow> u32 \<Rightarrow> 'z kernel_state_scheme \<Rightarrow> bool kres" where
  "kfd_check_access fd required_access s =
    bindE (current_process s) (\<lambda>p. kfd_check_access_from_process p fd required_access s)"

section \<open>Opening and closing\<close>

definition kfd_open_for_process ::
    "u32 \<Rightarrow> string option \<Rightarrow> u32 \<Rightarrow> u32 \<Rightarrow> 'z kernel_state_scheme \<Rightarrow> (int \<times> 'z kernel_state_scheme) kres" where
  "kfd_open_for_process process path flags mode s =
    (if path = None \<or> process = 0 then Inr (KFD_ERROR, s)
     else
       bindE (kvfs_open path flags mode s) (\<lambda>(node, s).
       if node = 0 then Inr (KFD_ERROR, s) else kfd_create_for_process process node flags s))"

definition kfd_open ::
    "string option \<Rightarrow> u32 \<Rightarrow> u32 \<Rightarrow> 'z kernel_state_scheme \<Rightarrow> (int \<times> 'z kernel_state_scheme) kres" where
  "kfd_open path flags mode s =
    bindE (current_process s) (\<lambda>p. kfd_open_for_process p path flags mode s)"

definition kfd_close_for_process ::
    "u32 \<Rightarrow> int \<Rightarrow> 'z kernel_state_scheme \<Rightarrow> (bool \<times> 'z kernel_state_scheme) kres" where
  "kfd_close_for_process process fd s =
    bindE (kfd_get_from_process process fd s) (\<lambda>fd_struct.
    if fd_struct = 0 \<or> process = 0 then Inr (False, s)
    else
      bindE (rd_fdesc fd_struct s) (\<lambda>d.
      if fd_refcount d > 1 then
        Inr (True, wr_obj fd_struct (Fdesc (d\<lparr>fd_refcount := fd_refcount d - 1\<rparr>)) s)
      else
        bindE (kvfs_close (fd_node d) s) (\<lambda>s.
        bindE (free_obj fd_struct s) (\<lambda>s.
        bindE (rd_process process s) (\<lambda>p.
        Inr (True, wr_obj process (Process (p\<lparr>p_fds := (p_fds p)[nat fd := 0]\<rparr>)) s))))))"

definition kfd_close :: "int \<Rightarrow> 'z kernel_state_scheme \<Rightarrow> (bool \<times> 'z kernel_state_scheme) kres" where
  "kfd_close fd s = bindE (current_process s) (\<lambda>p. kfd_close_for_process p fd s)"

text \<open>The result of \<^verbatim>\<open>kmalloc\<close> is not checked: \<^verbatim>\<open>dir->_fd\<close> of a \<^verbatim>\<open>NULL\<close> pointer faults.\<close>

definition kfd_opendir :: "string option \<Rightarrow> 'z kernel_state_scheme \<Rightarrow> (u32 \<times> 'z kernel_state_scheme) kres" where
  "kfd_opendir path s =
    (if path = None then Inr (0, s)
     else
       bindE (kmalloc sizeof_fd_dir s) (\<lambda>(dir, s).
       bindE (kfd_open path (KVFS_O_RDONLY OR KVFS_O_DIRECTORY) 0 s) (\<lambda>(fd, s).
       if dir = 0 then Inl PageFault
       else
         let s = wr_obj dir (Fddir \<lparr>dir_fd = fd\<rparr>) s in
         if fd = KFD_ERROR then bindE (free_obj dir s) (\<lambda>s. Inr (0, s)) else Inr (dir, s))))"

definition kfd_closedir :: "u32 \<Rightarrow> 'z kernel_state_scheme \<Rightarrow> (bool \<times> 'z kernel_state_scheme) kres" where
  "kfd_closedir dir s =
    (if dir = 0 then Inr (False, s)
     else
       bindE (rd_fddir dir s) (\<lambda>d.
       bindE (kfd_close (dir_fd d) s) (\<lambda>(ok, s).
       if \<not> ok then Inr (False, s) else bindE (free_obj dir s) (\<lambda>s. Inr (True, s)))))"

section \<open>Reading and writing\<close>

text \<open>The new value of \<^verbatim>\<open>fd_struct->_offset\<close>, which the callee updated through the pointer.\<close>

definition set_offset :: "u32 \<Rightarrow> u32 \<Rightarrow> 'z kernel_state_scheme \<Rightarrow> 'z kernel_state_scheme kres" where
  "set_offset fd_struct offset s =
    bindE (rd_fdesc fd_struct s) (\<lambda>d. Inr (wr_obj fd_struct (Fdesc (d\<lparr>fd_offset := offset\<rparr>)) s))"

definition kfd_read ::
    "int \<Rightarrow> u32 \<Rightarrow> u32 \<Rightarrow> 'z kernel_state_scheme \<Rightarrow> (u32 \<times> 'z kernel_state_scheme) kres" where
  "kfd_read fd buffer len s =
    (if buffer = 0 \<or> len = 0 then Inr (0, s)
     else
       bindE (kfd_get fd s) (\<lambda>fd_struct.
       if fd_struct = 0 then Inr (0, s)
       else
         bindE (rd_fdesc fd_struct s) (\<lambda>d.
         if fd_node d = 0 then Inr (0, s)
         else
           bindE (kfd_check_access fd KFD_ACCESS_READ s) (\<lambda>ok.
           if \<not> ok then Inr (0, s)
           else
             bindE (kvfs_get_stat (fd_node d) (Some stat_zero) s) (\<lambda>(ok, st).
             if \<not> ok then Inr (0, s)
             else if kvfs_stat_can_read st (Some root_cred) = 0 then Inr (0, s)
             else
               bindE (kvfs_read (fd_node d) (fd_offset d) buffer len s) (\<lambda>(read_bytes, offset, s).
               bindE (set_offset fd_struct offset s) (\<lambda>s. Inr (read_bytes, s))))))))"

definition kfd_write ::
    "int \<Rightarrow> u32 \<Rightarrow> u32 \<Rightarrow> 'z kernel_state_scheme \<Rightarrow> (u32 \<times> 'z kernel_state_scheme) kres" where
  "kfd_write fd buffer len s =
    (if buffer = 0 \<or> len = 0 then Inr (0, s)
     else
       bindE (kfd_get fd s) (\<lambda>fd_struct.
       if fd_struct = 0 then Inr (0, s)
       else
         bindE (rd_fdesc fd_struct s) (\<lambda>d.
         if fd_node d = 0 then Inr (0, s)
         else
           bindE (kfd_check_access fd KFD_ACCESS_WRITE s) (\<lambda>ok.
           if \<not> ok then Inr (0, s)
           else
             bindE (kvfs_get_stat (fd_node d) (Some stat_zero) s) (\<lambda>(ok, st).
             if \<not> ok then Inr (0, s)
             else if kvfs_stat_can_write st (Some root_cred) = 0 then Inr (0, s)
             else
               bindE (rd_node (fd_node d) s) (\<lambda>n.
               if n_ops n = None then Inr (0, s)
               else
                 bindE (kvfs_write (fd_node d) (fd_offset d) buffer len s) (\<lambda>(written, offset, s).
                 bindE (set_offset fd_struct offset s) (\<lambda>s. Inr (written, s)))))))))"

definition kfd_stat :: "int \<Rightarrow> vfs_stat option \<Rightarrow> 'z kernel_state_scheme \<Rightarrow> (bool \<times> vfs_stat option) kres" where
  "kfd_stat fd stat_ptr s =
    bindE (kfd_get fd s) (\<lambda>fd_struct.
    if fd_struct = 0 \<or> stat_ptr = None then Inr (False, stat_ptr)
    else
      bindE (rd_fdesc fd_struct s) (\<lambda>d.
      if fd_node d = 0 then Inr (False, stat_ptr) else kvfs_stat_from_node (fd_node d) stat_ptr s))"

definition kfd_readdir ::
    "int \<Rightarrow> dirent option \<Rightarrow> 'z kernel_state_scheme \<Rightarrow> (bool \<times> dirent option \<times> 'z kernel_state_scheme) kres" where
  "kfd_readdir fd out s =
    (if out = None then Inr (False, out, s)
     else
       bindE (kfd_get fd s) (\<lambda>desc.
       if desc = 0 then Inr (False, out, s)
       else
         bindE (rd_fdesc desc s) (\<lambda>d.
         if fd_node d = 0 then Inr (False, out, s)
         else
           bindE (kfd_check_access fd KFD_ACCESS_READ s) (\<lambda>ok.
           if \<not> ok then Inr (False, out, s)
           else
             bindE (kvfs_get_stat (fd_node d) (Some stat_zero) s) (\<lambda>(ok, st).
             if \<not> ok then Inr (False, out, s)
             else if \<not> KVFS_STAT_ISDIR (st_mode (the st)) then Inr (False, out, s)
             else
               bindE (kvfs_readdir (fd_node d) (fd_offset d) out s) (\<lambda>(ok, out, offset, s).
               bindE (set_offset desc offset s) (\<lambda>s. Inr (ok, out, s))))))))"

section \<open>Path utilities\<close>

definition reserved_path :: "string option \<Rightarrow> bool" where
  "reserved_path path \<longleftrightarrow> path = Some ''..'' \<or> path = Some ''.'' \<or> path = Some ''/''"

definition kmkdir :: "string option \<Rightarrow> 'z kernel_state_scheme \<Rightarrow> (int \<times> 'z kernel_state_scheme) kres" where
  "kmkdir path s =
    (if reserved_path path then Inr (- 1, s)
     else
       bindE (kfd_open path (KVFS_O_CREAT OR KVFS_O_DIRECTORY OR KVFS_O_EXCL) 0x1B6 s) (\<lambda>(dir, s).
       if dir \<noteq> KFD_ERROR then bindE (kfd_close dir s) (\<lambda>(_, s). Inr (0, s)) else Inr (- 1, s)))"

definition krmdir :: "string option \<Rightarrow> 'z kernel_state_scheme \<Rightarrow> (int \<times> 'z kernel_state_scheme) kres" where
  "krmdir path s =
    (if reserved_path path then Inr (- 1, s)
     else bindE (kvfs_rmdir path s) (\<lambda>(ok, s). Inr (if ok then 0 else - 1, s)))"

definition kstat ::
    "string option \<Rightarrow> vfs_stat option \<Rightarrow> 'z kernel_state_scheme
      \<Rightarrow> (int \<times> vfs_stat option \<times> 'z kernel_state_scheme) kres" where
  "kstat path stat_ptr s =
    (if path = None \<or> stat_ptr = None then Inr (- 1, stat_ptr, s)
     else
       bindE (kfd_open path KVFS_O_RDONLY 0 s) (\<lambda>(fd, s).
       if fd = - 1 then Inr (- 1, stat_ptr, s)
       else bindE (kfd_stat fd stat_ptr s) (\<lambda>(ok, st). Inr (if ok then 0 else - 1, st, s))))"

end
