(* ===== verification/Kready.thy ===== *)
theory Kready
  imports Kstore
begin

text \<open>
  A kernel that has just started: the state after \<^verbatim>\<open>kvmm_init\<close> and \<^verbatim>\<open>kmalloc_init\<close> on a machine with 32 free
  page frames, with no structure allocated yet. The examples of the file system, the scheduler and the processes start
  from it.
\<close>

definition boot_heap :: heap_state where
  "boot_heap = \<lparr>kernel_early_heap_start = 0x120408, kernel_early_heap_end = 0x160004,
     kernel_early_heap_available = True, kpmm_bitmap = 0x120004,
     bitmap_mem = replicate 45 0xFF @ replicate 4 0, kpmm_bitmap_bytes_amout = 49,
     kpmm_pages_amount = 392, kpmm_free_pages_amount = 32,
     pmem = (\<lambda>f i. 0), cr3 = 0, paging = False, kvmm_page_directory = 0,
     mem = (\<lambda>a. 0), hdrs = Map.empty, kernel_heap_base = 0, kernel_heap_brk = 0, kernel_heap_limit = 0,
     kernel_heap_lh = 0\<rparr>"

lemma boot_heap_fields:
  "bitmap_mem boot_heap = replicate 45 0xFF @ replicate 4 0" "kpmm_bitmap boot_heap = 0x120004"
  "kpmm_bitmap_bytes_amout boot_heap = 49" "kpmm_free_pages_amount boot_heap = 32" "hdrs boot_heap = Map.empty"
  "kernel_early_heap_start boot_heap = 0x120408" "kernel_early_heap_end boot_heap = 0x160004"
  "kernel_early_heap_available boot_heap" "\<not> paging boot_heap"
  by (simp_all only: boot_heap_def pmm_state.simps early_state.simps vmm_state.simps heap_state.simps simp_thms)

lemma boot_heap_free: "free_pages boot_heap = {360..<392}"
proof -
  have "page_free (replicate 45 0xFF @ replicate 4 (0 :: u8)) k \<longleftrightarrow> 360 \<le> k \<and> k < 392" for k
  proof -
    have "k div 8 < 45 \<longleftrightarrow> k < 360" by linarith
    moreover have "k div 8 - 45 < 4" if "k < 392" using that by linarith
    ultimately show ?thesis using bit_FF [of "k mod 8"] by (auto simp: page_free_def nth_append)
  qed
  note eq = this
  show ?thesis unfolding free_pages_def boot_heap_fields eq by auto
qed

lemma boot_heap_started:
  obtains s s' where "kvmm_init boot_heap = Inr (True, s)" "kmalloc_init 0xD0000000 0xD0064000 s = Inr (True, s')"
    "heap_inv s'" "live_blocks s' = {}" "kernel_heap_limit s' = 0xD0064000" "room 30 s'"
proof -
  have boot: "\<not> paging boot_heap" "early_inv boot_heap" "kernel_early_heap_available boot_heap"
    "unat (kernel_early_heap_start boot_heap) + 5 * 4096 \<le> unat (kernel_early_heap_end boot_heap)"
    by (simp_all add: boot_heap_fields early_inv_def)
  obtain pd ip hp s f where run: "kvmm_init boot_heap = Inr (True, s)" and b: "boot_tables pd ip hp s"
    and le: "unat pd < unat ip" "unat ip < unat hp" "unat hp + 4096 \<le> unat (kernel_early_heap_end boot_heap)"
    and s: "s = boot_heap\<lparr>kernel_early_heap_start := hp + 4096, pmem := f, kvmm_page_directory := pd,
       cr3 := pd, paging := True\<rparr>"
    using kvmm_init_tables [OF boot] by blast
  have free: "free_pages s = {360..<392}" using boot_heap_free by (simp add: s free_pages_def)
  have pmm: "pmm_inv s" unfolding pmm_inv_def free by (simp add: s boot_heap_fields)
  have pages: "page_at pd" "page_at ip" "page_at hp" using b by (simp_all add: boot_tables_def)
  have "unat (pfn q) \<notin> free_pages s" if "page_at q" "unat q \<le> unat hp" for q
    using that le(3) unfolding free by (fastforce simp: boot_heap_fields)
  then have inv: "vmm_inv s" using boot_tables_inv [OF b pmm] pages le by simp
  have "mmu_translate s w = None" if "0xD0000000 \<le> w \<and> w < 0xD0064000" for w
  proof -
    have "unat w div 4194304 = 832"
      using that by (intro div_nat_eqI) (simp_all add: word_le_nat_alt word_less_nat_alt)
    then have "pdi w = 832" by (simp add: pdi_eq)
    then show ?thesis using boot_tables_translate [OF b, of w] by simp
  qed
  moreover have low: "card (low_free s) = 32"
  proof -
    have "{360..<392} \<inter> {..<1024} = {360..<392::nat}" by auto
    then show ?thesis by (simp add: low_free_def free)
  qed
  moreover have "hdrs s = Map.empty" by (simp add: s boot_heap_fields)
  ultimately obtain s' where s': "kmalloc_init 0xD0000000 0xD0064000 s = Inr (True, s')" "heap_inv s'" "live_blocks s' = {}"
      "kernel_heap_limit s' = 0xD0064000" "kernel_heap_brk s' = 0xD0001000" "32 \<le> card (low_free s') + 2"
    using kmalloc_init_establishes [OF inv heap_range_example] by auto
  have "card (low_free s') \<le> card (free_pages s')" unfolding low_free_def by (intro card_mono) auto
  then have "room 30 s'" using s'(4-6) by (simp add: room_def)
  then show thesis using that [OF run s'(1-4)] by blast
qed

text \<open>The rest of the kernel's state before anything was started.\<close>

definition with_kernel :: "heap_state \<Rightarrow> kernel_state" where
  "with_kernel s = tty_state.extend (heap_state.extend s (tty_state.fields 0 0 0 (\<lambda>_. 0)))
     (kernel_state.fields \<lparr>keymap = KKEYMAP_QWERTY, keyboard_buffer = replicate 128 0, keyboard_head = 0,
        keyboard_tail = 0, shift_pressed = 0, caps_lock_activated = 0\<rparr> [] [] Map.empty 0 0 0 0 0 False 1)"

definition kernel_ready :: "kernel_state \<Rightarrow> bool" where
  "kernel_ready s \<longleftrightarrow> (\<exists>s0 s1. kvmm_init boot_heap = Inr (True, s0) \<and>
     kmalloc_init 0xD0000000 0xD0064000 s0 = Inr (True, s1) \<and> s = with_kernel s1)"

lemma with_kernel_heap:
  "heap_inv (with_kernel s) = heap_inv s" "live_blocks (with_kernel s) = live_blocks s"
  "kernel_heap_limit (with_kernel s) = kernel_heap_limit s" "room k (with_kernel s) = room k s"
  "objs (with_kernel s) = Map.empty" "ktask_current (with_kernel s) = 0"
  by (simp_all add: with_kernel_def tty_state.defs heap_state.defs kernel_state.defs heap_inv_def vmm_inv_def recursive_ok_def
      pmm_inv_def free_pages_def live_blocks_def mmu_translate_def pte_of_def pde_of_def pd_entry_def pt_entry_def room_def)

lemma kernel_ready_exists:
  obtains s where "kernel_ready s" "obj_inv s" "objs s = Map.empty" "live_blocks s = {}" "room 30 s"
    "kernel_heap_limit s = 0xD0064000"
proof -
  obtain s0 s1 where s: "kvmm_init boot_heap = Inr (True, s0)" "kmalloc_init 0xD0000000 0xD0064000 s0 = Inr (True, s1)"
    "heap_inv s1" "live_blocks s1 = {}" "kernel_heap_limit s1 = 0xD0064000" "room 30 s1"
    by (rule boot_heap_started)
  then have "kernel_ready (with_kernel s1)" by (auto simp: kernel_ready_def)
  moreover have "obj_inv (with_kernel s1)" using s by (simp add: obj_inv_def with_kernel_heap)
  ultimately show thesis using that [of "with_kernel s1"] s by (simp add: with_kernel_heap)
qed

section \<open>Allocation with room left\<close>

text \<open>While there is room for another block, the allocation of a structure succeeds.\<close>

lemma room_objs [simp]: "room k (s\<lparr>objs := ob\<rparr>) = room k s" "room k (wr_obj p x s) = room k s"
  by (simp_all add: room_def free_pages_def wr_obj_def)

lemma room_mem [simp]: "room k (s\<lparr>mem := f\<rparr>) = room k s"
  by (simp add: room_def free_pages_def)

lemma room_less: "room k s \<Longrightarrow> j \<le> k \<Longrightarrow> room j s"
  by (auto simp: room_def)

lemma new_obj_room:
  assumes "obj_inv s" "small_request n" "unat n \<le> 4080" "room (Suc k) s"
  shows "\<exists>p s'. new_obj n ob s = Inr (p, s') \<and> p \<noteq> 0 \<and> room k s'"
proof -
  obtain p s' where "kmalloc n s = Inr (p, s')" "p \<noteq> 0" "room k s'"
    using kmalloc_room [OF _ small_heap_request [OF assms(1,2)] assms(3,4)] assms(1) by (auto simp: obj_inv_def)
  then show ?thesis by (simp add: new_obj_def)
qed

lemma cnew_obj_room:
  assumes "obj_inv s" "small_request n" "unat n \<le> 4080" "room (Suc k) s"
  shows "\<exists>p s'. cnew_obj n ob s = Inr (p, s') \<and> p \<noteq> 0 \<and> room k s'"
proof -
  have req: "heap_inv s" "heap_request n s"
    using assms(1) small_heap_request [OF assms(1,2)] by (simp_all add: obj_inv_def)
  obtain p s' where "kmalloc n s = Inr (p, s')" "p \<noteq> 0" "room k s'"
    using kmalloc_room [OF req assms(3,4)] by blast
  then show ?thesis using kcalloc_block [OF req] by (simp add: cnew_obj_def)
qed

end
