(* ===== verification/Vfs_Inv.thy ===== *)
theory Vfs_Inv
  imports Tmpfs_Tree Fd Kready
begin

text \<open>
  The invariant of the file system and its preservation. \<open>fs_inv\<close> joins the shape of the directory tree (\<open>tree_inv\<close>) with
  \<open>files_ok\<close>: the contents of every file lie in a block of the heap that is in use, that is large enough for the
  file's capacity, and that belongs to no other file and no structure. Every operation of the virtual file system and
  of the file descriptors is shown to keep it.
\<close>

section \<open>What input and output keep\<close>

lemma wmemset_loop_mem: "wmemset_loop n a w s = Inr s' \<Longrightarrow> \<exists>f. s' = s\<lparr>mem := f\<rparr>"
proof (induction n arbitrary: a s)
  case 0
  then show ?case by (intro exI [of _ "mem s"]) simp
next
  case (Suc n)
  then show ?case by (fastforce simp: kres_simps wr8_def split: if_splits)
qed

lemma copy_down_mem: "copy_down n d a s = Inr s' \<Longrightarrow> \<exists>f. s' = s\<lparr>mem := f\<rparr>"
proof (induction n arbitrary: d a s)
  case 0
  then show ?case by (intro exI [of _ "mem s"]) simp
next
  case (Suc n)
  then show ?case by (fastforce simp: kres_simps wr8_def split: if_splits)
qed

lemma kmemmove_mem: "kmemmove d a n s = Inr (p, s') \<Longrightarrow> \<exists>f. s' = s\<lparr>mem := f\<rparr>"
  by (auto simp: kmemmove_def kres_simps split: if_splits dest: copy_up_mem copy_down_mem intro: exI [of _ "mem s"])

lemma kwmemset_mem: "kwmemset d a n s = Inr (p, s') \<Longrightarrow> \<exists>f. s' = s\<lparr>mem := f\<rparr>"
  by (auto simp: kwmemset_def kres_simps split: if_splits dest: wmemset_loop_mem intro: exI [of _ "mem s"])

lemma tty_erase_mem [simp]: "tty_erase (s\<lparr>mem := f\<rparr>) = tty_erase s"
  by (simp add: tty_erase_def)

lemma tty_erase_cursor [simp]: "tty_erase (ktty_cursor_set x y s) = tty_erase s" "tty_erase (ktty_cursor_add i j s) = tty_erase s"
  by (simp_all add: ktty_cursor_add_def ktty_cursor_set_def kvga_set_cursor_position_def outb_def tty_erase_def Let_def)

lemma kvga_putc_at_erase: "kvga_putc_at x y c color s = Inr s' \<Longrightarrow> tty_erase s' = tty_erase s"
  by (auto simp: kvga_putc_at_def vga_store_def wr8_def kres_simps split: if_splits)

lemma kvga_scroll_line_erase: "kvga_scroll_line s = Inr s' \<Longrightarrow> tty_erase s' = tty_erase s"
  by (auto simp: kvga_scroll_line_def Let_def kres_simps dest!: kmemmove_mem kwmemset_mem)

lemma ktty_putc_erase: "ktty_putc c color s = Inr s' \<Longrightarrow> tty_erase s' = tty_erase s"
  by (auto simp: ktty_putc_def ktty_putc_at_def Let_def kres_simps split: if_splits
      dest!: kvga_putc_at_erase kvga_scroll_line_erase)

text \<open>The part of the state that the devices and the log leave alone.\<close>

definition io_erase :: "'z kernel_state_scheme \<Rightarrow> 'z kernel_state_scheme" where
  "io_erase s = (tty_erase s)\<lparr>kbd := undefined, kbd_pending := [], klog := []\<rparr>"

definition io_frame :: "'z kernel_state_scheme \<Rightarrow> 'z kernel_state_scheme \<Rightarrow> bool" where
  "io_frame s s' \<longleftrightarrow> io_erase s' = io_erase s"

lemma io_frame_refl [simp]: "io_frame s s"
  by (simp add: io_frame_def)

lemma io_frame_trans: "io_frame s t \<Longrightarrow> io_frame t u \<Longrightarrow> io_frame s u"
  by (simp add: io_frame_def)

lemma tty_io_frame: "tty_erase s' = tty_erase s \<Longrightarrow> io_frame s s'"
  by (simp add: io_frame_def io_erase_def)

lemma io_frame_upd [simp]:
  "io_frame s (s\<lparr>mem := f\<rparr>)" "io_frame s (s\<lparr>kbd := k, kbd_pending := ps\<rparr>)" "io_frame s (klog_put msg s)"
  by (simp_all add: io_frame_def io_erase_def klog_put_def) (simp_all add: tty_erase_def)

lemma keyboard_read_loop_frame: "keyboard_read_loop n p s = Inr s' \<Longrightarrow> io_frame s s'"
proof (induction n arbitrary: p s)
  case (Suc n)
  then obtain c t u where "getchar s = Inr (c, t)" "wr8 p c t = Inr u" "keyboard_read_loop n (p + 1) u = Inr s'"
    by (auto simp: kres_simps)
  moreover from this have "io_frame s t" "io_frame t u"
    by (auto simp: getchar_def wr8_def kres_simps split: if_splits)
  ultimately show ?case using Suc.IH io_frame_trans by blast
qed simp

lemma vga_write_loop_frame: "vga_write_loop n p s = Inr s' \<Longrightarrow> io_frame s s'"
proof (induction n arbitrary: p s)
  case (Suc n)
  then obtain b t where "ktty_putc b VGA_TEXT_DEFAULT_COLOR s = Inr t" "vga_write_loop n (p + 1) t = Inr s'"
    by (auto simp: kres_simps)
  then show ?case using Suc.IH io_frame_trans tty_io_frame [OF ktty_putc_erase] by blast
qed simp

lemma heap_inv_io [simp]: "heap_inv (io_erase s) = heap_inv s" "live_blocks (io_erase s) = live_blocks s"
  "kernel_heap_limit (io_erase s) = kernel_heap_limit s" "objs (io_erase s) = objs s" "held (io_erase s) = held s"
  by (simp_all add: io_erase_def tty_erase_def held_def heap_inv_def vmm_inv_def recursive_ok_def pmm_inv_def
      free_pages_def live_blocks_def mmu_translate_def pte_of_def pde_of_def pd_entry_def pt_entry_def)

lemma io_frame_fields:
  assumes "io_frame s s'"
  shows "heap_inv s' = heap_inv s" "live_blocks s' = live_blocks s" "kernel_heap_limit s' = kernel_heap_limit s"
    "objs s' = objs s" "held s' = held s"
  using assms heap_inv_io [of s] heap_inv_io [of s'] unfolding io_frame_def by metis+

section \<open>The invariant\<close>

text \<open>The blocks in use that hold no structure.\<close>

definition raw :: "'z kernel_state_scheme \<Rightarrow> (u32 \<times> nat) set" where
  "raw s = {b \<in> live_blocks s. objs s (fst b) = None}"

text \<open>Data pointer, size, capacity and the size in the metadata of a file.\<close>

definition file_part :: "tmpfs_entry \<Rightarrow> (u32 \<times> u32 \<times> u32 \<times> u64) option" where
  "file_part e = (case e_body e of File p n c \<Rightarrow> Some (p, n, c, st_size (e_stat e)) | _ \<Rightarrow> None)"

definition file_at :: "'z kernel_state_scheme \<Rightarrow> u32 \<Rightarrow> (u32 \<times> u32 \<times> u32 \<times> u64) option" where
  "file_at s a = (case objs s a of Some (Entry e) \<Rightarrow> file_part e | _ \<Rightarrow> None)"

definition file_ok :: "'z kernel_state_scheme \<Rightarrow> u32 \<Rightarrow> u32 \<Rightarrow> u32 \<Rightarrow> u64 \<Rightarrow> bool" where
  "file_ok s p n c z \<longleftrightarrow> n \<le> c \<and> z = ucast n \<and>
     (if p = 0 then c = 0 else \<exists>m. (p, m) \<in> raw s \<and> unat c \<le> m)"

definition files_ok :: "'z kernel_state_scheme \<Rightarrow> bool" where
  "files_ok s \<longleftrightarrow>
     (\<forall>a p n c z. file_at s a = Some (p, n, c, z) \<longrightarrow> file_ok s p n c z) \<and>
     (\<forall>a b p q r. file_at s a = Some (p, q) \<longrightarrow> file_at s b = Some (p, r) \<longrightarrow> p \<noteq> 0 \<longrightarrow> a = b)"

definition fs_inv :: "'z kernel_state_scheme \<Rightarrow> bool" where
  "fs_inv s \<longleftrightarrow> tree_inv s \<and> files_ok s"

text \<open>
  A step that changes no file: the tree stays well-formed, no block of a file is lost, and every file that is there
  afterwards was there before or is empty.
\<close>

definition no_data :: "(u32 \<times> u32 \<times> u32 \<times> u64) option \<Rightarrow> bool" where
  "no_data f \<longleftrightarrow> f = None \<or> f = Some (0, 0, 0, 0)"

definition quiet :: "'z kernel_state_scheme \<Rightarrow> 'z kernel_state_scheme \<Rightarrow> bool" where
  "quiet s s' \<longleftrightarrow> (tree_inv s \<longrightarrow> tree_inv s' \<and> raw s \<subseteq> raw s' \<and> kernel_heap_limit s' = kernel_heap_limit s \<and>
     (\<forall>a. no_data (file_at s' a) \<or> file_at s' a = file_at s a))"

lemma quiet_refl [simp, intro]: "quiet s s"
  by (simp add: quiet_def)

lemma quiet_trans [trans]: "quiet s t \<Longrightarrow> quiet t u \<Longrightarrow> quiet s u"
  unfolding quiet_def by (metis order_trans)

lemma quiet_files:
  assumes "quiet s s'" "tree_inv s" "files_ok s"
  shows "files_ok s'"
proof -
  have q: "raw s \<subseteq> raw s'" "\<And>a. no_data (file_at s' a) \<or> file_at s' a = file_at s a"
    using assms(1,2) by (simp_all add: quiet_def)
  have keep: "file_ok s' p n c z" if "file_ok s p n c z" for p n c z
    using that q(1) unfolding file_ok_def by (cases "p = 0") (auto dest: subsetD)
  have empty: "file_ok s' 0 0 0 0" by (simp add: file_ok_def)
  show ?thesis unfolding files_ok_def
  proof (intro conjI allI impI)
    fix a p n c z assume "file_at s' a = Some (p, n, c, z)"
    then show "file_ok s' p n c z" using q(2) [of a] keep empty assms(3) by (auto simp: no_data_def files_ok_def)
  next
    fix a b p qa r assume ab: "file_at s' a = Some (p, qa)" "file_at s' b = Some (p, r)" "p \<noteq> 0"
    then have "file_at s a = Some (p, qa)" "file_at s b = Some (p, r)"
      using q(2) [of a] q(2) [of b] by (auto simp: no_data_def)
    then show "a = b" using assms(3) ab(3) unfolding files_ok_def by blast
  qed
qed

lemma quiet_inv: "quiet s s' \<Longrightarrow> fs_inv s \<Longrightarrow> fs_inv s'"
  using quiet_files by (auto simp: fs_inv_def quiet_def)

section \<open>Quiet steps\<close>

lemma quiet_io: "io_frame s s' \<Longrightarrow> quiet s s'"
  using io_frame_fields [of s s'] by (simp add: quiet_def tree_inv_def obj_inv_def raw_def file_at_def)

lemma quiet_global [simp]:
  "quiet s (s\<lparr>kvfs_cwd := d\<rparr>)" "quiet s (s\<lparr>kvfs_root_mount_dir := d\<rparr>)"
  by (simp_all add: quiet_def tree_inv_def obj_inv_def raw_def file_at_def held_def heap_inv_def vmm_inv_def recursive_ok_def
      pmm_inv_def free_pages_def live_blocks_def mmu_translate_def pte_of_def pde_of_def pd_entry_def pt_entry_def)

lemma quiet_klog [simp]: "quiet s (klog_put msg s)"
  by (rule quiet_io) simp

definition not_entry :: "kobj \<Rightarrow> bool" where
  "not_entry ob \<longleftrightarrow> (\<forall>e. ob \<noteq> Entry e)"

lemma not_entry_simps [simp]: "not_entry (Node n)" "not_entry (Fdesc d)" "not_entry (Fddir fd)" "not_entry (Task t)"
  "not_entry (Process q)"
  by (simp_all add: not_entry_def)

lemma limit_erase: "obj_erase s' = obj_erase s \<Longrightarrow> kernel_heap_limit s' = kernel_heap_limit s"
proof -
  have "kernel_heap_limit (obj_erase t) = kernel_heap_limit t" for t :: "'z kernel_state_scheme"
    by (simp add: obj_erase_def heap_erase_def)
  then show "obj_erase s' = obj_erase s \<Longrightarrow> kernel_heap_limit s' = kernel_heap_limit s" by metis
qed

lemma file_at_upd:
  "objs s' = (objs s)(p \<mapsto> ob) \<Longrightarrow> file_at s' a = (if a = p then (case ob of Entry e \<Rightarrow> file_part e | _ \<Rightarrow> None) else file_at s a)"
  by (simp add: file_at_def split: kobj.splits)

text \<open>A structure other than an entry is written, added or removed.\<close>

lemma quiet_wr:
  assumes "objs s p = Some ob" "not_entry ob" "not_entry ob'"
  shows "quiet s (wr_obj p ob' s)"
  unfolding quiet_def
proof (intro impI conjI allI)
  assume inv: "tree_inv s"
  note st = kobjs.store_it [OF tree_inv_obj [OF inv], of p ob']
  show "tree_inv (wr_obj p ob' s)"
    using tree_inv_other [OF inv, of "wr_obj p ob' s" p "Some ob'"] st assms by (auto simp: not_entry_def)
  show "raw s \<subseteq> raw (wr_obj p ob' s)" using st assms(1) by (auto simp: raw_def)
  show "kernel_heap_limit (wr_obj p ob' s) = kernel_heap_limit s" by (simp add: wr_obj_def)
  show "no_data (file_at (wr_obj p ob' s) a) \<or> file_at (wr_obj p ob' s) a = file_at s a" for a
    using assms(3) by (auto simp: wr_obj_def file_at_def no_data_def not_entry_def split: kobj.splits)
qed

lemma quiet_new:
  assumes run: "new_obj n ob s = Inr (p, s')" and n: "small_request n" and ob: "not_entry ob"
  shows "quiet s s'"
  unfolding quiet_def
proof (intro impI)
  assume inv: "tree_inv s"
  show "tree_inv s' \<and> raw s \<subseteq> raw s' \<and> kernel_heap_limit s' = kernel_heap_limit s \<and>
     (\<forall>a. no_data (file_at s' a) \<or> file_at s' a = file_at s a)"
  proof (rule kobjs.make_cases [OF tree_inv_obj [OF inv] n, of ob])
    fix t assume t: "new_obj n ob s = Inr (0, t)" "obj_inv t" "objs t = objs s" "live_blocks t = live_blocks s"
      "obj_erase t = obj_erase s"
    then show ?thesis using run inv limit_erase [OF t(5)] by (simp add: tree_inv_def raw_def file_at_def)
  next
    fix q m t assume t: "new_obj n ob s = Inr (q, t)" "obj_inv t" "q \<notin> fst ` live_blocks s" "objs t = (objs s)(q \<mapsto> ob)"
      "live_blocks t = insert (q, m) (live_blocks s)" "obj_erase t = obj_erase s"
    have eq: "p = q" "s' = t" using run t(1) by simp_all
    have "objs s q = None" using free_address [OF inv t(3)] .
    then have "tree_inv t" using tree_inv_other [OF inv t(2,4)] ob by (auto simp: not_entry_def)
    moreover have "raw s \<subseteq> raw t" unfolding raw_def t(4,5) using t(3) by force
    ultimately show ?thesis
      using limit_erase [OF t(6)] file_at_upd [OF t(4)] ob unfolding eq
      by (auto simp: no_data_def not_entry_def split: kobj.splits)
  qed (use run in simp)
qed

lemma quiet_free:
  assumes run: "free_obj p s = Inr s'" and p: "objs s p = Some ob" "not_entry ob"
  shows "quiet s s'"
  unfolding quiet_def
proof (intro impI)
  assume inv: "tree_inv s"
  obtain t where t: "free_obj p s = Inr t" "obj_inv t" "objs t = (objs s)(p := None)"
    "live_blocks t = {b \<in> live_blocks s. fst b \<noteq> p}" "obj_erase t = obj_erase s"
    using kobjs.drop_it [OF tree_inv_obj [OF inv], of p] p by auto
  have eq: "s' = t" using run t(1) by simp
  have "tree_inv t" by (rule tree_inv_other [OF inv t(2,3)]) (use p in \<open>simp_all add: not_entry_def\<close>)
  moreover have "raw s \<subseteq> raw t" unfolding raw_def t(3,4) using p(1) by auto
  moreover have "no_data (file_at t a) \<or> file_at t a = file_at s a" for a
    using t(3) by (simp add: file_at_def no_data_def)
  ultimately show "tree_inv s' \<and> raw s \<subseteq> raw s' \<and> kernel_heap_limit s' = kernel_heap_limit s \<and>
     (\<forall>a. no_data (file_at s' a) \<or> file_at s' a = file_at s a)"
    using limit_erase [OF t(5)] unfolding eq by simp
qed

text \<open>The metadata of an entry changes, its mode and its size do not.\<close>

lemma quiet_stat:
  assumes d: "objs s d = Some (Entry e)" and st: "st_mode st = st_mode (e_stat e)" "st_size st = st_size (e_stat e)"
  shows "quiet s (wr_obj d (Entry (e\<lparr>e_stat := st\<rparr>)) s)"
  unfolding quiet_def
proof (intro impI conjI allI)
  assume inv: "tree_inv s"
  show "tree_inv (wr_obj d (Entry (e\<lparr>e_stat := st\<rparr>)) s)" by (rule tree_inv_stat [OF inv d st(1)])
  show "raw s \<subseteq> raw (wr_obj d (Entry (e\<lparr>e_stat := st\<rparr>)) s)" using d by (auto simp: raw_def wr_obj_def)
  show "kernel_heap_limit (wr_obj d (Entry (e\<lparr>e_stat := st\<rparr>)) s) = kernel_heap_limit s" by (simp add: wr_obj_def)
  show "no_data (file_at (wr_obj d (Entry (e\<lparr>e_stat := st\<rparr>)) s) a) \<or>
      file_at (wr_obj d (Entry (e\<lparr>e_stat := st\<rparr>)) s) a = file_at s a" for a
    using d st(2) by (auto simp: wr_obj_def file_at_def file_part_def split: tmpfs_body.splits)
qed

lemma quiet_then_stat:
  assumes "quiet s t" "objs t d = Some (Entry e)" "st_mode st = st_mode (e_stat e)" "st_size st = st_size (e_stat e)"
  shows "quiet s (wr_obj d (Entry (e\<lparr>e_stat := st\<rparr>)) t)"
  using quiet_trans [OF assms(1) quiet_stat [OF assms(2-4)]] .

lemma stat_size [simp]:
  "st_size (kvfs_stat_create m) = 0" "st_size (kvfs_stat_inc_nlink st) = st_size st"
  "st_size (kvfs_stat_dec_nlink st) = st_size st" "st_size (kvfs_stat_update_atime st) = st_size st"
  "st_size (kvfs_stat_update_mtime st) = st_size st" "st_size (kvfs_stat_update_ctime st) = st_size st"
  "st_size (kvfs_stat_update_size n st) = ucast n"
  by (simp_all add: kvfs_stat_create_def kvfs_stat_inc_nlink_def kvfs_stat_dec_nlink_def kvfs_stat_update_atime_def
      kvfs_stat_update_mtime_def kvfs_stat_update_ctime_def kvfs_stat_chmod_def kvfs_stat_update_size_def
      kvfs_stat_set_nlink_def Let_def)

section \<open>tmpfs\<close>

lemma new_entry_no_data [simp]: "no_data (file_part (new_entry d nm mode c))"
  by (simp add: no_data_def file_part_def new_entry_def new_body_def)

lemma quiet_create_entry:
  assumes run: "ktmpfs_create_entry d (Some nm) mode s = Inr (p, s')"
  shows "quiet s s'"
proof (cases "tree_inv s \<and> s' \<noteq> s")
  case True
  then have inv: "tree_inv s" and ch: "s' \<noteq> s" by simp_all
  obtain pe where pe: "objs s d = Some (Entry pe)" "KVFS_STAT_ISDIR (st_mode (e_stat pe))" "d \<noteq> 0"
    using run ch by (auto simp: ktmpfs_create_entry_def rd_simps kres_simps split: if_splits)
  have "body_ok (st_mode (e_stat pe)) (e_body pe)" using inv pe(1) by (auto simp: tree_inv_def entry_ok_def)
  then obtain c where c: "e_body pe = Dir c" using pe(2)
    by (cases "e_body pe") (auto simp: body_ok_def KVFS_STAT_ISDIR_def KVFS_STAT_ISCHR_def KVFS_STAT_IFMT_def KVFS_STAT_IFDIR_def
        KVFS_STAT_IFCHR_def)
  obtain cs where cs: "dir_lists (objs s) d cs" using inv pe(1) c tree_ok_lists unfolding tree_inv_def by blast
  show ?thesis
  proof (cases "length nm < 255")
    case True
    show ?thesis
    proof (rule create_entry_spec [OF inv pe(1) c cs True, of mode])
      fix q m t assume t: "ktmpfs_create_entry d (Some nm) mode s = Inr (q, t)" "tree_inv t" "q \<notin> fst ` live_blocks s"
        "objs t = (objs s)(q \<mapsto> Entry (new_entry d nm mode c), d \<mapsto> Entry (pe\<lparr>e_body := Dir q\<rparr>))"
        "live_blocks t = insert (q, m) (live_blocks s)" "obj_erase t = obj_erase s"
      have eq: "s' = t" using run t(1) by simp
      have "raw s \<subseteq> raw t" unfolding raw_def t(4,5) using t(3) pe(1) by force
      moreover have "no_data (file_at t a) \<or> file_at t a = file_at s a" for a
      proof (cases "a = d")
        case True
        then show ?thesis by (simp add: file_at_def t(4) file_part_def no_data_def)
      qed (simp add: file_at_def t(4))
      ultimately show ?thesis using t(2) limit_erase [OF t(6)] by (simp add: quiet_def eq)
    next
      fix t assume t: "ktmpfs_create_entry d (Some nm) mode s = Inr (0, t)" "tree_inv t" "objs t = objs s"
        "live_blocks t = live_blocks s" "obj_erase t = obj_erase s"
      then show ?thesis using run limit_erase [OF t(5)] by (simp add: quiet_def raw_def file_at_def)
    qed (use run in simp)
  next
    case False
    then obtain ob where new: "cnew_obj sizeof_tmpfs_entry ob s = Inr (0, s')"
      using run pe c by (auto simp: ktmpfs_create_entry_def rd_entry_def get_child_def set_child_def copy_name_def kres_simps split: if_splits)
    note nul = kcobjs.make_null [OF tree_inv_obj [OF inv] small_sizes(1) new]
    then show ?thesis using inv limit_erase [of s' s] by (simp add: quiet_def tree_inv_def raw_def file_at_def)
  qed
qed (auto simp: quiet_def)

lemma quiet_inc_nlink: "inc_parent_nlink p s = Inr s' \<Longrightarrow> quiet s s'"
  by (auto simp: inc_parent_nlink_def rd_simps kres_simps intro: quiet_stat)

lemma quiet_remove:
  assumes run: "ktmpfs_remove_from_parent_ll d a s = Inr (ok, s')"
    and a: "objs s a = Some (Entry ae)" "e_parent ae = d" "d \<noteq> 0" "\<forall>k. e_body ae = Dir k \<longrightarrow> k = 0"
  shows "quiet s s'"
  unfolding quiet_def
proof (intro impI)
  assume inv: "tree_inv s"
  then obtain cs where "dir_lists (objs s) d cs" "a \<in> set cs"
    using a(1-3) unfolding tree_inv_def entry_ok_def by blast
  then obtain us vs where ls: "dir_lists (objs s) d (us @ a # vs)" by (auto simp: in_set_conv_decomp)
  obtain t where t: "ktmpfs_remove_from_parent_ll d a s = Inr (True, t)" "tree_inv t" "obj_erase t = obj_erase s"
    "live_blocks t = {b \<in> live_blocks s. fst b \<noteq> a}" "objs t a = None" "dir_lists (objs t) d (us @ vs)"
    "\<And>x. x \<noteq> a \<Longrightarrow> x \<noteq> d \<Longrightarrow> x \<notin> set us \<Longrightarrow> objs t x = objs s x"
    "\<And>x xe. x \<in> set us \<Longrightarrow> objs s x = Some (Entry xe) \<Longrightarrow> \<exists>n. objs t x = Some (Entry (xe\<lparr>e_next := n\<rparr>))"
    using remove_from_parent_spec [OF inv ls a(1,4)] by auto
  have eq: "s' = t" using run t(1) by simp
  have us: "\<exists>e. objs s x = Some (Entry e)" if "x \<in> set us" for x using dir_lists_entries [OF ls, of x] that by auto
  have d: "\<exists>e. objs s d = Some (Entry e)" using ls by (auto simp: dir_lists_def)
  have "raw s \<subseteq> raw t"
  proof
    fix b assume b: "b \<in> raw s"
    then have "objs s (fst b) = None" by (simp add: raw_def)
    then have "fst b \<noteq> a" "fst b \<noteq> d" "fst b \<notin> set us" using a(1) d us [of "fst b"] by auto
    then show "b \<in> raw t" using b t(7) unfolding raw_def t(4) by simp
  qed
  moreover have "no_data (file_at t x) \<or> file_at t x = file_at s x" for x
  proof (cases "x = a \<or> x = d")
    case True
    then show ?thesis using t(5,6) by (auto simp: file_at_def no_data_def dir_lists_def file_part_def)
  next
    case False
    show ?thesis
    proof (cases "x \<in> set us")
      case True
      then obtain xe n where "objs s x = Some (Entry xe)" "objs t x = Some (Entry (xe\<lparr>e_next := n\<rparr>))"
        using us t(8) by blast
      then show ?thesis by (simp add: file_at_def file_part_def cong: tmpfs_body.case_cong)
    qed (use False t(7) in \<open>simp add: file_at_def\<close>)
  qed
  ultimately show "tree_inv s' \<and> raw s \<subseteq> raw s' \<and> kernel_heap_limit s' = kernel_heap_limit s \<and>
     (\<forall>a. no_data (file_at s' a) \<or> file_at s' a = file_at s a)"
    using t(2) limit_erase [OF t(3)] unfolding eq by simp
qed

lemma quiet_create_vfs_node: "ktmpfs_create_vfs_node a s = Inr (p, s') \<Longrightarrow> quiet s s'"
  by (auto simp: ktmpfs_create_vfs_node_def kvfs_get_fs_def Let_def split: if_splits intro: quiet_new)

lemma quiet_lookup: "ktmpfs_lookup node nm s = Inr (p, s') \<Longrightarrow> quiet s s'"
  by (auto simp: ktmpfs_lookup_def kres_simps split: if_splits option.splits dest: quiet_create_vfs_node)

lemma quiet_create: "ktmpfs_create node nm mode s = Inr (ok, s') \<Longrightarrow> quiet s s'"
  by (auto simp: ktmpfs_create_def kres_simps split: if_splits dest!: quiet_create_entry quiet_inc_nlink intro: quiet_trans)

lemma quiet_mkdir: "ktmpfs_mkdir node nm mode s = Inr (ok, s') \<Longrightarrow> quiet s s'"
  by (auto simp: ktmpfs_mkdir_def kres_simps Let_def split: if_splits dest!: quiet_create_entry quiet_inc_nlink intro: quiet_trans)

lemma quiet_readdir: "ktmpfs_readdir node off de s = Inr (ok, de', off', s') \<Longrightarrow> quiet s s'"
  by (auto simp: ktmpfs_readdir_def rd_simps kres_simps Let_def split: if_splits option.splits intro: quiet_stat)

text \<open>\<^verbatim>\<open>ktmpfs_rmdir\<close> and \<^verbatim>\<open>ktmpfs_unlink\<close> as the virtual file system calls them: on a directory and on a regular file.\<close>

definition node_mode :: "'z kernel_state_scheme \<Rightarrow> u32 \<Rightarrow> u32 \<Rightarrow> bool" where
  "node_mode s node mode \<longleftrightarrow>
    (\<exists>n e. objs s node = Some (Node n) \<and> objs s (n_private n) = Some (Entry e) \<and> st_mode (e_stat e) = mode)"

lemma mode_kinds:
  "KVFS_STAT_ISDIR m \<Longrightarrow> \<not> KVFS_STAT_ISCHR m" "KVFS_STAT_ISREG m \<Longrightarrow> \<not> KVFS_STAT_ISDIR m"
  "KVFS_STAT_ISREG m \<Longrightarrow> \<not> KVFS_STAT_ISCHR m"
  by (auto simp: KVFS_STAT_ISDIR_def KVFS_STAT_ISCHR_def KVFS_STAT_ISREG_def KVFS_STAT_IFMT_def KVFS_STAT_IFDIR_def
      KVFS_STAT_IFCHR_def KVFS_STAT_IFREG_def)

lemma tree_body: "tree_inv s \<Longrightarrow> objs s d = Some (Entry e) \<Longrightarrow> body_ok (st_mode (e_stat e)) (e_body e)"
  by (auto simp: tree_inv_def entry_ok_def)

lemma quiet_unlink:
  assumes run: "ktmpfs_unlink node s = Inr (ok, s')" and m: "node_mode s node mode" "KVFS_STAT_ISREG mode"
  shows "quiet s s'"
proof (cases "tree_inv s \<and> s' \<noteq> s")
  case True
  obtain n e where n: "objs s node = Some (Node n)" "objs s (n_private n) = Some (Entry e)" "st_mode (e_stat e) = mode"
    using m(1) by (auto simp: node_mode_def)
  have "\<forall>k. e_body e \<noteq> Dir k" using tree_body [OF _ n(2)] True m(2) n(3) mode_kinds(2) by (auto simp: body_ok_def)
  then show ?thesis
    using run n True by (auto simp: ktmpfs_unlink_def rd_node_def rd_entry_def split: if_splits intro: quiet_remove)
qed (auto simp: quiet_def)

lemma quiet_rmdir:
  assumes run: "ktmpfs_rmdir node s = Inr (ok, s')" and m: "node_mode s node mode" "KVFS_STAT_ISDIR mode"
  shows "quiet s s'"
proof (cases "tree_inv s \<and> s' \<noteq> s")
  case True
  obtain n e where n: "objs s node = Some (Node n)" "objs s (n_private n) = Some (Entry e)" "st_mode (e_stat e) = mode"
    using m(1) by (auto simp: node_mode_def)
  obtain k where "e_body e = Dir k"
    using tree_body [OF _ n(2)] True m(2) n(3) mode_kinds(1) by (cases "e_body e") (auto simp: body_ok_def)
  then show ?thesis
    using run n True
    by (auto simp: ktmpfs_rmdir_def rd_node_def rd_entry_def get_child_def split: if_splits intro: quiet_remove)
qed (auto simp: quiet_def)

lemma quiet_keyboard_read: "kfs_keyboard_read node off buf len s = Inr (n, off', s') \<Longrightarrow> quiet s s'"
  by (auto simp: kfs_keyboard_read_def rd_simps kres_simps split: if_splits
      dest!: keyboard_read_loop_frame quiet_io intro!: quiet_then_stat)

lemma quiet_vga_write: "kfs_vga_write node off buf len s = Inr (n, off', s') \<Longrightarrow> quiet s s'"
  by (auto simp: kfs_vga_write_def rd_simps kres_simps split: if_splits
      dest!: vga_write_loop_frame quiet_io intro!: quiet_then_stat)

lemma quiet_kmemcpy: "kmemcpy d a n s = Inr (p, s') \<Longrightarrow> quiet s s'"
  by (auto dest!: kmemcpy_mem intro: quiet_io)

lemma quiet_read: "ktmpfs_read node off buf len s = Inr (n, off', s') \<Longrightarrow> quiet s s'"
  by (auto simp: ktmpfs_read_def rd_simps Let_def kres_simps
      split: if_splits option.splits tmpfs_body.splits chr_read.splits
      dest!: quiet_keyboard_read quiet_kmemcpy intro!: quiet_then_stat)

section \<open>Writing\<close>

lemma krealloc_block:
  assumes inv: "heap_inv s" and req: "heap_request n s" and p: "p = 0 \<or> (p, m) \<in> live_blocks s"
    and run: "krealloc p n s = Inr (q, t)" and q: "q \<noteq> 0"
  shows "heap_inv t \<and> kernel_heap_limit t = kernel_heap_limit s \<and> q \<notin> fst ` live_blocks s \<and>
    (\<exists>k \<ge> unat n. live_blocks t = insert (q, k) {b \<in> live_blocks s. fst b \<noteq> p}) \<and> heap_frame s t"
proof -
  have n0: "n \<noteq> 0" using req by (auto simp: heap_request_def)
  obtain s1 where al: "kmalloc n s = Inr (q, s1)"
    using run n0 by (auto simp: krealloc_def kres_simps split: if_splits)
  obtain k where k: "heap_inv s1" "kernel_heap_limit s1 = kernel_heap_limit s" "q \<notin> fst ` live_blocks s" "k \<ge> unat n"
    "live_blocks s1 = insert (q, k) (live_blocks s)"
    using kmalloc_block(2) [OF inv req al q] by blast
  have fr: "heap_frame s s1" by (rule kmalloc_frame [OF al])
  show ?thesis
  proof (cases "p = 0")
    case True
    have "{b \<in> live_blocks s. fst b \<noteq> 0} = live_blocks s" using live_nonzero [OF inv] by auto
    moreover have "t = s1" using run al n0 True by (simp add: krealloc_def)
    ultimately show ?thesis using k fr True by metis
  next
    case False
    then have live: "(p, m) \<in> live_blocks s" using p by blast
    obtain f ok where f: "kfree p (s1\<lparr>mem := f\<rparr>) = Inr (ok, t)"
      using run al n0 False by (auto simp: krealloc_def kres_simps dest!: kmemcpy_mem)
    have live1: "(p, m) \<in> live_blocks (s1\<lparr>mem := f\<rparr>)" "heap_inv (s1\<lparr>mem := f\<rparr>)" using live k by (simp_all add: mem_simps)
    then have t: "heap_inv t" "live_blocks t = live_blocks (s1\<lparr>mem := f\<rparr>) - {(p, m)}" "kernel_heap_limit t = kernel_heap_limit s1"
      using kfree_live [OF live1(2,1)] f by auto
    have "live_blocks t = insert (q, k) {b \<in> live_blocks s. fst b \<noteq> p}"
    proof -
      have "live_blocks s - {(p, m)} = {b \<in> live_blocks s. fst b \<noteq> p}" using live by (auto simp: live_blocks_def)
      moreover have "q \<noteq> p" using k(3) live by force
      ultimately show ?thesis unfolding t(2) live_blocks_mem k(5) by (simp add: insert_Diff_if)
    qed
    moreover have "heap_frame s t"
      using heap_frame_trans [OF heap_frame_upd(2) [OF fr] kfree_frame [OF f]] .
    moreover have "kernel_heap_limit t = kernel_heap_limit s" using t(3) k(2) by simp
    ultimately show ?thesis using t(1) k(3,4) by blast
  qed
qed

text \<open>One file is given new contents.\<close>

definition others_ok :: "u32 \<Rightarrow> 'z kernel_state_scheme \<Rightarrow> bool" where
  "others_ok a s \<longleftrightarrow>
     (\<forall>b p n c z. b \<noteq> a \<longrightarrow> file_at s b = Some (p, n, c, z) \<longrightarrow> file_ok s p n c z) \<and>
     (\<forall>b b' p q r. b \<noteq> a \<longrightarrow> b' \<noteq> a \<longrightarrow> file_at s b = Some (p, q) \<longrightarrow> file_at s b' = Some (p, r) \<longrightarrow> p \<noteq> 0 \<longrightarrow> b = b')"

lemma set_file:
  assumes inv: "tree_inv t" and oth: "others_ok a t"
    and a: "objs t a = Some (Entry e)" "e_body e = File p0 n0 c0"
    and st: "st_mode st = st_mode (e_stat e)" "st_size st = ucast n"
    and new: "n \<le> c" "(q, m) \<in> raw t" "unat c \<le> m" "q \<noteq> 0"
    and fresh: "\<And>b r. b \<noteq> a \<Longrightarrow> file_at t b \<noteq> Some (q, r)"
  shows "fs_inv (wr_obj a (Entry (e\<lparr>e_body := File q n c, e_stat := st\<rparr>)) t)"
proof -
  let ?e = "e\<lparr>e_body := File q n c, e_stat := st\<rparr>"
  let ?t = "wr_obj a (Entry ?e) t"
  have ob: "objs ?t = (objs t)(a \<mapsto> Entry ?e)" by (simp add: wr_obj_def)
  have "tree_inv ?t"
  proof (rule tree_inv_links [OF inv])
    show "obj_inv ?t" using kobjs.store_it [OF tree_inv_obj [OF inv], of a "Entry ?e"] a(1) by simp
    show "same_links (objs t) (objs ?t)"
      unfolding ob same_links_def using a st(1) by (auto simp: body_ok_def)
  qed (use a(1) ob in \<open>auto split: if_splits\<close>)
  moreover have raw: "raw ?t = raw t" using a(1) ob by (auto simp: raw_def wr_obj_def)
  have at: "file_at ?t b = (if b = a then Some (q, n, c, ucast n) else file_at t b)" for b
    using st(2) ob by (simp add: file_at_def file_part_def)
  have "files_ok ?t"
    unfolding files_ok_def
  proof (intro conjI allI impI)
    fix b p k j z assume "file_at ?t b = Some (p, k, j, z)"
    moreover have "file_ok ?t q n c (ucast n)" unfolding file_ok_def raw using new by auto
    moreover have "file_ok ?t p k j z" if "b \<noteq> a" "file_at t b = Some (p, k, j, z)"
      using oth that unfolding others_ok_def file_ok_def raw by blast
    ultimately show "file_ok ?t p k j z" using at [of b] by (cases "b = a") simp_all
  next
    fix b b' p x y assume b: "file_at ?t b = Some (p, x)" "file_at ?t b' = Some (p, y)" "p \<noteq> 0"
    show "b = b'"
    proof (cases "b = a \<or> b' = a")
      case True
      then show ?thesis using b at [of b] at [of b'] fresh by (metis option.inject prod.inject)
    next
      case False
      then show ?thesis using b at [of b] at [of b'] oth unfolding others_ok_def by metis
    qed
  qed
  ultimately show ?thesis by (simp add: fs_inv_def)
qed

lemma others_quiet:
  assumes "files_ok s" "quiet s t" "tree_inv s"
  shows "others_ok a t"
  using quiet_files [OF assms(2,3,1)] unfolding files_ok_def others_ok_def by blast

text \<open>The file at \<open>a\<close> gets a larger block.\<close>

lemma grow_file:
  assumes inv: "fs_inv s" and at: "file_at s a = Some (p, n, c, z)" and req: "heap_request k s"
    and run: "krealloc p k s = Inr (q, t)" and q: "q \<noteq> 0"
  shows "tree_inv t \<and> objs t = objs s \<and> others_ok a t \<and> (\<exists>m \<ge> unat k. (q, m) \<in> raw t) \<and>
    (\<forall>b r. file_at t b \<noteq> Some (q, r)) \<and> kernel_heap_limit t = kernel_heap_limit s"
proof -
  have tree: "tree_inv s" and files: "files_ok s" using inv by (simp_all add: fs_inv_def)
  have oi: "heap_inv s" "dom (objs s) \<subseteq> held s" using tree by (simp_all add: tree_inv_def obj_inv_def)
  have "file_ok s p n c z" using files at by (auto simp: files_ok_def)
  then obtain m where p: "p = 0 \<or> (p, m) \<in> raw s" by (auto simp: file_ok_def split: if_splits)
  then have "p = 0 \<or> (p, m) \<in> live_blocks s" by (auto simp: raw_def)
  from krealloc_block [OF oi(1) req this run q] obtain j where t: "heap_inv t" "kernel_heap_limit t = kernel_heap_limit s"
    "q \<notin> fst ` live_blocks s" "j \<ge> unat k" "live_blocks t = insert (q, j) {b \<in> live_blocks s. fst b \<noteq> p}" "heap_frame s t"
    by blast
  have ob: "objs t = objs s" using heap_frame_fields(1) [OF t(6)] .
  have nop: "objs s p = None" using p obj_nonzero [OF tree_inv_obj [OF tree]] by (auto simp: raw_def)
  have "dom (objs s) \<subseteq> held t"
  proof
    fix x assume x: "x \<in> dom (objs s)"
    then have "x \<in> held s" "x \<noteq> p" using oi(2) nop by auto
    then show "x \<in> held t" unfolding held_def t(5) by force
  qed
  then have tree': "tree_inv t" using tree t ob by (simp add: tree_inv_def obj_inv_def)
  have qn: "objs s q = None" using free_address [OF tree t(3)] .
  have raw: "raw t = insert (q, j) {b \<in> raw s. fst b \<noteq> p}" using qn unfolding raw_def t(5) ob by auto
  have fat: "file_at t = file_at s" by (simp add: file_at_def ob fun_eq_iff)
  have nq: "file_at s b \<noteq> Some (q, r)" for b r
  proof
    assume "file_at s b = Some (q, r)"
    then have "file_ok s q (fst r) (fst (snd r)) (snd (snd r))" using files by (cases r) (auto simp: files_ok_def)
    then show False using q t(3) by (force simp: file_ok_def raw_def)
  qed
  have "others_ok a t"
    unfolding others_ok_def fat
  proof (intro conjI allI impI)
    fix b p' n' c' z' assume b: "b \<noteq> a" "file_at s b = Some (p', n', c', z')"
    have "p' = 0 \<or> p' \<noteq> p" using files at b unfolding files_ok_def by blast
    moreover have "file_ok s p' n' c' z'" using files b by (auto simp: files_ok_def)
    ultimately show "file_ok t p' n' c' z'" unfolding file_ok_def raw by auto
  next
    fix b b' p' q' r' assume "file_at s b = Some (p', q')" "file_at s b' = Some (p', r')" "p' \<noteq> 0"
    then show "b = b'" using files unfolding files_ok_def by blast
  qed
  then show ?thesis using tree' ob t(2,4) raw fat nq by auto
qed

text \<open>\<^verbatim>\<open>ktmpfs_write\<close> on a regular file: the block is grown when needed, then the bytes are copied and the sizes set.\<close>

definition write_file ::
    "u32 \<Rightarrow> tmpfs_entry \<Rightarrow> u32 \<Rightarrow> u32 \<Rightarrow> u32 \<Rightarrow> 'z kernel_state_scheme \<Rightarrow> (u32 \<times> u32 \<times> 'z kernel_state_scheme) kres" where
  "write_file a e off buf len s =
    (let data = data_ptr (e_body e); sz = file_size (e_body e); cap = capacity (e_body e); new_size = off + len in
     bindE (if new_size > cap
            then bindE (krealloc data new_size s) (\<lambda>(tmp_ptr, s).
                 Inr (if tmp_ptr = 0 then None else Some (tmp_ptr, new_size), s))
            else Inr (Some (data, cap), s)) (\<lambda>(grown, s).
     case grown of
       None \<Rightarrow> Inr (0, off, klog_put ''tmpfs: failed to write on an entry, due to a failed realloc'' s)
     | Some (data, cap) \<Rightarrow>
         bindE (kmemcpy (data + off) buf len s) (\<lambda>(_, s).
         let sz = (if new_size > sz then new_size else sz) in
         Inr (len, off + len,
           wr_obj a (Entry (e\<lparr>e_body := File data sz cap, e_stat := kvfs_stat_update_size sz (e_stat e)\<rparr>)) s))))"

lemma ktmpfs_write_file:
  assumes "objs s node = Some (Node n)" "objs s (n_private n) = Some (Entry e)" "e_body e = File p sz cap"
    and "KVFS_STAT_ISREG (st_mode (e_stat e))" "node \<noteq> 0" "n_private n \<noteq> 0" "buf \<noteq> 0" "len \<noteq> 0"
  shows "ktmpfs_write node off buf len s = write_file (n_private n) e off buf len s"
  using assms mode_kinds(3) [OF assms(4)]
  by (simp add: ktmpfs_write_def write_file_def rd_node_def rd_entry_def Let_def cong: if_cong)

text \<open>The end of the new contents is at most the new capacity.\<close>

lemma write_sizes:
  fixes off len sz cap :: u32
  assumes "sz \<le> cap"
  shows "off + len \<le> cap \<Longrightarrow> (if off + len > sz then off + len else sz) \<le> cap"
    and "off + len > cap \<Longrightarrow> (if off + len > sz then off + len else sz) \<le> off + len"
  using assms by auto

lemma write_file_keeps:
  assumes inv: "fs_inv s" and a: "objs s a = Some (Entry e)" "e_body e = File p sz cap"
    and run: "write_file a e off buf len s = Inr (len, off', s')" and len: "len \<noteq> 0"
    and fits: "unat (kernel_heap_limit s) + unat off + unat len + 2 ^ 14 \<le> 2 ^ 32"
  shows "fs_inv s'"
proof -
  have tree: "tree_inv s" and files: "files_ok s" using inv by (simp_all add: fs_inv_def)
  have at: "file_at s a = Some (p, sz, cap, st_size (e_stat e))" using a by (simp add: file_at_def file_part_def)
  then have ok: "file_ok s p sz cap (st_size (e_stat e))" using files by (auto simp: files_ok_def)
  have sum: "unat (off + len) = unat off + unat len" using fits by (simp add: unat_word_ariths)
  have pos: "0 < unat (off + len)" using len sum by (simp add: unat_gt_0)
  let ?sz = "if off + len > sz then off + len else sz"
  show ?thesis
  proof (cases "off + len > cap")
    case False
    then obtain x t where t: "kmemcpy (p + off) buf len s = Inr (x, t)"
      and s': "s' = wr_obj a (Entry (e\<lparr>e_body := File p ?sz cap, e_stat := kvfs_stat_update_size ?sz (e_stat e)\<rparr>)) t"
      using run a by (auto simp: write_file_def Let_def kres_simps)
    have q: "quiet s t" using quiet_kmemcpy [OF t] .
    have tree': "tree_inv t" using q tree by (simp add: quiet_def)
    have ob: "objs t = objs s" using t by (auto dest!: kmemcpy_mem)
    have le: "off + len \<le> cap" using False by simp
    then have "cap \<noteq> 0" using pos by (auto simp: word_le_nat_alt)
    then obtain m where p: "p \<noteq> 0" "(p, m) \<in> raw s" "unat cap \<le> m" "sz \<le> cap"
      using ok by (auto simp: file_ok_def split: if_splits)
    have fresh: "file_at t b \<noteq> Some (p, r)" if "b \<noteq> a" for b r
      using files at p(1) that unfolding files_ok_def file_at_def ob by blast
    have "(p, m) \<in> raw t" using q tree p(2) by (auto simp: quiet_def)
    from set_file [OF tree' others_quiet [OF files q tree] _ a(2) _ _ write_sizes(1) [OF p(4) le] this p(3,1) fresh]
    show ?thesis unfolding s' using a(1) ob by simp
  next
    case True
    have req: "heap_request (off + len) s" using fits pos sum by (simp add: heap_request_def)
    obtain q t1 x t where r: "krealloc p (off + len) s = Inr (q, t1)" "q \<noteq> 0" and t: "kmemcpy (q + off) buf len t1 = Inr (x, t)"
      and s': "s' = wr_obj a (Entry (e\<lparr>e_body := File q ?sz (off + len), e_stat := kvfs_stat_update_size ?sz (e_stat e)\<rparr>)) t"
      using run a True len by (auto simp: write_file_def Let_def kres_simps split: if_splits)
    from grow_file [OF inv at req r] obtain m where g: "tree_inv t1" "objs t1 = objs s" "others_ok a t1"
      "unat (off + len) \<le> m" "(q, m) \<in> raw t1" "\<And>b r. file_at t1 b \<noteq> Some (q, r)" by blast
    obtain f where tf: "t = t1\<lparr>mem := f\<rparr>" using t by (auto dest!: kmemcpy_mem)
    have same: "objs t = objs s" "raw t = raw t1" "file_at t = file_at t1" using tf g(2)
      by (simp_all add: raw_def file_at_def fun_eq_iff mem_simps)
    have tree': "tree_inv t" using g(1) tf by (simp add: tree_inv_def)
    have oth: "others_ok a t" using g(3) unfolding others_ok_def file_ok_def same(2,3) .
    have sz: "sz \<le> cap" using ok by (simp add: file_ok_def)
    have "(q, m) \<in> raw t" using g(5) same by simp
    from set_file [OF tree' oth _ a(2) _ _ write_sizes(2) [OF sz True] this g(4) r(2)] g(6)
    show ?thesis unfolding s' using a(1) same by simp
  qed
qed

text \<open>
  The writes that keep the invariant: any write to something that is not a regular file, and a write to a file whose end is
  far enough from the end of the address space and that stored its bytes when it had to get a larger block.
\<close>

definition write_fits :: "'z kernel_state_scheme \<Rightarrow> u32 \<Rightarrow> u32 \<Rightarrow> bool" where
  "write_fits s off len \<longleftrightarrow> unat (kernel_heap_limit s) + unat off + unat len + 2 ^ 14 \<le> 2 ^ 32"

definition write_ok :: "'z kernel_state_scheme \<Rightarrow> u32 \<Rightarrow> u32 \<Rightarrow> u32 \<Rightarrow> u32 \<Rightarrow> bool" where
  "write_ok s node off len r \<longleftrightarrow>
     (\<forall>n e p sz cap. objs s node = Some (Node n) \<longrightarrow> objs s (n_private n) = Some (Entry e) \<longrightarrow> e_body e = File p sz cap \<longrightarrow>
        write_fits s off len \<and> (off + len > cap \<longrightarrow> r = len))"

lemma write_okI: "write_fits s off len \<Longrightarrow> write_ok s node off len len"
  by (simp add: write_ok_def)

text \<open>A write that does not need a larger block stores its bytes.\<close>

lemma write_file_stores_all:
  "write_file a e off buf len s = Inr (r, off', s') \<Longrightarrow> e_body e = File p sz cap \<Longrightarrow> \<not> off + len > cap \<Longrightarrow> r = len"
  by (auto simp: write_file_def Let_def kres_simps)

lemma tmpfs_write_keeps:
  assumes inv: "fs_inv s" and run: "ktmpfs_write node off buf len s = Inr (r, off', s')" and ok: "write_ok s node off len r"
  shows "fs_inv s'"
proof (cases "node = 0 \<or> buf = 0 \<or> len = 0 \<or> s' = s")
  case True
  then show ?thesis using run inv by (auto simp: ktmpfs_write_def)
next
  case False
  then obtain n where n: "objs s node = Some (Node n)" "n_private n \<noteq> 0"
    using run by (auto simp: ktmpfs_write_def kres_simps rd_simps split: if_splits)
  then obtain e where e: "objs s (n_private n) = Some (Entry e)"
    using run False by (auto simp: ktmpfs_write_def kres_simps rd_simps split: if_splits)
  consider (chr) "KVFS_STAT_ISCHR (st_mode (e_stat e))"
    | (other) "\<not> KVFS_STAT_ISCHR (st_mode (e_stat e))" "\<not> KVFS_STAT_ISREG (st_mode (e_stat e))"
    | (reg) "KVFS_STAT_ISREG (st_mode (e_stat e))" by blast
  then show ?thesis
  proof cases
    case chr
    then have "kfs_vga_write node off buf len s = Inr (r, off', s')"
      using run False n e
      by (auto simp: ktmpfs_write_def rd_node_def rd_entry_def
          split: tmpfs_body.splits option.splits chr_write.splits)
    then show ?thesis using quiet_inv [OF quiet_vga_write inv] by blast
  next
    case other
    then have "s' = klog_put ''tmpfs: cannot write on an entry which is not a file'' s"
      using run False n e by (auto simp: ktmpfs_write_def rd_node_def rd_entry_def)
    then show ?thesis using quiet_inv [OF quiet_klog inv] by simp
  next
    case reg
    have "body_ok (st_mode (e_stat e)) (e_body e)" using inv e tree_body by (auto simp: fs_inv_def)
    then obtain p sz cap where b: "e_body e = File p sz cap"
      using reg mode_kinds by (cases "e_body e") (auto simp: body_ok_def)
    have w: "write_file (n_private n) e off buf len s = Inr (r, off', s')"
      using run ktmpfs_write_file [OF n(1) e b reg] False n(2) by simp
    have fits: "write_fits s off len" and grown: "off + len > cap \<longrightarrow> r = len" using ok n(1) e b by (auto simp: write_ok_def)
    then have "r = len" using write_file_stores_all [OF w b] by blast
    then show ?thesis using write_file_keeps [OF inv e b] w fits False unfolding write_fits_def by blast
  qed
qed

section \<open>The virtual file system\<close>

lemma one_ops_table [simp]: "(case y of Ktmpfs_operations \<Rightarrow> r) = r" "y = Ktmpfs_operations"
  by (cases y; simp)+

lemma via_ops_Inr [rd_simps]:
  "via_ops node s r = Inr x \<longleftrightarrow> (\<exists>n. objs s node = Some (Node n) \<and> n_ops n = Some Ktmpfs_operations \<and> r = Inr x)"
  by (auto simp: via_ops_def kres_simps rd_simps split: option.splits)

lemma get_stat_mode:
  assumes "kvfs_get_stat node (Some z) s = Inr (True, st)"
  shows "node_mode s node (st_mode (the st))"
  using assms by (auto simp: kvfs_get_stat_def ktmpfs_stat_def node_mode_def kres_simps rd_simps stat_copy_eq
      split: if_splits option.splits)

lemma quiet_vfs_lookup: "kvfs_lookup node nm s = Inr (p, s') \<Longrightarrow> quiet s s'"
  by (auto simp: kvfs_lookup_def kres_simps rd_simps split: if_splits dest: quiet_lookup)

lemma quiet_vfs_create: "kvfs_create node nm mode s = Inr (ok, s') \<Longrightarrow> quiet s s'"
  by (auto simp: kvfs_create_def kres_simps rd_simps split: if_splits dest: quiet_create)

lemma quiet_vfs_mkdir: "kvfs_mkdir node nm mode s = Inr (ok, s') \<Longrightarrow> quiet s s'"
  by (auto simp: kvfs_mkdir_def kres_simps rd_simps split: if_splits dest: quiet_mkdir)

lemma quiet_vfs_read: "kvfs_read node off buf len s = Inr (n, off', s') \<Longrightarrow> quiet s s'"
  by (auto simp: kvfs_read_def kres_simps rd_simps split: if_splits dest: quiet_read)

lemma quiet_vfs_readdir: "kvfs_readdir node off de s = Inr (ok, de', off', s') \<Longrightarrow> quiet s s'"
  by (auto simp: kvfs_readdir_def kres_simps rd_simps split: if_splits dest: quiet_readdir)

lemma quiet_vfs_close:
  assumes "kvfs_close node s = Inr s'"
  shows "quiet s s'"
proof (cases "s' = s")
  case False
  then obtain n where n: "objs s node = Some (Node n)"
    and run: "(if n_refcount n - 1 = 0 then free_obj node (wr_obj node (Node (n\<lparr>n_refcount := n_refcount n - 1\<rparr>)) s)
      else Inr (wr_obj node (Node (n\<lparr>n_refcount := n_refcount n - 1\<rparr>)) s)) = Inr s'"
    using assms by (auto simp: kvfs_close_def kres_simps rd_simps Let_def split: if_splits)
  let ?t = "wr_obj node (Node (n\<lparr>n_refcount := n_refcount n - 1\<rparr>)) s"
  have "quiet s ?t" by (rule quiet_wr [OF n]) simp_all
  moreover have "quiet ?t s'" if "free_obj node ?t = Inr s'"
    by (rule quiet_free [OF that, of "Node (n\<lparr>n_refcount := n_refcount n - 1\<rparr>)"]) (simp_all add: wr_obj_def)
  ultimately show ?thesis using run quiet_trans by (auto split: if_splits)
qed simp

lemma quiet_resolve_loop: "resolve_loop start node parts s = Inr (r, s') \<Longrightarrow> quiet s s'"
proof (induction parts arbitrary: node s)
  case (Cons part parts)
  then obtain nx t u where "kvfs_lookup node (Some part) s = Inr (nx, t)"
    and u: "(if node \<noteq> start then kvfs_close node t else Inr t) = Inr u"
    and rest: "(if nx = 0 then Inr (0, u) else resolve_loop start nx parts u) = Inr (r, s')"
    by (auto simp: kres_simps)
  moreover have "quiet t u" using u by (auto split: if_splits dest: quiet_vfs_close)
  moreover have "quiet u s'" using rest Cons.IH by (auto split: if_splits)
  ultimately show ?case using quiet_vfs_lookup quiet_trans by metis
qed simp

lemma quiet_resolve_from: "kvfs_resolve_from start path s = Inr (r, s') \<Longrightarrow> quiet s s'"
  by (auto simp: kvfs_resolve_from_def Let_def split: if_splits dest: quiet_resolve_loop)

lemma quiet_resolve_parent: "kvfs_resolve_parent_from start path s = Inr (r, nm, s') \<Longrightarrow> quiet s s'"
  by (auto simp: kvfs_resolve_parent_from_def Let_def kres_simps split: if_splits dest: quiet_resolve_loop)

lemma quiet_lookup_open: "kvfs_lookup_open path s = Inr (r, s') \<Longrightarrow> quiet s s'"
  by (auto simp: kvfs_lookup_open_def split: option.splits if_splits dest: quiet_resolve_from)

lemma quiet_close_fail: "close_fail node s = Inr (ok, s') \<Longrightarrow> quiet s s'"
  by (auto simp: close_fail_def kres_simps dest: quiet_vfs_close)

lemmas quiet_dests = quiet_vfs_lookup quiet_vfs_create quiet_vfs_mkdir quiet_vfs_close quiet_close_fail
  quiet_resolve_parent quiet_lookup_open

lemma quiet_open_create:
  assumes "open_create parent nm flags mode st s = Inr (ok, s')"
  shows "quiet s s'"
  using assms by (auto simp: open_create_def kres_simps split: if_splits dest!: quiet_dests) (metis quiet_trans)+

lemma quiet_open_node:
  assumes "open_node parent nm flags s = Inr (r, s')"
  shows "quiet s s'"
  using assms by (auto simp: open_node_def kres_simps split: if_splits dest!: quiet_dests) (metis quiet_trans)+

lemma quiet_open:
  assumes "kvfs_open path flags mode s = Inr (r, s')"
  shows "quiet s s'"
  using assms
  by (auto simp: kvfs_open_def kres_simps split: if_splits option.splits dest!: quiet_dests quiet_open_create quiet_open_node)
    (metis quiet_trans)+

lemma quiet_vfs_stat: "kvfs_stat path st s = Inr (ok, st', s') \<Longrightarrow> quiet s s'"
  by (auto simp: kvfs_stat_def kres_simps rd_simps split: if_splits dest!: quiet_dests intro: quiet_trans quiet_klog)

lemma quiet_chdir:
  assumes "kvfs_chdir path s = Inr (r, s')"
  shows "quiet s s'"
proof -
  have cwd: "quiet s (t\<lparr>kvfs_cwd := d\<rparr>)" if "quiet s t" for t d using that quiet_global(1) quiet_trans by blast
  show ?thesis
    using assms by (auto simp: kvfs_chdir_def kres_simps split: if_splits dest!: quiet_dests intro: cwd quiet_trans)
qed

text \<open>Removing by path.\<close>

lemma quiet_vfs_unlink:
  assumes run: "kvfs_unlink path s = Inr (ok, s')"
  shows "quiet s s'"
proof -
  have unl: "quiet t u" if "ktmpfs_unlink node t = Inr (ok', u)" "kvfs_get_stat node (Some z) t = Inr (True, st)"
    "KVFS_STAT_ISREG (st_mode (the st))" for node t u ok' z st
    using quiet_unlink [OF that(1) get_stat_mode [OF that(2)] that(3)] .
  have log: "quiet s (klog_put msg t)" if "quiet s t" for t msg using that quiet_klog quiet_trans by blast
  show ?thesis
    using run by (auto simp: kvfs_unlink_def kres_simps rd_simps split: if_splits dest!: quiet_dests unl
        intro: quiet_trans log)
qed

lemma quiet_vfs_rmdir:
  assumes run: "kvfs_rmdir path s = Inr (ok, s')"
  shows "quiet s s'"
proof -
  have rm: "quiet t u" if "ktmpfs_rmdir node t = Inr (ok', u)" "kvfs_get_stat node (Some z) t = Inr (True, st)"
    "KVFS_STAT_ISDIR (st_mode (the st))" for node t u ok' z st
    using quiet_rmdir [OF that(1) get_stat_mode [OF that(2)] that(3)] .
  have log: "quiet s (klog_put msg t)" if "quiet s t" for t msg using that quiet_klog quiet_trans by blast
  show ?thesis
    using run by (auto simp: kvfs_rmdir_def kres_simps rd_simps split: if_splits dest!: quiet_dests rm
        intro: quiet_trans log)
qed

lemma vfs_write_keeps:
  assumes "fs_inv s" "kvfs_write node off buf len s = Inr (r, off', s')" "write_ok s node off len r"
  shows "fs_inv s'"
  using assms tmpfs_write_keeps [OF assms(1) _ assms(3)]
  by (auto simp: kvfs_write_def kres_simps rd_simps split: if_splits)

section \<open>Mounting\<close>

lemma insert_root:
  assumes ok: "tree_ok m" and p: "m p = None" "p \<noteq> 0" and e: "e_parent e = 0" "e_body e = Dir 0" "KVFS_STAT_ISDIR (st_mode (e_stat e))"
  shows "tree_ok (m(p \<mapsto> Entry e))"
proof (intro allI impI)
  let ?m = "m(p \<mapsto> Entry e)"
  fix x xe assume x: "?m x = Some (Entry xe)"
  have sib: "siblings ?m c cs" if "siblings m c cs" for c cs using that by (rule siblings_cong) (use p in auto)
  have lists: "dir_lists ?m d cs" if "dir_lists m d cs" for d cs using that sib p by (auto simp: dir_lists_def)
  show "entry_ok ?m x xe"
  proof (cases "x = p")
    case True
    then show ?thesis using x e p(2) by (auto simp: entry_ok_def body_ok_def intro: exI [of _ "[]"])
  next
    case False
    then have mx: "entry_ok m x xe" using ok x by simp
    have "\<exists>cs. siblings ?m c cs \<and> (\<forall>a \<in> set cs. \<exists>ce. ?m a = Some (Entry ce) \<and> e_parent ce = x)" if c: "e_body xe = Dir c" for c
    proof -
      obtain cs where cs: "siblings m c cs" "\<forall>a \<in> set cs. \<exists>ce. m a = Some (Entry ce) \<and> e_parent ce = x"
        using mx c unfolding entry_ok_def by blast
      have "\<forall>a \<in> set cs. \<exists>ce. ?m a = Some (Entry ce) \<and> e_parent ce = x"
      proof
        fix a assume "a \<in> set cs"
        then obtain ce where "m a = Some (Entry ce)" "e_parent ce = x" using cs(2) by blast
        then show "\<exists>ce. ?m a = Some (Entry ce) \<and> e_parent ce = x" using p(1) by (intro exI [of _ ce]) auto
      qed
      then show ?thesis using sib [OF cs(1)] by blast
    qed
    moreover have "\<exists>cs. dir_lists ?m (e_parent xe) cs \<and> x \<in> set cs" if "e_parent xe \<noteq> 0"
      using mx that lists unfolding entry_ok_def by blast
    ultimately show ?thesis using mx by (simp add: entry_ok_def)
  qed
qed

lemma quiet_same:
  assumes "obj_inv s \<Longrightarrow> obj_inv s'" "objs s' = objs s" "raw s \<subseteq> raw s'" "kernel_heap_limit s' = kernel_heap_limit s"
  shows "quiet s s'"
  using assms by (simp add: quiet_def tree_inv_def file_at_def)

text \<open>The root entry of a new mount, as \<^verbatim>\<open>create_root_entry\<close> makes it.\<close>

abbreviation root_entry :: "string \<Rightarrow> tmpfs_entry" where
  "root_entry loc \<equiv> \<lparr>e_name = loc, e_stat = kvfs_stat_create (0x1ED OR KVFS_STAT_IFDIR), e_parent = 0, e_body = Dir 0, e_next = 0\<rparr>"

lemma root_is_dir: "KVFS_STAT_ISDIR (0x1ED OR KVFS_STAT_IFDIR)"
  by (simp add: KVFS_STAT_ISDIR_def KVFS_STAT_TYPE_def KVFS_STAT_IFMT_def KVFS_STAT_IFDIR_def)

lemma create_root_cases:
  assumes inv: "tree_inv s" and run: "create_root_entry loc s = Inr (p, s')"
  shows "p = 0 \<and> obj_inv s' \<and> objs s' = objs s \<and> live_blocks s' = live_blocks s \<and> obj_erase s' = obj_erase s \<or>
    p \<noteq> 0 \<and> tree_inv s' \<and> p \<notin> fst ` live_blocks s \<and> objs s' = (objs s)(p \<mapsto> Entry (root_entry loc)) \<and>
    (\<exists>m. live_blocks s' = insert (p, m) (live_blocks s)) \<and> obj_erase s' = obj_erase s"
proof -
  have new: "new_obj sizeof_tmpfs_entry (Entry (root_entry loc)) s = Inr (p, s')"
    using run by (auto simp: create_root_entry_def copy_name_def kres_simps split: if_splits)
  show ?thesis
  proof (cases "p = 0")
    case True
    then show ?thesis using kobjs.make_null [OF tree_inv_obj [OF inv] small_sizes(1)] new by auto
  next
    case False
    note mk = kobjs.make_new [OF tree_inv_obj [OF inv] small_sizes(1) new False]
    have "objs s p = None" using free_address [OF inv] mk by blast
    then have "tree_ok ((objs s)(p \<mapsto> Entry (root_entry loc)))"
      using inv False root_is_dir by (intro insert_root) (auto simp: tree_inv_def)
    then have "tree_inv s'" unfolding tree_inv_def using mk by simp
    then show ?thesis using mk False by blast
  qed
qed

lemma quiet_root:
  assumes "tree_inv s" "tree_inv s'" "p \<notin> fst ` live_blocks s" "objs s' = (objs s)(p \<mapsto> Entry (root_entry loc))"
    "live_blocks s' = insert (p, m) (live_blocks s)" "obj_erase s' = obj_erase s"
  shows "quiet s s'"
proof -
  have "raw s \<subseteq> raw s'" unfolding raw_def assms(4,5) using assms(3) by force
  moreover have "no_data (file_at s' a) \<or> file_at s' a = file_at s a" for a
    unfolding file_at_upd [OF assms(4)] by (simp add: no_data_def file_part_def)
  ultimately show ?thesis using assms(2) limit_erase [OF assms(6)] by (simp add: quiet_def)
qed

lemma quiet_mount:
  assumes run: "ktmpfs_mount loc s = Inr (r, s')"
  shows "quiet s s'"
proof (cases "tree_inv s")
  case inv: True
  obtain p t where p: "create_root_entry loc s = Inr (p, t)"
    using run by (auto simp: ktmpfs_mount_def kres_simps)
  note root = create_root_cases [OF inv p]
  show ?thesis
  proof (cases "p = 0")
    case True
    then have t: "obj_inv t" "objs t = objs s" "live_blocks t = live_blocks s" "obj_erase t = obj_erase s"
      using root by auto
    have "s' = t" using run p True by (simp add: ktmpfs_mount_def)
    then show ?thesis using t limit_erase [OF t(4)] by (intro quiet_same) (simp_all add: raw_def)
  next
    case False
    then obtain m where t: "tree_inv t" "p \<notin> fst ` live_blocks s" "objs t = (objs s)(p \<mapsto> Entry (root_entry loc))"
      "live_blocks t = insert (p, m) (live_blocks s)" "obj_erase t = obj_erase s" using root by blast
    have st: "quiet s t" using quiet_root [OF inv t] .
    obtain q u where q: "ktmpfs_create_vfs_node p t = Inr (q, u)"
      and rest: "(if q = 0 then bindE (free_obj p u) (\<lambda>s. Inr (0, s)) else Inr (q, u)) = Inr (r, s')"
      using run p False by (auto simp: ktmpfs_mount_def kres_simps)
    show ?thesis
    proof (cases "q = 0")
      case True
      have "tree_inv u \<and> objs u = objs t \<and> live_blocks u = live_blocks t \<and> obj_erase u = obj_erase t"
        by (rule create_vfs_node_spec [OF t(1) False]) (use q True in simp_all)
      then have u: "tree_inv u" "objs u = objs t" "live_blocks u = live_blocks t" "obj_erase u = obj_erase t" by simp_all
      obtain v where v: "free_obj p u = Inr v" "obj_inv v" "objs v = (objs u)(p := None)"
        "live_blocks v = {b \<in> live_blocks u. fst b \<noteq> p}" "obj_erase v = obj_erase u"
        using kobjs.drop_it [OF tree_inv_obj [OF u(1)], of p] u(2) t(3) by auto
      have eq: "s' = v" using rest True v(1) by simp
      have ob: "objs v = objs s"
        unfolding v(3) u(2) t(3) using free_address [OF inv t(2)] by auto
      have "live_blocks v = live_blocks s" unfolding v(4) u(3) t(4) using t(2) by force
      then show ?thesis
        unfolding eq using ob v(2) limit_erase [of v s] v(5) u(4) t(5) by (intro quiet_same) (simp_all add: raw_def)
    next
      case False
      then have "s' = u" using rest by simp
      then show ?thesis using quiet_trans [OF st] quiet_create_vfs_node [OF q] by simp
    qed
  qed
qed (simp add: quiet_def)

lemma quiet_vfs_mount:
  assumes "kvfs_mount fs loc s = Inr (r, s')"
  shows "quiet s s'"
proof -
  have "quiet s (t\<lparr>kvfs_root_mount_dir := d\<rparr>)" if "quiet s t" for t d using that quiet_global(2) quiet_trans by blast
  then show ?thesis
    using assms by (auto simp: kvfs_mount_def kres_simps split: option.splits vfs_fs.splits dest!: quiet_mount)
qed

end
