(* ===== verification/Fs_Steps.thy ===== *)
theory Fs_Steps
  imports Vfs_Inv
begin

text \<open>
  The calls a client of the file system can make, on nodes, on paths and on file descriptors, as a step relation, and
  the invariant of every state they reach.
\<close>

section \<open>File descriptors\<close>

lemma free_obj_objs: "free_obj p s = Inr s' \<Longrightarrow> x \<noteq> p \<Longrightarrow> objs s' x = objs s x"
  by (auto simp: free_obj_def kres_simps dest!: kfree_frame heap_frame_fields(1))

text \<open>Closing a node touches no other structure.\<close>

lemma kvfs_close_objs:
  assumes "kvfs_close node s = Inr s'" "\<forall>n. objs s x \<noteq> Some (Node n)"
  shows "objs s' x = objs s x"
proof (cases "s' = s")
  case False
  then obtain n where n: "objs s node = Some (Node n)"
    and run: "s' = wr_obj node (Node (n\<lparr>n_refcount := n_refcount n - 1\<rparr>)) s \<or>
      free_obj node (wr_obj node (Node (n\<lparr>n_refcount := n_refcount n - 1\<rparr>)) s) = Inr s'"
    using assms(1) by (auto simp: kvfs_close_def kres_simps rd_simps Let_def split: if_splits)
  have "x \<noteq> node" using n assms(2) by auto
  moreover from this have "objs (wr_obj node ob s) x = objs s x" for ob by (simp add: wr_obj_def)
  ultimately show ?thesis using run free_obj_objs by metis
qed simp

lemma small_fd_sizes [simp]: "small_request sizeof_file_desc" "small_request sizeof_fd_dir"
  by (simp_all add: small_request_def sizeof_file_desc_def sizeof_fd_dir_def)

lemma fd_create_tail:
  assumes new: "new_obj sizeof_file_desc (Fdesc d) s = Inr (p, t)" "p \<noteq> 0" and pr: "objs s pr = Some (Process q)"
  shows "quiet s (wr_obj pr (Process q') t)"
proof (cases "tree_inv s")
  case True
  note inv = tree_inv_obj [OF True]
  have "objs t pr = Some (Process q)"
    using kobjs.make_new [OF inv small_fd_sizes(1) new] pr objs_held [OF inv, of pr] by (auto simp: held_def)
  then have "quiet t (wr_obj pr (Process q') t)" by (rule quiet_wr) simp_all
  then show ?thesis using quiet_new [OF new(1)] quiet_trans by auto
qed (simp add: quiet_def)

lemma quiet_fd_create: "kfd_create_for_process pr node flags s = Inr (fd, s') \<Longrightarrow> quiet s s'"
  by (auto simp: kfd_create_for_process_def Let_def kres_simps rd_simps split: if_splits
      intro: fd_create_tail quiet_new)

lemma quiet_fd_open: "kfd_open_for_process pr path flags mode s = Inr (fd, s') \<Longrightarrow> quiet s s'"
  by (auto simp: kfd_open_for_process_def kres_simps split: if_splits dest!: quiet_open quiet_fd_create intro: quiet_trans)

lemma fd_close_tail:
  assumes "objs s x = Some (Fdesc d)" "kvfs_close (fd_node d) s = Inr t" "free_obj x t = Inr u" "objs u pr = Some (Process q)"
  shows "quiet s (wr_obj pr (Process q') u)"
proof -
  have "objs t x = Some (Fdesc d)" using kvfs_close_objs [OF assms(2), of x] assms(1) by simp
  then have "quiet t u" using quiet_free [OF assms(3)] by simp
  moreover have "quiet u (wr_obj pr (Process q') u)" by (rule quiet_wr [OF assms(4)]) simp_all
  ultimately show ?thesis using quiet_vfs_close [OF assms(2)] quiet_trans by blast
qed

lemma quiet_fd_close: "kfd_close_for_process pr fd s = Inr (ok, s') \<Longrightarrow> quiet s s'"
  by (auto simp: kfd_close_for_process_def kres_simps rd_simps split: if_splits intro: fd_close_tail quiet_wr)

lemma quiet_set_offset: "set_offset x off s = Inr s' \<Longrightarrow> quiet s s'"
  by (auto simp: set_offset_def kres_simps rd_simps intro: quiet_wr)

lemma quiet_fd_read:
  assumes "kfd_read fd buf len s = Inr (n, s')"
  shows "quiet s s'"
  using assms by (auto simp: kfd_read_def kres_simps split: if_splits dest!: quiet_vfs_read quiet_set_offset) (metis quiet_trans)+

lemma quiet_fd_readdir:
  assumes "kfd_readdir fd de s = Inr (ok, de', s')"
  shows "quiet s s'"
  using assms by (auto simp: kfd_readdir_def kres_simps split: if_splits dest!: quiet_vfs_readdir quiet_set_offset) (metis quiet_trans)+

definition fd_write_ok :: "'z kernel_state_scheme \<Rightarrow> int \<Rightarrow> u32 \<Rightarrow> u32 \<Rightarrow> bool" where
  "fd_write_ok s fd len r \<longleftrightarrow>
     (\<forall>x d. kfd_get fd s = Inr x \<longrightarrow> objs s x = Some (Fdesc d) \<longrightarrow> write_ok s (fd_node d) (fd_offset d) len r)"

lemma fd_write_keeps:
  assumes inv: "fs_inv s" and run: "kfd_write fd buf len s = Inr (r, s')" and ok: "fd_write_ok s fd len r"
  shows "fs_inv s'"
proof (cases "s' = s")
  case False
  then obtain x d off t where d: "kfd_get fd s = Inr x" "objs s x = Some (Fdesc d)"
    and w: "kvfs_write (fd_node d) (fd_offset d) buf len s = Inr (r, off, t)"
    and t: "set_offset x off t = Inr s'"
    using run by (auto simp: kfd_write_def kres_simps rd_simps split: if_splits)
  have "write_ok s (fd_node d) (fd_offset d) len r" using ok d by (simp add: fd_write_ok_def)
  then show ?thesis using quiet_inv [OF quiet_set_offset [OF t]] vfs_write_keeps [OF inv w] by blast
qed (use inv in simp)

text \<open>Directory streams: the block is allocated before the path is opened and becomes a structure afterwards.\<close>

lemma quiet_opendir:
  assumes run: "kfd_opendir path s = Inr (r, s')"
  shows "quiet s s'"
proof (cases "s' = s \<or> \<not> tree_inv s")
  case False
  then have inv: "tree_inv s" by simp
  obtain dir t fd u where al: "kmalloc sizeof_fd_dir s = Inr (dir, t)" and op: "kfd_open path (KVFS_O_RDONLY OR KVFS_O_DIRECTORY) 0 t = Inr (fd, u)"
    and dir: "dir \<noteq> 0" and rest: "(if fd = KFD_ERROR then bindE (free_obj dir (wr_obj dir (Fddir \<lparr>dir_fd = fd\<rparr>) u)) (\<lambda>s. Inr (0, s))
      else Inr (dir, wr_obj dir (Fddir \<lparr>dir_fd = fd\<rparr>) u)) = Inr (r, s')"
    using run False by (auto simp: kfd_opendir_def kres_simps Let_def split: if_splits)
  note st = kmalloc_store [OF tree_inv_obj [OF inv] small_fd_sizes(2) al]
  obtain m where t: "live_blocks t = insert (dir, m) (live_blocks s)" using st(4) dir by auto
  have fresh: "dir \<notin> fst ` live_blocks s" using st(3) dir by (simp add: held_def)
  have rawt: "raw t = insert (dir, m) (raw s)" unfolding raw_def t st(2) using free_address [OF inv fresh] by auto
  have lim: "kernel_heap_limit t = kernel_heap_limit s" using limit_erase [OF obj_erase_frame [OF st(5)]] .
  have qt: "quiet s t" using st(1,2) rawt lim by (intro quiet_same) auto
  have tree: "tree_inv t" using qt inv by (simp add: quiet_def)
  have qu: "quiet t u" using op by (auto simp: kfd_open_def kres_simps dest: quiet_fd_open)
  have u: "tree_inv u" "(dir, m) \<in> raw u" "raw s \<subseteq> raw u" using qu tree rawt by (auto simp: quiet_def)
  let ?w = "wr_obj dir (Fddir \<lparr>dir_fd = fd\<rparr>) u"
  have h: "dir \<in> held u" "objs u dir = None" using u(2) by (force simp: raw_def held_def)+
  note wr = wr_obj_store [OF tree_inv_obj [OF u(1)] h(1), of "Fddir \<lparr>dir_fd = fd\<rparr>"]
  have tw: "tree_inv ?w" using tree_inv_other [OF u(1), of ?w dir "Some (Fddir \<lparr>dir_fd = fd\<rparr>)"] wr h(2) by simp
  have "raw s \<subseteq> raw ?w"
  proof
    fix b assume b: "b \<in> raw s"
    then have "b \<in> raw u" "fst b \<noteq> dir" using u(3) fresh by (auto simp: raw_def)
    then show "b \<in> raw ?w" using wr by (simp add: raw_def)
  qed
  moreover have "no_data (file_at ?w a) \<or> file_at ?w a = file_at s a" for a
  proof (cases "a = dir")
    case True
    then show ?thesis by (simp add: file_at_def wr_obj_def no_data_def)
  next
    case False
    then have "file_at ?w a = file_at u a" by (simp add: file_at_def wr_obj_def)
    then show ?thesis using quiet_trans [OF qt qu] inv by (simp add: quiet_def)
  qed
  moreover have "kernel_heap_limit ?w = kernel_heap_limit s" using quiet_trans [OF qt qu] inv by (simp add: quiet_def wr_obj_def)
  ultimately have qw: "quiet s ?w" using tw by (simp add: quiet_def)
  moreover have "quiet ?w s'" if "free_obj dir ?w = Inr s'"
    by (rule quiet_free [OF that, of "Fddir \<lparr>dir_fd = fd\<rparr>"]) (simp_all add: wr_obj_def)
  ultimately show ?thesis using rest quiet_trans by (auto simp: kres_simps split: if_splits)
qed (auto simp: quiet_def)

lemma quiet_closedir:
  assumes "kfd_closedir dir s = Inr (ok, s')"
  shows "quiet s s'"
proof (cases "s' = s")
  case False
  obtain d ok' t where d: "objs s dir = Some (Fddir d)" and c: "kfd_close (dir_fd d) s = Inr (ok', t)"
    and rest: "s' = t \<or> free_obj dir t = Inr s'"
    using assms False by (auto simp: kfd_closedir_def kres_simps rd_simps split: if_splits)
  have qt: "quiet s t" using c by (auto simp: kfd_close_def kres_simps dest: quiet_fd_close)
  have "objs t dir = Some (Fddir d)"
    using c d by (auto simp: kfd_close_def kfd_close_for_process_def wr_obj_def kres_simps rd_simps split: if_splits
        dest!: kvfs_close_objs [of _ _ _ dir] free_obj_objs [of _ _ _ dir])
  then have "quiet t s'" if "free_obj dir t = Inr s'" using quiet_free [OF that] by simp
  then show ?thesis using rest qt quiet_trans by blast
qed simp

section \<open>Steps\<close>

text \<open>
  A call that returned. The writes left out are those to a regular file that end within the heap's limit and 16 KiB of the end
  of the address space, where offset plus length and the allocator's arithmetic may wrap, and those that fail because no larger
  block could be had: such a write has released the old block and leaves the file pointing to it, see \<open>failed_write_dangles\<close>.
\<close>

inductive fs_step :: "'z kernel_state_scheme \<Rightarrow> 'z kernel_state_scheme \<Rightarrow> bool" where
  do_mount: "kvfs_mount fs loc s = Inr (r, s') \<Longrightarrow> fs_step s s'"
| do_open: "kvfs_open path flags mode s = Inr (r, s') \<Longrightarrow> fs_step s s'"
| do_close: "kvfs_close node s = Inr s' \<Longrightarrow> fs_step s s'"
| do_lookup: "kvfs_lookup node nm s = Inr (r, s') \<Longrightarrow> fs_step s s'"
| do_create: "kvfs_create node nm mode s = Inr (ok, s') \<Longrightarrow> fs_step s s'"
| do_mkdir: "kvfs_mkdir node nm mode s = Inr (ok, s') \<Longrightarrow> fs_step s s'"
| do_read: "kvfs_read node off buf len s = Inr (n, off', s') \<Longrightarrow> fs_step s s'"
| do_write: "kvfs_write node off buf len s = Inr (r, off', s') \<Longrightarrow> write_ok s node off len r \<Longrightarrow> fs_step s s'"
| do_readdir: "kvfs_readdir node off de s = Inr (ok, de', off', s') \<Longrightarrow> fs_step s s'"
| do_stat: "kvfs_stat path st s = Inr (ok, st', s') \<Longrightarrow> fs_step s s'"
| do_chdir: "kvfs_chdir path s = Inr (i, s') \<Longrightarrow> fs_step s s'"
| do_unlink: "kvfs_unlink path s = Inr (ok, s') \<Longrightarrow> fs_step s s'"
| do_rmdir: "kvfs_rmdir path s = Inr (ok, s') \<Longrightarrow> fs_step s s'"
| do_fd_open: "kfd_open_for_process p path flags mode s = Inr (fd, s') \<Longrightarrow> fs_step s s'"
| do_fd_create: "kfd_create_for_process p node flags s = Inr (fd, s') \<Longrightarrow> fs_step s s'"
| do_fd_close: "kfd_close_for_process p fd s = Inr (ok, s') \<Longrightarrow> fs_step s s'"
| do_fd_read: "kfd_read fd buf len s = Inr (n, s') \<Longrightarrow> fs_step s s'"
| do_fd_write: "kfd_write fd buf len s = Inr (r, s') \<Longrightarrow> fd_write_ok s fd len r \<Longrightarrow> fs_step s s'"
| do_fd_readdir: "kfd_readdir fd de s = Inr (ok, de', s') \<Longrightarrow> fs_step s s'"
| do_fd_opendir: "kfd_opendir path s = Inr (r, s') \<Longrightarrow> fs_step s s'"
| do_fd_closedir: "kfd_closedir dir s = Inr (ok, s') \<Longrightarrow> fs_step s s'"

lemmas quiet_calls = quiet_vfs_mount quiet_open quiet_vfs_close quiet_vfs_lookup quiet_vfs_create quiet_vfs_mkdir
  quiet_vfs_read quiet_vfs_readdir quiet_vfs_stat quiet_chdir quiet_vfs_unlink quiet_vfs_rmdir quiet_fd_open
  quiet_fd_create quiet_fd_close quiet_fd_read quiet_fd_readdir quiet_opendir quiet_closedir

lemma fs_step_inv: "fs_step s s' \<Longrightarrow> fs_inv s \<Longrightarrow> fs_inv s'"
proof (induction rule: fs_step.induct)
  case (do_write node off buf len s r off' s')
  then show ?case using vfs_write_keeps by blast
next
  case (do_fd_write fd buf len s r s')
  then show ?case using fd_write_keeps by blast
qed (blast dest: quiet_calls quiet_inv)+

lemma fs_steps_inv: "fs_step\<^sup>*\<^sup>* s s' \<Longrightarrow> fs_inv s \<Longrightarrow> fs_inv s'"
  by (induction rule: rtranclp_induct) (auto dest: fs_step_inv)

end
