(* ===== verification/Fs_Walk.thy ===== *)
theory Fs_Walk
  imports Fs_Props
begin

text \<open>
  Path resolution (\<^verbatim>\<open>kvfs_resolve_from\<close>) against a walk through the directory tree: the node it returns is on the
  entry the walk ends at, and the nodes of the directories passed on the way are all released.
\<close>

section \<open>Walking the tree\<close>

definition tree_step :: "(u32 \<rightharpoonup> kobj) \<Rightarrow> u32 \<Rightarrow> string \<Rightarrow> u32 option \<Rightarrow> bool" where
  "tree_step m d nm r \<longleftrightarrow> (\<exists>e. m d = Some (Entry e) \<and>
     (if \<not> KVFS_STAT_ISDIR (st_mode (e_stat e)) then r = None
      else if nm = ''.'' then r = Some d
      else if nm = ''..'' then r = Some (if e_parent e = 0 then d else e_parent e)
      else \<exists>cs. dir_lists m d cs \<and> r = child_named m cs nm))"

inductive walks :: "(u32 \<rightharpoonup> kobj) \<Rightarrow> u32 \<Rightarrow> string list \<Rightarrow> u32 option \<Rightarrow> bool" where
  arrived: "walks m d [] (Some d)"
| lost: "tree_step m d nm None \<Longrightarrow> walks m d (nm # nms) None"
| onward: "tree_step m d nm (Some d') \<Longrightarrow> walks m d' nms r \<Longrightarrow> walks m d (nm # nms) r"

inductive_cases walks_NilE: "walks m d [] r"
inductive_cases walks_ConsE: "walks m d (nm # nms) r"

text \<open>Only the entries of the store matter.\<close>

definition same_entries :: "(u32 \<rightharpoonup> kobj) \<Rightarrow> (u32 \<rightharpoonup> kobj) \<Rightarrow> bool" where
  "same_entries m m' \<longleftrightarrow> (\<forall>x e. m x = Some (Entry e) \<longleftrightarrow> m' x = Some (Entry e))"

lemma same_entries_lists: "same_entries m m' \<Longrightarrow> dir_lists m d cs \<Longrightarrow> dir_lists m' d cs"
  unfolding dir_lists_def same_entries_def using siblings_cong [of m] by blast

lemma same_entries_named:
  assumes "same_entries m m'"
  shows "child_named m cs nm = child_named m' cs nm"
proof -
  have "(case m a of Some (Entry e) \<Rightarrow> e_name e = nm | _ \<Rightarrow> False) = (case m' a of Some (Entry e) \<Rightarrow> e_name e = nm | _ \<Rightarrow> False)" for a
  proof (cases "\<exists>e. m a = Some (Entry e)")
    case True
    then obtain e where "m a = Some (Entry e)" "m' a = Some (Entry e)" using assms by (auto simp: same_entries_def)
    then show ?thesis by simp
  next
    case False
    then have "\<forall>e. m' a \<noteq> Some (Entry e)" using assms by (auto simp: same_entries_def)
    with False show ?thesis by (auto split: option.splits kobj.splits)
  qed
  then show ?thesis by (simp add: child_named_def)
qed

lemma same_entries_step: "same_entries m m' \<Longrightarrow> tree_step m d nm r \<Longrightarrow> tree_step m' d nm r"
proof -
  assume se: "same_entries m m'" and st: "tree_step m d nm r"
  obtain e where e: "m d = Some (Entry e)" using st by (auto simp: tree_step_def)
  have e': "m' d = Some (Entry e)" using se e by (simp add: same_entries_def)
  have "child_named m cs nm = child_named m' cs nm" for cs by (rule same_entries_named [OF se])
  then show "tree_step m' d nm r"
    using st e e' same_entries_lists [OF se, of d] by (auto simp: tree_step_def) blast
qed

lemma same_entries_walks: "walks m d nms r \<Longrightarrow> same_entries m m' \<Longrightarrow> walks m' d nms r"
  by (induction rule: walks.induct) (auto intro: walks.intros dest: same_entries_step)

lemma dir_body: "body_ok m b \<Longrightarrow> KVFS_STAT_ISDIR m \<Longrightarrow> \<exists>c. b = Dir c"
  using mode_kinds(1) [of m] by (cases b) (auto simp: body_ok_def)

text \<open>A step leads from an entry to an entry, and every step has an outcome.\<close>

lemma tree_step_entry:
  assumes "tree_ok m" "tree_step m d nm (Some d')"
  shows "\<exists>e. m d' = Some (Entry e)"
proof -
  obtain e where e: "m d = Some (Entry e)" using assms(2) by (auto simp: tree_step_def)
  have up: "\<exists>pe. m (e_parent e) = Some (Entry pe)" if "e_parent e \<noteq> 0"
    using assms(1) e that unfolding entry_ok_def dir_lists_def by blast
  consider "d' = d" | "e_parent e \<noteq> 0" "d' = e_parent e" | cs where "dir_lists m d cs" "child_named m cs nm = Some d'"
    using assms(2) e by (auto simp: tree_step_def split: if_splits)
  then show ?thesis
  proof cases
    case (3 cs)
    then show ?thesis using child_named_mem dir_lists_entries by blast
  qed (use e up in auto)
qed

lemma walks_total:
  assumes ok: "tree_ok m" and d: "\<exists>e. m d = Some (Entry e)"
  shows "\<exists>r. walks m d nms r"
  using d
proof (induction nms arbitrary: d)
  case (Cons nm nms)
  obtain e where e: "m d = Some (Entry e)" using Cons.prems by blast
  have "\<exists>cs. dir_lists m d cs" if "KVFS_STAT_ISDIR (st_mode (e_stat e))"
    using dir_body [OF _ that, of "e_body e"] tree_ok_lists [OF ok e] ok e by (auto simp: entry_ok_def)
  then obtain r where r: "tree_step m d nm r" using e unfolding tree_step_def by (metis (full_types))
  show ?case
  proof (cases r)
    case None
    then show ?thesis using r lost by blast
  next
    case (Some d')
    then show ?thesis using r Cons.IH [of d'] tree_step_entry [OF ok] onward by blast
  qed
qed (use arrived in blast)

section \<open>Looking up and closing\<close>

lemma lookup_step:
  assumes inv: "tree_inv s" and h: "handle s node d e" and st: "tree_step (objs s) d nm r" and room: "room (Suc k) s"
  obtains p s' where "kvfs_lookup node (Some nm) s = Inr (p, s')" "tree_inv s'" "room k s'" "obj_erase s' = obj_erase s"
    "case r of None \<Rightarrow> p = 0 \<and> s' = s
     | Some a \<Rightarrow> p \<noteq> 0 \<and> objs s p = None \<and> objs s' = (objs s)(p \<mapsto> Node (node_of a))"
proof -
  have ok: "tree_ok (objs s)" using inv by (simp add: tree_inv_def)
  have n: "node \<noteq> 0" "objs s d = Some (Entry e)" using h by (simp_all add: handle_def)
  have d0: "d \<noteq> 0" using obj_nonzero [OF tree_inv_obj [OF inv]] n by auto
  have eq: "kvfs_lookup node (Some nm) s = (case r of None \<Rightarrow> Inr (0, s) | Some a \<Rightarrow> ktmpfs_create_vfs_node a s)"
  proof (cases "KVFS_STAT_ISDIR (st_mode (e_stat e))")
    case False
    then have "r = None" using st n by (simp add: tree_step_def)
    moreover have "ktmpfs_lookup node (Some nm) s = Inr (0, s)"
      using h n d0 False by (auto simp: handle_def ktmpfs_lookup_def rd_node_def rd_entry_def)
    ultimately show ?thesis using vfs_calls(1) [OF h] by simp
  next
    case True
    obtain c where "e_body e = Dir c"
      using dir_body [OF tree_body [OF inv n(2)] True] by blast
    then obtain cs where ls: "dir_lists (objs s) d cs" using tree_ok_lists [OF ok n(2)] by blast
    note look = ktmpfs_lookup_eq [OF inv handle_dir_node [OF h ls] n(1)]
    have zero: "ktmpfs_create_vfs_node 0 s = Inr (0, s)" by (simp add: ktmpfs_create_vfs_node_def)
    consider "nm = ''.''" | "nm = ''..''" | "nm \<noteq> ''.''" "nm \<noteq> ''..''" by blast
    then show ?thesis
    proof cases
      case 1
      then show ?thesis using st n True look(2) vfs_calls(1) [OF h] by (simp add: tree_step_def)
    next
      case 2
      then show ?thesis using st n True look(3) [OF n(2)] vfs_calls(1) [OF h] by (simp add: tree_step_def)
    next
      case 3
      then have "r = child_named (objs s) cs nm"
        using st n True ls dir_lists_unique by (auto simp: tree_step_def)
      then show ?thesis using look(1) [OF 3] vfs_calls(1) [OF h] zero by (simp split: option.splits)
    qed
  qed
  show thesis
  proof (cases r)
    case None
    then show thesis using that [of 0 s] eq inv room_less [OF room, of k] by simp
  next
    case (Some a)
    have "\<exists>ae. objs s a = Some (Entry ae)" using tree_step_entry [OF ok] st Some by blast
    then have "a \<noteq> 0" using obj_nonzero [OF tree_inv_obj [OF inv]] by auto
    then show thesis
    proof (rule create_vfs_node_room [OF inv _ room])
      fix p s' assume p: "ktmpfs_create_vfs_node a s = Inr (p, s')" "p \<noteq> 0" "tree_inv s'" "room k s'"
        "p \<notin> fst ` live_blocks s" "objs s' = (objs s)(p \<mapsto> Node (node_of a))" "obj_erase s' = obj_erase s"
      show thesis using that [of p s'] p eq Some free_address [OF inv p(5)] by simp
    qed
  qed
qed

lemma free_obj_room:
  assumes "free_obj p s = Inr s'"
  shows "room k s' = room k s"
proof -
  obtain ok t where t: "kfree p s = Inr (ok, t)" "s' = (if ok then t\<lparr>objs := (objs t)(p := None)\<rparr> else t)"
    using assms by (auto simp: free_obj_def kres_simps)
  have "t = s \<or> (\<exists>h. t = s\<lparr>hdrs := h\<rparr>)"
    using t(1) by (auto simp: kfree_def wr_hdr_def Let_def kres_simps split: if_splits)
  then have "room k t = room k s" by (auto simp: room_def free_pages_def)
  then show ?thesis using t(2) by simp
qed

text \<open>Closing the only reference to a node releases it.\<close>

lemma close_node:
  assumes inv: "tree_inv s" and n: "objs s node = Some (Node (node_of d))" "node \<noteq> kvfs_root_mount_dir s"
  obtains s' where "kvfs_close node s = Inr s'" "tree_inv s'" "objs s' = (objs s)(node := None)"
    "obj_erase s' = obj_erase s" "\<And>k. room k s' = room k s"
proof -
  let ?n = "Node (node_of d\<lparr>n_refcount := 0\<rparr>)"
  let ?t = "wr_obj node ?n s"
  have n0: "node \<noteq> 0" using obj_nonzero [OF tree_inv_obj [OF inv]] n by auto
  have "quiet s ?t" by (rule quiet_wr [OF n(1)]) simp_all
  then have t: "tree_inv ?t" "objs ?t node = Some ?n" using inv by (simp_all add: quiet_def wr_obj_def)
  obtain s' where s': "free_obj node ?t = Inr s'" "objs s' = (objs ?t)(node := None)" "obj_erase s' = obj_erase ?t"
    using kobjs.drop_it [OF tree_inv_obj [OF t(1)], of node] t(2) by auto
  have "tree_inv s'" using quiet_free [OF s'(1) t(2)] t(1) by (simp add: quiet_def)
  moreover have "kvfs_close node s = Inr s'"
    using s'(1) n n0 by (simp add: kvfs_close_def rd_node_def node_of_def Let_def)
  moreover have "objs s' = (objs s)(node := None)" using s'(2) by (auto simp: wr_obj_def)
  ultimately show thesis using that s'(3) free_obj_room [OF s'(1)] by simp
qed

section \<open>Resolving\<close>

text \<open>The store without the node a walk is at, when that node is not the one it started from.\<close>

definition without_node :: "u32 \<Rightarrow> u32 \<Rightarrow> (u32 \<rightharpoonup> kobj) \<Rightarrow> u32 \<rightharpoonup> kobj" where
  "without_node start node m = (if node = start then m else m(node := None))"

lemma without_node_start [simp]: "without_node start start m = m"
  by (simp add: without_node_def)

lemma root_erase: "obj_erase s' = obj_erase s \<Longrightarrow> kvfs_root_mount_dir s' = kvfs_root_mount_dir s"
proof -
  have "kvfs_root_mount_dir (obj_erase t) = kvfs_root_mount_dir t" for t :: "'z kernel_state_scheme"
    by (simp add: obj_erase_def heap_erase_def)
  then show "obj_erase s' = obj_erase s \<Longrightarrow> kvfs_root_mount_dir s' = kvfs_root_mount_dir s" by metis
qed

text \<open>One component: the next node is looked up, and the current one closed unless the walk started from it.\<close>

lemma resolve_component:
  assumes inv: "tree_inv s" and h: "handle s node d e" and st: "tree_step (objs s) d nm r" and room: "room (Suc k) s"
    and own: "node \<noteq> start \<Longrightarrow> objs s node = Some (Node (node_of d)) \<and> node \<noteq> kvfs_root_mount_dir s"
  obtains p t u where "kvfs_lookup node (Some nm) s = Inr (p, t)"
    "(if node \<noteq> start then kvfs_close node t else Inr t) = Inr u" "tree_inv u" "room k u" "obj_erase u = obj_erase s"
    "case r of None \<Rightarrow> p = 0 \<and> objs u = without_node start node (objs s)
     | Some a \<Rightarrow> p \<noteq> 0 \<and> objs s p = None \<and> objs u = (without_node start node (objs s))(p \<mapsto> Node (node_of a))"
proof -
  obtain p t where t: "kvfs_lookup node (Some nm) s = Inr (p, t)" "tree_inv t" "room k t" "obj_erase t = obj_erase s"
    "case r of None \<Rightarrow> p = 0 \<and> t = s | Some a \<Rightarrow> p \<noteq> 0 \<and> objs s p = None \<and> objs t = (objs s)(p \<mapsto> Node (node_of a))"
    by (rule lookup_step [OF inv h st room])
  show thesis
  proof (cases "node = start")
    case True
    then show thesis using that [OF t(1), of t] t(2-5) by (auto simp: without_node_def split: option.splits)
  next
    case False
    note ow = own [OF False]
    have pn: "p \<noteq> node" if "r \<noteq> None" using t(5) ow that by (auto split: option.splits)
    have "objs t node = Some (Node (node_of d))" using t(5) ow pn by (cases r) auto
    moreover have "node \<noteq> kvfs_root_mount_dir t" using ow root_erase [OF t(4)] by simp
    ultimately obtain u where u: "kvfs_close node t = Inr u" "tree_inv u" "objs u = (objs t)(node := None)"
      "obj_erase u = obj_erase t" "room k u = room k t"
      using close_node [OF t(2)] by metis
    have "case r of None \<Rightarrow> p = 0 \<and> objs u = without_node start node (objs s)
     | Some a \<Rightarrow> p \<noteq> 0 \<and> objs s p = None \<and> objs u = (without_node start node (objs s))(p \<mapsto> Node (node_of a))"
      using t(5) u(3) pn False by (cases r) (auto simp: without_node_def)
    then show thesis using that [OF t(1), of u] u t(3,4) False by simp
  qed
qed

lemma resolve_loop_walks:
  assumes "tree_inv s" "handle s node d e" "walks (objs s) d nms r" "room (length nms) s"
    and "node \<noteq> start \<Longrightarrow> objs s node = Some (Node (node_of d)) \<and> node \<noteq> kvfs_root_mount_dir s"
    and "objs s start \<noteq> None" "objs s (kvfs_root_mount_dir s) \<noteq> None"
  shows "\<exists>p s'. resolve_loop start node nms s = Inr (p, s') \<and> tree_inv s' \<and> obj_erase s' = obj_erase s \<and>
    (case r of None \<Rightarrow> p = 0 \<and> objs s' = without_node start node (objs s)
     | Some a \<Rightarrow> if nms = [] then p = node \<and> s' = s
         else p \<noteq> 0 \<and> without_node start node (objs s) p = None \<and>
           objs s' = (without_node start node (objs s))(p \<mapsto> Node (node_of a)))"
  using assms
proof (induction nms arbitrary: s node d e)
  case Nil
  then have "r = Some d" by (auto elim: walks_NilE)
  then show ?case using Nil.prems(1) by simp
next
  case (Cons nm nms)
  let ?m = "without_node start node (objs s)"
  have ok: "tree_ok (objs s)" using Cons.prems(1) by (simp add: tree_inv_def)
  have e: "objs s d = Some (Entry e)" using Cons.prems(2) by (simp add: handle_def)
  obtain q where q: "tree_step (objs s) d nm q" and rest: "case q of None \<Rightarrow> r = None | Some d' \<Rightarrow> walks (objs s) d' nms r"
    using Cons.prems(3) by (elim walks_ConsE) (auto intro: that)
  have rm: "room (Suc (length nms)) s" using Cons.prems(4) by simp
  obtain p t u where t: "kvfs_lookup node (Some nm) s = Inr (p, t)"
      "(if node \<noteq> start then kvfs_close node t else Inr t) = Inr u" and u: "tree_inv u" "room (length nms) u" "obj_erase u = obj_erase s"
      and c: "case q of None \<Rightarrow> p = 0 \<and> objs u = ?m
        | Some a \<Rightarrow> p \<noteq> 0 \<and> objs s p = None \<and> objs u = ?m(p \<mapsto> Node (node_of a))"
    by (rule resolve_component [OF Cons.prems(1,2) q rm Cons.prems(5)])
  show ?case
  proof (cases q)
    case None
    then have "resolve_loop start node (nm # nms) s = Inr (0, u)" using t c by simp
    then show ?thesis using None rest c u by simp
  next
    case (Some a)
    then have p: "p \<noteq> 0" "objs s p = None" "objs u = ?m(p \<mapsto> Node (node_of a))" using c by simp_all
    have run: "resolve_loop start node (nm # nms) s = resolve_loop start p nms u" using t p(1) by simp
    obtain ae where ae: "objs s a = Some (Entry ae)" using tree_step_entry [OF ok] q Some by blast
    have nn: "?m x = objs s x" if "x \<noteq> node \<or> node = start" for x using that by (auto simp: without_node_def)
    have ents: "same_entries (objs s) (objs u)"
      unfolding same_entries_def p(3) using p(2) Cons.prems(2) nn by (auto simp: handle_def without_node_def)
    have "objs u a = Some (Entry ae)" using ents ae by (simp add: same_entries_def)
    then have hu: "handle u p a ae" using p(1,3) by (intro node_of_handle) simp_all
    have ps: "p \<noteq> start" using p(2) Cons.prems(6) by auto
    have pr: "p \<noteq> kvfs_root_mount_dir u" using p(2) Cons.prems(7) root_erase [OF u(3)] by auto
    have own: "objs u p = Some (Node (node_of a)) \<and> p \<noteq> kvfs_root_mount_dir u" using p(3) pr by simp
    have su: "objs u start \<noteq> None" using nn [of start] Cons.prems(6) ps p(3) by auto
    have "?m (kvfs_root_mount_dir s) = objs s (kvfs_root_mount_dir s)"
      using Cons.prems(5) by (intro nn) auto
    then have ru: "objs u (kvfs_root_mount_dir u) \<noteq> None"
      using Cons.prems(7) pr root_erase [OF u(3)] p(3) by auto
    have wk: "walks (objs u) a nms r" using rest Some same_entries_walks [OF _ ents] by simp
    have clean: "without_node start p (objs u) = ?m"
      using p ps nn [of p] by (auto simp: without_node_def fun_eq_iff)
    from Cons.IH [OF u(1) hu wk u(2) own su ru]
    obtain p' s' where s': "resolve_loop start p nms u = Inr (p', s')" "tree_inv s'" "obj_erase s' = obj_erase u"
      and out: "case r of None \<Rightarrow> p' = 0 \<and> objs s' = ?m
        | Some b \<Rightarrow> if nms = [] then p' = p \<and> s' = u else p' \<noteq> 0 \<and> ?m p' = None \<and> objs s' = ?m(p' \<mapsto> Node (node_of b))"
      unfolding clean by blast
    have "?m p = None" using p(2) nn [of p] by (auto simp: without_node_def)
    moreover have "r = Some a" if "nms = []" using wk that by (auto elim: walks_NilE)
    ultimately have "case r of None \<Rightarrow> p' = 0 \<and> objs s' = ?m
        | Some b \<Rightarrow> p' \<noteq> 0 \<and> ?m p' = None \<and> objs s' = ?m(p' \<mapsto> Node (node_of b))"
      using out p(1,3) by (cases r) (auto split: if_splits)
    then show ?thesis unfolding run s'(1) using s' u(3) by (cases r) simp_all
  qed
qed

lemma resolve_from_walks:
  assumes "tree_inv s" "handle s start d e" "objs s (kvfs_root_mount_dir s) \<noteq> None"
    and "start = (if kvfs_is_absolute_path (Some path) \<or> from = 0 then kvfs_root_mount_dir s else from)"
    and "kvfs_split_path (Some path) \<noteq> []" "nms = real_parts (kvfs_split_path (Some path))"
    and "walks (objs s) d nms r" "room (length nms) s"
  shows "\<exists>p s'. kvfs_resolve_from from (Some path) s = Inr (p, s') \<and> tree_inv s' \<and> obj_erase s' = obj_erase s \<and>
    (case r of None \<Rightarrow> p = 0 \<and> objs s' = objs s
     | Some a \<Rightarrow> if nms = [] then p = start \<and> s' = s
         else p \<noteq> 0 \<and> objs s p = None \<and> objs s' = (objs s)(p \<mapsto> Node (node_of a)))"
proof -
  have s0: "start \<noteq> 0" "objs s start \<noteq> None" using assms(2) by (auto simp: handle_def)
  have "kvfs_resolve_from from (Some path) s = resolve_loop start start nms s"
    using assms(4-6) s0(1) by (simp add: kvfs_resolve_from_def Let_def)
  moreover obtain p s' where "resolve_loop start start nms s = Inr (p, s')" "tree_inv s'" "obj_erase s' = obj_erase s"
      "case r of None \<Rightarrow> p = 0 \<and> objs s' = objs s
       | Some a \<Rightarrow> if nms = [] then p = start \<and> s' = s
           else p \<noteq> 0 \<and> objs s p = None \<and> objs s' = (objs s)(p \<mapsto> Node (node_of a))"
    using resolve_loop_walks [OF assms(1,2,7,8) _ s0(2) assms(3)] unfolding without_node_start by blast
  ultimately show ?thesis by metis
qed

text \<open>
  C8. \<^verbatim>\<open>kvfs_resolve_from\<close> walks the tree: with memory for one block per component, a path whose walk through the
  directories (with \<^verbatim>\<open>.\<close> and \<^verbatim>\<open>..\<close>) ends at an entry gives a new node on exactly that entry, and a path whose walk
  is lost gives \<^verbatim>\<open>NULL\<close>; in both cases every node opened on the way has been released again.
\<close>

theorem kvfs_resolve_from_walks:
  assumes "tree_inv s" "handle s start d e" "objs s (kvfs_root_mount_dir s) \<noteq> None"
    and "start = (if kvfs_is_absolute_path (Some path) \<or> from = 0 then kvfs_root_mount_dir s else from)"
    and "kvfs_split_path (Some path) \<noteq> []" "nms = real_parts (kvfs_split_path (Some path))"
    and "walks (objs s) d nms r" "room (length nms) s"
  shows "\<exists>p s'. kvfs_resolve_from from (Some path) s = Inr (p, s') \<and> tree_inv s' \<and>
    (case r of None \<Rightarrow> p = 0 \<and> objs s' = objs s
     | Some a \<Rightarrow> if nms = [] then p = start \<and> s' = s
         else p \<noteq> 0 \<and> objs s p = None \<and> objs s' = (objs s)(p \<mapsto> Node (node_of a)))"
  using resolve_from_walks [OF assms] by blast

theorem kvfs_resolve_from_walks_witness:
  "\<exists>(s :: kernel_state) s1 s2 r d p q. handle s r d (root_entry ''/'') \<and> kvfs_create r (Some ''motd'') 0x1A4 s = Inr (True, s1) \<and>
     dir_lists (objs s1) d [p] \<and> kvfs_resolve_from 0 (Some ''/../motd'') s1 = Inr (q, s2) \<and>
     objs s2 q = Some (Node (node_of p))"
proof -
  obtain s :: kernel_state and r d where s: "fs_inv s" "room 20 s" and h: "handle s r d (root_entry ''/'')"
    and ls: "dir_lists (objs s) d []" and root: "kvfs_root_mount_dir s = r"
    by (rule mounted_root)
  have tree: "tree_inv s" using s(1) by (simp add: fs_inv_def)
  have d0: "d \<noteq> 0" using obj_nonzero [OF tree_inv_obj [OF tree]] h by (auto simp: handle_def)
  let ?m = "KVFS_STAT_MODE_MASK_IT 0x1A4 OR KVFS_STAT_IFREG"
  obtain p s1 where s1: "kvfs_create r (Some ''motd'') 0x1A4 s = Inr (True, s1)" "p \<noteq> 0" "tree_inv s1" "room 19 s1"
      "with_child (objs s) d p ''motd'' ?m (objs s1)" "obj_erase s1 = obj_erase s"
    by (rule vfs_create_room [OF tree h ls, of "''motd''" 19]) (use s(2) in simp_all)
  have ls1: "dir_lists (objs s1) d [p]"
    using with_child_lists(1) [OF _ s1(5,2) d0 ls] tree by (simp add: tree_inv_def)
  have root1: "kvfs_root_mount_dir s1 = r" using root_erase [OF s1(6)] root by simp
  obtain n where n: "objs s r = Some (Node n)" "n_ops n = Some Ktmpfs_operations" "n_private n = d" "r \<noteq> 0"
    using h by (auto simp: handle_def)
  have rd: "objs s d = Some (Entry (root_entry ''/''))" using h by (simp add: handle_def)
  have "objs s p = None" using s1(5) by (simp add: with_child_def)
  then have ne: "p \<noteq> d" "r \<noteq> d" "r \<noteq> p" using rd n(1) by auto
  obtain e1 where e1: "objs s1 d = Some (Entry e1)" "e_parent e1 = 0" "KVFS_STAT_ISDIR (st_mode (e_stat e1))"
    and nr: "objs s1 r = Some (Node n)" and pe: "objs s1 p = Some (Entry (new_entry d ''motd'' ?m 0))"
    using s1(5) rd n(1) ne root_is_dir by (auto simp: with_child_def)
  have h1: "handle s1 r d e1" using n nr e1 by (simp add: handle_def)
  have "child_named (objs s1) [p] ''motd'' = Some p" using pe by (simp add: child_named_def new_entry_def)
  then have w: "walks (objs s1) d [''..'', ''motd''] (Some p)"
    using e1 ls1 by (intro onward [of _ _ _ d] onward [of _ _ _ p] arrived) (auto simp: tree_step_def)
  have sp: "kvfs_split_path (Some ''/../motd'') = [''/'', ''..'', ''motd'']" by code_simp
  then have parts: "[''..'', ''motd''] = real_parts (kvfs_split_path (Some ''/../motd''))" by (simp add: real_parts_def)
  have ne: "kvfs_split_path (Some ''/../motd'') \<noteq> []" using sp by simp
  have start: "r = (if kvfs_is_absolute_path (Some ''/../motd'') \<or> 0 = 0 then kvfs_root_mount_dir s1 else 0)"
    using root1 by simp
  have at: "objs s1 (kvfs_root_mount_dir s1) \<noteq> None" using root1 nr by simp
  have rm: "room (length [''..'', ''motd'']) s1" using room_less [OF s1(4), of 2] by (simp add: numeral_2_eq_2)
  from kvfs_resolve_from_walks [OF s1(3) h1 at start ne parts w rm]
  obtain q s2 where "kvfs_resolve_from 0 (Some ''/../motd'') s1 = Inr (q, s2)" "objs s2 q = Some (Node (node_of p))"
    by auto
  then show ?thesis using h s1(1) ls1 by metis
qed

end
