(* ===== verification/Fs_Dir.thy ===== *)
theory Fs_Dir
  imports Fs_Walk
begin

text \<open>
  Removing by path and listing a directory: \<^verbatim>\<open>kvfs_unlink\<close>, \<^verbatim>\<open>kvfs_rmdir\<close> and \<^verbatim>\<open>kvfs_readdir\<close> as operations on the list
  of a directory's entries.
\<close>

section \<open>Paths that lead to an entry\<close>

definition path_start :: "'z kernel_state_scheme \<Rightarrow> string \<Rightarrow> u32" where
  "path_start s path =
    (if kvfs_is_absolute_path (Some path) \<or> (if take 1 path = ''/'' then 0 else kvfs_cwd s) = 0
     then kvfs_root_mount_dir s else kvfs_cwd s)"

definition path_leads :: "'z kernel_state_scheme \<Rightarrow> string \<Rightarrow> u32 option \<Rightarrow> bool" where
  "path_leads s path r \<longleftrightarrow> objs s (kvfs_root_mount_dir s) \<noteq> None \<and> kvfs_split_path (Some path) \<noteq> [] \<and>
     real_parts (kvfs_split_path (Some path)) \<noteq> [] \<and>
     (\<exists>d e. handle s (path_start s path) d e \<and> walks (objs s) d (real_parts (kvfs_split_path (Some path))) r)"

lemma lookup_open_leads:
  assumes inv: "tree_inv s" and p: "path_leads s path r" and room: "room (length (kvfs_split_path (Some path))) s"
  shows "\<exists>p s'. kvfs_lookup_open (Some path) s = Inr (p, s') \<and> tree_inv s' \<and> obj_erase s' = obj_erase s \<and>
    (case r of None \<Rightarrow> p = 0 \<and> objs s' = objs s
     | Some a \<Rightarrow> p \<noteq> 0 \<and> objs s p = None \<and> objs s' = (objs s)(p \<mapsto> Node (node_of a)))"
proof -
  let ?nms = "real_parts (kvfs_split_path (Some path))"
  let ?from = "if take 1 path = ''/'' then 0 else kvfs_cwd s"
  obtain d e where h: "handle s (path_start s path) d e" and w: "walks (objs s) d ?nms r"
    and at: "objs s (kvfs_root_mount_dir s) \<noteq> None" and ne: "kvfs_split_path (Some path) \<noteq> []" "?nms \<noteq> []"
    using p by (auto simp: path_leads_def)
  have start: "path_start s path = (if kvfs_is_absolute_path (Some path) \<or> ?from = 0 then kvfs_root_mount_dir s else ?from)"
    by (auto simp: path_start_def)
  have rm: "room (length ?nms) s" using room_less [OF room] by (simp add: real_parts_def)
  have eq: "kvfs_lookup_open (Some path) s = kvfs_resolve_from ?from (Some path) s" by (simp add: kvfs_lookup_open_def)
  show ?thesis unfolding eq using resolve_from_walks [OF inv h at start ne(1) refl w rm, unfolded if_not_P [OF ne(2)]] .
qed

lemma path_leads_entry: "tree_inv s \<Longrightarrow> path_leads s path (Some a) \<Longrightarrow> \<exists>e. objs s a = Some (Entry e)"
proof -
  assume inv: "tree_inv s" and "path_leads s path (Some a)"
  then obtain d e nms where h: "handle s (path_start s path) d e" and w: "walks (objs s) d nms (Some a)"
    by (auto simp: path_leads_def)
  have ok: "tree_ok (objs s)" using inv by (simp add: tree_inv_def)
  have "walks m d nms r \<Longrightarrow> r = Some a \<Longrightarrow> tree_ok m \<Longrightarrow> \<exists>e. m d = Some (Entry e) \<Longrightarrow> \<exists>e. m a = Some (Entry e)" for m d r
    by (induction rule: walks.induct) (use tree_step_entry in blast)+
  then show ?thesis using w ok h by (auto simp: handle_def)
qed

section \<open>Removing\<close>

lemma fresh_same_entries: "m p = None \<Longrightarrow> same_entries m (m(p \<mapsto> Node n))"
  by (auto simp: same_entries_def)

lemma drop_same_entries: "m p = Some (Node n) \<Longrightarrow> same_entries m (m(p := None))"
  by (auto simp: same_entries_def)

text \<open>Taking the entry out of its list through the node \<open>p\<close>, and closing the node.\<close>

lemma remove_and_close:
  assumes inv: "tree_inv s" and fresh: "objs s p = None" and s1: "tree_inv s1" "objs s1 = (objs s)(p \<mapsto> Node (node_of a))"
    "obj_erase s1 = obj_erase s"
    and root: "objs s (kvfs_root_mount_dir s) \<noteq> None"
    and a: "objs s a = Some (Entry ae)" "e_parent ae = d" "\<forall>k. e_body ae = Dir k \<longrightarrow> k = 0"
    and ls: "dir_lists (objs s) d (us @ a # vs)"
  shows "\<exists>s2 s3. ktmpfs_remove_from_parent_ll d a s1 = Inr (True, s2) \<and> kvfs_close p s2 = Inr s3 \<and> tree_inv s3 \<and>
    objs s3 a = None \<and> dir_lists (objs s3) d (us @ vs) \<and>
    (\<forall>d' cs. d' \<noteq> d \<longrightarrow> d' \<noteq> a \<longrightarrow> dir_lists (objs s) d' cs \<longrightarrow> dir_lists (objs s3) d' cs)"
proof -
  have ents: "same_entries (objs s) (objs s1)" unfolding s1(2) by (rule fresh_same_entries) (rule fresh)
  have ls1: "dir_lists (objs s1) d (us @ a # vs)" using same_entries_lists [OF ents ls] .
  have a1: "objs s1 a = Some (Entry ae)" using ents a(1) by (simp add: same_entries_def)
  obtain s2 where s2: "ktmpfs_remove_from_parent_ll d a s1 = Inr (True, s2)" "tree_inv s2" "obj_erase s2 = obj_erase s1"
    "objs s2 a = None" "dir_lists (objs s2) d (us @ vs)"
    "\<forall>d' cs'. d' \<noteq> d \<longrightarrow> d' \<noteq> a \<longrightarrow> dir_lists (objs s1) d' cs' \<longrightarrow> dir_lists (objs s2) d' cs'"
    "\<forall>x. x \<noteq> a \<longrightarrow> x \<noteq> d \<longrightarrow> x \<notin> set us \<longrightarrow> objs s2 x = objs s1 x"
    using remove_from_parent_spec [OF s1(1) ls1 a1 a(3)] by blast
  have "p \<noteq> a" "p \<noteq> d" "p \<notin> set us"
    using fresh a(1) ls dir_lists_entries [OF ls, of p] by (auto simp: dir_lists_def)
  then have p2: "objs s2 p = Some (Node (node_of a))" using s2(7) s1(2) by simp
  have "p \<noteq> kvfs_root_mount_dir s2" using fresh root root_erase [of s2 s] s2(3) s1(3) by auto
  then obtain s3 where s3: "kvfs_close p s2 = Inr s3" "tree_inv s3" "objs s3 = (objs s2)(p := None)"
    using close_node [OF s2(2) p2] by metis
  have e3: "same_entries (objs s2) (objs s3)" unfolding s3(3) by (rule drop_same_entries) (rule p2)
  have "objs s3 a = None" using s3(3) s2(4) by simp
  then show ?thesis
    using s2(1,5,6) s3(1,2) same_entries_lists [OF e3] same_entries_lists [OF ents] by blast
qed

text \<open>
  C10. \<^verbatim>\<open>kvfs_unlink\<close> of a path that leads to a regular file succeeds, given memory for one block per path component: the
  file's entry is gone, the list of its directory is the old list without it, in the same order, every other
  directory lists what it listed before, and the node opened for the removal is released.
\<close>

theorem kvfs_unlink_removes:
  assumes inv: "tree_inv s" and path: "path_leads s path (Some a)" and room: "room (length (kvfs_split_path (Some path))) s"
    and a: "objs s a = Some (Entry ae)" "KVFS_STAT_ISREG (st_mode (e_stat ae))"
    and ls: "dir_lists (objs s) d (us @ a # vs)"
  shows "\<exists>s'. kvfs_unlink (Some path) s = Inr (True, s') \<and> tree_inv s' \<and> objs s' a = None \<and>
    dir_lists (objs s') d (us @ vs) \<and>
    (\<forall>d' cs. d' \<noteq> d \<longrightarrow> dir_lists (objs s) d' cs \<longrightarrow> dir_lists (objs s') d' cs)"
proof -
  have ok: "tree_ok (objs s)" using inv by (simp add: tree_inv_def)
  have d: "e_parent ae = d" "d \<noteq> 0"
    using tree_ok_dir [OF ok ls, of a] a(1) ls obj_nonzero [OF tree_inv_obj [OF inv]] by (auto simp: dir_lists_def)
  have body: "\<forall>k. e_body ae \<noteq> Dir k" using tree_body [OF inv a(1)] mode_kinds(2) [OF a(2)] by (auto simp: body_ok_def)
  have root: "objs s (kvfs_root_mount_dir s) \<noteq> None" using path by (simp add: path_leads_def)
  obtain p s1 where s1: "kvfs_lookup_open (Some path) s = Inr (p, s1)" "tree_inv s1" "obj_erase s1 = obj_erase s" "p \<noteq> 0"
      "objs s p = None" "objs s1 = (objs s)(p \<mapsto> Node (node_of a))"
    using lookup_open_leads [OF inv path room] by auto
  obtain s2 s3 where rm: "ktmpfs_remove_from_parent_ll d a s1 = Inr (True, s2)" "kvfs_close p s2 = Inr s3" "tree_inv s3"
    "objs s3 a = None" "dir_lists (objs s3) d (us @ vs)"
    "\<forall>d' cs. d' \<noteq> d \<longrightarrow> d' \<noteq> a \<longrightarrow> dir_lists (objs s) d' cs \<longrightarrow> dir_lists (objs s3) d' cs"
    using remove_and_close [OF inv s1(5,2,6,3) root a(1) d(1) _ ls] body by auto
  have pa: "p \<noteq> a" using s1(5) a(1) by auto
  have a0: "a \<noteq> 0" using obj_nonzero [OF tree_inv_obj [OF inv]] a(1) by auto
  have h: "handle s1 p a ae" using s1(4,6) a(1) pa by (intro node_of_handle) auto
  have "ktmpfs_unlink p s1 = Inr (True, s2)"
    using h rm(1) d a0 by (auto simp: handle_def ktmpfs_unlink_def rd_node_def rd_entry_def)
  then have "kvfs_unlink (Some path) s = Inr (True, s3)"
    using s1(1,4) rm(2) a(2) by (simp add: kvfs_unlink_def root_can handle_stat [OF h] handle_ops [OF h])
  moreover have "\<not> dir_lists (objs s) a cs" for cs using a(1) body by (auto simp: dir_lists_def)
  ultimately show ?thesis using rm by metis
qed

lemma mounted_file:
  obtains s :: kernel_state and r d p where "tree_inv s" "room 19 s" "handle s r d (root_entry ''/''\<lparr>e_body := Dir p,
      e_stat := kvfs_stat_inc_nlink (kvfs_stat_create (0x1ED OR KVFS_STAT_IFDIR))\<rparr>)"
    "dir_lists (objs s) d [p]" "kvfs_root_mount_dir s = r" "p \<noteq> 0" "fs_inv s" "kernel_heap_limit s = 0xD0064000"
    "objs s p = Some (Entry (new_entry d ''motd'' 0x81A4 0))"
    "\<exists>s0. handle s0 r d (root_entry ''/'') \<and> kvfs_create r (Some ''motd'') 0x1A4 s0 = Inr (True, s)"
proof -
  obtain s0 :: kernel_state and r d where s: "fs_inv s0" "room 20 s0" and h: "handle s0 r d (root_entry ''/'')"
    and ls: "dir_lists (objs s0) d []" and root: "kvfs_root_mount_dir s0 = r" and lim: "kernel_heap_limit s0 = 0xD0064000"
    by (rule mounted_root)
  have tree: "tree_inv s0" using s(1) by (simp add: fs_inv_def)
  have d0: "d \<noteq> 0" using obj_nonzero [OF tree_inv_obj [OF tree]] h by (auto simp: handle_def)
  let ?m = "KVFS_STAT_MODE_MASK_IT 0x1A4 OR KVFS_STAT_IFREG"
  have m: "?m = 0x81A4" by (simp add: KVFS_STAT_MODE_MASK_IT_def KVFS_STAT_IFREG_def)
  obtain p s where s1: "kvfs_create r (Some ''motd'') 0x1A4 s0 = Inr (True, s)" "p \<noteq> 0" "tree_inv s" "room 19 s"
      "with_child (objs s0) d p ''motd'' ?m (objs s)" "obj_erase s = obj_erase s0"
    by (rule vfs_create_room [OF tree h ls, of "''motd''" 19]) (use s(2) in simp_all)
  have inv: "fs_inv s" using quiet_inv [OF quiet_vfs_create [OF s1(1)] s(1)] .
  have ls1: "dir_lists (objs s) d [p]"
    using with_child_lists(1) [OF _ s1(5,2) d0 ls] tree by (simp add: tree_inv_def)
  obtain n where n: "objs s0 r = Some (Node n)" "n_ops n = Some Ktmpfs_operations" "n_private n = d" "r \<noteq> 0"
    using h by (auto simp: handle_def)
  have rd: "objs s0 d = Some (Entry (root_entry ''/''))" using h by (simp add: handle_def)
  have "objs s0 p = None" using s1(5) by (simp add: with_child_def)
  then have "p \<noteq> d" "r \<noteq> d" "r \<noteq> p" using rd n(1) by auto
  then have hh: "handle s r d (root_entry ''/''\<lparr>e_body := Dir p, e_stat := kvfs_stat_inc_nlink (kvfs_stat_create (0x1ED OR KVFS_STAT_IFDIR))\<rparr>)"
    and pe: "objs s p = Some (Entry (new_entry d ''motd'' 0x81A4 0))"
    using s1(5) n rd m by (auto simp: with_child_def handle_def)
  have "kvfs_root_mount_dir s = r" "kernel_heap_limit s = 0xD0064000"
    using root_erase [OF s1(6)] limit_erase [OF s1(6)] root lim by simp_all
  then show thesis using h s1(1) by (intro that [OF s1(3,4) hh ls1 _ s1(2) inv _ pe]) blast+
qed

theorem kvfs_unlink_removes_witness:
  "\<exists>(s0 :: kernel_state) s s' r d p. kvfs_create r (Some ''motd'') 0x1A4 s0 = Inr (True, s) \<and> dir_lists (objs s) d [p] \<and>
     kvfs_unlink (Some ''/motd'') s = Inr (True, s') \<and> objs s' p = None \<and> dir_lists (objs s') d []"
proof -
  obtain s :: kernel_state and r d p where s: "tree_inv s" "room 19 s" and h: "handle s r d (root_entry ''/''\<lparr>e_body := Dir p,
      e_stat := kvfs_stat_inc_nlink (kvfs_stat_create (0x1ED OR KVFS_STAT_IFDIR))\<rparr>)"
    and ls: "dir_lists (objs s) d [p]" and root: "kvfs_root_mount_dir s = r" and pe: "objs s p = Some (Entry (new_entry d ''motd'' 0x81A4 0))"
    and cr: "\<exists>s0. handle s0 r d (root_entry ''/'') \<and> kvfs_create r (Some ''motd'') 0x1A4 s0 = Inr (True, s)"
    by (rule mounted_file)
  have sp: "kvfs_split_path (Some ''/motd'') = [''/'', ''motd'']" by code_simp
  then have parts: "real_parts (kvfs_split_path (Some ''/motd'')) = [''motd'']" by (simp add: real_parts_def)
  have "child_named (objs s) [p] ''motd'' = Some p" using pe by (simp add: child_named_def new_entry_def)
  then have "walks (objs s) d [''motd''] (Some p)"
    using h ls root_is_dir by (intro onward [of _ _ _ p] arrived) (auto simp: tree_step_def handle_def)
  then have leads: "path_leads s ''/motd'' (Some p)"
    using sp parts root h by (auto simp: path_leads_def path_start_def handle_def)
  have "KVFS_STAT_ISREG 0x81A4" by (simp add: KVFS_STAT_ISREG_def KVFS_STAT_TYPE_def KVFS_STAT_IFMT_def KVFS_STAT_IFREG_def)
  then have reg: "KVFS_STAT_ISREG (st_mode (e_stat (new_entry d ''motd'' 0x81A4 0)))" by (simp add: new_entry_def)
  have rm: "room (length (kvfs_split_path (Some ''/motd''))) s" unfolding sp using room_less [OF s(2)] by simp
  have "dir_lists (objs s) d ([] @ p # [])" using ls by simp
  from kvfs_unlink_removes [OF s(1) leads rm pe reg this] cr ls show ?thesis by (metis append_Nil)
qed

section \<open>Listing\<close>

definition dirent_of :: "(u32 \<rightharpoonup> kobj) \<Rightarrow> u32 \<Rightarrow> dirent" where
  "dirent_of m a =
    (case m a of
       Some (Entry e) \<Rightarrow> \<lparr>de_inode = 0, de_type = KVFS_STAT_TYPE (st_mode (e_stat e)), de_name = e_name e\<rparr>
     | _ \<Rightarrow> \<lparr>de_inode = 0, de_type = 0, de_name = []\<rparr>)"

lemma readdir_skip_list: "siblings (objs s) c cs \<Longrightarrow> readdir_skip n c s = Inr (if n < length cs then cs ! n else 0)"
proof (induction cs arbitrary: n c)
  case Nil
  then show ?case by (cases n) simp_all
next
  case (Cons a cs)
  then show ?case by (cases n) (auto simp: rd_entry_def)
qed

text \<open>One call: the entry number \<open>off\<close> of the list, or failure past its end.\<close>

lemma readdir_nth:
  assumes inv: "tree_inv s" and h: "handle s node d e" and ls: "dir_lists (objs s) d cs"
  shows "\<exists>s' e'. kvfs_readdir node off (Some de) s =
      (if unat off < length cs then Inr (True, Some (dirent_of (objs s) (cs ! unat off)), off + 1, s')
       else Inr (False, Some de, off + 1, s')) \<and>
    tree_inv s' \<and> handle s' node d e' \<and> dir_lists (objs s') d cs \<and> (\<forall>a \<in> set cs. objs s' a = objs s a)"
proof -
  let ?e = "e\<lparr>e_stat := kvfs_stat_update_atime (e_stat e)\<rparr>"
  let ?s = "wr_obj d (Entry ?e) s"
  obtain n c where n: "objs s node = Some (Node n)" "n_private n = d" "node \<noteq> 0" and d: "objs s d = Some (Entry e)"
    and c: "e_body e = Dir c" "siblings (objs s) c cs"
    using h ls by (auto simp: handle_def dir_lists_def)
  have dir: "KVFS_STAT_ISDIR (st_mode (e_stat e))" using tree_body [OF inv d] c(1) by (simp add: body_ok_def)
  have nd: "d \<notin> set cs" using dir_not_in_list [OF _ ls] inv by (simp add: tree_inv_def)
  have same: "objs ?s a = objs s a" if "a \<in> set cs" for a using that nd by (auto simp: wr_obj_def)
  have sib: "siblings (objs ?s) c cs" by (rule siblings_cong [OF c(2)]) (use same in simp)
  have inv': "tree_inv ?s" by (rule tree_inv_stat [OF inv d]) simp
  have h': "handle ?s node d ?e" using h n d by (auto simp: handle_def wr_obj_def)
  have ls': "dir_lists (objs ?s) d cs" using sib c(1) by (simp add: dir_lists_def wr_obj_def)
  have fill: "fill_out_dirent de a ?s = Inr (True, dirent_of (objs s) a)" if "a \<in> set cs" for a
    using that dir_lists_entries [OF ls that] same [OF that] by (auto simp: fill_out_dirent_def rd_entry_def dirent_of_def)
  have none: "fill_out_dirent de 0 ?s = Inr (False, de)" by (simp add: fill_out_dirent_def)
  have "kvfs_readdir node off (Some de) s = bindE (fill_out_dirent de (if unat off < length cs then cs ! unat off else 0) ?s)
      (\<lambda>(ok, de). Inr (ok, Some de, off + 1, ?s))"
    unfolding vfs_calls(6) [OF h dir] using n d c readdir_skip_list [OF sib, of "unat off"]
    by (simp add: ktmpfs_readdir_def rd_node_def rd_entry_def get_child_def Let_def)
  then have "kvfs_readdir node off (Some de) s =
      (if unat off < length cs then Inr (True, Some (dirent_of (objs s) (cs ! unat off)), off + 1, ?s)
       else Inr (False, Some de, off + 1, ?s))"
    using fill [of "cs ! unat off"] none by (cases "unat off < length cs") simp_all
  then show ?thesis using inv' h' ls' same by blast
qed

text \<open>Reading a directory until the first failure, as \<^verbatim>\<open>ls\<close> does.\<close>

fun read_all :: "nat \<Rightarrow> u32 \<Rightarrow> u32 \<Rightarrow> dirent \<Rightarrow> 'z kernel_state_scheme \<Rightarrow> (dirent list \<times> 'z kernel_state_scheme) kres" where
  "read_all 0 node off de s = Inl NoReturn"
| "read_all (Suc fuel) node off de s =
    bindE (kvfs_readdir node off (Some de) s) (\<lambda>(ok, de, off, s).
    if ok then bindE (read_all fuel node off (the de) s) (\<lambda>(des, s). Inr (the de # des, s)) else Inr ([], s))"

lemma read_all_from:
  assumes "tree_inv s" "handle s node d e" "dir_lists (objs s) d cs" "length cs < 2 ^ 32" "unat off \<le> length cs"
    and "length cs - unat off < fuel"
  shows "\<exists>s'. read_all fuel node off de s = Inr (map (dirent_of (objs s)) (drop (unat off) cs), s')"
  using assms
proof (induction fuel arbitrary: off de s e)
  case (Suc fuel)
  obtain s1 e1 where s1: "kvfs_readdir node off (Some de) s =
      (if unat off < length cs then Inr (True, Some (dirent_of (objs s) (cs ! unat off)), off + 1, s1)
       else Inr (False, Some de, off + 1, s1))"
    "tree_inv s1" "handle s1 node d e1" "dir_lists (objs s1) d cs" "\<forall>a \<in> set cs. objs s1 a = objs s a"
    using readdir_nth [OF Suc.prems(1-3)] by blast
  show ?case
  proof (cases "unat off < length cs")
    case False
    then show ?thesis using s1(1) by simp
  next
    case True
    then have un: "unat (off + 1) = Suc (unat off)" using Suc.prems(4) by (simp add: unat_word_ariths)
    have eq: "map (dirent_of (objs s1)) cs = map (dirent_of (objs s)) cs"
      using s1(5) by (simp add: dirent_of_def)
    have "\<exists>s'. read_all fuel node (off + 1) (dirent_of (objs s) (cs ! unat off)) s1 =
        Inr (map (dirent_of (objs s1)) (drop (unat (off + 1)) cs), s')"
      by (rule Suc.IH [OF s1(2-4) Suc.prems(4)]) (use un True Suc.prems(6) in simp_all)
    then obtain s' where "read_all fuel node (off + 1) (dirent_of (objs s) (cs ! unat off)) s1 =
        Inr (map (dirent_of (objs s)) (drop (Suc (unat off)) cs), s')"
      using eq un by (metis drop_map)
    then show ?thesis using s1(1) True by (simp add: Cons_nth_drop_Suc [symmetric])
  qed
qed simp

text \<open>
  C28. Reading a directory with \<^verbatim>\<open>kvfs_readdir\<close> from offset 0 until it reports failure returns every entry of the directory
  exactly once, in the order of its list, with its name and file type, and stops after them.
\<close>

theorem kvfs_readdir_lists_directory:
  assumes "tree_inv s" "handle s node d e" "dir_lists (objs s) d cs" "length cs < 2 ^ 32" "length cs < fuel"
  shows "\<exists>s'. read_all fuel node 0 de s = Inr (map (dirent_of (objs s)) cs, s')"
  using read_all_from [OF assms(1-4), of 0 fuel de] assms(5) by simp

theorem kvfs_readdir_lists_directory_witness:
  "\<exists>(s :: kernel_state) s' r d p. dir_lists (objs s) d [p] \<and> read_all 5 r 0 \<lparr>de_inode = 7, de_type = 7, de_name = ''x''\<rparr> s =
     Inr ([\<lparr>de_inode = 0, de_type = KVFS_STAT_IFREG, de_name = ''motd''\<rparr>], s')"
proof -
  obtain s :: kernel_state and r d p where s: "tree_inv s" and h: "handle s r d (root_entry ''/''\<lparr>e_body := Dir p,
      e_stat := kvfs_stat_inc_nlink (kvfs_stat_create (0x1ED OR KVFS_STAT_IFDIR))\<rparr>)"
    and ls: "dir_lists (objs s) d [p]" and pe: "objs s p = Some (Entry (new_entry d ''motd'' 0x81A4 0))"
    by (rule mounted_file)
  have "dirent_of (objs s) p = \<lparr>de_inode = 0, de_type = KVFS_STAT_IFREG, de_name = ''motd''\<rparr>"
    using pe by (simp add: dirent_of_def new_entry_def KVFS_STAT_TYPE_def KVFS_STAT_IFMT_def KVFS_STAT_IFREG_def)
  then show ?thesis
    using kvfs_readdir_lists_directory [OF s h ls, of 5 "\<lparr>de_inode = 7, de_type = 7, de_name = ''x''\<rparr>"] ls by fastforce
qed

section \<open>Removing directories\<close>

text \<open>
  C29. \<^verbatim>\<open>kvfs_rmdir\<close> of a path that leads to a directory removes it exactly when it is empty and has a parent, leaving
  every other directory as it was; otherwise it reports failure and keeps the whole tree.
\<close>

theorem kvfs_rmdir_only_empty:
  assumes inv: "tree_inv s" and path: "path_leads s path (Some a)" and room: "room (length (kvfs_split_path (Some path))) s"
    and a: "objs s a = Some (Entry ae)" "e_body ae = Dir c"
  shows "\<exists>ok s'. kvfs_rmdir (Some path) s = Inr (ok, s') \<and> tree_inv s' \<and> (ok \<longleftrightarrow> c = 0 \<and> e_parent ae \<noteq> 0) \<and>
    (if ok then objs s' a = None \<and> (\<forall>us vs. dir_lists (objs s) (e_parent ae) (us @ a # vs) \<longrightarrow>
         dir_lists (objs s') (e_parent ae) (us @ vs)) \<and>
       (\<forall>d' cs. d' \<noteq> e_parent ae \<longrightarrow> d' \<noteq> a \<longrightarrow> dir_lists (objs s) d' cs \<longrightarrow> dir_lists (objs s') d' cs)
     else \<forall>x e. objs s x = Some (Entry e) \<longrightarrow> objs s' x = Some (Entry e))"
proof -
  let ?d = "e_parent ae"
  have dir: "KVFS_STAT_ISDIR (st_mode (e_stat ae))" using tree_body [OF inv a(1)] a(2) by (simp add: body_ok_def)
  have root: "objs s (kvfs_root_mount_dir s) \<noteq> None" using path by (simp add: path_leads_def)
  obtain p s1 where s1: "kvfs_lookup_open (Some path) s = Inr (p, s1)" "tree_inv s1" "obj_erase s1 = obj_erase s" "p \<noteq> 0"
      "objs s p = None" "objs s1 = (objs s)(p \<mapsto> Node (node_of a))"
    using lookup_open_leads [OF inv path room] by auto
  have pa: "p \<noteq> a" using s1(5) a(1) by auto
  have a0: "a \<noteq> 0" using obj_nonzero [OF tree_inv_obj [OF inv]] a(1) by auto
  have h: "handle s1 p a ae" using s1(4,6) a(1) pa by (intro node_of_handle) auto
  have rmdir: "ktmpfs_rmdir p s1 = (if ?d = 0 \<or> c \<noteq> 0 then Inr (False, s1) else ktmpfs_remove_from_parent_ll ?d a s1)"
    using h a0 a(2) by (auto simp: handle_def ktmpfs_rmdir_def rd_node_def rd_entry_def get_child_def)
  have run: "kvfs_rmdir (Some path) s = bindE (ktmpfs_rmdir p s1) (\<lambda>(ok, s).
      if \<not> ok then Inr (False, klog_put ''vfs: error while removing a directory'' s)
      else bindE (kvfs_close p s) (\<lambda>s. Inr (True, s)))"
    using s1(1,4) dir by (simp add: kvfs_rmdir_def root_can handle_stat [OF h] handle_ops [OF h])
  show ?thesis
  proof (cases "?d = 0 \<or> c \<noteq> 0")
    case True
    let ?l = "klog_put ''vfs: error while removing a directory'' s1"
    have "kvfs_rmdir (Some path) s = Inr (False, ?l)" using run rmdir True by simp
    moreover have "tree_inv ?l" using quiet_klog s1(2) unfolding quiet_def by blast
    moreover have "objs ?l x = Some (Entry e)" if "objs s x = Some (Entry e)" for x e
      using that s1(5,6) by (auto simp: klog_put_def)
    ultimately show ?thesis using True by auto
  next
    case False
    then have d0: "?d \<noteq> 0" and empty: "\<forall>k. e_body ae = Dir k \<longrightarrow> k = 0" using a(2) by auto
    obtain cs where "dir_lists (objs s) ?d cs" "a \<in> set cs"
      using inv a(1) d0 unfolding tree_inv_def entry_ok_def by blast
    then obtain us vs where ls: "dir_lists (objs s) ?d (us @ a # vs)" by (auto simp: in_set_conv_decomp)
    obtain s2 s3 where rm: "ktmpfs_remove_from_parent_ll ?d a s1 = Inr (True, s2)" "kvfs_close p s2 = Inr s3" "tree_inv s3"
      "objs s3 a = None" "dir_lists (objs s3) ?d (us @ vs)"
      "\<forall>d' cs. d' \<noteq> ?d \<longrightarrow> d' \<noteq> a \<longrightarrow> dir_lists (objs s) d' cs \<longrightarrow> dir_lists (objs s3) d' cs"
      using remove_and_close [OF inv s1(5,2,6,3) root a(1) refl empty ls] by blast
    have "kvfs_rmdir (Some path) s = Inr (True, s3)" using run rmdir False rm(1,2) by simp
    moreover have "us' @ vs' = us @ vs" if "dir_lists (objs s) ?d (us' @ a # vs')" for us' vs'
    proof -
      have "us' @ a # vs' = us @ a # vs" using dir_lists_unique [OF that ls] .
      moreover have "a \<notin> set us'" "a \<notin> set vs'" using dir_lists_distinct [OF that] by auto
      ultimately have "us' = us \<and> vs' = vs" using append_Cons_eq_iff by metis
      then show ?thesis by simp
    qed
    ultimately show ?thesis using rm False by (intro exI [of _ True] exI [of _ s3]) auto
  qed
qed

theorem kvfs_rmdir_only_empty_witness:
  "\<exists>(s :: kernel_state) s1 s2 r d p. handle s r d (root_entry ''/'') \<and> kvfs_mkdir r (Some ''etc'') 0x1ED s = Inr (True, s1) \<and>
     dir_lists (objs s1) d [p] \<and> kvfs_rmdir (Some ''/etc'') s1 = Inr (True, s2) \<and> objs s2 p = None \<and> dir_lists (objs s2) d []"
proof -
  obtain s :: kernel_state and r d where s: "fs_inv s" "room 20 s" and h: "handle s r d (root_entry ''/'')"
    and ls: "dir_lists (objs s) d []" and root: "kvfs_root_mount_dir s = r"
    by (rule mounted_root)
  have tree: "tree_inv s" using s(1) by (simp add: fs_inv_def)
  have d0: "d \<noteq> 0" using obj_nonzero [OF tree_inv_obj [OF tree]] h by (auto simp: handle_def)
  have r0: "r \<noteq> 0" using h by (simp add: handle_def)
  let ?m = "0x41ED :: u32"
  have eq: "kvfs_mkdir r (Some ''etc'') 0x1ED s = add_child d ''etc'' ?m s"
    using vfs_calls(3) [OF h] ktmpfs_create_eq(2) [OF handle_dir_node [OF h ls] r0]
    by (simp add: KVFS_STAT_MODE_MASK_IT_def KVFS_STAT_IFDIR_def)
  obtain p s1 where s1: "add_child d ''etc'' ?m s = Inr (True, s1)" "p \<noteq> 0" "tree_inv s1" "room 19 s1"
      "with_child (objs s) d p ''etc'' ?m (objs s1)" "obj_erase s1 = obj_erase s"
    by (rule create_room [OF tree handle_dir_node [OF h ls], of "''etc''" 19 ?m]) (use s(2) in simp_all)
  have ls1: "dir_lists (objs s1) d [p]"
    using with_child_lists(1) [OF _ s1(5,2) d0 ls] tree by (simp add: tree_inv_def)
  obtain n where n: "objs s r = Some (Node n)" "n_ops n = Some Ktmpfs_operations" "n_private n = d"
    using h by (auto simp: handle_def)
  have rd: "objs s d = Some (Entry (root_entry ''/''))" using h by (simp add: handle_def)
  have "objs s p = None" using s1(5) by (simp add: with_child_def)
  then have ne: "p \<noteq> d" "r \<noteq> d" "r \<noteq> p" using rd n(1) by auto
  obtain e1 where e1: "objs s1 d = Some (Entry e1)" "KVFS_STAT_ISDIR (st_mode (e_stat e1))"
    and nr: "objs s1 r = Some (Node n)" and pe: "objs s1 p = Some (Entry (new_entry d ''etc'' ?m 0))"
    using s1(5) rd n(1) ne root_is_dir by (auto simp: with_child_def)
  have h1: "handle s1 r d e1" using n nr e1 r0 by (simp add: handle_def)
  have sp: "kvfs_split_path (Some ''/etc'') = [''/'', ''etc'']" by code_simp
  then have parts: "real_parts (kvfs_split_path (Some ''/etc'')) = [''etc'']" by (simp add: real_parts_def)
  have "child_named (objs s1) [p] ''etc'' = Some p" using pe by (simp add: child_named_def new_entry_def)
  then have "walks (objs s1) d [''etc''] (Some p)"
    using e1 ls1 by (intro onward [of _ _ _ p] arrived) (auto simp: tree_step_def)
  then have leads: "path_leads s1 ''/etc'' (Some p)"
    using sp parts root h1 nr root_erase [OF s1(6)] by (auto simp: path_leads_def path_start_def)
  have rm: "room (length (kvfs_split_path (Some ''/etc''))) s1" unfolding sp using room_less [OF s1(4)] by simp
  have "KVFS_STAT_ISDIR ?m" by (simp add: KVFS_STAT_ISDIR_def KVFS_STAT_TYPE_def KVFS_STAT_IFMT_def KVFS_STAT_IFDIR_def)
  then have new: "e_body (new_entry d ''etc'' ?m 0) = Dir 0" and par: "e_parent (new_entry d ''etc'' ?m 0) = d"
    by (simp_all add: new_entry_def new_body_def)
  obtain ok s2 where rmd: "kvfs_rmdir (Some ''/etc'') s1 = Inr (ok, s2)" "ok \<longleftrightarrow> (0 :: u32) = 0 \<and> d \<noteq> 0"
    and out: "if ok then objs s2 p = None \<and> (\<forall>us vs. dir_lists (objs s1) d (us @ p # vs) \<longrightarrow> dir_lists (objs s2) d (us @ vs)) \<and>
         (\<forall>d' cs. d' \<noteq> d \<longrightarrow> d' \<noteq> p \<longrightarrow> dir_lists (objs s1) d' cs \<longrightarrow> dir_lists (objs s2) d' cs)
       else \<forall>x e. objs s1 x = Some (Entry e) \<longrightarrow> objs s2 x = Some (Entry e)"
    using kvfs_rmdir_only_empty [OF s1(3) leads rm pe new] unfolding par by blast
  have ok: "ok" using rmd(2) d0 by simp
  have "objs s2 p = None" "dir_lists (objs s1) d ([] @ p # []) \<longrightarrow> dir_lists (objs s2) d ([] @ [])"
    using out [unfolded if_P [OF ok]] by blast+
  then have "objs s2 p = None" "dir_lists (objs s2) d []" using ls1 by simp_all
  moreover have "kvfs_rmdir (Some ''/etc'') s1 = Inr (True, s2)" using rmd(1) ok by simp
  moreover have "kvfs_mkdir r (Some ''etc'') 0x1ED s = Inr (True, s1)" using eq s1(1) by (simp only:)
  ultimately show ?thesis using h ls1 by blast
qed

end
