(* ===== verification/Fs_Data.thy ===== *)
theory Fs_Data
  imports Fs_Dir
begin

text \<open>
  The contents of files: what \<^verbatim>\<open>kvfs_write\<close> stores is what \<^verbatim>\<open>kvfs_read\<close> returns, for buffers in the 4 MiB of the kernel's
  image and stacks at \<^verbatim>\<open>KERNEL_VIRTUAL_BASE\<close>, which are mapped in every state and outside the heap.
\<close>

section \<open>Buffers of the kernel\<close>

definition kernel_buffer :: "u32 \<Rightarrow> nat \<Rightarrow> bool" where
  "kernel_buffer a n \<longleftrightarrow> 0xC0000000 \<le> unat a \<and> unat a + n \<le> 0xC0400000"

text \<open>The heap lies wholly below or wholly above the kernel's 4 MiB.\<close>

lemma heap_beside_kernel:
  assumes "heap_inv s"
  shows "unat (kernel_heap_limit s) \<le> 0xC0000000 \<or> 0xC0400000 \<le> unat (kernel_heap_base s)"
proof -
  define k where "k = unat (kernel_heap_base s) div 4194304"
  have "pdi (kernel_heap_base s) \<noteq> 768" using assms by (simp add: heap_inv_def)
  then have ne: "k \<noteq> 768" by (simp add: pdi_eq k_def)
  have lim: "unat (kernel_heap_limit s) - 1 < 4194304 * (k + 1)" using assms by (simp add: heap_inv_def k_def)
  have low: "4194304 * k \<le> unat (kernel_heap_base s)" by (simp add: k_def)
  consider "k < 768" | "768 < k" using ne by linarith
  then show ?thesis
  proof cases
    case 1
    then have "4194304 * (k + 1) \<le> 4194304 * 768" by simp
    then have "unat (kernel_heap_limit s) \<le> 4194304 * 768" using lim by linarith
    then show ?thesis by simp
  next
    case 2
    then have "4194304 * 769 \<le> 4194304 * k" by simp
    then have "4194304 * 769 \<le> unat (kernel_heap_base s)" using low by linarith
    then show ?thesis by simp
  qed
qed

lemma kernel_buffer_plain:
  assumes inv: "heap_inv s" and b: "kernel_buffer a n"
  shows "plain s a n"
  unfolding plain_def
proof (intro conjI allI impI)
  show "unat a + n \<le> 2 ^ 32" using b by (simp add: kernel_buffer_def)
  fix x :: u32 assume x: "unat a \<le> unat x \<and> unat x < unat a + n"
  have r: "0xC0000000 \<le> unat x" "unat x < 0xC0400000" using b x by (simp_all add: kernel_buffer_def)
  then have "pdi x = 768" by (simp add: kernel_range_iff word_le_nat_alt word_less_nat_alt)
  moreover have "paging s" "e_present (pd_entry s 768)" "\<forall>t. e_present (pt_entry s 768 t)"
    using inv by (simp_all add: heap_inv_def vmm_inv_def recursive_ok_def)
  ultimately show "mmu_translate s x \<noteq> None" by (simp add: translate_entries)
  have "hdrs s (x - word_of_nat j) = None" if j: "j < 12" for j
  proof (rule ccontr)
    assume "hdrs s (x - word_of_nat j) \<noteq> None"
    then obtain h where h: "hdrs s (x - word_of_nat j) = Some h" by blast
    have u: "unat (x - word_of_nat j) = unat x - j" using r j by (intro unat_sub_nat) simp
    have "unat (kernel_heap_base s) \<le> unat x - j" "unat x - j + 12 \<le> unat (kernel_heap_brk s)"
      using heap_block_mapped(1,2) [OF inv h] u by (simp_all add: word_le_nat_alt)
    moreover have "unat (kernel_heap_brk s) \<le> unat (kernel_heap_limit s)"
      using inv by (simp add: heap_inv_def word_le_nat_alt)
    ultimately show False using heap_beside_kernel [OF inv] r j by linarith
  qed
  then show "header_at s x = None" by (simp add: header_at_None_iff)
qed

text \<open>A block in use and a buffer of the kernel do not overlap.\<close>

lemma block_beside_kernel:
  assumes inv: "heap_inv s" and live: "(p, m) \<in> live_blocks s"
  shows "unat p + m \<le> 0xC0000000 \<or> 0xC0400000 \<le> unat p"
proof -
  have "unat p + m \<le> unat (kernel_heap_brk s)" "unat (kernel_heap_base s) + 12 \<le> unat p"
    using live_header [OF inv live] by auto
  moreover have "unat (kernel_heap_brk s) \<le> unat (kernel_heap_limit s)"
    using inv by (simp add: heap_inv_def word_le_nat_alt)
  ultimately show ?thesis using heap_beside_kernel [OF inv] by linarith
qed

lemma plain_part:
  assumes "plain s p m" "unat off + n \<le> m"
  shows "plain s (p + off) n" "unat (p + off) = unat p + unat off \<or> n = 0"
proof -
  have "unat p + unat off + n \<le> 2 ^ 32" using assms by (simp add: plain_def)
  then have u: "unat (p + off) = unat p + unat off" if "n \<noteq> 0" using that by (simp add: unat_word_ariths)
  then show "unat (p + off) = unat p + unat off \<or> n = 0" by blast
  show "plain s (p + off) n"
  proof (cases "n = 0")
    case True
    then show ?thesis using unat_u32_less [of "p + off"] by (auto simp: plain_def)
  next
    case False
    then show ?thesis using assms u unfolding plain_def by auto
  qed
qed

text \<open>Copying changes the destination only.\<close>

lemma copy_up_outside:
  assumes "copy_up n d a s = Inr s'" "unat d + n \<le> 2 ^ 32" "\<not> (unat d \<le> unat x \<and> unat x < unat d + n)"
  shows "mem s' x = mem s x"
  using assms
proof (induction n arbitrary: d a s)
  case (Suc n)
  then obtain b t where t: "wr8 d b s = Inr t" "copy_up n (d + 1) (a + 1) t = Inr s'" by (auto simp: kres_simps)
  have "mem t x = mem s x" using t(1) Suc.prems(3) by (auto simp: wr8_def split: if_splits)
  moreover have "mem s' x = mem t x"
  proof (cases "n = 0")
    case False
    then have u: "unat (d + 1) = unat d + 1" using Suc.prems(2) by (simp add: unat_word_ariths)
    show ?thesis by (rule Suc.IH [OF t(2)]) (use u Suc.prems(2,3) in auto)
  qed (use t(2) in simp)
  ultimately show ?case by simp
qed simp

lemma krealloc_outside:
  assumes inv: "heap_inv s" and req: "heap_request n s" and p: "p = 0 \<or> (p, m) \<in> live_blocks s"
    and run: "krealloc p n s = Inr (q, t)" and q: "q \<noteq> 0" and x: "kernel_buffer x 1"
  shows "mem t x = mem s x"
proof -
  have n0: "n \<noteq> 0" using req by (auto simp: heap_request_def)
  obtain s1 where al: "kmalloc n s = Inr (q, s1)"
    using run n0 by (auto simp: krealloc_def kres_simps split: if_splits)
  obtain k where k: "heap_inv s1" "mem s1 = mem s" "k \<ge> unat n" "live_blocks s1 = insert (q, k) (live_blocks s)"
    using kmalloc_block(2) [OF inv req al q] by blast
  show ?thesis
  proof (cases "p = 0")
    case True
    then show ?thesis using run al n0 k(2) by (simp add: krealloc_def)
  next
    case False
    obtain y u ok where u: "kmemcpy q p n s1 = Inr (y, u)" "kfree p u = Inr (ok, t)"
      using run al n0 False by (auto simp: krealloc_def kres_simps)
    have "plain s1 q k" using block_plain [OF k(1)] k(4) by simp
    then have "unat q + unat n \<le> 2 ^ 32" using k(3) by (simp add: plain_def)
    moreover have "\<not> (unat q \<le> unat x \<and> unat x < unat q + unat n)"
      using block_beside_kernel [OF k(1), of q k] k(3,4) x by (auto simp: kernel_buffer_def)
    moreover have "copy_up (unat n) q p s1 = Inr u" using u(1) q False by (auto simp: kmemcpy_def kres_simps)
    ultimately have "mem u x = mem s1 x" using copy_up_outside by blast
    moreover obtain f where f: "u = s1\<lparr>mem := f\<rparr>" using u(1) by (auto dest!: kmemcpy_mem)
    have "(p, m) \<in> live_blocks u" "heap_inv u" using p False k f by (auto simp: mem_simps)
    then have "mem t = mem u" using kfree_live [of u p m] u(2) by auto
    ultimately show ?thesis using k(2) by simp
  qed
qed

lemma krealloc_objs: "krealloc p n s = Inr (q, t) \<Longrightarrow> objs t = objs s"
  by (auto simp: krealloc_def kres_simps split: if_splits
      dest!: kmalloc_frame kfree_frame kmemcpy_mem heap_frame_fields(1))

section \<open>Reading back\<close>

text \<open>The bytes of the file at \<open>a\<close> from \<open>off\<close> on are those of \<open>f\<close> at \<open>buf\<close>.\<close>

definition stored :: "'z kernel_state_scheme \<Rightarrow> u32 \<Rightarrow> u32 \<Rightarrow> (u32 \<Rightarrow> u8) \<Rightarrow> u32 \<Rightarrow> u32 \<Rightarrow> bool" where
  "stored s a off f buf len \<longleftrightarrow> (\<exists>e q n c m. objs s a = Some (Entry e) \<and> e_body e = File q n c \<and> q \<noteq> 0 \<and>
     KVFS_STAT_ISREG (st_mode (e_stat e)) \<and> (q, m) \<in> live_blocks s \<and> unat off + unat len \<le> m \<and>
     unat off + unat len \<le> unat n \<and> (\<forall>i < unat len. mem s (q + off + word_of_nat i) = f (buf + word_of_nat i)))"

text \<open>Copying from a buffer of the kernel into a block.\<close>

lemma copy_into_block:
  assumes inv: "heap_inv s" and live: "(q, m) \<in> live_blocks s" and off: "unat off + unat len \<le> m" and buf: "kernel_buffer buf (unat len)"
    and q: "q \<noteq> 0" and run: "kmemcpy (q + off) buf len s = Inr (x, t)" and len: "len \<noteq> 0"
  shows "t = s\<lparr>mem := moved (mem s) (q + off) buf 0 (unat len)\<rparr>"
    and "\<forall>i < unat len. mem t (q + off + word_of_nat i) = mem s (buf + word_of_nat i)"
proof -
  have pq: "plain s q m" by (rule block_plain [OF inv live])
  note part = plain_part [OF pq off]
  have l0: "0 < unat len" using len by (simp add: unat_gt_0)
  have u: "unat (q + off) = unat q + unat off" using part(2) l0 by simp
  have pb: "plain s buf (unat len)" by (rule kernel_buffer_plain [OF inv buf])
  have sep: "q + off \<le> buf \<or> unat buf + unat len \<le> unat (q + off)"
    using block_beside_kernel [OF inv live] buf off u by (auto simp: kernel_buffer_def word_le_nat_alt)
  have nz: "q + off \<noteq> 0" "buf \<noteq> 0" using u q buf by (auto simp: kernel_buffer_def unat_eq_0 [symmetric])
  show t: "t = s\<lparr>mem := moved (mem s) (q + off) buf 0 (unat len)\<rparr>"
    using kmemcpy_plain [OF part(1) pb nz sep] run by simp
  show "\<forall>i < unat len. mem t (q + off + word_of_nat i) = mem s (buf + word_of_nat i)"
  proof (intro allI impI)
    fix i assume i: "i < unat len"
    have "unat (q + off + word_of_nat i) = unat (q + off) + i"
      using part(1) i by (intro unat_offset) (simp add: plain_def)
    then show "mem t (q + off + word_of_nat i) = mem s (buf + word_of_nat i)"
      using i unfolding t by (simp add: moved_def)
  qed
qed

lemma stored_wr:
  assumes "(q, m) \<in> live_blocks t" "unat off + unat len \<le> m" "unat off + unat len \<le> unat n" "q \<noteq> 0"
    and "\<forall>i < unat len. mem t (q + off + word_of_nat i) = f (buf + word_of_nat i)"
    and "KVFS_STAT_ISREG (st_mode (e_stat e))" "st_mode st = st_mode (e_stat e)"
  shows "stored (wr_obj a (Entry (e\<lparr>e_body := File q n c, e_stat := st\<rparr>)) t) a off f buf len"
  unfolding stored_def using assms
  by (intro exI [of _ "e\<lparr>e_body := File q n c, e_stat := st\<rparr>"] exI [of _ q] exI [of _ n] exI [of _ c] exI [of _ m])
    (simp add: wr_obj_def)

lemma write_file_stores:
  assumes inv: "fs_inv s" and a: "objs s a = Some (Entry e)" "e_body e = File p sz cap" "KVFS_STAT_ISREG (st_mode (e_stat e))"
    and run: "write_file a e off buf len s = Inr (len, off', s')" and len: "len \<noteq> 0" and buf: "kernel_buffer buf (unat len)"
    and fits: "write_fits s off len"
  shows "stored s' a off (mem s) buf len"
proof -
  have tree: "tree_inv s" and files: "files_ok s" using inv by (simp_all add: fs_inv_def)
  have hi: "heap_inv s" using tree by (simp add: tree_inv_def obj_inv_def)
  have at: "file_at s a = Some (p, sz, cap, st_size (e_stat e))" using a by (simp add: file_at_def file_part_def)
  then have ok: "file_ok s p sz cap (st_size (e_stat e))" using files by (auto simp: files_ok_def)
  have sum: "unat (off + len) = unat off + unat len" using fits by (simp add: write_fits_def unat_word_ariths)
  have pos: "0 < unat (off + len)" using len sum by (simp add: unat_gt_0)
  let ?sz = "if off + len > sz then off + len else sz"
  have sz: "unat off + unat len \<le> unat ?sz" using sum by (auto simp: word_less_nat_alt)
  show ?thesis
  proof (cases "off + len > cap")
    case False
    then obtain x t where t: "kmemcpy (p + off) buf len s = Inr (x, t)"
      and s': "s' = wr_obj a (Entry (e\<lparr>e_body := File p ?sz cap, e_stat := kvfs_stat_update_size ?sz (e_stat e)\<rparr>)) t"
      using run a by (auto simp: write_file_def Let_def kres_simps)
    have le: "unat off + unat len \<le> unat cap" using False sum by (simp add: word_less_nat_alt)
    then have "cap \<noteq> 0" using pos sum by auto
    then obtain m where p: "p \<noteq> 0" "(p, m) \<in> live_blocks s" "unat cap \<le> m"
      using ok by (auto simp: file_ok_def raw_def split: if_splits)
    have om: "unat off + unat len \<le> m" using le p(3) by simp
    note cp = copy_into_block [OF hi p(2) om buf p(1) t len]
    have "(p, m) \<in> live_blocks t" using p(2) cp(1) by (simp add: mem_simps)
    then show ?thesis unfolding s' by (rule stored_wr [OF _ om sz p(1) cp(2) a(3)]) simp
  next
    case True
    have req: "heap_request (off + len) s" using fits pos sum by (simp add: write_fits_def heap_request_def)
    obtain q t1 x t where r: "krealloc p (off + len) s = Inr (q, t1)" "q \<noteq> 0" and t: "kmemcpy (q + off) buf len t1 = Inr (x, t)"
      and s': "s' = wr_obj a (Entry (e\<lparr>e_body := File q ?sz (off + len), e_stat := kvfs_stat_update_size ?sz (e_stat e)\<rparr>)) t"
      using run a True len by (auto simp: write_file_def Let_def kres_simps split: if_splits)
    from grow_file [OF inv at req r] obtain m where g: "tree_inv t1" "unat (off + len) \<le> m" "(q, m) \<in> live_blocks t1"
      by (auto simp: raw_def)
    have hi1: "heap_inv t1" using g(1) by (simp add: tree_inv_def obj_inv_def)
    have om: "unat off + unat len \<le> m" using g(2) sum by simp
    note cp = copy_into_block [OF hi1 g(3) om buf r(2) t len]
    have live: "(q, m) \<in> live_blocks t" using g(3) cp(1) by (simp add: mem_simps)
    obtain m0 where p: "p = 0 \<or> (p, m0) \<in> live_blocks s" using ok by (auto simp: file_ok_def raw_def split: if_splits)
    have "mem t1 (buf + word_of_nat i) = mem s (buf + word_of_nat i)" if "i < unat len" for i
    proof (rule krealloc_outside [OF hi req p r])
      have "unat (buf + word_of_nat i) = unat buf + i" using buf that by (intro unat_offset) (simp add: kernel_buffer_def)
      then show "kernel_buffer (buf + word_of_nat i) 1" using buf that by (simp add: kernel_buffer_def)
    qed
    then have "\<forall>i < unat len. mem t (q + off + word_of_nat i) = mem s (buf + word_of_nat i)" using cp(2) by simp
    then show ?thesis unfolding s' by (rule stored_wr [OF live om sz r(2) _ a(3)]) simp
  qed
qed

lemma read_stored:
  assumes inv: "heap_inv s" and st: "stored s a off f buf len" and h: "handle s node a e" and dst: "kernel_buffer dst (unat len)"
    and len: "len \<noteq> 0" and a0: "a \<noteq> 0"
  shows "\<exists>s'. kvfs_read node off dst len s = Inr (len, off + len, s') \<and>
    (\<forall>i < unat len. mem s' (dst + word_of_nat i) = f (buf + word_of_nat i))"
proof -
  obtain q n c m where e: "objs s a = Some (Entry e)" "e_body e = File q n c" "q \<noteq> 0" "KVFS_STAT_ISREG (st_mode (e_stat e))"
    and q: "(q, m) \<in> live_blocks s" "unat off + unat len \<le> m" "unat off + unat len \<le> unat n"
    and bytes: "\<forall>i < unat len. mem s (q + off + word_of_nat i) = f (buf + word_of_nat i)"
    using st h by (auto simp: stored_def handle_def)
  obtain nd where nd: "objs s node = Some (Node nd)" "n_private nd = a" "node \<noteq> 0" using h by (auto simp: handle_def)
  have l0: "0 < unat len" using len by (simp add: unat_gt_0)
  have pq: "plain s q m" by (rule block_plain [OF inv q(1)])
  note part = plain_part [OF pq q(2)]
  have u: "unat (q + off) = unat q + unat off" using part(2) l0 by simp
  have pd: "plain s dst (unat len)" by (rule kernel_buffer_plain [OF inv dst])
  have sep: "dst \<le> q + off \<or> unat (q + off) + unat len \<le> unat dst"
    using block_beside_kernel [OF inv q(1)] dst q(2) u l0 by (auto simp: kernel_buffer_def word_le_nat_alt)
  have nz: "dst \<noteq> 0" "q + off \<noteq> 0" using u e(3) dst by (auto simp: kernel_buffer_def unat_eq_0 [symmetric])
  have cp: "kmemcpy dst (q + off) len s = Inr (dst, s\<lparr>mem := moved (mem s) dst (q + off) 0 (unat len)\<rparr>)"
    by (rule kmemcpy_plain [OF pd part(1) nz sep])
  let ?t = "s\<lparr>mem := moved (mem s) dst (q + off) 0 (unat len)\<rparr>"
  have le: "off \<le> n" using q(3) by (simp add: word_le_nat_alt)
  have cnt: "(if n - off > len then len else n - off) = len"
    using q(3) le by (auto simp: word_less_nat_alt word_unat_eq_iff unat_sub)
  have "ktmpfs_read node off dst len s = Inr (len, off + len,
      wr_obj a (Entry (e\<lparr>e_stat := kvfs_stat_update_atime (e_stat e)\<rparr>)) ?t)"
    using nd e a0 nz(1) len mode_kinds(3) [OF e(4)] le cp unfolding ktmpfs_read_def
    by (simp add: rd_node_def rd_entry_def Let_def cnt not_less)
  moreover have "mem ?t (dst + word_of_nat i) = f (buf + word_of_nat i)" if "i < unat len" for i
  proof -
    have "unat (dst + word_of_nat i) = unat dst + i" using pd that by (intro unat_offset) (simp add: plain_def)
    then show ?thesis using bytes that by (simp add: moved_def)
  qed
  ultimately show ?thesis unfolding vfs_calls(4) [OF h] by (simp add: wr_obj_def)
qed

text \<open>
  C7. What is written to a file is read back: after a \<^verbatim>\<open>kvfs_write\<close> to a regular file that stored all its bytes, reading
  as many bytes at the same offset succeeds and fills the buffer with exactly the bytes written, whether or not the
  write had to grow the file's block.
\<close>

theorem write_then_read:
  assumes inv: "fs_inv s" and h: "handle s node a e" and reg: "KVFS_STAT_ISREG (st_mode (e_stat e))"
    and run: "kvfs_write node off buf len s = Inr (len, off', s1)" and len: "len \<noteq> 0"
    and fits: "write_fits s off len" and bufs: "kernel_buffer buf (unat len)" "kernel_buffer dst (unat len)"
  shows "\<exists>s2. kvfs_read node off dst len s1 = Inr (len, off + len, s2) \<and>
    (\<forall>i < unat len. mem s2 (dst + word_of_nat i) = mem s (buf + word_of_nat i))"
proof -
  have tree: "tree_inv s" using inv by (simp add: fs_inv_def)
  obtain n where n: "objs s node = Some (Node n)" "n_ops n = Some Ktmpfs_operations" "n_private n = a" "node \<noteq> 0"
    and e: "objs s a = Some (Entry e)" using h by (auto simp: handle_def)
  have a0: "a \<noteq> 0" using obj_nonzero [OF tree_inv_obj [OF tree]] e by auto
  obtain p sz cap where b: "e_body e = File p sz cap"
    using tree_body [OF tree e] reg mode_kinds by (cases "e_body e") (auto simp: body_ok_def)
  have "buf \<noteq> 0" using bufs(1) by (auto simp: kernel_buffer_def)
  then have w: "write_file a e off buf len s = Inr (len, off', s1)"
    using run ktmpfs_write_file [OF n(1) _ b reg n(4)] e n(3) a0 len unfolding vfs_calls(5) [OF h] by simp
  have st: "stored s1 a off (mem s) buf len" by (rule write_file_stores [OF inv e b reg w len bufs(1) fits])
  have inv1: "fs_inv s1" using vfs_write_keeps [OF inv run write_okI [OF fits]] .
  then have hi: "heap_inv s1" by (simp add: fs_inv_def tree_inv_def obj_inv_def)
  have na: "node \<noteq> a" using n(1) e by auto
  have "objs s1 node = Some (Node n)"
    using w b na n(1) by (auto simp: write_file_def Let_def klog_put_def wr_obj_def kres_simps len split: if_splits option.splits
        dest!: kmemcpy_mem krealloc_objs)
  moreover obtain e1 where "objs s1 a = Some (Entry e1)" using st by (auto simp: stored_def)
  ultimately have h1: "handle s1 node a e1" using n by (simp add: handle_def)
  show ?thesis by (rule read_stored [OF hi st h1 bufs(2) len a0])
qed

text \<open>The first write to an empty file succeeds while there is room for a block.\<close>

lemma first_write:
  assumes inv: "fs_inv s" and h: "handle s node a e" and e: "e_body e = File 0 0 0" "KVFS_STAT_ISREG (st_mode (e_stat e))"
    and len: "len \<noteq> 0" "unat len \<le> 4080" and buf: "kernel_buffer buf (unat len)" and room: "room (Suc k) s"
  shows "\<exists>s1. kvfs_write node 0 buf len s = Inr (len, len, s1)"
proof -
  have tree: "tree_inv s" using inv by (simp add: fs_inv_def)
  have oi: "obj_inv s" and hi: "heap_inv s" using tree by (simp_all add: tree_inv_def obj_inv_def)
  obtain n where n: "objs s node = Some (Node n)" "n_private n = a" "node \<noteq> 0" and ae: "objs s a = Some (Entry e)"
    using h by (auto simp: handle_def)
  have a0: "a \<noteq> 0" using obj_nonzero [OF oi] ae by auto
  have req: "heap_request len s" by (rule small_heap_request [OF oi]) (use len in \<open>simp add: small_request_def unat_gt_0\<close>)
  obtain q t where q: "kmalloc len s = Inr (q, t)" "q \<noteq> 0" using kmalloc_room [OF hi req len(2) room] by blast
  obtain m where m: "heap_inv t" "unat len \<le> m" "(q, m) \<in> live_blocks t" using kmalloc_block(2) [OF hi req q] by auto
  have pq: "plain t q (unat len)" using plain_prefix [OF block_plain [OF m(1,3)] m(2)] .
  have sep: "q \<le> buf \<or> unat buf + unat len \<le> unat q"
    using block_beside_kernel [OF m(1,3)] buf m(2) by (auto simp: kernel_buffer_def word_le_nat_alt)
  have b0: "buf \<noteq> 0" using buf by (auto simp: kernel_buffer_def)
  have cp: "kmemcpy q buf len t = Inr (q, t\<lparr>mem := moved (mem t) q buf 0 (unat len)\<rparr>)"
    by (rule kmemcpy_plain [OF pq kernel_buffer_plain [OF m(1) buf] q(2) b0 sep])
  have "0 < len" using len(1) by (simp add: word_neq_0_conv)
  moreover have "krealloc 0 len s = Inr (q, t)" using q(1) len(1) by (simp add: krealloc_def)
  ultimately have "\<exists>s1. write_file a e 0 buf len s = Inr (len, len, s1)"
    using e(1) cp q(2) by (simp add: write_file_def Let_def)
  then show ?thesis
    using ktmpfs_write_file [OF n(1) _ e n(3), of buf len 0] ae n(2) a0 b0 len(1) unfolding vfs_calls(5) [OF h] by simp
qed

text \<open>A file of one block, as the examples use it.\<close>

lemma open_file:
  obtains s :: kernel_state and node a d where "fs_inv s" "room 18 s" "handle s node a (new_entry d ''motd'' 0x81A4 0)"
    "kernel_heap_limit s = 0xD0064000"
proof -
  obtain s :: kernel_state and r d p where s: "tree_inv s" "room 19 s" "dir_lists (objs s) d [p]" "p \<noteq> 0" "fs_inv s"
    "kernel_heap_limit s = 0xD0064000" "objs s p = Some (Entry (new_entry d ''motd'' 0x81A4 0))"
    by (rule mounted_file)
  have r: "room (Suc 18) s" using s(2) by simp
  obtain q t where t: "ktmpfs_create_vfs_node p s = Inr (q, t)" "q \<noteq> 0" "room 18 t" "q \<notin> fst ` live_blocks s"
      "objs t = (objs s)(q \<mapsto> Node (node_of p))" "obj_erase t = obj_erase s"
    using create_vfs_node_room [OF s(1,4) r] by metis
  have "fs_inv t" using quiet_inv [OF quiet_create_vfs_node [OF t(1)] s(5)] .
  moreover have "q \<noteq> p" using free_address [OF s(1) t(4)] s(7) by auto
  then have "handle t q p (new_entry d ''motd'' 0x81A4 0)" using t(2,5) s(7) by (intro node_of_handle) auto
  ultimately show thesis using that [of t q p d] t(3) limit_erase [OF t(6)] s(6) by simp
qed

lemma example_mode: "KVFS_STAT_ISREG 0x81A4" "\<not> KVFS_STAT_ISDIR 0x81A4" "\<not> KVFS_STAT_ISCHR 0x81A4"
  by (simp_all add: KVFS_STAT_ISREG_def KVFS_STAT_ISDIR_def KVFS_STAT_ISCHR_def KVFS_STAT_TYPE_def KVFS_STAT_IFMT_def
      KVFS_STAT_IFREG_def KVFS_STAT_IFDIR_def KVFS_STAT_IFCHR_def)

lemma example_file:
  "e_body (new_entry d nm 0x81A4 c) = File 0 0 0" "KVFS_STAT_ISREG (st_mode (e_stat (new_entry d nm 0x81A4 c)))"
  using example_mode by (simp_all add: new_entry_def new_body_def)

theorem write_then_read_witness:
  "\<exists>(s :: kernel_state) s1 s2 node. kvfs_write node 0 0xC0100000 16 s = Inr (16, 16, s1) \<and>
     kvfs_read node 0 0xC0200000 16 s1 = Inr (16, 16, s2) \<and>
     (\<forall>i < 16. mem s2 (0xC0200000 + word_of_nat i) = mem s (0xC0100000 + word_of_nat i))"
proof -
  obtain s :: kernel_state and node a d where s: "fs_inv s" "room 18 s" and h: "handle s node a (new_entry d ''motd'' 0x81A4 0)"
    and lim: "kernel_heap_limit s = 0xD0064000"
    by (rule open_file)
  have bufs: "kernel_buffer 0xC0100000 (unat (16 :: u32))" "kernel_buffer 0xC0200000 (unat (16 :: u32))"
    by (simp_all add: kernel_buffer_def)
  have room: "room (Suc 17) s" using s(2) by simp
  obtain s1 where s1: "kvfs_write node 0 0xC0100000 16 s = Inr (16, 16, s1)"
    using first_write [OF s(1) h example_file(1,2) _ _ bufs(1) room] by auto
  have "write_fits s 0 16" using lim by (simp add: write_fits_def)
  from write_then_read [OF s(1) h example_file(2) s1 _ this bufs] s1 show ?thesis by auto
qed

section \<open>A write that fails\<close>

text \<open>
  C39. When a file's block cannot be grown, \<^verbatim>\<open>kvfs_write\<close> reports that nothing was written, but the old block has
  been freed while the file still points to it: the file system's invariant is lost.
\<close>

theorem failed_write_dangles:
  assumes inv: "fs_inv s" and h: "handle s node a e" and e: "e_body e = File p sz cap" "p \<noteq> 0" "KVFS_STAT_ISREG (st_mode (e_stat e))"
    and len: "len \<noteq> 0" "buf \<noteq> 0" "off + len > cap" and full: "kmalloc (off + len) s = Inr (0, s)" "off + len \<noteq> 0"
  shows "\<exists>s'. kvfs_write node off buf len s = Inr (0, off, s') \<and> objs s' a = Some (Entry e) \<and>
    p \<notin> fst ` live_blocks s' \<and> \<not> fs_inv s'"
proof -
  have tree: "tree_inv s" using inv by (simp add: fs_inv_def)
  have hi: "heap_inv s" using tree by (simp add: tree_inv_def obj_inv_def)
  obtain n where n: "objs s node = Some (Node n)" "n_private n = a" "node \<noteq> 0" and ae: "objs s a = Some (Entry e)"
    using h by (auto simp: handle_def)
  have a0: "a \<noteq> 0" using obj_nonzero [OF tree_inv_obj [OF tree]] ae by auto
  have at: "file_at s a = Some (p, sz, cap, st_size (e_stat e))" using ae e(1) by (simp add: file_at_def file_part_def)
  then have "file_ok s p sz cap (st_size (e_stat e))" using inv by (auto simp: fs_inv_def files_ok_def)
  then obtain m where m: "(p, m) \<in> live_blocks s" using e(2) by (auto simp: file_ok_def raw_def)
  obtain t where t: "kfree p s = Inr (True, t)" "heap_inv t" "live_blocks t = live_blocks s - {(p, m)}"
    using kfree_live [OF hi m] by blast
  have ob: "objs t = objs s" using heap_frame_fields(1) [OF kfree_frame [OF t(1)]] .
  have gone: "p \<notin> fst ` live_blocks t"
    unfolding t(3) using m by (auto simp: live_blocks_def)
  let ?s = "klog_put ''tmpfs: failed to write on an entry, due to a failed realloc'' t"
  have "krealloc p (off + len) s = Inr (0, t)"
    using full e(2) t(1) by (simp add: krealloc_def kmemcpy_def)
  then have "write_file a e off buf len s = Inr (0, off, ?s)" using e(1) len(3) by (simp add: write_file_def Let_def)
  then have "kvfs_write node off buf len s = Inr (0, off, ?s)"
    using ktmpfs_write_file [OF n(1) _ e(1,3) n(3)] ae n(2) a0 len unfolding vfs_calls(5) [OF h] by simp
  moreover have same: "objs ?s = objs s" "live_blocks ?s = live_blocks t"
    by (simp_all add: ob io_frame_fields(2,4) [OF io_frame_upd(3)])
  moreover have "\<not> fs_inv ?s"
  proof
    assume "fs_inv ?s"
    then have "file_ok ?s p sz cap (st_size (e_stat e))" using at same by (auto simp: fs_inv_def files_ok_def file_at_def)
    then show False using e(2) gone same by (force simp: file_ok_def raw_def)
  qed
  ultimately show ?thesis using ae gone by (intro exI [of _ ?s]) simp
qed

text \<open>A request larger than the whole heap range is refused.\<close>

lemma kmalloc_beyond:
  assumes inv: "heap_inv s" and req: "heap_request n s" and lim: "kernel_heap_limit s = 0xD0064000" and n: "0x100000 \<le> unat n"
  shows "kmalloc n s = Inr (0, s)"
proof -
  note sz = align8 [OF req]
  have "unat (kernel_heap_limit s) - 1 < 4194304 * (unat (kernel_heap_base s) div 4194304 + 1)"
    using inv by (simp add: heap_inv_def)
  then have "831 < unat (kernel_heap_base s) div 4194304" using lim by simp
  moreover have "4194304 * (unat (kernel_heap_base s) div 4194304) \<le> unat (kernel_heap_base s)" by simp
  ultimately have base: "0xD0000000 \<le> unat (kernel_heap_base s)" by linarith
  have brk: "unat (kernel_heap_base s) \<le> unat (kernel_heap_brk s)" by (rule heap_base_brk [OF inv])
  have "\<not> ALIGN_UP n 8 \<le> h_size hh" if "hdrs s a = Some hh" for a hh
  proof -
    have "unat (kernel_heap_base s) \<le> unat a" "unat a + 12 + unat (h_size hh) \<le> unat (kernel_heap_brk s)"
      using heap_block_mapped(1,2) [OF inv that] by (simp_all add: word_le_nat_alt)
    moreover have "unat (kernel_heap_brk s) \<le> 0xD0064000" using inv lim by (simp add: heap_inv_def word_le_nat_alt)
    ultimately have "unat (h_size hh) < 0x100000" using base by linarith
    then show ?thesis using sz(2) n by (simp add: word_le_nat_alt)
  qed
  then have "find_free_heap_header (ALIGN_UP n 8) s = Inr 0"
    using find_free_returns [OF inv, of "ALIGN_UP n 8"] by (auto split: if_splits)
  moreover have "kernel_heap_brk s + ALIGN_UP n 8 + header_size > kernel_heap_limit s"
  proof -
    have fit: "req_fits (ALIGN_UP n 8) s" by (rule sz(3))
    have "unat (kernel_heap_brk s) \<le> unat (kernel_heap_limit s)" using inv by (simp add: heap_inv_def word_le_nat_alt)
    then have "unat (kernel_heap_brk s + ALIGN_UP n 8 + header_size) = unat (kernel_heap_brk s) + unat (ALIGN_UP n 8) + 12"
      using fit by (simp add: req_fits_def header_size_def unat_word_ariths)
    then show ?thesis using lim base brk sz(2) n by (simp add: word_less_nat_alt)
  qed
  moreover have "n \<noteq> 0" using n by auto
  ultimately show ?thesis by (simp add: kmalloc_def Let_def create_heap_header_def)
qed

theorem failed_write_dangles_witness:
  "\<exists>(s :: kernel_state) s1 s2 node a e p. kvfs_write node 0 0xC0100000 16 s = Inr (16, 16, s1) \<and>
     kvfs_write node 0 0xC0100000 0x100000 s1 = Inr (0, 0, s2) \<and> objs s2 a = Some (Entry e) \<and> e_body e = File p 16 16 \<and>
     p \<notin> fst ` live_blocks s2 \<and> fs_inv s1 \<and> \<not> fs_inv s2"
proof -
  obtain s :: kernel_state and node a d where s: "fs_inv s" "room 18 s" and h: "handle s node a (new_entry d ''motd'' 0x81A4 0)"
    and lim: "kernel_heap_limit s = 0xD0064000"
    by (rule open_file)
  let ?e = "new_entry d ''motd'' 0x81A4 0"
  have buf: "kernel_buffer 0xC0100000 (unat (16 :: u32))" by (simp add: kernel_buffer_def)
  have room: "room (Suc 17) s" using s(2) by simp
  obtain s1 where s1: "kvfs_write node 0 0xC0100000 16 s = Inr (16, 16, s1)"
    using first_write [OF s(1) h example_file(1,2) _ _ buf room] by auto
  have inv1: "fs_inv s1" using vfs_write_keeps [OF s(1) s1 write_okI] lim by (simp add: write_fits_def)
  obtain n where n: "objs s node = Some (Node n)" "n_ops n = Some Ktmpfs_operations" "n_private n = a" "node \<noteq> 0"
    and ae: "objs s a = Some (Entry ?e)" using h by (auto simp: handle_def)
  have oi: "obj_inv s" using s(1) by (simp add: fs_inv_def tree_inv_def)
  have a0: "a \<noteq> 0" "node \<noteq> a" using obj_nonzero [OF oi] ae n(1) by auto
  have "write_file a ?e 0 0xC0100000 16 s = Inr (16, 16, s1)"
    using s1 ktmpfs_write_file [OF n(1) _ example_file(1,2) n(4)] ae n(3) a0 unfolding vfs_calls(5) [OF h] by simp
  then obtain q t1 x t where r: "krealloc 0 16 s = Inr (q, t1)" "q \<noteq> 0" and t: "kmemcpy q 0xC0100000 16 t1 = Inr (x, t)"
    and eq: "s1 = wr_obj a (Entry (?e\<lparr>e_body := File q 16 16, e_stat := kvfs_stat_update_size 16 (e_stat ?e)\<rparr>)) t"
    by (auto simp: write_file_def example_file Let_def kres_simps split: if_splits)
  have tn: "objs t = objs s" using t r(1) by (auto dest!: kmemcpy_mem krealloc_objs)
  define e1 where "e1 = ?e\<lparr>e_body := File q 16 16, e_stat := kvfs_stat_update_size 16 (e_stat ?e)\<rparr>"
  have h1: "handle s1 node a e1" using n a0 tn by (simp add: handle_def eq e1_def wr_obj_def)
  have e1: "e_body e1 = File q 16 16" "KVFS_STAT_ISREG (st_mode (e_stat e1))" using example_mode(1) by (simp_all add: e1_def new_entry_def)
  have lim1: "kernel_heap_limit s1 = 0xD0064000"
    using lim r(1) t by (auto simp: eq wr_obj_def krealloc_def kres_simps dest!: kmemcpy_mem kmalloc_frame obj_erase_frame limit_erase)
  have hi: "heap_inv s1" using inv1 by (simp add: fs_inv_def tree_inv_def obj_inv_def)
  have "heap_request 0x100000 s1" using lim1 by (simp add: heap_request_def)
  then have full: "kmalloc (0 + 0x100000) s1 = Inr (0, s1)" using kmalloc_beyond [OF hi _ lim1, of "0x100000"] by simp
  obtain s2 where "kvfs_write node 0 0xC0100000 0x100000 s1 = Inr (0, 0, s2)" "objs s2 a = Some (Entry e1)"
    "q \<notin> fst ` live_blocks s2" "\<not> fs_inv s2"
    using failed_write_dangles [OF inv1 h1 e1(1) r(2) e1(2) _ _ _ full, of "0xC0100000"] by auto
  then show ?thesis using s1 e1(1) inv1 by blast
qed

end
