(* ===== verification/Fd_Table.thy ===== *)
theory Fd_Table
  imports Fs_Steps
begin

text \<open>
  The tables of file descriptors: every entry of a table points to a descriptor of its own, \<^verbatim>\<open>kfd_create_for_process\<close>
  hands out the lowest free number, and closing a descriptor gives it back.
\<close>

section \<open>Well-typed tables\<close>

text \<open>Entry \<open>i\<close> of the table of the process at \<open>a\<close> points to \<open>x\<close>.\<close>

definition slot :: "(u32 \<rightharpoonup> kobj) \<Rightarrow> u32 \<Rightarrow> nat \<Rightarrow> u32 \<Rightarrow> bool" where
  "slot m a i x \<longleftrightarrow> (\<exists>p. m a = Some (Process p) \<and> i < length (p_fds p) \<and> p_fds p ! i = x) \<and> x \<noteq> 0"

definition fd_tables :: "(u32 \<rightharpoonup> kobj) \<Rightarrow> bool" where
  "fd_tables m \<longleftrightarrow> (\<forall>a p. m a = Some (Process p) \<longrightarrow> length (p_fds p) = nat KFD_MAX_COUNT) \<and>
    (\<forall>a i x. slot m a i x \<longrightarrow> (\<exists>d. m x = Some (Fdesc d))) \<and>
    (\<forall>a i b j x. slot m a i x \<longrightarrow> slot m b j x \<longrightarrow> a = b \<and> i = j)"

lemma fd_tables_length: "fd_tables m \<Longrightarrow> m a = Some (Process p) \<Longrightarrow> length (p_fds p) = 32"
  by (simp add: fd_tables_def KFD_MAX_COUNT_def)

lemma fd_slot: "fd_tables m \<Longrightarrow> slot m a i x \<Longrightarrow> \<exists>d. m x = Some (Fdesc d)"
  unfolding fd_tables_def by blast

lemma fd_unique: "fd_tables m \<Longrightarrow> slot m a i x \<Longrightarrow> slot m b j x \<Longrightarrow> a = b \<and> i = j"
  unfolding fd_tables_def by blast

lemma fd_tablesI:
  assumes "\<And>a p. m a = Some (Process p) \<Longrightarrow> length (p_fds p) = 32" "\<And>a i x. slot m a i x \<Longrightarrow> \<exists>d. m x = Some (Fdesc d)"
    "\<And>a i b j x. slot m a i x \<Longrightarrow> slot m b j x \<Longrightarrow> a = b \<and> i = j"
  shows "fd_tables m"
  using assms unfolding fd_tables_def KFD_MAX_COUNT_def by simp

lemma slotI: "m a = Some (Process p) \<Longrightarrow> i < length (p_fds p) \<Longrightarrow> p_fds p ! i \<noteq> 0 \<Longrightarrow> slot m a i (p_fds p ! i)"
  by (simp add: slot_def)

text \<open>Changes outside the tables.\<close>

definition fd_same :: "(u32 \<rightharpoonup> kobj) \<Rightarrow> (u32 \<rightharpoonup> kobj) \<Rightarrow> bool" where
  "fd_same m m' \<longleftrightarrow> (\<forall>x p. m' x = Some (Process p) \<longleftrightarrow> m x = Some (Process p)) \<and>
    (\<forall>x d. m x = Some (Fdesc d) \<longrightarrow> (\<exists>d'. m' x = Some (Fdesc d')))"

lemma fd_same_tables:
  assumes "fd_same m m'" "fd_tables m"
  shows "fd_tables m'"
proof (rule fd_tablesI)
  have sl: "slot m' a i x \<longleftrightarrow> slot m a i x" for a i x using assms(1) by (simp add: slot_def fd_same_def)
  show "length (p_fds p) = 32" if "m' a = Some (Process p)" for a p
    using that assms fd_tables_length [OF assms(2)] by (simp add: fd_same_def)
  show "\<exists>d. m' x = Some (Fdesc d)" if "slot m' a i x" for a i x
    using that fd_slot [OF assms(2)] assms(1) unfolding sl fd_same_def by blast
  show "a = b \<and> i = j" if "slot m' a i x" "slot m' b j x" for a i b j x
    using that fd_unique [OF assms(2)] unfolding sl by blast
qed

lemma fd_same_refl [simp, intro]: "fd_same m m"
  by (simp add: fd_same_def)

text \<open>Putting a new descriptor into a table, and taking one out.\<close>

definition set_fd :: "process \<Rightarrow> nat \<Rightarrow> u32 \<Rightarrow> process" where
  "set_fd p i x = p\<lparr>p_fds := (p_fds p)[i := x]\<rparr>"

lemma install_fd:
  assumes t: "fd_tables m" and a: "m a = Some (Process p)" and i: "i < 32" and x: "m x = None" "x \<noteq> 0"
  shows "fd_tables (m(x \<mapsto> Fdesc d, a \<mapsto> Process (set_fd p i x)))"
proof -
  let ?m = "m(x \<mapsto> Fdesc d, a \<mapsto> Process (set_fd p i x))"
  have len: "length (p_fds p) = 32" using fd_tables_length [OF t a] .
  have sl: "slot ?m b j y \<longleftrightarrow> (if b = a \<and> j = i then y = x else slot m b j y)" for b j y
    using a x i len by (auto simp: slot_def set_fd_def nth_list_update)
  have un: "\<not> slot m b j x" for b j using fd_slot [OF t, of b j x] x(1) by auto
  show ?thesis
  proof (rule fd_tablesI)
    show "\<exists>d. ?m y = Some (Fdesc d)" if "slot ?m b j y" for b j y
    proof (cases "b = a \<and> j = i")
      case False
      then have s: "slot m b j y" using that by (simp add: sl)
      then have "y \<noteq> a" "y \<noteq> x" using fd_slot [OF t s] a x(1) by auto
      then show ?thesis using fd_slot [OF t s] by simp
    qed (use that sl a x(1) in auto)
    show "b = b' \<and> j = j'" if "slot ?m b j y" "slot ?m b' j' y" for b j b' j' y
      using that fd_unique [OF t] un unfolding sl by (auto split: if_splits)
    show "length (p_fds q) = 32" if "?m b = Some (Process q)" for b q
      using that fd_tables_length [OF t] len by (auto simp: set_fd_def split: if_splits)
  qed
qed

lemma remove_fd:
  assumes t: "fd_tables m" and a: "m a = Some (Process p)" and i: "slot m a i x"
  shows "fd_tables (m(x := None, a \<mapsto> Process (set_fd p i 0)))"
proof -
  let ?m = "m(x := None, a \<mapsto> Process (set_fd p i 0))"
  have len: "length (p_fds p) = 32" using fd_tables_length [OF t a] .
  obtain d where d: "m x = Some (Fdesc d)" using fd_slot [OF t i] by blast
  have sl: "slot ?m b j y \<longleftrightarrow> slot m b j y \<and> \<not> (b = a \<and> j = i)" for b j y
    using a d i by (auto simp: slot_def set_fd_def nth_list_update split: if_splits)
  show ?thesis
  proof (rule fd_tablesI)
    show "\<exists>d. ?m y = Some (Fdesc d)" if "slot ?m b j y" for b j y
    proof -
      have s: "slot m b j y" "\<not> (b = a \<and> j = i)" using that by (simp_all add: sl)
      then have "y \<noteq> x" using fd_unique [OF t i] by blast
      then show ?thesis using fd_slot [OF t s(1)] a by auto
    qed
    show "b = b' \<and> j = j'" if "slot ?m b j y" "slot ?m b' j' y" for b j b' j' y
      using that fd_unique [OF t] unfolding sl by blast
    show "length (p_fds q) = 32" if "?m b = Some (Process q)" for b q
      using that fd_tables_length [OF t] len by (auto simp: set_fd_def split: if_splits)
  qed
qed

section \<open>Creating a descriptor\<close>

lemma free_fd_from_eq: "free_fd_from n t = n + int (length (takeWhile (\<lambda>d. d \<noteq> 0) t))"
  by (induction t arbitrary: n) auto

lemma lowest_free:
  assumes "i < length t" "t ! i = 0" "\<forall>j < i. t ! j \<noteq> 0"
  shows "free_fd_from 0 t = int i"
  using assms by (simp add: free_fd_from_eq takeWhile_eq_take_P_nth [of i])

lemma free_fd_zero:
  assumes "free_fd_from 0 t < int (length t)"
  shows "t ! nat (free_fd_from 0 t) = 0"
  using assms nth_length_takeWhile [of "\<lambda>d. d \<noteq> 0" t] by (simp add: free_fd_from_eq)

lemma used_before: "j < length (takeWhile P t) \<Longrightarrow> P (t ! j)"
  using nth_mem [of j "takeWhile P t"] by (auto simp: takeWhile_nth dest: set_takeWhileD)

text \<open>The two outcomes of \<^verbatim>\<open>kfd_create_for_process\<close> on a process that is there.\<close>

lemma fd_create_cases:
  assumes inv: "obj_inv s" and t: "fd_tables (objs s)" and run: "kfd_create_for_process a node flags s = Inr (fd, s')"
  obtains "fd = KFD_ERROR" "obj_inv s'" "objs s' = objs s"
  | p x i where "objs s a = Some (Process p)" "fd = int i" "i < 32" "p_fds p ! i = 0" "\<forall>j < i. p_fds p ! j \<noteq> 0"
      "obj_inv s'" "objs s x = None" "x \<noteq> 0"
      "objs s' = (objs s)(x \<mapsto> Fdesc \<lparr>fd_node = node, fd_offset = 0, fd_flags = flags, fd_refcount = 1\<rparr>,
        a \<mapsto> Process (set_fd p i x))"
proof -
  let ?d = "\<lparr>fd_node = node, fd_offset = 0, fd_flags = flags, fd_refcount = 1\<rparr>"
  consider "s' = s" "fd = KFD_ERROR" | p x u where "objs s a = Some (Process p)" "free_fd_from 0 (p_fds p) < KFD_MAX_COUNT"
      "new_obj sizeof_file_desc (Fdesc ?d) s = Inr (x, u)"
      "if x = 0 then fd = KFD_ERROR \<and> s' = u else fd = free_fd_from 0 (p_fds p) \<and>
        s' = wr_obj a (Process (p\<lparr>p_fds := (p_fds p)[nat fd := x]\<rparr>)) u"
  proof (cases "node = 0 \<or> a = 0")
    case True
    then show thesis using run by (intro that(1)) (auto simp: kfd_create_for_process_def)
  next
    case False
    then obtain p where p: "objs s a = Some (Process p)"
      using run by (auto simp: kfd_create_for_process_def kres_simps rd_simps)
    show thesis
    proof (cases "free_fd_from 0 (p_fds p) < KFD_MAX_COUNT")
      case True
      then show thesis using run False p that(2) [OF p]
        by (auto simp: kfd_create_for_process_def rd_process_def kres_simps Let_def split: if_splits)
    next
      case full: False
      then show thesis using run False p by (intro that(1)) (auto simp: kfd_create_for_process_def rd_process_def)
    qed
  qed
  then show thesis
  proof cases
    case 1
    then show thesis using inv that(1) by simp
  next
    case (2 p x u)
    note p = 2(1) and lt = 2(2) and new = 2(3) and res = 2(4)
    show thesis
    proof (cases "x = 0")
      case True
      have "new_obj sizeof_file_desc (Fdesc ?d) s = Inr (0, u)" using new True by simp
      then show thesis using kobjs.make_null [OF inv small_fd_sizes(1)] res True that(1) by auto
    next
      case False
      note mk = kobjs.make_new [OF inv small_fd_sizes(1) new False]
      have xn: "objs s x = None" using mk kobjs.stored_used [OF inv] by blast
      then have ax: "a \<noteq> x" using p by auto
      have len: "length (p_fds p) = 32" using fd_tables_length [OF t p] .
      define i where "i = length (takeWhile (\<lambda>d. d \<noteq> 0) (p_fds p))"
      have fd: "free_fd_from 0 (p_fds p) = int i" by (simp add: i_def free_fd_from_eq)
      then have i: "i < 32" using lt by (simp add: KFD_MAX_COUNT_def)
      have z: "p_fds p ! i = 0" using free_fd_zero [of "p_fds p"] fd i len by simp
      have low: "\<forall>j < i. p_fds p ! j \<noteq> 0" unfolding i_def by (auto dest: used_before)
      have u: "obj_inv u" "objs u = (objs s)(x \<mapsto> Fdesc ?d)" using mk by simp_all
      then have "objs u a \<noteq> None" using p ax by simp
      note st = kobjs.store_it [OF u(1) this, of "Process (set_fd p i x)"]
      have eq: "fd = int i" "s' = wr_obj a (Process (set_fd p i x)) u" using res False fd by (simp_all add: set_fd_def)
      have "obj_inv s'" "objs s' = (objs s)(x \<mapsto> Fdesc ?d, a \<mapsto> Process (set_fd p i x))" unfolding eq(2) using st u(2) by simp_all
      then show thesis by (rule that(2) [OF p eq(1) i z low _ xn False])
    qed
  qed
qed

section \<open>Closing a descriptor\<close>

text \<open>Closing a node: it is kept, or its count is lowered, or it is released.\<close>

lemma close_node_cases:
  assumes inv: "obj_inv s" and run: "kvfs_close node s = Inr s'"
  shows "obj_inv s' \<and> (\<exists>n o'. objs s' = objs s \<or> objs s node = Some (Node n) \<and> (o' = None \<or> (\<exists>n'. o' = Some (Node n'))) \<and>
      objs s' = (objs s)(node := o'))"
proof (cases "s' = s")
  case False
  then obtain n where n: "objs s node = Some (Node n)"
    using run by (auto simp: kvfs_close_def kres_simps rd_simps split: if_splits)
  let ?n = "Node (n\<lparr>n_refcount := n_refcount n - 1\<rparr>)" and ?s = "wr_obj node (Node (n\<lparr>n_refcount := n_refcount n - 1\<rparr>)) s"
  have st: "obj_inv ?s" "objs ?s = (objs s)(node \<mapsto> ?n)" using kobjs.store_it [OF inv, of node ?n] n by auto
  have "s' = ?s \<or> free_obj node ?s = Inr s'"
    using run False n by (auto simp: kvfs_close_def rd_node_def Let_def split: if_splits)
  then show ?thesis
  proof
    assume "s' = ?s"
    then show ?thesis using st n by blast
  next
    assume "free_obj node ?s = Inr s'"
    then have "obj_inv s' \<and> objs s' = (objs ?s)(node := None)" using kobjs.drop_it [OF st(1), of node] st(2) by auto
    then show ?thesis using st(2) n by auto
  qed
qed (use inv in simp)

lemma close_node_ok:
  assumes inv: "obj_inv s" and n: "objs s node = Some (Node n)"
  shows "\<exists>s'. kvfs_close node s = Inr s'"
proof -
  let ?n = "Node (n\<lparr>n_refcount := n_refcount n - 1\<rparr>)"
  have "obj_inv (wr_obj node ?n s)" "objs (wr_obj node ?n s) node \<noteq> None" using kobjs.store_it [OF inv, of node ?n] n by auto
  then obtain s' where "free_obj node (wr_obj node ?n s) = Inr s'" using kobjs.drop_it by blast
  then show ?thesis using n by (auto simp: kvfs_close_def rd_node_def Let_def)
qed

lemma close_node_fd_same:
  assumes "obj_inv s" "kvfs_close node s = Inr s'"
  shows "fd_same (objs s) (objs s')"
  using close_node_cases [OF assms] by (auto simp: fd_same_def split: if_splits)

lemma fd_close_cases:
  assumes inv: "obj_inv s" and t: "fd_tables (objs s)" and run: "kfd_close_for_process a fd s = Inr (ok, s')"
  shows "obj_inv s' \<and> fd_tables (objs s')"
proof -
  consider "s' = s" | p x d where "a \<noteq> 0" "objs s a = Some (Process p)" "0 \<le> fd" "fd < KFD_MAX_COUNT" "x = p_fds p ! nat fd" "x \<noteq> 0"
      "objs s x = Some (Fdesc d)" "s' \<noteq> s"
    using run by (auto simp: kfd_close_for_process_def kfd_get_from_process_def kres_simps rd_simps split: if_splits)
  then show ?thesis
  proof cases
    case (2 p x d)
    have i: "nat fd < length (p_fds p)" using fd_tables_length [OF t 2(2)] 2(3,4) by (simp add: KFD_MAX_COUNT_def)
    have sl: "slot (objs s) a (nat fd) x" using 2(2,5,6) i by (simp add: slot_def)
    have get: "kfd_get_from_process a fd s = Inr x" using 2 by (simp add: kfd_get_from_process_def rd_process_def)
    show ?thesis
    proof (cases "fd_refcount d > 1")
      case True
      then have s': "s' = wr_obj x (Fdesc (d\<lparr>fd_refcount := fd_refcount d - 1\<rparr>)) s"
        using run get 2 by (simp add: kfd_close_for_process_def rd_fdesc_def)
      have "obj_inv s' \<and> objs s' = (objs s)(x \<mapsto> Fdesc (d\<lparr>fd_refcount := fd_refcount d - 1\<rparr>))"
        unfolding s' using kobjs.store_it [OF inv] 2(7) by auto
      moreover from this have "fd_same (objs s) (objs s')" using 2(7) by (auto simp: fd_same_def)
      ultimately show ?thesis using fd_same_tables t by blast
    next
      case False
      obtain u v q where u: "kvfs_close (fd_node d) s = Inr u" and v: "free_obj x u = Inr v" and q: "objs v a = Some (Process q)"
        and s': "s' = wr_obj a (Process (set_fd q (nat fd) 0)) v"
        using run get 2(1,6,7) False by (auto simp: kfd_close_for_process_def rd_fdesc_def set_fd_def kres_simps rd_simps)
      note cu = close_node_cases [OF inv u] and su = close_node_fd_same [OF inv u]
      have ux: "objs u x \<noteq> None" and ua: "objs u a = Some (Process p)" and uo: "obj_inv u"
        using cu su 2(2,7) by (auto simp: fd_same_def)
      have vo: "obj_inv v \<and> objs v = (objs u)(x := None)" using kobjs.drop_it [OF uo ux] v by auto
      have ax: "a \<noteq> x" using 2(2,7) by auto
      then have qp: "q = p" using q vo ua by simp
      have tu: "fd_tables (objs u)" using fd_same_tables [OF su t] .
      have "slot (objs u) a (nat fd) x" using ua i 2(5,6) by (simp add: slot_def)
      then have "fd_tables ((objs u)(x := None, a \<mapsto> Process (set_fd p (nat fd) 0)))" by (rule remove_fd [OF tu ua])
      moreover have "obj_inv s' \<and> objs s' = (objs v)(a \<mapsto> Process (set_fd p (nat fd) 0))"
        unfolding s' qp using kobjs.store_it [of v a] vo q by auto
      ultimately show ?thesis using vo by simp
    qed
  qed (use assms in simp)
qed

section \<open>Any sequence of creations and closings\<close>

inductive fd_step :: "'z kernel_state_scheme \<Rightarrow> 'z kernel_state_scheme \<Rightarrow> bool" where
  create: "kfd_create_for_process a node flags s = Inr (fd, s') \<Longrightarrow> fd_step s s'"
| close: "kfd_close_for_process a fd s = Inr (ok, s') \<Longrightarrow> fd_step s s'"
| seek: "set_offset x offset s = Inr s' \<Longrightarrow> fd_step s s'"
| release: "kvfs_close node s = Inr s' \<Longrightarrow> fd_step s s'"

lemma fd_create_typed:
  assumes "obj_inv s" "fd_tables (objs s)" "kfd_create_for_process a node flags s = Inr (fd, s')"
  shows "obj_inv s' \<and> fd_tables (objs s')"
  using fd_create_cases [OF assms]
proof cases
  case (2 p x i)
  then show ?thesis using install_fd [OF assms(2)] by auto
qed (use assms(2) in simp)

lemma fd_step_typed:
  assumes "fd_step s s'" "obj_inv s" "fd_tables (objs s)"
  shows "obj_inv s' \<and> fd_tables (objs s')"
  using assms
proof (induction rule: fd_step.induct)
  case (seek x offset s s')
  then obtain d where d: "objs s x = Some (Fdesc d)" "s' = wr_obj x (Fdesc (d\<lparr>fd_offset := offset\<rparr>)) s"
    by (auto simp: set_offset_def kres_simps rd_simps)
  then have "obj_inv s' \<and> objs s' = (objs s)(x \<mapsto> Fdesc (d\<lparr>fd_offset := offset\<rparr>))"
    using kobjs.store_it [OF seek(2)] by auto
  moreover from this have "fd_same (objs s) (objs s')" using d(1) by (auto simp: fd_same_def)
  ultimately show ?case using fd_same_tables seek(3) by blast
next
  case (release node s s')
  then show ?case using close_node_cases fd_same_tables [OF close_node_fd_same] by blast
qed (use fd_create_typed fd_close_cases in blast)+

lemma fd_steps_typed: "fd_step\<^sup>*\<^sup>* s s' \<Longrightarrow> obj_inv s \<Longrightarrow> fd_tables (objs s) \<Longrightarrow> obj_inv s' \<and> fd_tables (objs s')"
  by (induction rule: rtranclp_induct) (auto dest: fd_step_typed)

section \<open>Properties\<close>

text \<open>
  C32. The tables of file descriptors stay well typed: whatever descriptors are created, closed and moved, in whatever
  processes and order, every table keeps its 32 entries, every entry in use points to a descriptor structure that has not
  been released, and no two entries share one.
\<close>

theorem fd_tables_stay_typed:
  assumes "fd_step\<^sup>*\<^sup>* s s'" "obj_inv s" "fd_tables (objs s)"
  shows "fd_tables (objs s')"
  using fd_steps_typed [OF assms] by blast

text \<open>
  C33. \<^verbatim>\<open>kfd_create_for_process\<close> returns the lowest descriptor that is not in use, pointing to a new structure with the
  node, the flags, offset 0 and one reference, and changes no other descriptor of any process; \<^verbatim>\<open>kfd_close_for_process\<close> of it
  restores the table and releases the structure.
\<close>

theorem kfd_create_then_close:
  assumes inv: "obj_inv s" and t: "fd_tables (objs s)" and p: "objs s a = Some (Process p)" "a \<noteq> 0"
    and node: "objs s node = Some (Node n)" "node \<noteq> 0"
    and i: "i < 32" "p_fds p ! i = 0" "\<forall>j < i. p_fds p ! j \<noteq> 0" and room: "room 1 s"
  shows "\<exists>x s1 s2. kfd_create_for_process a node flags s = Inr (int i, s1) \<and> kfd_get_from_process a (int i) s1 = Inr x \<and>
    objs s1 x = Some (Fdesc \<lparr>fd_node = node, fd_offset = 0, fd_flags = flags, fd_refcount = 1\<rparr>) \<and>
    (\<forall>b fd. objs s b \<noteq> None \<longrightarrow> (b, fd) \<noteq> (a, int i) \<longrightarrow> kfd_get_from_process b fd s1 = kfd_get_from_process b fd s) \<and>
    kfd_close_for_process a (int i) s1 = Inr (True, s2) \<and> objs s2 a = Some (Process p) \<and> objs s2 x = None"
proof -
  let ?d = "\<lparr>fd_node = node, fd_offset = 0, fd_flags = flags, fd_refcount = 1\<rparr>"
  have len: "length (p_fds p) = 32" using fd_tables_length [OF t p(1)] .
  have low: "free_fd_from 0 (p_fds p) = int i" using lowest_free i len by simp
  obtain x u where new: "new_obj sizeof_file_desc (Fdesc ?d) s = Inr (x, u)" "x \<noteq> 0"
    using new_obj_room [OF inv small_fd_sizes(1), of 0 "Fdesc ?d"] room by (auto simp: sizeof_file_desc_def)
  let ?s = "wr_obj a (Process (p\<lparr>p_fds := (p_fds p)[i := x]\<rparr>)) u"
  have run: "kfd_create_for_process a node flags s = Inr (int i, ?s)"
    using p node(2) low i(1) new by (simp add: kfd_create_for_process_def rd_process_def KFD_MAX_COUNT_def)
  then obtain x' where s1: "obj_inv ?s" "objs s x' = None" "x' \<noteq> 0"
    "objs ?s = (objs s)(x' \<mapsto> Fdesc ?d, a \<mapsto> Process (set_fd p i x'))"
    using p(1) by (cases rule: fd_create_cases [OF inv t run]) (auto simp: KFD_ERROR_def)
  note m1 = s1(4)
  have ne: "a \<noteq> x'" "node \<noteq> x'" "node \<noteq> a" using s1(2) p(1) node(1) by auto
  have get: "kfd_get_from_process a (int i) ?s = Inr x'"
    using m1 p(2) i(1) len by (simp add: kfd_get_from_process_def rd_process_def set_fd_def KFD_MAX_COUNT_def)
  have oth: "kfd_get_from_process b fd ?s = kfd_get_from_process b fd s" if "objs s b \<noteq> None" "(b, fd) \<noteq> (a, int i)" for b fd
  proof (cases "b = a \<and> 0 \<le> fd")
    case True
    then have "nat fd \<noteq> i" using that(2) by auto
    then show ?thesis using True m1 p(1) by (auto simp: kfd_get_from_process_def rd_process_def set_fd_def)
  next
    case False
    have "b \<noteq> x'" using that(1) s1(2) by auto
    then show ?thesis using False m1 by (auto simp: kfd_get_from_process_def rd_process_def)
  qed
  have "objs ?s node = Some (Node n)" using m1 ne node(1) by simp
  then obtain u where u: "kvfs_close node ?s = Inr u" using close_node_ok [OF s1(1)] by blast
  have ou: "obj_inv u" "objs u x' = Some (Fdesc ?d)" "objs u a = Some (Process (set_fd p i x'))"
    using close_node_cases [OF s1(1) u] m1 ne by auto
  obtain v where v: "free_obj x' u = Inr v" "obj_inv v" "objs v = (objs u)(x' := None)"
    using kobjs.drop_it [OF ou(1), of x'] ou(2) by auto
  let ?e = "wr_obj a (Process (set_fd (set_fd p i x') i 0)) v"
  have same: "set_fd (set_fd p i x') i 0 = p" using i(1,2) len by (simp add: set_fd_def list_update_same_conv)
  have "objs ?s x' = Some (Fdesc ?d)" using m1 ne by simp
  then have "kfd_close_for_process a (int i) ?s = Inr (True, ?e)"
    using get u v ou(3) ne s1(3) p(2) by (simp add: kfd_close_for_process_def rd_fdesc_def rd_process_def set_fd_def)
  then have "kfd_close_for_process a (int i) ?s = Inr (True, ?e)" "objs ?e a = Some (Process p)" "objs ?e x' = None"
    using v(3) ne same by (simp_all add: wr_obj_def)
  then show ?thesis using run get oth \<open>objs ?s x' = Some (Fdesc ?d)\<close> by blast
qed

section \<open>Examples\<close>

definition plain_process :: process where
  "plain_process = \<lparr>p_pid = 1, p_ppid = 0, p_main_thread = 0, p_state = KPROCESS_ALIVE, p_name = ''init'',
     p_fds = replicate 32 0, p_page_directory = 0, p_page_directory_phys = 0\<rparr>"

lemma process_and_node:
  obtains s :: kernel_state and a node where "obj_inv s" "objs s = [a \<mapsto> Process plain_process, node \<mapsto> Node (node_of 0)]"
    "a \<noteq> 0" "node \<noteq> 0" "a \<noteq> node" "room 20 s"
proof -
  obtain s0 where boot: "kernel_ready s0" and s0: "obj_inv s0" "objs s0 = Map.empty" "live_blocks s0 = {}" "room 30 s0"
      "kernel_heap_limit s0 = 0xD0064000"
    by (rule kernel_ready_exists)
  have small: "small_request 64" by (simp add: small_request_def)
  obtain a s1 where s1: "new_obj 64 (Process plain_process) s0 = Inr (a, s1)" "a \<noteq> 0" "room 29 s1"
    using new_obj_room [OF s0(1) small, of 29 "Process plain_process"] s0(4) by auto
  note m1 = kobjs.make_new [OF s0(1) small s1(1,2)]
  have "room (Suc 20) s1" using room_less [OF s1(3)] by simp
  then obtain node s2 where s2: "new_obj 64 (Node (node_of 0)) s1 = Inr (node, s2)" "node \<noteq> 0" "room 20 s2"
    using new_obj_room [OF _ small, of s1 20 "Node (node_of 0)"] m1 by auto
  have "obj_inv s1" using m1 by blast
  note m2 = kobjs.make_new [OF this small s2(1,2)]
  have "a \<in> fst ` live_blocks s1" using m1 by force
  then have "a \<noteq> node" using m2 by blast
  then show thesis using m1 m2 s0(2) s1(2) s2(2,3) that [of s2 a node] by auto
qed

lemma plain_tables: "a \<noteq> node \<Longrightarrow> fd_tables [a \<mapsto> Process plain_process, node \<mapsto> Node n]"
  by (rule fd_tablesI) (auto simp: plain_process_def slot_def split: if_splits)

theorem kfd_create_then_close_witness:
  "\<exists>(s :: kernel_state) s1 s2 a x node. kfd_create_for_process a node 0 s = Inr (0, s1) \<and> kfd_get_from_process a 0 s1 = Inr x \<and>
     kfd_close_for_process a 0 s1 = Inr (True, s2) \<and> objs s2 x = None"
proof -
  obtain s :: kernel_state and a node where s: "obj_inv s" "objs s = [a \<mapsto> Process plain_process, node \<mapsto> Node (node_of 0)]"
    "a \<noteq> 0" "node \<noteq> 0" "a \<noteq> node" "room 20 s" by (rule process_and_node)
  have "fd_tables (objs s)" using plain_tables s(2,5) by simp
  moreover have "p_fds plain_process ! 0 = 0" by (simp add: plain_process_def)
  ultimately obtain x s1 s2 where "kfd_create_for_process a node 0 s = Inr (0, s1)" "kfd_get_from_process a 0 s1 = Inr x"
      "kfd_close_for_process a 0 s1 = Inr (True, s2)" "objs s2 x = None"
    using kfd_create_then_close [OF s(1), of a plain_process node "node_of 0" 0 0] s(2-5) room_less [OF s(6), of 1] by auto
  then show ?thesis by blast
qed

theorem fd_tables_stay_typed_witness:
  "\<exists>(s :: kernel_state) s1 a node. kfd_create_for_process a node 0 s = Inr (0, s1) \<and> fd_tables (objs s1)"
proof -
  obtain s :: kernel_state and a node where s: "obj_inv s" "objs s = [a \<mapsto> Process plain_process, node \<mapsto> Node (node_of 0)]"
    "a \<noteq> 0" "node \<noteq> 0" "a \<noteq> node" "room 20 s" by (rule process_and_node)
  have t: "fd_tables (objs s)" using plain_tables s(2,5) by simp
  have low: "free_fd_from 0 (p_fds plain_process) = 0" using lowest_free [of 0 "p_fds plain_process"] by (simp add: plain_process_def)
  obtain x u where new: "new_obj sizeof_file_desc (Fdesc \<lparr>fd_node = node, fd_offset = 0, fd_flags = 0, fd_refcount = 1\<rparr>) s = Inr (x, u)" "x \<noteq> 0"
    using new_obj_room [OF s(1) small_fd_sizes(1), of 19] s(6) by (fastforce simp: sizeof_file_desc_def)
  have "\<exists>s1. kfd_create_for_process a node 0 s = Inr (0, s1)"
    using s new low by (simp add: kfd_create_for_process_def rd_process_def KFD_MAX_COUNT_def)
  then obtain s1 where s1: "kfd_create_for_process a node 0 s = Inr (0, s1)" by blast
  then have "fd_step\<^sup>*\<^sup>* s s1" by (blast intro: fd_step.create)
  then show ?thesis using s1 fd_tables_stay_typed [OF _ s(1) t] by blast
qed

end
