(* ===== verification/Kformat.thy ===== *)
theory Kformat
  imports Tty Kstring
begin

text \<open>
  Formatted printing: \<^verbatim>\<open>kprintf\<close> on the terminal (\<^verbatim>\<open>kprintf.c\<close>) and \<^verbatim>\<open>ksprintf\<close> into memory (\<^verbatim>\<open>ksprintf.c\<close>). The format is
  the text before its terminator; reading past the terminator is an overrun. The variable arguments are the words
  above the format on the stack, and taking more of them than there are is an overrun too. The two files hold the
  same parser; what they do with a conversion differs in where the characters go, and in the default case.
\<close>

section \<open>The format and its arguments\<close>

definition fmt_at :: "string \<Rightarrow> nat \<Rightarrow> char kres" where
  "fmt_at format i = (if i < length format then Inr (format ! i) else if i = length format then Inr (CHR 0x00) else Inl Overrun)"

fun KVA_ARG :: "u32 list \<Rightarrow> (u32 \<times> u32 list) kres" where
  "KVA_ARG [] = Inl Overrun"
| "KVA_ARG (w # va) = Inr (w, va)"

fun KVA_ARG64 :: "u32 list \<Rightarrow> (u64 \<times> u32 list) kres" where
  "KVA_ARG64 (lo # hi # va) = Inr (ucast lo OR push_bit 32 (ucast hi), va)"
| "KVA_ARG64 va = Inl Overrun"

fun width_loop :: "string \<Rightarrow> nat \<Rightarrow> u32 \<Rightarrow> nat \<times> u32" where
  "width_loop [] i width = (i, width)"
| "width_loop (c # cs) i width =
    (if kisdigit c then width_loop cs (i + 1) (width * 10 + (of_char c - of_char CHR ''0'')) else (i, width))"

definition kparse_format :: "string \<Rightarrow> nat \<Rightarrow> (nat \<times> u32 \<times> bool) kres" where
  "kparse_format format i =
    bindE (fmt_at format i) (\<lambda>c.
    let pad_zero = (c = CHR ''0''); i = (if pad_zero then i + 1 else i);
        (i, width) = width_loop (drop i format) i 0 in
    Inr (i, width, pad_zero))"

text \<open>The bytes of a string argument.\<close>

fun rd_bytes :: "nat \<Rightarrow> u32 \<Rightarrow> 'z heap_state_scheme \<Rightarrow> u8 list kres" where
  "rd_bytes 0 p s = Inr []"
| "rd_bytes (Suc n) p s = bindE (rd8 p s) (\<lambda>b. bindE (rd_bytes n (p + 1) s) (\<lambda>bs. Inr (b # bs)))"

definition str_arg :: "u32 \<Rightarrow> 'z heap_state_scheme \<Rightarrow> u8 list kres" where
  "str_arg str s =
    (if str = 0 then Inr (map of_char ''(null)'')
     else bindE (kstrlen str s) (\<lambda>len. rd_bytes (unat len) str s))"

text \<open>
  The value a conversion takes from the arguments: the prefix that is printed first and the characters that are
  padded. \<open>None\<close> for a letter that is no conversion.
\<close>

definition bytes_of :: "string \<Rightarrow> u8 list" where
  "bytes_of = map of_char"

definition format_arg ::
    "char \<Rightarrow> bool \<Rightarrow> u32 list \<Rightarrow> 'z heap_state_scheme \<Rightarrow> (u8 list \<times> u8 list \<times> u32 list) option kres" where
  "format_arg c is_long va s =
    (if c = CHR ''d'' then
       if is_long
       then bindE (KVA_ARG64 va) (\<lambda>(v, va). bindE (kitoa64 v) (\<lambda>ds. Inr (Some ([], bytes_of ds, va))))
       else bindE (KVA_ARG va) (\<lambda>(v, va). bindE (kitoa v) (\<lambda>ds. Inr (Some ([], bytes_of ds, va))))
     else if c = CHR ''x'' then
       if is_long
       then bindE (KVA_ARG64 va) (\<lambda>(v, va). bindE (kuitoa64 v 16 False) (\<lambda>ds. Inr (Some (bytes_of ''0x'', bytes_of ds, va))))
       else bindE (KVA_ARG va) (\<lambda>(v, va). bindE (kuitoa v 16 False) (\<lambda>ds. Inr (Some (bytes_of ''0x'', bytes_of ds, va))))
     else if c = CHR ''X'' then
       bindE (KVA_ARG va) (\<lambda>(v, va). bindE (kuitoa v 16 True) (\<lambda>ds. Inr (Some (bytes_of ''0X'', bytes_of ds, va))))
     else if c = CHR ''b'' then
       bindE (KVA_ARG va) (\<lambda>(v, va). bindE (kuitoa v 2 False) (\<lambda>ds. Inr (Some ([], bytes_of ds, va))))
     else if c = CHR ''p'' then
       bindE (KVA_ARG va) (\<lambda>(v, va). bindE (kuitoa v 16 False) (\<lambda>ds. Inr (Some (bytes_of ''0x'', bytes_of ds, va))))
     else if c = CHR ''s'' then
       bindE (KVA_ARG va) (\<lambda>(v, va). bindE (str_arg v s) (\<lambda>bs. Inr (Some ([], bs, va))))
     else if c = CHR ''c'' then
       bindE (KVA_ARG va) (\<lambda>(v, va). Inr (Some ([], [ucast v], va)))
     else Inr None)"

definition format_width :: "char \<Rightarrow> u32 \<Rightarrow> u32" where
  "format_width c width = (if c = CHR ''p'' then if width > 2 then width - 2 else 0 else width)"

definition format_pad :: "char \<Rightarrow> bool \<Rightarrow> u8" where
  "format_pad c pad_zero = (if pad_zero \<and> c \<noteq> CHR ''s'' \<and> c \<noteq> CHR ''c'' then of_char CHR ''0'' else of_char CHR '' '')"

section \<open>On the terminal\<close>

text \<open>\<^verbatim>\<open>ktty_puts\<close> stops at a zero byte: \<open>%c\<close> of the null character prints nothing.\<close>

definition puts_c :: "u8 list \<Rightarrow> u8 \<Rightarrow> 'z tty_state_scheme \<Rightarrow> 'z tty_state_scheme kres" where
  "puts_c str color s = ktty_puts (Some (takeWhile (\<lambda>b. b \<noteq> 0) str)) color s"

fun pad_loop :: "nat \<Rightarrow> u8 \<Rightarrow> u8 \<Rightarrow> 'z tty_state_scheme \<Rightarrow> 'z tty_state_scheme kres" where
  "pad_loop 0 pad_char color s = Inr s"
| "pad_loop (Suc padding) pad_char color s = bindE (puts_c [pad_char] color s) (pad_loop padding pad_char color)"

definition kprint_padded ::
    "u8 list \<Rightarrow> u32 \<Rightarrow> u8 \<Rightarrow> u8 \<Rightarrow> 'z tty_state_scheme \<Rightarrow> (u32 \<times> 'z tty_state_scheme) kres" where
  "kprint_padded str width pad_char color s =
    (let len = word_of_nat (length str);
         padding = (if width > len then width - len else 0);
         minus = str \<noteq> [] \<and> hd str = of_char CHR ''-'' \<and> pad_char = of_char CHR ''0'' \<and> padding > 0 in
     bindE (if minus then puts_c (bytes_of ''-'') color s else Inr s) (\<lambda>s.
     let str = (if minus then tl str else str); len = (if minus then len - 1 else len); count = (if minus then 1 else 0) in
     bindE (pad_loop (unat padding) pad_char color s) (\<lambda>s.
     bindE (puts_c str color s) (\<lambda>s.
     Inr (count + padding + len, s)))))"

definition khandle_format ::
    "string \<Rightarrow> nat \<Rightarrow> u32 list \<Rightarrow> u8 \<Rightarrow> 'z tty_state_scheme \<Rightarrow> (u32 \<times> nat \<times> u32 list \<times> 'z tty_state_scheme) kres" where
  "khandle_format format i va color s =
    bindE (kparse_format format i) (\<lambda>(i, width, pad_zero).
    bindE (fmt_at format i) (\<lambda>c.
    let is_long = (c = CHR ''l''); i = (if is_long then i + 1 else i) in
    bindE (fmt_at format i) (\<lambda>c.
    if c = CHR ''%'' then bindE (puts_c (bytes_of ''%'') color s) (\<lambda>s. Inr (1, i, va, s))
    else
      bindE (format_arg c is_long va s) (\<lambda>r.
      case r of
        None \<Rightarrow>
          bindE (puts_c (bytes_of ''%'') color s) (\<lambda>s.
          bindE (puts_c (bytes_of (drop i format)) color s) (\<lambda>s. Inr (2, i, va, s)))
      | Some (prefix, str, va) \<Rightarrow>
          bindE (puts_c prefix color s) (\<lambda>s.
          bindE (kprint_padded str (format_width c width) (format_pad c pad_zero) color s) (\<lambda>(n, s).
          Inr (word_of_nat (length prefix) + n, i, va, s)))))))"

partial_function (option) kprintf_loop ::
    "string \<Rightarrow> nat \<Rightarrow> u32 \<Rightarrow> u32 list \<Rightarrow> u8 \<Rightarrow> 'z tty_state_scheme \<Rightarrow> (u32 \<times> 'z tty_state_scheme) kres option" where
  "kprintf_loop format i count va color s =
    (case fmt_at format i of
       Inl e \<Rightarrow> Some (Inl e)
     | Inr c \<Rightarrow>
         if c = CHR 0x00 then Some (Inr (count, s))
         else if c = CHR ''%'' \<and> fmt_at format (i + 1) \<noteq> Inr (CHR 0x00) then
           (case khandle_format format (i + 1) va color s of
              Inl e \<Rightarrow> Some (Inl e)
            | Inr (n, i, va, s) \<Rightarrow> kprintf_loop format (i + 1) (count + n) va color s)
         else
           (case puts_c [of_char c] color s of
              Inl e \<Rightarrow> Some (Inl e)
            | Inr s \<Rightarrow> kprintf_loop format (i + 1) (count + 1) va color s))"

definition kprintf ::
    "u8 \<Rightarrow> string option \<Rightarrow> u32 list \<Rightarrow> 'z tty_state_scheme \<Rightarrow> (u32 \<times> 'z tty_state_scheme) kres" where
  "kprintf color format va s =
    (case format of None \<Rightarrow> Inr (0, s) | Some f \<Rightarrow> returned (kprintf_loop f 0 0 va color s))"

section \<open>Into memory\<close>

text \<open>\<^verbatim>\<open>**out = c; (*out)++\<close> for each byte.\<close>

fun put_bytes :: "u8 list \<Rightarrow> u32 \<times> 'z heap_state_scheme \<Rightarrow> (u32 \<times> 'z heap_state_scheme) kres" where
  "put_bytes [] os = Inr os"
| "put_bytes (b # bs) os = (case os of (out, s) \<Rightarrow> bindE (wr8 out b s) (\<lambda>s. put_bytes bs (out + 1, s)))"

definition kbuf_write :: "u8 list \<Rightarrow> u32 \<times> 'z heap_state_scheme \<Rightarrow> (u32 \<times> 'z heap_state_scheme) kres" where
  "kbuf_write src os = (if fst os = 0 then Inr os else put_bytes src os)"

definition kprint_padded_buf ::
    "u8 list \<Rightarrow> u32 \<Rightarrow> u8 \<Rightarrow> u32 \<times> 'z heap_state_scheme \<Rightarrow> (u32 \<times> u32 \<times> 'z heap_state_scheme) kres" where
  "kprint_padded_buf str width pad_char os =
    (let len = word_of_nat (length str);
         padding = (if width > len then width - len else 0);
         minus = str \<noteq> [] \<and> hd str = of_char CHR ''-'' \<and> pad_char = of_char CHR ''0'' \<and> padding > 0 in
     bindE (if minus then put_bytes (bytes_of ''-'') os else Inr os) (\<lambda>os.
     let str = (if minus then tl str else str); len = (if minus then len - 1 else len); count = (if minus then 1 else 0) in
     bindE (put_bytes (replicate (unat padding) pad_char) os) (\<lambda>os.
     bindE (kbuf_write str os) (\<lambda>os.
     Inr (count + padding + len, os)))))"

definition khandle_format_buf ::
    "string \<Rightarrow> nat \<Rightarrow> u32 list \<Rightarrow> u32 \<times> 'z heap_state_scheme \<Rightarrow> (u32 \<times> nat \<times> u32 list \<times> u32 \<times> 'z heap_state_scheme) kres" where
  "khandle_format_buf format i va os =
    bindE (kparse_format format i) (\<lambda>(i, width, pad_zero).
    bindE (fmt_at format i) (\<lambda>c.
    let is_long = (c = CHR ''l''); i = (if is_long then i + 1 else i) in
    bindE (fmt_at format i) (\<lambda>c.
    if c = CHR ''%'' then bindE (put_bytes (bytes_of ''%'') os) (\<lambda>os. Inr (1, i, va, os))
    else
      bindE (format_arg c is_long va (snd os)) (\<lambda>r.
      case r of
        None \<Rightarrow> bindE (put_bytes (bytes_of [CHR ''%'', c]) os) (\<lambda>os. Inr (2, i, va, os))
      | Some (prefix, str, va) \<Rightarrow>
          bindE (kbuf_write prefix os) (\<lambda>os.
          bindE (kprint_padded_buf str (format_width c width) (format_pad c pad_zero) os) (\<lambda>(n, os).
          Inr (word_of_nat (length prefix) + n, i, va, os)))))))"

partial_function (option) ksprintf_loop ::
    "string \<Rightarrow> nat \<Rightarrow> u32 \<Rightarrow> u32 list \<Rightarrow> u32 \<times> 'z heap_state_scheme \<Rightarrow> (u32 \<times> u32 \<times> 'z heap_state_scheme) kres option" where
  "ksprintf_loop format i count va os =
    (case fmt_at format i of
       Inl e \<Rightarrow> Some (Inl e)
     | Inr c \<Rightarrow>
         if c = CHR 0x00 then Some (Inr (count, os))
         else if c = CHR ''%'' \<and> fmt_at format (i + 1) \<noteq> Inr (CHR 0x00) then
           (case khandle_format_buf format (i + 1) va os of
              Inl e \<Rightarrow> Some (Inl e)
            | Inr (n, i, va, os) \<Rightarrow> ksprintf_loop format (i + 1) (count + n) va os)
         else
           (case put_bytes [of_char c] os of
              Inl e \<Rightarrow> Some (Inl e)
            | Inr os \<Rightarrow> ksprintf_loop format (i + 1) (count + 1) va os))"

definition ksprintf ::
    "u32 \<Rightarrow> string option \<Rightarrow> u32 list \<Rightarrow> 'z heap_state_scheme \<Rightarrow> (u32 \<times> 'z heap_state_scheme) kres" where
  "ksprintf buffer format va s =
    (case format of
       None \<Rightarrow> Inr (0, s)
     | Some f \<Rightarrow>
         if buffer = 0 then Inr (0, s)
         else
           bindE (returned (ksprintf_loop f 0 0 va (buffer, s))) (\<lambda>(count, os).
           bindE (put_bytes [0] os) (\<lambda>(_, s). Inr (count, s))))"

end
