(* ===== verification/Kformat_Text.thy ===== *)
theory Kformat_Text
  imports Kformat
begin

text \<open>
  What a format means: a list of literals and conversions, the format string that denotes it, and the text it renders
  to. One interface describes a place the characters go to; \<^verbatim>\<open>kprintf\<close> with the terminal and \<^verbatim>\<open>ksprintf\<close> with a buffer in
  memory both implement it, so that both produce the same text.
\<close>

section \<open>Formats and the text they render\<close>

datatype conv = Dec | Dec64 | Hex | Hex64 | HexUp | Bin | Ptr | Str | Chr

datatype directive = Lit char | Percent | Conv bool string conv

fun letter :: "conv \<Rightarrow> char" where
  "letter Dec = CHR ''d''" | "letter Dec64 = CHR ''d''" | "letter Hex = CHR ''x''" | "letter Hex64 = CHR ''x''"
| "letter HexUp = CHR ''X''" | "letter Bin = CHR ''b''" | "letter Ptr = CHR ''p''" | "letter Str = CHR ''s''" | "letter Chr = CHR ''c''"

definition long :: "conv \<Rightarrow> bool" where
  "long k \<longleftrightarrow> k = Dec64 \<or> k = Hex64"

fun fmt_of :: "directive \<Rightarrow> string" where
  "fmt_of (Lit c) = [c]"
| "fmt_of Percent = ''%%''"
| "fmt_of (Conv zero w k) = ''%'' @ (if zero then ''0'' else '''') @ w @ (if long k then ''l'' else '''') @ [letter k]"

fun wf_dir :: "directive \<Rightarrow> bool" where
  "wf_dir (Lit c) \<longleftrightarrow> c \<noteq> CHR ''%'' \<and> c \<noteq> CHR 0x00"
| "wf_dir Percent \<longleftrightarrow> True"
| "wf_dir (Conv zero w k) \<longleftrightarrow> list_all kisdigit w \<and> (w \<noteq> [] \<longrightarrow> hd w \<noteq> CHR ''0'')"

definition num_text :: "string kres \<Rightarrow> u8 list" where
  "num_text r = (case r of Inr ds \<Rightarrow> bytes_of ds | Inl _ \<Rightarrow> [])"

text \<open>The prefix, the characters to pad and the arguments left; \<open>strs\<close> gives the string arguments.\<close>

fun conv_text :: "(u32 \<rightharpoonup> u8 list) \<Rightarrow> conv \<Rightarrow> u32 list \<Rightarrow> (u8 list \<times> u8 list \<times> u32 list) option" where
  "conv_text strs Dec (v # va) = Some ([], num_text (kitoa v), va)"
| "conv_text strs Dec64 (lo # hi # va) = Some ([], num_text (kitoa64 (ucast lo OR push_bit 32 (ucast hi))), va)"
| "conv_text strs Hex (v # va) = Some (bytes_of ''0x'', num_text (kuitoa v 16 False), va)"
| "conv_text strs Hex64 (lo # hi # va) = Some (bytes_of ''0x'', num_text (kuitoa64 (ucast lo OR push_bit 32 (ucast hi)) 16 False), va)"
| "conv_text strs HexUp (v # va) = Some (bytes_of ''0X'', num_text (kuitoa v 16 True), va)"
| "conv_text strs Bin (v # va) = Some ([], num_text (kuitoa v 2 False), va)"
| "conv_text strs Ptr (v # va) = Some (bytes_of ''0x'', num_text (kuitoa v 16 False), va)"
| "conv_text strs Str (v # va) = (if v = 0 then Some ([], bytes_of ''(null)'', va) else map_option (\<lambda>bs. ([], bs, va)) (strs v))"
| "conv_text strs Chr (v # va) = (if ucast v = (0 :: u8) then None else Some ([], [ucast v], va))"
| "conv_text strs k va = None"

definition pad_text :: "u8 list \<Rightarrow> nat \<Rightarrow> u8 \<Rightarrow> u8 list" where
  "pad_text str width pad =
    (let n = width - length str in
     if 0 < n \<and> str \<noteq> [] \<and> hd str = of_char CHR ''-'' \<and> pad = of_char CHR ''0''
     then of_char CHR ''-'' # replicate n pad @ tl str else replicate n pad @ str)"

definition width_of :: "string \<Rightarrow> u32" where
  "width_of w = word_of_nat (digits_value 10 0 w)"

fun render :: "(u32 \<rightharpoonup> u8 list) \<Rightarrow> directive list \<Rightarrow> u32 list \<Rightarrow> u8 list option" where
  "render strs [] va = Some []"
| "render strs (Lit c # ds) va = map_option (Cons (of_char c)) (render strs ds va)"
| "render strs (Percent # ds) va = map_option (Cons (of_char CHR ''%'')) (render strs ds va)"
| "render strs (Conv zero w k # ds) va =
    (case conv_text strs k va of
       None \<Rightarrow> None
     | Some (pre, str, va) \<Rightarrow>
         map_option (\<lambda>t. pre @ pad_text str (unat (format_width (letter k) (width_of w))) (format_pad (letter k) zero) @ t)
           (render strs ds va))"

section \<open>Arguments\<close>

lemma digit_chars_facts: "i < 16 \<Longrightarrow> (of_char (digit_chars u ! i) :: u8) \<noteq> 0"
proof -
  have "\<forall>u. list_all (\<lambda>c. (of_char c :: u8) \<noteq> 0) (digit_chars u)" by (simp add: digit_chars_def)
  moreover assume "i < 16"
  moreover have "length (digit_chars u) = 16" by (simp add: digit_chars_def)
  ultimately show ?thesis by (simp add: list_all_length)
qed

text \<open>What the number routines write has no zero byte and is short.\<close>

definition num_ok :: "string \<Rightarrow> nat \<Rightarrow> bool" where
  "num_ok ds n \<longleftrightarrow> 0 \<notin> set (bytes_of ds) \<and> length ds \<le> n"

lemma uitoa_loop_ok: "uitoa_loop n v b u = Inr ds \<Longrightarrow> num_ok ds n"
proof (induction n arbitrary: v ds)
  case 0
  then show ?case by (subst (asm) uitoa_loop.simps) (auto simp: num_ok_def bytes_of_def split: if_splits)
next
  case (Suc n)
  show ?case
  proof (cases "v = 0")
    case False
    then obtain ds' where "uitoa_loop n (v div b) b u = Inr ds'" "ds = ds' @ [digit_chars u ! unat (v mod b)]" "unat (v mod b) < 16"
      using Suc.prems by (subst (asm) uitoa_loop.simps) (auto simp: kres_simps split: if_splits)
    then show ?thesis using Suc.IH digit_chars_facts by (auto simp: num_ok_def bytes_of_def)
  qed (use Suc.prems in \<open>subst (asm) uitoa_loop.simps, auto simp: num_ok_def bytes_of_def\<close>)
qed

lemma uitoa64_loop_ok: "uitoa64_loop n v b u = Inr ds \<Longrightarrow> num_ok ds n"
proof (induction n arbitrary: v ds)
  case 0
  then show ?case by (subst (asm) uitoa64_loop.simps) (auto simp: num_ok_def bytes_of_def split: if_splits)
next
  case (Suc n)
  show ?case
  proof (cases "v = 0")
    case False
    then obtain q ds' r where "uitoa64_loop n q b u = Inr ds'" "ds = ds' @ [digit_chars u ! unat (r :: u32)]" "unat r < 16"
      using Suc.prems by (subst (asm) uitoa64_loop.simps) (auto simp: kres_simps Let_def split: if_splits prod.splits)
    then show ?thesis using Suc.IH digit_chars_facts by (auto simp: num_ok_def bytes_of_def)
  qed (use Suc.prems in \<open>subst (asm) uitoa64_loop.simps, auto simp: num_ok_def bytes_of_def\<close>)
qed

lemma kuitoa_ok:
  assumes "2 \<le> unat b" "unat b \<le> 16"
  shows "\<exists>ds. kuitoa v b u = Inr ds \<and> num_ok ds 32"
proof (cases "v = 0")
  case False
  have "unat v < 2 ^ 32" using unsigned_less [of v] by simp
  also have "(2::nat) ^ 32 \<le> unat b ^ 32" using assms(1) by (rule power_mono) simp
  finally show ?thesis using uitoa_loop_numeral [OF assms, of v 32 u] uitoa_loop_ok False by (auto simp: kuitoa_def)
qed (simp add: kuitoa_def num_ok_def bytes_of_def)

lemma kuitoa64_ok:
  assumes "10 \<le> unat b" "unat b \<le> 16"
  shows "\<exists>ds. kuitoa64 v b u = Inr ds \<and> num_ok ds 32"
proof (cases "v = 0")
  case False
  have "unat v < 2 ^ 64" using unsigned_less [of v] by simp
  also have "(2::nat) ^ 64 \<le> 10 ^ 32" by simp
  also have "(10::nat) ^ 32 \<le> unat b ^ 32" using assms(1) by (rule power_mono) simp
  finally show ?thesis using uitoa64_loop_numeral [of b v 32 u] uitoa64_loop_ok assms False by (auto simp: kuitoa64_def)
qed (simp add: kuitoa64_def num_ok_def bytes_of_def)

lemma num_ok_minus: "num_ok ds n \<Longrightarrow> num_ok (CHR ''-'' # ds) (Suc n)"
  by (auto simp: num_ok_def bytes_of_def)

lemma num_ok_mono: "num_ok ds n \<Longrightarrow> n \<le> m \<Longrightarrow> num_ok ds m"
  by (auto simp: num_ok_def)

lemma kitoa_ok: "\<exists>ds. kitoa v = Inr ds \<and> num_ok ds 33"
  using kuitoa_ok [of 10 "- v" False] kuitoa_ok [of 10 v False] num_ok_minus [of _ 32] num_ok_mono [of _ 32 33]
  by (auto simp: kitoa_def)

lemma kitoa64_ok: "\<exists>ds. kitoa64 v = Inr ds \<and> num_ok ds 33"
  using kuitoa64_ok [of 10 "- v" False] kuitoa64_ok [of 10 v False] num_ok_minus [of _ 32] num_ok_mono [of _ 32 33]
  by (auto simp: kitoa64_def)

lemma num_text_eq: "r = Inr ds \<Longrightarrow> num_text r = bytes_of ds"
  by (simp add: num_text_def)

text \<open>Text that can be printed: no zero byte, and its length fits a word.\<close>

definition printable :: "u8 list \<Rightarrow> bool" where
  "printable bs \<longleftrightarrow> 0 \<notin> set bs \<and> length bs < 2 ^ 32"

lemma num_ok_printable: "num_ok ds 33 \<Longrightarrow> printable (bytes_of ds)"
  by (auto simp: num_ok_def printable_def bytes_of_def)

lemma prefix_facts: "0 \<notin> set (bytes_of ''0x'')" "0 \<notin> set (bytes_of ''0X'')" "length (bytes_of ''0x'') \<le> 2" "length (bytes_of ''0X'') \<le> 2"
  "printable (bytes_of ''(null)'')"
  by (simp_all add: bytes_of_def printable_def)

lemma conv_text_arg:
  assumes ct: "conv_text strs k va = Some (pre, str, va')"
    and st: "\<And>p bs. strs p = Some bs \<Longrightarrow> p \<noteq> 0 \<and> printable bs \<and> str_arg p s = Inr bs"
  shows "format_arg (letter k) (long k) va s = Inr (Some (pre, str, va')) \<and> 0 \<notin> set pre \<and> length pre \<le> 2 \<and> printable str"
proof -
  obtain v w where va: "va = v # w" using ct by (cases va) auto
  obtain d1 where d1: "kitoa v = Inr d1" "num_ok d1 33" using kitoa_ok by blast
  obtain d2 where d2: "kuitoa v 16 False = Inr d2" "num_ok d2 33" using kuitoa_ok [of 16 v False] num_ok_mono [of _ 32 33] by auto
  obtain d3 where d3: "kuitoa v 16 True = Inr d3" "num_ok d3 33" using kuitoa_ok [of 16 v True] num_ok_mono [of _ 32 33] by auto
  obtain d4 where d4: "kuitoa v 2 False = Inr d4" "num_ok d4 33" using kuitoa_ok [of 2 v False] num_ok_mono [of _ 32 33] by auto
  note pr = num_ok_printable [OF d1(2)] num_ok_printable [OF d2(2)] num_ok_printable [OF d3(2)] num_ok_printable [OF d4(2)]
  show ?thesis
  proof (cases k)
    case Dec64
    then obtain hi u where w: "w = hi # u" using ct va by (cases w) auto
    obtain d where "kitoa64 (ucast v OR push_bit 32 (ucast hi)) = Inr d" "num_ok d 33" using kitoa64_ok by blast
    then show ?thesis using Dec64 ct va w num_ok_printable by (auto simp: format_arg_def long_def num_text_def)
  next
    case Hex64
    then obtain hi u where w: "w = hi # u" using ct va by (cases w) auto
    obtain d where "kuitoa64 (ucast v OR push_bit 32 (ucast hi)) 16 False = Inr d" "num_ok d 33"
      using kuitoa64_ok [of 16 _ False] num_ok_mono [of _ 32 33] by fastforce
    then show ?thesis using Hex64 ct va w num_ok_printable prefix_facts by (auto simp: format_arg_def long_def num_text_def)
  next
    case Str
    then show ?thesis using ct va st [of v] prefix_facts by (auto simp: format_arg_def long_def str_arg_def bytes_of_def split: if_splits)
  next
    case Chr
    then show ?thesis using ct va by (auto simp: format_arg_def long_def printable_def split: if_splits)
  qed (use ct va d1(1) d2(1) d3(1) d4(1) pr prefix_facts in \<open>auto simp: format_arg_def long_def num_text_def\<close>)
qed

section \<open>Parsing a conversion\<close>

lemma fmt_at_append: "fmt_at (as @ c # bs) (length as) = Inr c"
  by (simp add: fmt_at_def)

lemma width_digit:
  assumes "kisdigit c"
  shows "word_of_nat n * 10 + (of_char c - of_char CHR ''0'') = (word_of_nat (n * 10 + nat (char_to_digit c)) :: u32)"
proof -
  define k where "k = (of_char c :: nat)"
  have cd: "(of_char c :: int) = int k" by (simp add: k_def of_nat_of_char)
  have k: "48 \<le> k" "k \<le> 57" "char_to_digit c = int k - 48"
    using assms cd by (auto simp: kisdigit_def char_to_digit_def)
  have "(of_char c :: u32) = word_of_nat k" by (simp add: k_def of_nat_of_char)
  then have "(of_char c :: u32) - of_char CHR ''0'' = word_of_nat (k - 48)" using k(1) by simp
  moreover have "nat (char_to_digit c) = k - 48" using k(1,3) by simp
  ultimately show ?thesis by simp
qed

lemma width_loop_digits:
  assumes "list_all kisdigit w" "\<not> kisdigit c"
  shows "width_loop (w @ c # rest) i (word_of_nat n) = (i + length w, word_of_nat (digits_value 10 n w))"
  using assms(1)
proof (induction w arbitrary: i n)
  case (Cons d w)
  have "width_loop ((d # w) @ c # rest) i (word_of_nat n) = width_loop (w @ c # rest) (i + 1) (word_of_nat (n * 10 + nat (char_to_digit d)))"
    using Cons.prems width_digit [of d n] by (simp del: of_nat_add of_nat_mult)
  then show ?case using Cons.IH [of "i + 1" "n * 10 + nat (char_to_digit d)"] Cons.prems by simp
qed (use assms(2) in simp)

lemma letter_facts:
  "letter k \<noteq> CHR ''%''" "letter k \<noteq> CHR ''l''" "\<not> kisdigit (letter k)" "letter k \<noteq> CHR ''0''" "letter k \<noteq> CHR 0x00"
  "\<not> kisdigit CHR ''l''" "\<not> kisdigit CHR ''%''"
  by (cases k; simp add: kisdigit_def)+

lemma parse_conv:
  assumes wf: "wf_dir (Conv zero w k)" and i: "i = Suc (length pre)" and fm: "f = pre @ fmt_of (Conv zero w k) @ rest"
  shows "kparse_format f i = Inr (i + (if zero then 1 else 0) + length w, width_of w, zero)"
proof -
  define tail where "tail = (if long k then ''l'' else []) @ letter k # rest"
  obtain x tl where x: "tail = x # tl" "\<not> kisdigit x" "x \<noteq> CHR ''0''" using letter_facts(3,4) [of k] letter_facts(6) by (cases "long k") (auto simp: tail_def)
  have f: "f = (pre @ ''%'') @ (if zero then ''0'' else []) @ w @ tail" by (simp add: fm tail_def)
  have li: "length (pre @ ''%'') = i" using i by simp
  have w: "list_all kisdigit w" "w \<noteq> [] \<Longrightarrow> hd w \<noteq> CHR ''0''" using wf by auto
  have loop: "width_loop (w @ tail) n 0 = (n + length w, width_of w)" for n
    using width_loop_digits [OF w(1) x(2), of tl n 0] x(1) by (simp add: width_of_def)
  show ?thesis
  proof (cases zero)
    case True
    have "fmt_at f i = Inr (CHR ''0'')" using fmt_at_append [of "pre @ ''%''" "CHR ''0''" "w @ tail"] f True li by simp
    moreover have "drop (Suc i) f = w @ tail" using f True i by simp
    ultimately show ?thesis using True loop by (simp add: kparse_format_def)
  next
    case False
    obtain y ys where y: "w @ tail = y # ys" "y \<noteq> CHR ''0''" using x w(2) by (cases w) auto
    have "fmt_at f i = Inr y" using fmt_at_append [of "pre @ ''%''" y ys] f False li y(1) by simp
    moreover have "drop i f = w @ tail" using f False i by simp
    ultimately show ?thesis using False loop y(2) by (simp add: kparse_format_def)
  qed
qed

lemma byte_of_char: "of_char c = (0 :: u8) \<Longrightarrow> c = CHR 0x00"
proof -
  assume a: "of_char c = (0 :: u8)"
  have lt: "(of_char c :: nat) < 256" using mod_less_divisor [of 256 "of_char c :: nat"] by simp
  have "(word_of_nat (of_char c) :: u8) = 0" using a by (simp add: of_nat_of_char)
  then have "(of_char c :: nat) = 0" using lt nat_dvd_not_less [of "of_char c" 256] by (auto simp: word_of_nat_eq_0_iff)
  then have "of_char c = (of_char (CHR 0x00) :: nat)" by simp
  then show ?thesis by (simp only: of_char_eq_iff)
qed

lemma digit_not_null: "kisdigit c \<Longrightarrow> c \<noteq> CHR 0x00"
  by (auto simp: kisdigit_def)

lemma fmt_second:
  assumes "wf_dir (Conv zero w k)"
  obtains c cs where "fmt_of (Conv zero w k) = CHR ''%'' # c # cs" "c \<noteq> CHR 0x00"
  using assms digit_not_null letter_facts(5) [of k] by (cases zero; cases w; cases "long k") auto

lemma parse_percent:
  assumes "fmt_at f i = Inr (CHR ''%'')"
  shows "kparse_format f i = Inr (i, 0, False)"
proof -
  have "i < length f" "f ! i = CHR ''%''" using assms by (auto simp: fmt_at_def split: if_splits)
  then have "drop i f = CHR ''%'' # drop (Suc i) f" using Cons_nth_drop_Suc [of i f] by simp
  then show ?thesis using assms by (simp add: kparse_format_def letter_facts(7))
qed

section \<open>A place for the characters\<close>

text \<open>
  \<open>emit\<close> puts characters out, \<open>handle\<close> is the code for one conversion and \<open>loop\<close> the loop over the format. \<open>ok n s\<close> says that
  there is room for \<open>n\<close> more characters and that the string arguments can be read.
\<close>

locale text_sink =
  fixes emit :: "u8 list \<Rightarrow> 's \<Rightarrow> 's kres"
    and arg :: "char \<Rightarrow> bool \<Rightarrow> u32 list \<Rightarrow> 's \<Rightarrow> (u8 list \<times> u8 list \<times> u32 list) option kres"
    and padded :: "u8 list \<Rightarrow> u32 \<Rightarrow> u8 \<Rightarrow> 's \<Rightarrow> (u32 \<times> 's) kres"
    and handle :: "string \<Rightarrow> nat \<Rightarrow> u32 list \<Rightarrow> 's \<Rightarrow> (u32 \<times> nat \<times> u32 list \<times> 's) kres"
    and loop :: "string \<Rightarrow> nat \<Rightarrow> u32 \<Rightarrow> u32 list \<Rightarrow> 's \<Rightarrow> (u32 \<times> 's) kres option"
    and strs :: "u32 \<rightharpoonup> u8 list"
    and ok :: "nat \<Rightarrow> 's \<Rightarrow> bool"
  assumes emit_append: "emit (as @ bs) s = bindE (emit as s) (emit bs)"
    and emit_nil: "emit [] s = Inr s"
    and emit_ok: "ok n s \<Longrightarrow> length bs \<le> n \<Longrightarrow> 0 \<notin> set bs \<Longrightarrow> \<exists>s'. emit bs s = Inr s' \<and> ok (n - length bs) s'"
    and arg_text: "ok n s \<Longrightarrow> conv_text strs k va = Some (pre, str, va') \<Longrightarrow>
      arg (letter k) (long k) va s = Inr (Some (pre, str, va')) \<and> 0 \<notin> set pre \<and> printable str"
    and padded_emit: "ok n s \<Longrightarrow> printable str \<Longrightarrow> pad \<noteq> 0 \<Longrightarrow> length (pad_text str (unat w) pad) \<le> n \<Longrightarrow>
      padded str w pad s = bindE (emit (pad_text str (unat w) pad) s) (\<lambda>s. Inr (word_of_nat (length (pad_text str (unat w) pad)), s))"
    and handle_percent: "fmt_at f i = Inr (CHR ''%'') \<Longrightarrow> handle f i va s = bindE (emit (bytes_of ''%'') s) (\<lambda>s. Inr (1, i, va, s))"
    and handle_conv: "ok n s \<Longrightarrow> kparse_format f i = Inr (j, w, zero) \<Longrightarrow> fmt_at f j = Inr (if l then CHR ''l'' else c) \<Longrightarrow>
      j' = (if l then Suc j else j) \<Longrightarrow> fmt_at f j' = Inr c \<Longrightarrow> c \<noteq> CHR ''%'' \<Longrightarrow> c \<noteq> CHR ''l'' \<Longrightarrow>
      arg c l va s = Inr (Some (pre, str, va')) \<Longrightarrow> 0 \<notin> set pre \<Longrightarrow>
      handle f i va s = bindE (emit pre s) (\<lambda>s. bindE (padded str (format_width c w) (format_pad c zero) s) (\<lambda>(m, s).
        Inr (word_of_nat (length pre) + m, j', va', s)))"
    and loop_end: "fmt_at f i = Inr (CHR 0x00) \<Longrightarrow> loop f i cnt va s = Some (Inr (cnt, s))"
    and loop_lit: "fmt_at f i = Inr c \<Longrightarrow> c \<noteq> CHR 0x00 \<Longrightarrow> c \<noteq> CHR ''%'' \<Longrightarrow> emit [of_char c] s = Inr s' \<Longrightarrow>
      loop f i cnt va s = loop f (Suc i) (cnt + 1) va s'"
    and loop_conv: "fmt_at f i = Inr (CHR ''%'') \<Longrightarrow> fmt_at f (Suc i) = Inr c \<Longrightarrow> c \<noteq> CHR 0x00 \<Longrightarrow>
      handle f (Suc i) va s = Inr (m, j, va', s') \<Longrightarrow> loop f i cnt va s = loop f (Suc j) (cnt + m) va' s'"
begin

text \<open>One conversion puts out its text and moves past its letter.\<close>

lemma handle_text:
  assumes wf: "wf_dir (Conv zero w k)" and ct: "conv_text strs k va = Some (pr, str, va')"
    and t: "t = pr @ pad_text str (unat (format_width (letter k) (width_of w))) (format_pad (letter k) zero)"
    and ok: "ok n s" "length t \<le> n"
    and fm: "f = pre @ fmt_of (Conv zero w k) @ rest"
  shows "\<exists>s'. handle f (Suc (length pre)) va s = Inr (word_of_nat (length t), length (pre @ fmt_of (Conv zero w k)) - 1, va', s') \<and>
    emit t s = Inr s' \<and> ok (n - length t) s'"
proof -
  let ?c = "letter k" and ?j = "Suc (length pre) + (if zero then 1 else 0) + length w"
  let ?j' = "if long k then Suc ?j else ?j"
  let ?p = "pad_text str (unat (format_width ?c (width_of w))) (format_pad ?c zero)"
  have head: "f = (pre @ ''%'' @ (if zero then ''0'' else []) @ w) @ (if long k then ''l'' else []) @ ?c # rest"
    by (simp add: fm)
  have at: "fmt_at f ?j = Inr (if long k then CHR ''l'' else ?c)"
    unfolding head using fmt_at_append [of "pre @ ''%'' @ (if zero then ''0'' else []) @ w"] by (auto simp: add.commute)
  have at': "fmt_at f ?j' = Inr ?c"
    unfolding head using fmt_at_append [of "pre @ ''%'' @ (if zero then ''0'' else []) @ w @ (if long k then ''l'' else [])" ?c rest]
    by (auto simp: add.commute)
  have a: "arg ?c (long k) va s = Inr (Some (pr, str, va'))" "0 \<notin> set pr" "printable str"
    using arg_text [OF ok(1) ct] by auto
  have pc: "kparse_format f (Suc (length pre)) = Inr (?j, width_of w, zero)" by (rule parse_conv [OF wf refl fm])
  note h = handle_conv [OF ok(1) pc at refl at' letter_facts(1,2) a(1,2)]
  have lt: "length pr + length ?p \<le> n" using ok(2) t by simp
  obtain s1 where s1: "emit pr s = Inr s1" "ok (n - length pr) s1" using emit_ok [OF ok(1) _ a(2)] lt by auto
  have pz: "format_pad ?c zero \<noteq> 0" by (simp add: format_pad_def)
  have "0 \<notin> set ?p" using a(3) pz by (auto simp: pad_text_def printable_def Let_def dest: list.set_sel(2) [rotated])
  then obtain s2 where s2: "emit ?p s1 = Inr s2" "ok (n - length pr - length ?p) s2"
    using emit_ok [OF s1(2), of ?p] lt by (auto simp: le_diff_conv2)
  have "padded str (format_width ?c (width_of w)) (format_pad ?c zero) s1 = Inr (word_of_nat (length ?p), s2)"
    using padded_emit [OF s1(2) a(3) pz, of "format_width ?c (width_of w)"] lt s2(1) by simp
  then have "handle f (Suc (length pre)) va s = Inr (word_of_nat (length t), ?j', va', s2)"
    unfolding h using s1(1) t by simp
  moreover have "?j' = length (pre @ fmt_of (Conv zero w k)) - 1" by simp
  ultimately show ?thesis using s1 s2 t emit_append [of pr ?p s] by auto
qed

theorem loop_text:
  assumes "list_all wf_dir ds" "render strs ds va = Some t" "ok n s" "length t \<le> n"
  shows "\<exists>s'. loop (pre @ concat (map fmt_of ds)) (length pre) m va s = Some (Inr (m + word_of_nat (length t), s')) \<and>
    emit t s = Inr s' \<and> ok (n - length t) s'"
  using assms
proof (induction ds arbitrary: va t n s pre m)
  case Nil
  then show ?case using loop_end [of pre "length pre" m va s] emit_nil by (simp add: fmt_at_def)
next
  case (Cons d ds)
  show ?case
  proof (cases d)
    case (Lit c)
    obtain t' where t: "t = of_char c # t'" "render strs ds va = Some t'" using Cons.prems(2) Lit by auto
    have c: "c \<noteq> CHR ''%''" "c \<noteq> CHR 0x00" using Cons.prems(1) Lit by auto
    then have c0: "of_char c \<noteq> (0 :: u8)" using byte_of_char by blast
    obtain s1 where s1: "emit [of_char c] s = Inr s1" "ok (n - 1) s1"
      using emit_ok [OF Cons.prems(3), of "[of_char c]"] c0 Cons.prems(4) t(1) by auto
    have "loop (pre @ concat (map fmt_of (d # ds))) (length pre) m va s =
        loop ((pre @ [c]) @ concat (map fmt_of ds)) (length (pre @ [c])) (m + 1) va s1"
      using loop_lit [of "pre @ c # concat (map fmt_of ds)" "length pre" c s s1 m va] c s1(1) Lit by (simp add: fmt_at_append)
    then show ?thesis
      using Cons.IH [OF _ t(2) s1(2), of "pre @ [c]" "m + 1"] Cons.prems(1,4) t s1(1) emit_append [of "[of_char c]" t' s]
      by (auto simp: add.assoc)
  next
    case Percent
    obtain t' where t: "t = of_char CHR ''%'' # t'" "render strs ds va = Some t'" using Cons.prems(2) Percent by auto
    let ?f = "pre @ CHR ''%'' # CHR ''%'' # concat (map fmt_of ds)"
    have at: "fmt_at ?f (length pre) = Inr (CHR ''%'')" "fmt_at ?f (Suc (length pre)) = Inr (CHR ''%'')"
      using fmt_at_append [of pre "CHR ''%''"] fmt_at_append [of "pre @ ''%''" "CHR ''%''"] by simp_all
    obtain s1 where s1: "emit (bytes_of ''%'') s = Inr s1" "ok (n - 1) s1"
      using emit_ok [OF Cons.prems(3), of "bytes_of ''%''"] Cons.prems(4) t(1) by (auto simp: bytes_of_def)
    have "loop (pre @ concat (map fmt_of (d # ds))) (length pre) m va s =
        loop ((pre @ ''%%'') @ concat (map fmt_of ds)) (length (pre @ ''%%'')) (m + 1) va s1"
      using loop_conv [OF at, of va s 1 "Suc (length pre)" va s1 m] handle_percent [OF at(2), of va s] s1(1) Percent by simp
    then show ?thesis
      using Cons.IH [OF _ t(2) s1(2), of "pre @ ''%%''" "m + 1"] Cons.prems(1,4) t s1(1) emit_append [of "bytes_of ''%''" t' s]
      by (auto simp: add.assoc bytes_of_def)
  next
    case (Conv zero w k)
    obtain pr str va' where ct: "conv_text strs k va = Some (pr, str, va')"
      using Cons.prems(2) Conv by (auto split: option.splits)
    let ?p = "pr @ pad_text str (unat (format_width (letter k) (width_of w))) (format_pad (letter k) zero)"
    obtain t' where t: "t = ?p @ t'" "render strs ds va' = Some t'" using Cons.prems(2) Conv ct by auto
    have wf: "wf_dir (Conv zero w k)" "list_all wf_dir ds" using Cons.prems(1) Conv by auto
    let ?f = "pre @ fmt_of (Conv zero w k) @ concat (map fmt_of ds)" and ?q = "pre @ fmt_of (Conv zero w k)"
    obtain s1 where s1: "handle ?f (Suc (length pre)) va s = Inr (word_of_nat (length ?p), length ?q - 1, va', s1)"
        "emit ?p s = Inr s1" "ok (n - length ?p) s1"
      using handle_text [OF wf(1) ct refl Cons.prems(3) _ refl] Cons.prems(4) t(1) by auto
    obtain c cs where c: "fmt_of (Conv zero w k) = CHR ''%'' # c # cs" "c \<noteq> CHR 0x00"
      using wf(1) by (rule fmt_second)
    have at: "fmt_at ?f (length pre) = Inr (CHR ''%'')" "fmt_at ?f (Suc (length pre)) = Inr c"
      using fmt_at_append [of pre "CHR ''%''"] fmt_at_append [of "pre @ ''%''" c] c(1) by simp_all
    have "Suc (length ?q - 1) = length ?q" using c(1) by simp
    then have "loop (pre @ concat (map fmt_of (d # ds))) (length pre) m va s =
        loop (?q @ concat (map fmt_of ds)) (length ?q) (m + word_of_nat (length ?p)) va' s1"
      using loop_conv [OF at c(2) s1(1), of m] Conv by simp
    then show ?thesis
      using Cons.IH [OF wf(2) t(2) s1(3), of ?q "m + word_of_nat (length ?p)"] Cons.prems(4) t(1) s1(2) emit_append [of ?p t' s]
      by (auto simp: add.assoc)
  qed
qed

end

section \<open>Padding\<close>

lemma pad_length: "length (pad_text str n pad) = (n - length str) + length str"
  by (cases str) (auto simp: pad_text_def Let_def)

text \<open>The words the code computes with: the number of padding characters and the count it returns.\<close>

lemma pad_words:
  fixes w :: u32
  assumes "printable str"
  defines "len \<equiv> word_of_nat (length str) :: u32"
  defines "padding \<equiv> (if w > len then w - len else 0)"
  shows "unat padding = unat w - length str" "padding + len = word_of_nat (length (pad_text str (unat w) pad))"
    "padding > 0 \<longleftrightarrow> 0 < unat w - length str"
proof -
  have l: "unat len = length str" using assms(1) by (simp add: len_def printable_def unat_of_nat)
  show p: "unat padding = unat w - length str"
    using l by (auto simp: padding_def word_less_nat_alt unat_sub word_le_nat_alt)
  show "padding > 0 \<longleftrightarrow> 0 < unat w - length str" using p by (simp add: word_less_nat_alt)
  have "padding = word_of_nat (unat padding)" by simp
  then show "padding + len = word_of_nat (length (pad_text str (unat w) pad))" unfolding pad_length p by (simp add: len_def)
qed

lemma takeWhile_text: "0 \<notin> set bs \<Longrightarrow> takeWhile (\<lambda>b. b \<noteq> 0) bs = bs"
  by (auto simp: takeWhile_eq_all_conv)

lemma puts_c_text: "0 \<notin> set bs \<Longrightarrow> puts_c bs color s = puts_loop bs color s"
  by (simp add: puts_c_def ktty_puts_def takeWhile_text)

lemma pad_loop_replicate: "pad \<noteq> 0 \<Longrightarrow> pad_loop n pad color s = puts_loop (replicate n pad) color s"
  by (induction n arbitrary: s) (simp_all add: puts_c_text bindE_assoc)

lemma kprint_padded_text:
  assumes "printable str" "pad \<noteq> 0"
  shows "kprint_padded str w pad color s =
    bindE (puts_loop (pad_text str (unat w) pad) color s) (\<lambda>s. Inr (word_of_nat (length (pad_text str (unat w) pad)), s))"
proof -
  note pw = pad_words [OF assms(1), of w]
  have z: "0 \<notin> set str" "0 \<notin> set (tl str)" using assms(1) list.set_sel(2) [of str] by (cases str; auto simp: printable_def)+
  let ?len = "word_of_nat (length str) :: u32"
  let ?pd = "if w > ?len then w - ?len else 0"
  show ?thesis
  proof (cases "str \<noteq> [] \<and> hd str = of_char CHR ''-'' \<and> pad = of_char CHR ''0'' \<and> ?pd > 0")
    case True
    have n: "0 < unat w - length str" using True pw(3) by blast
    have t: "pad_text str (unat w) pad = bytes_of ''-'' @ replicate (unat w - length str) pad @ tl str"
      using True n by (simp add: pad_text_def bytes_of_def)
    have c: "1 + ?pd + (?len - 1) = word_of_nat (length (pad_text str (unat w) pad))" using pw(2) by simp
    have m: "0 \<notin> set (bytes_of ''-'')" by (simp add: bytes_of_def)
    show ?thesis
      unfolding kprint_padded_def Let_def if_P [OF True] c pw(1) puts_c_text [OF m] puts_c_text [OF z(2)] pad_loop_replicate [OF assms(2)]
      unfolding t puts_loop_append bindE_assoc by simp
  next
    case False
    have t: "pad_text str (unat w) pad = replicate (unat w - length str) pad @ str"
      using False pw(3) by (auto simp: pad_text_def Let_def)
    have c: "0 + ?pd + ?len = word_of_nat (length (pad_text str (unat w) pad))" using pw(2) by simp
    show ?thesis
      unfolding kprint_padded_def Let_def if_not_P [OF False] c pw(1) puts_c_text [OF z(1)] pad_loop_replicate [OF assms(2)]
      unfolding t puts_loop_append bindE_simps bindE_assoc by simp
  qed
qed

section \<open>Strings in memory\<close>

lemma rd_bytes_cstr:
  assumes "cstr s p bs" "i \<le> length bs"
  shows "rd_bytes (length bs - i) (p + word_of_nat i) s = Inr (drop i bs)"
  using assms(2)
proof (induction "length bs - i" arbitrary: i)
  case (Suc n)
  then have i: "i < length bs" and n: "length bs - i = Suc (length bs - Suc i)" by auto
  have "rd_bytes (length bs - Suc i) (p + word_of_nat (Suc i)) s = Inr (drop (Suc i) bs)" using Suc.hyps i by (intro Suc.hyps(1)) auto
  then show ?case unfolding n using cstr_rd8 [OF assms(1), of i] i by (simp add: ac_simps Cons_nth_drop_Suc)
qed simp

lemma cstr_str_arg:
  assumes "cstr s p bs" "p \<noteq> 0"
  shows "str_arg p s = Inr bs" "printable bs"
proof -
  have len: "length bs < 2 ^ 32" using assms(1) by (auto simp: cstr_def plain_def)
  then show "printable bs" using assms(1) by (simp add: printable_def cstr_def)
  have "kstrlen p s = Inr (word_of_nat (length bs))" using strlen_loop_cstr [OF assms(1), of 0] assms(2) by (simp add: kstrlen_def)
  then show "str_arg p s = Inr bs"
    using rd_bytes_cstr [OF assms(1), of 0] assms(2) len by (simp add: str_arg_def unat_of_nat)
qed

text \<open>The string arguments: where they are, and that a range of addresses does not touch them.\<close>

definition strings_in :: "(u32 \<rightharpoonup> u8 list) \<Rightarrow> 'z heap_state_scheme \<Rightarrow> bool" where
  "strings_in strs s \<longleftrightarrow> (\<forall>p bs. strs p = Some bs \<longrightarrow> p \<noteq> 0 \<and> cstr s p bs)"

definition strings_beside :: "(u32 \<rightharpoonup> u8 list) \<Rightarrow> nat \<Rightarrow> nat \<Rightarrow> bool" where
  "strings_beside strs lo hi \<longleftrightarrow> (\<forall>p bs. strs p = Some bs \<longrightarrow> unat p + length bs < lo \<or> hi \<le> unat p)"

lemma strings_arg:
  assumes "strings_in strs s" "conv_text strs k va = Some (pre, str, va')"
  shows "format_arg (letter k) (long k) va s = Inr (Some (pre, str, va')) \<and> 0 \<notin> set pre \<and> printable str"
proof -
  have "p \<noteq> 0 \<and> printable bs \<and> str_arg p s = Inr bs" if "strs p = Some bs" for p bs
    using that assms(1) cstr_str_arg [of s p bs] by (simp add: strings_in_def)
  then show ?thesis using conv_text_arg [OF assms(2), of s] by simp
qed

lemma cstr_mem_cong:
  assumes "cstr s p bs" "plain s' p (Suc (length bs))" "\<And>a. unat p \<le> unat a \<Longrightarrow> unat a \<le> unat p + length bs \<Longrightarrow> mem s' a = mem s a"
  shows "cstr s' p bs"
proof -
  have pl: "unat p + Suc (length bs) \<le> 2 ^ 32" using assms(1) by (simp add: cstr_def plain_def)
  then have "mem s' (p + word_of_nat i) = mem s (p + word_of_nat i)" if "i \<le> length bs" for i
    using that unat_offset [of p i] by (intro assms(3)) auto
  then show ?thesis using assms(1,2) by (simp add: cstr_def)
qed

lemma strings_kept:
  assumes "strings_in strs s" "strings_beside strs lo hi" "\<And>a n. plain s' a n = plain s a n"
    "\<And>a. unat a < lo \<or> hi \<le> unat a \<Longrightarrow> mem s' a = mem s a"
  shows "strings_in strs s'"
  unfolding strings_in_def
proof (intro allI impI)
  fix p bs
  assume p: "strs p = Some bs"
  then have c: "p \<noteq> 0" "cstr s p bs" using assms(1) by (simp_all add: strings_in_def)
  moreover have "cstr s' p bs"
  proof (rule cstr_mem_cong [OF c(2)])
    show "plain s' p (Suc (length bs))" using c(2) by (simp add: assms(3) cstr_def)
    fix a :: u32
    assume "unat p \<le> unat a" "unat a \<le> unat p + length bs"
    moreover have "unat p + length bs < lo \<or> hi \<le> unat p" using p assms(2) by (simp add: strings_beside_def)
    ultimately show "mem s' a = mem s a" by (intro assms(4)) linarith
  qed
  ultimately show "p \<noteq> 0 \<and> cstr s' p bs" by simp
qed

section \<open>The terminal\<close>

definition tty_ok :: "(u32 \<rightharpoonup> u8 list) \<Rightarrow> nat \<Rightarrow> 'z tty_state_scheme \<Rightarrow> bool" where
  "tty_ok strs n s \<longleftrightarrow> tty_inv s \<and> hw_sync s \<and> strings_in strs s \<and>
    strings_beside strs (unat VGA_MMIO_ADDR) (unat VGA_MMIO_ADDR + 4000)"

lemma tty_ok_emit:
  assumes "tty_ok strs n s"
  shows "\<exists>s'. puts_loop bs color s = Inr s' \<and> tty_ok strs m s'"
proof -
  obtain s' where s': "puts_loop bs color s = Inr s'" "tty_inv s'" "tty_frame s s'" "hw_sync s'"
    using puts_loop_grid [of s bs color] assms by (auto simp: tty_ok_def)
  have "strings_in strs s'"
    by (rule strings_kept [of strs s "unat VGA_MMIO_ADDR" "unat VGA_MMIO_ADDR + 4000"])
      (use assms s'(3) plain_frame [OF s'(3)] in \<open>auto simp: tty_ok_def tty_frame_def\<close>)
  then show ?thesis using s' assms by (auto simp: tty_ok_def)
qed

interpretation tty_text: text_sink "\<lambda>bs. puts_loop bs color" format_arg "\<lambda>str w pad. kprint_padded str w pad color"
    "\<lambda>f i va. khandle_format f i va color" "\<lambda>f i n va. kprintf_loop f i n va color" strs "tty_ok strs" for color strs
proof unfold_locales
  fix f :: string and i j j' n m :: nat and c :: char and va va' :: "u32 list" and s s' :: "'z tty_state_scheme" and w cnt cnt' :: u32
    and as bs pre str :: "u8 list" and zero l :: bool and k :: conv and pad :: u8
  show "puts_loop (as @ bs) color s = bindE (puts_loop as color s) (puts_loop bs color)" by (rule puts_loop_append)
  show "puts_loop [] color s = Inr s" by simp
  show "\<exists>s'. puts_loop bs color s = Inr s' \<and> tty_ok strs (n - length bs) s'" if "tty_ok strs n s"
    using tty_ok_emit [OF that] .
  show "format_arg (letter k) (long k) va s = Inr (Some (pre, str, va')) \<and> 0 \<notin> set pre \<and> printable str"
    if "tty_ok strs n s" "conv_text strs k va = Some (pre, str, va')"
    by (rule strings_arg) (use that in \<open>simp_all add: tty_ok_def\<close>)
  show "kprint_padded str w pad color s = bindE (puts_loop (pad_text str (unat w) pad) color s)
      (\<lambda>s. Inr (word_of_nat (length (pad_text str (unat w) pad)), s))" if "printable str" "pad \<noteq> 0"
    using kprint_padded_text [OF that] .
  show "khandle_format f i va color s = bindE (puts_loop (bytes_of ''%'') color s) (\<lambda>s. Inr (1, i, va, s))"
    if "fmt_at f i = Inr (CHR ''%'')"
    using that parse_percent [OF that] by (simp add: khandle_format_def puts_c_text bytes_of_def)
  show "khandle_format f i va color s = bindE (puts_loop pre color s) (\<lambda>s. bindE
      (kprint_padded str (format_width c w) (format_pad c zero) color s) (\<lambda>(m, s). Inr (word_of_nat (length pre) + m, j', va', s)))"
    if "kparse_format f i = Inr (j, w, zero)" "fmt_at f j = Inr (if l then CHR ''l'' else c)" "j' = (if l then Suc j else j)"
      "fmt_at f j' = Inr c" "c \<noteq> CHR ''%''" "c \<noteq> CHR ''l''" "format_arg c l va s = Inr (Some (pre, str, va'))" "0 \<notin> set pre"
    using that by (cases l) (simp_all add: khandle_format_def puts_c_text)
  show "kprintf_loop f i cnt va color s = Some (Inr (cnt, s))" if "fmt_at f i = Inr (CHR 0x00)"
    using that by (subst kprintf_loop.simps) simp
  show "kprintf_loop f i cnt va color s = kprintf_loop f (Suc i) (cnt + 1) va color s'"
    if "fmt_at f i = Inr c" "c \<noteq> CHR 0x00" "c \<noteq> CHR ''%''" "puts_loop [of_char c] color s = Inr s'"
  proof -
    have "puts_c [of_char c] color s = Inr s'" using that byte_of_char [of c] puts_c_text [of "[of_char c]" color s] by auto
    then show ?thesis using that by (subst kprintf_loop.simps) simp
  qed
  show "kprintf_loop f i cnt va color s = kprintf_loop f (Suc j) (cnt + cnt') va' color s'"
    if "fmt_at f i = Inr (CHR ''%'')" "fmt_at f (Suc i) = Inr c" "c \<noteq> CHR 0x00" "khandle_format f (Suc i) va color s = Inr (cnt', j, va', s')"
    using that by (subst kprintf_loop.simps) simp
qed

section \<open>The buffer\<close>

definition written :: "(u32 \<Rightarrow> u8) \<Rightarrow> u32 \<Rightarrow> u8 list \<Rightarrow> u32 \<Rightarrow> u8" where
  "written f a bs x = (if unat a \<le> unat x \<and> unat x < unat a + length bs then bs ! (unat x - unat a) else f x)"

lemma put_bytes_append: "put_bytes (as @ bs) os = bindE (put_bytes as os) (put_bytes bs)"
  by (induction as arbitrary: os) (auto simp: bindE_assoc split: prod.splits)

lemma plain_next:
  assumes "plain s a (Suc n)" "0 < n"
  shows "unat (a + 1) = unat a + 1" "plain s (a + 1) n"
proof -
  show u: "unat (a + 1) = unat a + 1" using unat_offset [of a 1] assms by (simp add: plain_def)
  then show "plain s (a + 1) n" using assms by (auto simp: plain_def)
qed

lemma put_bytes_plain:
  assumes "plain s a n" "length bs < n"
  shows "put_bytes bs (a, s) = Inr (a + word_of_nat (length bs), s\<lparr>mem := written (mem s) a bs\<rparr>)"
  using assms
proof (induction bs arbitrary: a s n)
  case Nil
  have "written (mem s) a [] = mem s" by (rule ext) (auto simp: written_def)
  then show ?case by simp
next
  case (Cons b bs)
  obtain m where n: "n = Suc m" "0 < m" "length bs < m" using Cons.prems(2) by (cases n) auto
  define g where "g = (mem s)(a := b)"
  have w: "wr8 a b s = Inr (s\<lparr>mem := g\<rparr>)" using plain_access(2) [OF Cons.prems(1), of 0 b "mem s"] n by (simp add: g_def)
  have pl: "plain (s\<lparr>mem := g\<rparr>) (a + 1) m" "unat (a + 1) = unat a + 1" using plain_next [of s a m] Cons.prems(1) n by (simp_all add: mem_simps)
  have "written g (a + 1) bs x = written (mem s) a (b # bs) x" for x
    using pl(2) by (cases "x = a") (auto simp: g_def written_def nth_Cons' word_unat_eq_iff)
  then have "written g (a + 1) bs = written (mem s) a (b # bs)" by blast
  then show ?case using w Cons.IH [OF pl(1) n(3)] by (simp add: add.assoc)
qed

definition buf_ok :: "(u32 \<rightharpoonup> u8 list) \<Rightarrow> nat \<Rightarrow> u32 \<times> 'z heap_state_scheme \<Rightarrow> bool" where
  "buf_ok strs n os \<longleftrightarrow> (case os of (out, s) \<Rightarrow> out \<noteq> 0 \<and> plain s out (Suc n) \<and> strings_in strs s \<and>
    strings_beside strs (unat out) (unat out + Suc n))"

lemma buf_ok_emit:
  assumes ok: "buf_ok strs n os" and len: "length bs \<le> n"
  shows "\<exists>os'. put_bytes bs os = Inr os' \<and> buf_ok strs (n - length bs) os'"
proof -
  obtain out s where os: "os = (out, s)" by (cases os)
  have o: "out \<noteq> 0" "plain s out (Suc n)" "strings_in strs s" "strings_beside strs (unat out) (unat out + Suc n)"
    using ok by (simp_all add: buf_ok_def os)
  let ?s = "s\<lparr>mem := written (mem s) out bs\<rparr>" and ?o = "out + word_of_nat (length bs)"
  have run: "put_bytes bs os = Inr (?o, ?s)" unfolding os using put_bytes_plain [OF o(2)] len by simp
  have u: "unat ?o = unat out + length bs" using unat_offset [of out "length bs"] o(2) len by (simp add: plain_def)
  have "?o \<noteq> 0" using u o(1) by (metis add_is_0 unat_eq_zero unat_0)
  moreover have "plain ?s ?o (Suc (n - length bs))" using o(2) u len by (auto simp: plain_def mem_simps)
  moreover have "strings_in strs ?s"
    by (rule strings_kept [OF o(3,4)]) (use len in \<open>auto simp: mem_simps written_def\<close>)
  moreover have "strings_beside strs (unat ?o) (unat ?o + Suc (n - length bs))"
    using o(4) u len by (force simp: strings_beside_def)
  ultimately show ?thesis using run by (auto simp: buf_ok_def)
qed

lemma kbuf_write_eq: "buf_ok strs n os \<Longrightarrow> kbuf_write bs os = put_bytes bs os"
  by (auto simp: buf_ok_def kbuf_write_def)

lemma kprint_padded_buf_text:
  assumes ok: "buf_ok strs n os" and pr: "printable str" and len: "length (pad_text str (unat w) pad) \<le> n"
  shows "kprint_padded_buf str w pad os =
    bindE (put_bytes (pad_text str (unat w) pad) os) (\<lambda>os. Inr (word_of_nat (length (pad_text str (unat w) pad)), os))"
proof -
  note pw = pad_words [OF pr, of w]
  let ?len = "word_of_nat (length str) :: u32"
  let ?pd = "if w > ?len then w - ?len else 0"
  define mi where "mi \<longleftrightarrow> str \<noteq> [] \<and> hd str = of_char CHR ''-'' \<and> pad = of_char CHR ''0'' \<and> ?pd > 0"
  define as where "as = (if mi then bytes_of ''-'' else []) @ replicate (unat w - length str) pad"
  define bs where "bs = (if mi then tl str else str)"
  have t: "pad_text str (unat w) pad = as @ bs"
    using pw(3) by (auto simp: pad_text_def Let_def as_def bs_def mi_def bytes_of_def)
  have c: "(if mi then 1 else 0) + ?pd + (if mi then ?len - 1 else ?len) = word_of_nat (length (as @ bs))"
    using pw(2) [of pad] t by auto
  have "length as \<le> n" using len t by simp
  then obtain os' where os': "put_bytes as os = Inr os'" "buf_ok strs (n - length as) os'" using buf_ok_emit [OF ok] by blast
  have "kprint_padded_buf str w pad os = bindE (put_bytes as os) (\<lambda>os. bindE (kbuf_write bs os) (\<lambda>os.
      Inr ((if mi then 1 else 0) + ?pd + (if mi then ?len - 1 else ?len), os)))"
    unfolding kprint_padded_buf_def Let_def mi_def [symmetric] pw(1) as_def bs_def
    by (simp add: put_bytes_append bindE_assoc)
  then show ?thesis unfolding t c put_bytes_append using os' kbuf_write_eq [OF os'(2)] by simp
qed

interpretation buf_text: text_sink put_bytes "\<lambda>c l va os. format_arg c l va (snd os)" kprint_padded_buf
    khandle_format_buf ksprintf_loop strs "buf_ok strs" for strs
proof unfold_locales
  fix f :: string and i j j' n :: nat and c :: char and va va' :: "u32 list" and s s' :: "u32 \<times> 'z heap_state_scheme"
    and w cnt cnt' :: u32 and as bs pre str :: "u8 list" and zero l :: bool and k :: conv and pad :: u8
  show "put_bytes (as @ bs) s = bindE (put_bytes as s) (put_bytes bs)" by (rule put_bytes_append)
  show "put_bytes [] s = Inr s" by simp
  show "\<exists>s'. put_bytes bs s = Inr s' \<and> buf_ok strs (n - length bs) s'" if "buf_ok strs n s" "length bs \<le> n"
    by (rule buf_ok_emit [OF that])
  show "format_arg (letter k) (long k) va (snd s) = Inr (Some (pre, str, va')) \<and> 0 \<notin> set pre \<and> printable str"
    if "buf_ok strs n s" "conv_text strs k va = Some (pre, str, va')"
    by (rule strings_arg) (use that in \<open>auto simp: buf_ok_def split: prod.splits\<close>)
  show "kprint_padded_buf str w pad s = bindE (put_bytes (pad_text str (unat w) pad) s)
      (\<lambda>s. Inr (word_of_nat (length (pad_text str (unat w) pad)), s))"
    if "buf_ok strs n s" "printable str" "length (pad_text str (unat w) pad) \<le> n"
    using kprint_padded_buf_text [OF that] .
  show "khandle_format_buf f i va s = bindE (put_bytes (bytes_of ''%'') s) (\<lambda>s. Inr (1, i, va, s))"
    if "fmt_at f i = Inr (CHR ''%'')"
    using that parse_percent [OF that] by (simp add: khandle_format_buf_def)
  show "khandle_format_buf f i va s = bindE (put_bytes pre s) (\<lambda>s. bindE
      (kprint_padded_buf str (format_width c w) (format_pad c zero) s) (\<lambda>(m, s). Inr (word_of_nat (length pre) + m, j', va', s)))"
    if "buf_ok strs n s" "kparse_format f i = Inr (j, w, zero)" "fmt_at f j = Inr (if l then CHR ''l'' else c)"
      "j' = (if l then Suc j else j)" "fmt_at f j' = Inr c" "c \<noteq> CHR ''%''" "c \<noteq> CHR ''l''"
      "format_arg c l va (snd s) = Inr (Some (pre, str, va'))"
    using that kbuf_write_eq [OF that(1)] by (cases l) (simp_all add: khandle_format_buf_def)
  show "ksprintf_loop f i cnt va s = Some (Inr (cnt, s))" if "fmt_at f i = Inr (CHR 0x00)"
    using that by (subst ksprintf_loop.simps) simp
  show "ksprintf_loop f i cnt va s = ksprintf_loop f (Suc i) (cnt + 1) va s'"
    if "fmt_at f i = Inr c" "c \<noteq> CHR 0x00" "c \<noteq> CHR ''%''" "put_bytes [of_char c] s = Inr s'"
    using that by (subst ksprintf_loop.simps) simp
  show "ksprintf_loop f i cnt va s = ksprintf_loop f (Suc j) (cnt + cnt') va' s'"
    if "fmt_at f i = Inr (CHR ''%'')" "fmt_at f (Suc i) = Inr c" "c \<noteq> CHR 0x00" "khandle_format_buf f (Suc i) va s = Inr (cnt', j, va', s')"
    using that by (subst ksprintf_loop.simps) simp
qed

section \<open>Properties\<close>

lemma kprintf_text:
  assumes "list_all wf_dir ds" "render strs ds va = Some t" "tty_ok strs n s"
  shows "\<exists>s'. kprintf color (Some (concat (map fmt_of ds))) va s = Inr (word_of_nat (length t), s') \<and> puts_loop t color s = Inr s'"
proof -
  have "tty_ok strs (length t) s" using assms(3) by (simp add: tty_ok_def)
  then show ?thesis using tty_text.loop_text [OF assms(1,2), of "length t" s "[]" 0 color] by (auto simp: kprintf_def)
qed

lemma ksprintf_text:
  assumes "list_all wf_dir ds" "render strs ds va = Some t" and ok: "buf_ok strs (length t) (buf, s)"
  shows "ksprintf buf (Some (concat (map fmt_of ds))) va s =
    Inr (word_of_nat (length t), s\<lparr>mem := written (mem s) buf (t @ [0])\<rparr>)"
proof -
  obtain os where os: "ksprintf_loop (concat (map fmt_of ds)) 0 0 va (buf, s) = Some (Inr (word_of_nat (length t), os))"
      "put_bytes t (buf, s) = Inr os" "buf_ok strs 0 os"
    using buf_text.loop_text [OF assms(1,2) ok, of "[]" 0] by auto
  have b: "buf \<noteq> 0" "plain s buf (Suc (length t))" using ok by (simp_all add: buf_ok_def)
  obtain out u where o: "os = (out, u)" by (cases os)
  have eq: "out = buf + word_of_nat (length t)" "u = s\<lparr>mem := written (mem s) buf t\<rparr>"
    using put_bytes_plain [OF b(2)] os(2) o by simp_all
  have lt: "unat out = unat buf + length t" using unat_offset [of buf "length t"] b(2) eq(1) by (simp add: plain_def)
  have w: "wr8 out 0 u = Inr (s\<lparr>mem := (written (mem s) buf t)(out := 0)\<rparr>)"
    using plain_access(2) [OF b(2), of "length t" 0 "written (mem s) buf t"] eq by simp
  have "(written (mem s) buf t)(out := 0) = written (mem s) buf (t @ [0])"
    using lt by (auto simp: fun_eq_iff written_def nth_append word_unat_eq_iff)
  then show ?thesis using os(1) o b(1) w by (simp add: ksprintf_def)
qed

text \<open>
  The comment of \<^verbatim>\<open>kprintf\<close> gives \<^verbatim>\<open>ff\<close> for \<^verbatim>\<open>%x\<close> of 255 and \<^verbatim>\<open>FF\<close> for \<^verbatim>\<open>%X\<close>. The code of both functions puts a prefix in front,
  which the width does not count.
\<close>

lemma hex_has_prefix:
  "render Map.empty [Conv False [] Hex] [255] = Some (bytes_of ''0xff'')"
  "render Map.empty [Conv False [] HexUp] [255] = Some (bytes_of ''0XFF'')"
  "render Map.empty [Conv True ''4'' Hex] [255] = Some (bytes_of ''0x00ff'')"
  by code_simp+

text \<open>
  C34. \<^verbatim>\<open>kprintf\<close> and \<^verbatim>\<open>ksprintf\<close> agree on one rendering of the format (\<open>render\<close>): for a format made of characters, \<^verbatim>\<open>%%\<close> and
  conversions with flags and widths, and arguments for them, \<^verbatim>\<open>kprintf\<close> prints exactly the rendered text on the terminal,
  \<^verbatim>\<open>ksprintf\<close> stores exactly that text and a terminator in the buffer and changes nothing else, and both return its length. The
  rendering is that of the code, not that of the comment of \<^verbatim>\<open>kprintf\<close>: hexadecimal numbers have a prefix (\<open>hex_has_prefix\<close>).
\<close>

theorem kprintf_ksprintf_agree:
  assumes "list_all wf_dir ds" "render strs ds va = Some t" "tty_ok strs n s" "buf_ok strs (length t) (buf, s)"
  shows "\<exists>s'. kprintf color (Some (concat (map fmt_of ds))) va s = Inr (word_of_nat (length t), s') \<and>
    ktty_puts (Some t) color s = Inr s' \<and>
    ksprintf buf (Some (concat (map fmt_of ds))) va s =
      Inr (word_of_nat (length t), s\<lparr>mem := written (mem s) buf (t @ [0])\<rparr>)"
  using kprintf_text [OF assms(1-3)] ksprintf_text [OF assms(1,2,4)] by (simp add: ktty_puts_def)

theorem kprintf_ksprintf_agree_witness:
  "\<exists>s'. kprintf 7 (Some ''pid %03d: %s%%'') [7, 0] (tty_reset (\<lambda>_. 0)) = Inr (16, s') \<and>
     ktty_puts (Some (bytes_of ''pid 007: (null)%'')) 7 (tty_reset (\<lambda>_. 0)) = Inr s' \<and>
     ksprintf 0x1000 (Some ''pid %03d: %s%%'') [7, 0] (tty_reset (\<lambda>_. 0)) =
       Inr (16, (tty_reset (\<lambda>_. 0))\<lparr>mem := written (mem (tty_reset (\<lambda>_. 0))) 0x1000 (bytes_of ''pid 007: (null)%'' @ [0])\<rparr>)"
proof -
  let ?ds = "map Lit ''pid '' @ Conv True ''3'' Dec # map Lit '': '' @ [Conv False [] Str, Percent]"
  let ?s = "tty_reset (\<lambda>_. 0)" and ?t = "bytes_of ''pid 007: (null)%''"
  have f: "concat (map fmt_of ?ds) = ''pid %03d: %s%%''" "list_all wf_dir ?ds" by (simp_all add: long_def kisdigit_def)
  have r: "render Map.empty ?ds [7, 0] = Some ?t" by code_simp
  have l: "length ?t = 16" by (simp add: bytes_of_def)
  have none: "strings_in Map.empty ?s" "strings_beside Map.empty lo hi" for lo hi by (simp_all add: strings_in_def strings_beside_def)
  have "plain ?s 0x1000 17" by (simp add: plain_def header_at_None_iff mmu_translate_def)
      (simp_all add: tty_reset_def flat_memory_def heap_state.defs)
  then have "buf_ok Map.empty (length ?t) (0x1000, ?s)" using none l by (simp add: buf_ok_def)
  moreover have "tty_ok Map.empty 16 ?s" using tty_reset_ok none by (simp add: tty_ok_def)
  ultimately show ?thesis using kprintf_ksprintf_agree [OF f(2) r, of 16 ?s "0x1000" 7] unfolding f(1) l by simp
qed

text \<open>
  A width at the end of the format is not noticed: the parser steps over the terminator, and the loop reads past it.
\<close>

lemma kprintf_overruns:
  assumes "tty_inv s" "hw_sync s"
  shows "kprintf color (Some ''%5'') va s = Inl Overrun"
proof -
  obtain s1 where s1: "puts_c (bytes_of ''%'') color s = Inr s1"
    using puts_loop_grid [OF assms, of "bytes_of ''%''" color] puts_c_text [of "bytes_of ''%''" color s] by (auto simp: bytes_of_def)
  have e: "puts_c [] color s1 = Inr s1" by (simp add: puts_c_def ktty_puts_def)
  have at: "fmt_at ''%5'' 0 = Inr CHR ''%''" "fmt_at ''%5'' 1 = Inr CHR ''5''" "fmt_at ''%5'' 2 = Inr CHR 0x00" "fmt_at ''%5'' 3 = Inl Overrun"
    by (simp_all add: fmt_at_def)
  have "kparse_format ''%5'' 1 = Inr (2, 5, False)" using at(2) by (simp add: kparse_format_def kisdigit_def)
  then have "khandle_format ''%5'' 1 va color s = Inr (2, 2, va, s1)"
    using at(3) s1 e by (simp add: khandle_format_def format_arg_def bytes_of_def)
  then have "kprintf_loop ''%5'' 0 0 va color s = kprintf_loop ''%5'' 3 2 va color s1"
    using at by (subst kprintf_loop.simps) simp
  also have "\<dots> = Some (Inl Overrun)" using at(4) by (subst kprintf_loop.simps) simp
  finally show ?thesis by (simp add: kprintf_def)
qed

end
