(* ===== verification/Initrd.thy ===== *)
theory Initrd
  imports Fd
begin

text \<open>
  The initial file system: unpacking the boot archive into the mounted tmpfs
  (\<^verbatim>\<open>src/kernel/fs/initrd/initrd.c\<close>) and the start of the file system (\<^verbatim>\<open>src/kernel/fs/fs_manager.c\<close>). The
  archive is a range of kernel memory; an entry is read from there with its name up to the
  terminating zero. \<open>None\<close> is a \<^verbatim>\<open>NULL\<close> pointer to an entry.
\<close>

section \<open>Reading an entry\<close>

record initrd_entry =
  ie_name :: string
  ie_size :: u32
  ie_type :: u32

definition sizeof_initrd_entry :: u32 where "sizeof_initrd_entry = 72"

definition rd32 :: "u32 \<Rightarrow> 'z heap_state_scheme \<Rightarrow> u32 kres" where
  "rd32 a s =
    bindE (rd8 a s) (\<lambda>b0. bindE (rd8 (a + 1) s) (\<lambda>b1.
    bindE (rd8 (a + 2) s) (\<lambda>b2. bindE (rd8 (a + 3) s) (\<lambda>b3.
    Inr (ucast b0 OR push_bit 8 (ucast b1) OR push_bit 16 (ucast b2) OR push_bit 24 (ucast b3))))))"

text \<open>The characters from an address up to a zero byte, after those in \<open>acc\<close>.\<close>

partial_function (option) read_string ::
    "u32 \<Rightarrow> string \<Rightarrow> 'z heap_state_scheme \<Rightarrow> string kres option" where
  "read_string a acc s =
    (case rd8 a s of
       Inl e \<Rightarrow> Some (Inl e)
     | Inr c \<Rightarrow> if c = 0 then Some (Inr acc) else read_string (a + 1) (acc @ [char_of (unat c)]) s)"

definition read_entry :: "u32 \<Rightarrow> 'z heap_state_scheme \<Rightarrow> initrd_entry kres" where
  "read_entry a s =
    bindE (returned (read_string a [] s)) (\<lambda>name.
    bindE (rd32 (a + 64) s) (\<lambda>sz.
    bindE (rd32 (a + 68) s) (\<lambda>type.
    Inr \<lparr>ie_name = name, ie_size = sz, ie_type = type\<rparr>)))"

section \<open>Helpers\<close>

definition kinitrd_get_entry_mode :: "initrd_entry option \<Rightarrow> u32" where
  "kinitrd_get_entry_mode entry =
    (case entry of
       None \<Rightarrow> 0
     | Some e \<Rightarrow>
         if KVFS_STAT_TYPE (ie_type e) \<noteq> 0 then ie_type e
         else if ie_type e = 1 then KVFS_STAT_IFDIR else KVFS_STAT_IFREG)"

definition kinitrd_is_end_marker :: "initrd_entry option \<Rightarrow> bool" where
  "kinitrd_is_end_marker entry =
    (case entry of None \<Rightarrow> False | Some e \<Rightarrow> ie_name e = [] \<and> ie_size e = 0 \<and> ie_type e = 0)"

definition kinitrd_has_valid_path :: "initrd_entry option \<Rightarrow> bool" where
  "kinitrd_has_valid_path entry = (case entry of None \<Rightarrow> False | Some e \<Rightarrow> take 1 (ie_name e) = ''/'')"

definition kinitrd_get_first_part_index :: "nat \<Rightarrow> string list \<Rightarrow> nat" where
  "kinitrd_get_first_part_index part_count parts =
    (if part_count > 0 \<and> take 1 (parts ! 0) = ''/'' then 1 else 0)"

definition kinitrd_get_or_create_directory ::
    "u32 \<Rightarrow> string option \<Rightarrow> 'z kernel_state_scheme \<Rightarrow> (u32 \<times> 'z kernel_state_scheme) kres" where
  "kinitrd_get_or_create_directory parent name s =
    (if parent = 0 \<or> name = None then Inr (0, s)
     else
       bindE (kvfs_lookup parent name s) (\<lambda>(child, s).
       if child \<noteq> 0 then Inr (child, s)
       else
         bindE (kvfs_mkdir parent name 0x1ED s) (\<lambda>(ok, s).
         if \<not> ok then Inr (0, s) else kvfs_lookup parent name s)))"

definition close_unless_root :: "u32 \<Rightarrow> u32 \<Rightarrow> 'z kernel_state_scheme \<Rightarrow> 'z kernel_state_scheme kres" where
  "close_unless_root root node s = (if node \<noteq> root then kvfs_close node s else Inr s)"

fun ensure_loop ::
    "u32 \<Rightarrow> u32 \<Rightarrow> string list \<Rightarrow> 'z kernel_state_scheme \<Rightarrow> (u32 \<times> 'z kernel_state_scheme) kres" where
  "ensure_loop root current [] s = Inr (current, s)"
| "ensure_loop root current (part # parts) s =
    bindE (kinitrd_get_or_create_directory current (Some part) s) (\<lambda>(next_node, s).
    bindE (close_unless_root root current s) (\<lambda>s.
    if next_node = 0 then Inr (0, s) else ensure_loop root next_node parts s))"

text \<open>\<open>parts\<close> are the first \<^verbatim>\<open>part_count\<close> components.\<close>

definition kinitrd_ensure_directory ::
    "u32 \<Rightarrow> string list \<Rightarrow> 'z kernel_state_scheme \<Rightarrow> (u32 \<times> 'z kernel_state_scheme) kres" where
  "kinitrd_ensure_directory root parts s =
    (if root = 0 then Inr (0, s)
     else ensure_loop root root (drop (kinitrd_get_first_part_index (length parts) parts) parts) s)"

definition kinitrd_split_entry_path :: "initrd_entry option \<Rightarrow> string list" where
  "kinitrd_split_entry_path entry =
    (if \<not> kinitrd_has_valid_path entry then [] else kvfs_split_path (map_option ie_name entry))"

section \<open>Unpacking\<close>

definition kinitrd_unpack_directory ::
    "u32 \<Rightarrow> initrd_entry option \<Rightarrow> 'z kernel_state_scheme \<Rightarrow> (bool \<times> 'z kernel_state_scheme) kres" where
  "kinitrd_unpack_directory root entry s =
    (let parts = kinitrd_split_entry_path entry in
     if length parts = 0 then Inr (False, s)
     else
       bindE (kinitrd_ensure_directory root parts s) (\<lambda>(dir, s).
       if dir = 0 then Inr (False, s)
       else bindE (close_unless_root root dir s) (\<lambda>s. Inr (True, s))))"

text \<open>The parent directory and the final component.\<close>

definition kinitrd_resolve_file_parent ::
    "u32 \<Rightarrow> initrd_entry option \<Rightarrow> 'z kernel_state_scheme \<Rightarrow> (u32 \<times> string \<times> 'z kernel_state_scheme) kres" where
  "kinitrd_resolve_file_parent root entry s =
    (let parts = kinitrd_split_entry_path entry in
     if length parts < 2 then Inr (0, [], s)
     else
       bindE (kinitrd_ensure_directory root (butlast parts) s) (\<lambda>(dir, s).
       Inr (dir, last parts, s)))"

definition kinitrd_open_or_create_file ::
    "u32 \<Rightarrow> string option \<Rightarrow> 'z kernel_state_scheme \<Rightarrow> (u32 \<times> 'z kernel_state_scheme) kres" where
  "kinitrd_open_or_create_file parent name s =
    (if parent = 0 \<or> name = None then Inr (0, s)
     else
       bindE (kvfs_lookup parent name s) (\<lambda>(file, s).
       if file \<noteq> 0 then Inr (file, s)
       else
         bindE (kvfs_create parent name (0x1A4 OR KVFS_STAT_IFREG) s) (\<lambda>(ok, s).
         if \<not> ok then Inr (0, s) else kvfs_lookup parent name s)))"

definition kinitrd_write_file_data ::
    "u32 \<Rightarrow> initrd_entry option \<Rightarrow> u32 \<Rightarrow> 'z kernel_state_scheme \<Rightarrow> (bool \<times> 'z kernel_state_scheme) kres" where
  "kinitrd_write_file_data file entry data s =
    (case entry of
       None \<Rightarrow> Inr (False, s)
     | Some e \<Rightarrow>
         if file = 0 \<or> (ie_size e > 0 \<and> data = 0) then Inr (False, s)
         else if ie_size e = 0 then Inr (True, s)
         else
           bindE (kvfs_write file 0 data (ie_size e) s) (\<lambda>(written, offset, s).
           Inr (written = ie_size e, s)))"

definition kinitrd_unpack_file ::
    "u32 \<Rightarrow> initrd_entry option \<Rightarrow> u32 \<Rightarrow> 'z kernel_state_scheme \<Rightarrow> (bool \<times> 'z kernel_state_scheme) kres" where
  "kinitrd_unpack_file root entry data s =
    (if root = 0 then Inr (False, s)
     else
       bindE (kinitrd_resolve_file_parent root entry s) (\<lambda>(parent, file_name, s).
       if parent = 0 then Inr (False, s)
       else
         bindE (kinitrd_open_or_create_file parent (Some file_name) s) (\<lambda>(file, s).
         if file = 0 then bindE (close_unless_root root parent s) (\<lambda>s. Inr (False, s))
         else
           bindE (kinitrd_write_file_data file entry data s) (\<lambda>(ok, s).
           bindE (kvfs_close file s) (\<lambda>s.
           bindE (close_unless_root root parent s) (\<lambda>s. Inr (ok, s)))))))"

definition kinitrd_unpack_entry ::
    "u32 \<Rightarrow> initrd_entry option \<Rightarrow> u32 \<Rightarrow> 'z kernel_state_scheme \<Rightarrow> (bool \<times> 'z kernel_state_scheme) kres" where
  "kinitrd_unpack_entry root entry data s =
    (if root = 0 \<or> entry = None then Inr (False, s)
     else
       let mode = kinitrd_get_entry_mode entry in
       if KVFS_STAT_ISDIR mode then kinitrd_unpack_directory root entry s
       else if KVFS_STAT_ISREG mode then kinitrd_unpack_file root entry data s
       else Inr (False, s))"

definition kinitrd_has_remaining_data :: "u32 \<Rightarrow> u32 \<Rightarrow> u32 \<Rightarrow> bool" where
  "kinitrd_has_remaining_data cursor fin sz =
    (if cursor = 0 \<or> fin = 0 \<or> cursor > fin then False else \<not> fin - cursor < sz)"

definition kinitrd_is_size_valid :: "u32 \<Rightarrow> bool" where
  "kinitrd_is_size_valid image_size = (image_size \<ge> sizeof_initrd_entry)"

lemma bindE_cong [fundef_cong]:
  "m = m' \<Longrightarrow> (\<And>x. m' = Inr x \<Longrightarrow> f x = f' x) \<Longrightarrow> bindE m f = bindE m' f'"
  by (cases m') simp_all

text \<open>Every round consumes at least the entry itself, so the loop ends.\<close>

function unpack_loop ::
    "u32 \<Rightarrow> u32 \<Rightarrow> u32 \<Rightarrow> 'z kernel_state_scheme \<Rightarrow> (bool \<times> 'z kernel_state_scheme) kres" where
  "unpack_loop root cursor fin s =
    (if fin - cursor < sizeof_initrd_entry then Inr (False, s)
     else
       bindE (read_entry cursor s) (\<lambda>e.
       if kinitrd_is_end_marker (Some e) then Inr (True, s)
       else
         let data = cursor + sizeof_initrd_entry in
         if \<not> kinitrd_has_remaining_data data fin (ie_size e) then Inr (False, s)
         else
           bindE (kinitrd_unpack_entry root (Some e) data s) (\<lambda>(ok, s).
           if \<not> ok then Inr (False, s) else unpack_loop root (data + ie_size e) fin s)))"
  by auto
termination
proof (relation "measure (\<lambda>(root, cursor, fin, s). unat (fin - cursor))", goal_cases)
  case (2 root cursor fin s e data x ok s')
  have "72 \<le> fin - cursor" using 2(1) by (simp add: sizeof_initrd_entry_def not_less)
  moreover have "ie_size e \<le> fin - data"
    using 2(5) by (simp add: kinitrd_has_remaining_data_def not_less split: if_splits)
  moreover have "fin - data = (fin - cursor) - 72"
    using 2(4) by (simp add: sizeof_initrd_entry_def algebra_simps)
  ultimately have "unat (fin - cursor - 72 - ie_size e) < unat (fin - cursor)"
    by (simp add: unat_sub word_le_nat_alt word_less_nat_alt)
  then show ?case using 2(4) by (simp add: sizeof_initrd_entry_def algebra_simps)
qed simp

declare unpack_loop.simps [simp del]

definition kinitrd_unpack ::
    "u32 \<Rightarrow> u32 \<Rightarrow> u32 \<Rightarrow> 'z kernel_state_scheme \<Rightarrow> (bool \<times> 'z kernel_state_scheme) kres" where
  "kinitrd_unpack root img image_size s =
    (if root = 0 \<or> img = 0 \<or> \<not> kinitrd_is_size_valid image_size then Inr (False, s)
     else unpack_loop root img (img + image_size) s)"

section \<open>Starting the file system\<close>

text \<open>\<^verbatim>\<open>entry->_chr._write = f\<close> and \<^verbatim>\<open>entry->_chr._read = f\<close>.\<close>

definition set_chr_write :: "u32 \<Rightarrow> chr_write \<Rightarrow> 'z kernel_state_scheme \<Rightarrow> 'z kernel_state_scheme kres" where
  "set_chr_write entry f s =
    bindE (rd_entry entry s) (\<lambda>e.
    case e_body e of
      Chr r w c \<Rightarrow> Inr (wr_obj entry (Entry (e\<lparr>e_body := Chr r (Some f) c\<rparr>)) s)
    | _ \<Rightarrow> Inl PageFault)"

definition set_chr_read :: "u32 \<Rightarrow> chr_read \<Rightarrow> 'z kernel_state_scheme \<Rightarrow> 'z kernel_state_scheme kres" where
  "set_chr_read entry f s =
    bindE (rd_entry entry s) (\<lambda>e.
    case e_body e of
      Chr r w c \<Rightarrow> Inr (wr_obj entry (Entry (e\<lparr>e_body := Chr (Some f) w c\<rparr>)) s)
    | _ \<Rightarrow> Inl PageFault)"

text \<open>The lookup, the assignment and the close that the three devices have in common.\<close>

definition setup_device ::
    "u32 \<Rightarrow> string \<Rightarrow> (u32 \<Rightarrow> 'z kernel_state_scheme \<Rightarrow> 'z kernel_state_scheme kres)
      \<Rightarrow> 'z kernel_state_scheme \<Rightarrow> (bool \<times> 'z kernel_state_scheme) kres" where
  "setup_device dev_node name install s =
    bindE (via_ops dev_node s (ktmpfs_lookup dev_node (Some name) s)) (\<lambda>(tmp, s).
    if tmp = 0 then Inr (False, s)
    else
      bindE (rd_node tmp s) (\<lambda>n.
      if n_private n = 0 then close_fail tmp s
      else
        bindE (install (n_private n) s) (\<lambda>s.
        bindE (kvfs_close tmp s) (\<lambda>s. Inr (True, s)))))"

definition kfs_setup_devices :: "u32 \<Rightarrow> 'z kernel_state_scheme \<Rightarrow> (bool \<times> 'z kernel_state_scheme) kres" where
  "kfs_setup_devices dev_node s =
    (if dev_node = 0 then Inr (False, s)
     else
       bindE (setup_device dev_node ''stdout'' (\<lambda>p. set_chr_write p Kfs_vga_write) s) (\<lambda>(ok, s).
       if \<not> ok then Inr (False, s)
       else
         bindE (setup_device dev_node ''stderr'' (\<lambda>p. set_chr_write p Kfs_vga_write) s) (\<lambda>(ok, s).
         if \<not> ok then Inr (False, s)
         else setup_device dev_node ''stdin'' (\<lambda>p. set_chr_read p Kfs_keyboard_read) s)))"

definition kfs_create_devices :: "u32 \<Rightarrow> 'z kernel_state_scheme \<Rightarrow> (bool \<times> 'z kernel_state_scheme) kres" where
  "kfs_create_devices dev_node s =
    (if dev_node = 0 then Inr (False, s)
     else
       bindE (via_ops dev_node s (ktmpfs_create dev_node (Some ''stdout'') (KVFS_STAT_IFCHR OR 0x1B6) s)) (\<lambda>(ok, s).
       if \<not> ok then Inr (False, s)
       else
         bindE (via_ops dev_node s (ktmpfs_create dev_node (Some ''stderr'') (KVFS_STAT_IFCHR OR 0x1B6) s)) (\<lambda>(ok, s).
         if \<not> ok then Inr (False, s)
         else
           bindE (via_ops dev_node s (ktmpfs_create dev_node (Some ''stdin'') (KVFS_STAT_IFCHR OR 0x1B6) s)) (\<lambda>(ok, s).
           if \<not> ok then Inr (False, s) else kfs_setup_devices dev_node s))))"

text \<open>The embedded image lies between the linker's symbols \<open>img_start\<close> and \<open>img_end\<close>.\<close>

definition kfs_get_initrd_size :: "u32 \<Rightarrow> u32 \<Rightarrow> u32" where
  "kfs_get_initrd_size img_start img_end = img_end - img_start"

definition kfs_init :: "u32 \<Rightarrow> u32 \<Rightarrow> 'z kernel_state_scheme \<Rightarrow> (bool \<times> 'z kernel_state_scheme) kres" where
  "kfs_init img_start img_end s =
    (let initrd_size = kfs_get_initrd_size img_start img_end in
     if \<not> kinitrd_is_size_valid initrd_size then
       Inr (False, klog_put ''file_system: invalid embedded initrd image'' s)
     else
       bindE (kvfs_mount (Some ''tmpfs'') (Some ''/'') s) (\<lambda>(root, s).
       if root = 0 then Inr (False, klog_put ''file_system: failed to mount tmpfs on /'' s)
       else
         let s = (klog_put ''file_system: tmpfs mounted on /'' s)\<lparr>kvfs_cwd := root\<rparr> in
         bindE (kinitrd_unpack root img_start initrd_size s) (\<lambda>(ok, s).
         if \<not> ok then Inr (False, klog_put ''file_system: failed to unpack initrd into /'' s)
         else
           let s = klog_put ''file_system: initrd unpacked into /'' s in
           bindE (ktmpfs_mount ''/dev'' s) (\<lambda>(dev_node, s).
           if dev_node = 0 then Inr (False, klog_put ''file_system: failed to mount tmpfs on /dev'' s)
           else
             let s = klog_put ''file_system: tmpfs mounted on /dev'' s in
             bindE (kfs_create_devices dev_node s) (\<lambda>(ok, s).
             if \<not> ok then Inr (False, klog_put ''file_system: failed to create the dev files'' s)
             else Inr (True, klog_put ''file_system: device files created with success'' s))))))"

end
