(* ===== verification/Scheduler.thy ===== *)
theory Scheduler
  imports Fd
begin

text \<open>
  The round-robin scheduler (\<^verbatim>\<open>src/kernel/scheduler/scheduler.c\<close>) and the timer interrupt that drives it
  (\<^verbatim>\<open>src/kernel/interruption/irq/irq_timer.c\<close>). The tasks form a ring through \<open>t_next\<close>. A context switch
  does not return to its caller: the outcome \<open>Switched\<close> carries the registers the processor
  continues with. The end-of-interrupt command to the interrupt controller (\<open>kpic_send_eoi\<close> of \<open>Interrupts\<close>)
  changes nothing of this state and is left out.
\<close>

section \<open>State\<close>

text \<open>
  The counters of the timer, the stack pointer of the task state segment, and the linker's symbol
  for the end of the kernel stack.
\<close>

record cpu_state = kernel_state +
  ticks_count :: u32
  seconds_count :: u32
  sec_tick_count :: u32
  tss_esp0 :: u32
  kernel_stack_end :: u32

definition KGDT_CODE_SELECTOR :: u32 where "KGDT_CODE_SELECTOR = 0x08"
definition KGDT_DATA_SELECTOR :: u32 where "KGDT_DATA_SELECTOR = 0x10"
definition KGDT_USER_CODE_SELECTOR :: u32 where "KGDT_USER_CODE_SELECTOR = 0x1B"
definition KGDT_USER_DATA_SELECTOR :: u32 where "KGDT_USER_DATA_SELECTOR = 0x23"
definition sizeof_isr_registers :: u32 where "sizeof_isr_registers = 68"
definition PIT_TARGET_FREQUENCY :: u32 where "PIT_TARGET_FREQUENCY = 100"
definition KERNEL_SCHEDULER_CONTEXT_TICKER :: u32 where "KERNEL_SCHEDULER_CONTEXT_TICKER = 3"

section \<open>The ring of tasks\<close>

definition kscheduler_add_task :: "u32 \<Rightarrow> 'z kernel_state_scheme \<Rightarrow> (bool \<times> 'z kernel_state_scheme) kres" where
  "kscheduler_add_task task s =
    (if task = 0 then Inr (False, s)
     else if ktask_head s = 0 then
       (let s = s\<lparr>ktask_head := task, ktask_tail := task\<rparr> in
        bindE (rd_task task s) (\<lambda>t. Inr (True, wr_obj task (Task (t\<lparr>t_next := task\<rparr>)) s)))
     else
       bindE (rd_task task s) (\<lambda>t.
       let s = wr_obj task (Task (t\<lparr>t_next := ktask_head s\<rparr>)) s in
       bindE (rd_task (ktask_tail s) s) (\<lambda>l.
       let s = wr_obj (ktask_tail s) (Task (l\<lparr>t_next := task\<rparr>)) s in
       Inr (True, s\<lparr>ktask_tail := task\<rparr>))))"

definition kscheduler_get_current_task :: "'z kernel_state_scheme \<Rightarrow> u32" where
  "kscheduler_get_current_task s = ktask_current s"

definition kscheduler_start :: "'z kernel_state_scheme \<Rightarrow> 'z kernel_state_scheme kres" where
  "kscheduler_start s =
    (if ktask_head s = 0 \<or> kscheduler_is_running s then Inr s
     else
       let s = s\<lparr>kscheduler_is_running := True, ktask_current := ktask_head s\<rparr> in
       bindE (rd_task (ktask_current s) s) (\<lambda>t.
       Inr (wr_obj (ktask_current s) (Task (t\<lparr>t_state := KTASK_RUNNING\<rparr>)) s)))"

definition kscheduler_init :: "u32 \<Rightarrow> 'z kernel_state_scheme \<Rightarrow> (bool \<times> 'z kernel_state_scheme) kres" where
  "kscheduler_init first_task s =
    (if kscheduler_is_running s then Inr (False, s)
     else
       let s = s\<lparr>kscheduler_is_running := False, ktask_current := 0\<rparr> in
       bindE (if ktask_head s = 0 then
                if first_task = 0 then Inr (False, s) else kscheduler_add_task first_task s
              else Inr (True, s)) (\<lambda>(ok, s).
       if \<not> ok then Inr (False, s)
       else bindE (kscheduler_start s) (\<lambda>s. Inr (True, s))))"

text \<open>The loop that skips the tasks that have exited.\<close>

partial_function (option) skip_zombies ::
    "u32 \<Rightarrow> u32 \<Rightarrow> 'z kernel_state_scheme \<Rightarrow> u32 kres option" where
  "skip_zombies current next_task s =
    (case rd_task next_task s of
       Inl e \<Rightarrow> Some (Inl e)
     | Inr t \<Rightarrow>
         if t_state t = KTASK_ZOMBIE \<and> next_task \<noteq> current then skip_zombies current (t_next t) s
         else Some (Inr next_task))"

definition kscheduler_pick_next :: "'z kernel_state_scheme \<Rightarrow> u32 kres" where
  "kscheduler_pick_next s =
    (if ktask_current s = 0 then Inr 0
     else
       bindE (rd_task (ktask_current s) s) (\<lambda>c.
       bindE (returned (skip_zombies (ktask_current s) (t_next c) s)) (\<lambda>next_task.
       bindE (rd_task next_task s) (\<lambda>t.
       Inr (if t_state t = KTASK_ZOMBIE then 0 else next_task)))))"

section \<open>The timer tick\<close>

datatype tick_result = Returned bool | Switched isr_registers

text \<open>
  The context saved for the interrupted task. \<open>regs_addr\<close> is the address of the saved registers,
  \<open>user_esp\<close> the word above them, where the processor stores the stack pointer of user mode.
\<close>

definition saved_context :: "isr_registers \<Rightarrow> u32 \<Rightarrow> u32 \<Rightarrow> isr_registers" where
  "saved_context regs regs_addr user_esp =
    (if r_cs regs AND 3 = 3 then
       regs\<lparr>r_esp := user_esp, r_ds := KGDT_USER_DATA_SELECTOR, r_es := KGDT_USER_DATA_SELECTOR,
            r_fs := KGDT_USER_DATA_SELECTOR, r_gs := KGDT_USER_DATA_SELECTOR\<rparr>
     else regs\<lparr>r_esp := regs_addr + sizeof_isr_registers\<rparr>)"

definition kgdt_set_kernel_stack :: "u32 \<Rightarrow> 'z cpu_state_scheme \<Rightarrow> 'z cpu_state_scheme" where
  "kgdt_set_kernel_stack esp0 s = s\<lparr>tss_esp0 := esp0\<rparr>"

text \<open>Loading the address space of the next task's process.\<close>

definition enter_process :: "u32 \<Rightarrow> 'z cpu_state_scheme \<Rightarrow> 'z cpu_state_scheme kres" where
  "enter_process process s =
    (if process = 0 then Inr s
     else
       bindE (rd_process process s) (\<lambda>p.
       if p_page_directory_phys p \<noteq> 0
       then Inr (kgdt_set_kernel_stack (kernel_stack_end s) (kmmu_load_cr3 (p_page_directory_phys p) s))
       else Inr s))"

definition kscheduler_tick ::
    "isr_registers option \<Rightarrow> u32 \<Rightarrow> u32 \<Rightarrow> 'z cpu_state_scheme \<Rightarrow> (tick_result \<times> 'z cpu_state_scheme) kres" where
  "kscheduler_tick regs regs_addr user_esp s =
    (case regs of
       None \<Rightarrow> Inr (Returned False, s)
     | Some r \<Rightarrow>
         if ktask_current s = 0 then Inr (Returned False, s)
         else
           bindE (rd_task (ktask_current s) s) (\<lambda>c.
           let s = wr_obj (ktask_current s) (Task (c\<lparr>t_ctx := saved_context r regs_addr user_esp\<rparr>)) s in
           bindE (kscheduler_pick_next s) (\<lambda>next_task.
           if next_task = 0 then Inr (Returned False, s)
           else
             let s = s\<lparr>ktask_current := next_task\<rparr> in
             bindE (rd_task next_task s) (\<lambda>t.
             bindE (enter_process (t_process t) s) (\<lambda>s.
             Inr (Switched (t_ctx t), s))))))"

definition irq_timer ::
    "isr_registers option \<Rightarrow> u32 \<Rightarrow> u32 \<Rightarrow> 'z cpu_state_scheme \<Rightarrow> (tick_result \<times> 'z cpu_state_scheme) kres" where
  "irq_timer regs regs_addr user_esp s =
    (let s = s\<lparr>ticks_count := ticks_count s + 1\<rparr>;
         sec = sec_tick_count s + 1;
         s = (if sec mod PIT_TARGET_FREQUENCY = 0
              then s\<lparr>sec_tick_count := 0, seconds_count := seconds_count s + 1\<rparr>
              else s\<lparr>sec_tick_count := sec\<rparr>) in
     if ticks_count s mod KERNEL_SCHEDULER_CONTEXT_TICKER = 0 then
       bindE (kscheduler_tick regs regs_addr user_esp s) (\<lambda>(r, s).
       case r of Returned b \<Rightarrow> if b then Inl Undefined else Inl Panic | Switched ctx \<Rightarrow> Inr (Switched ctx, s))
     else Inr (Returned True, s))"

end
