(* ===== verification/Sched_Ring.thy ===== *)
theory Sched_Ring
  imports Scheduler Kready
begin

text \<open>
  The ring of tasks and the scheduling order. The tasks the scheduler knows form one cycle through \<open>t_next\<close>; the
  timer tick is a round-robin queue of the tasks that have not exited, each with the context it continues from.
\<close>

section \<open>The ring\<close>

definition is_task :: "(u32 \<rightharpoonup> kobj) \<Rightarrow> u32 \<Rightarrow> bool" where
  "is_task m a \<longleftrightarrow> (\<exists>t. m a = Some (Task t))"

definition task_at :: "(u32 \<rightharpoonup> kobj) \<Rightarrow> u32 \<Rightarrow> task" where
  "task_at m a = (case m a of Some (Task t) \<Rightarrow> t | _ \<Rightarrow> undefined)"

fun linked :: "(u32 \<rightharpoonup> kobj) \<Rightarrow> u32 list \<Rightarrow> u32 \<Rightarrow> bool" where
  "linked m [] b \<longleftrightarrow> True"
| "linked m [a] b \<longleftrightarrow> is_task m a \<and> t_next (task_at m a) = b"
| "linked m (a # a' # as) b \<longleftrightarrow> is_task m a \<and> t_next (task_at m a) = a' \<and> linked m (a' # as) b"

text \<open>The tasks \<open>ts\<close>, in the order they were added, are the ring of the scheduler.\<close>

definition task_ring :: "u32 list \<Rightarrow> 'z kernel_state_scheme \<Rightarrow> bool" where
  "task_ring ts s \<longleftrightarrow> distinct ts \<and> 0 \<notin> set ts \<and>
    (if ts = [] then ktask_head s = 0
     else ktask_head s = hd ts \<and> ktask_tail s = last ts \<and> linked (objs s) ts (hd ts))"

lemma task_at_simps [simp]: "m a = Some (Task t) \<Longrightarrow> task_at m a = t" "m a = Some (Task t) \<Longrightarrow> is_task m a"
  by (simp_all add: task_at_def is_task_def)

lemma is_task_at: "is_task m a \<Longrightarrow> m a = Some (Task (task_at m a))"
  by (auto simp: is_task_def)

lemma linked_append:
  "linked m (as @ b # bs) c \<longleftrightarrow> linked m as b \<and> linked m (b # bs) c"
  by (induction m as b rule: linked.induct) auto

lemma linked_tasks: "linked m as b \<Longrightarrow> a \<in> set as \<Longrightarrow> is_task m a"
  by (induction m as b rule: linked.induct) auto

lemma linked_cong:
  assumes "linked m as b" "\<And>a. a \<in> set as \<Longrightarrow> is_task m' a \<and> t_next (task_at m' a) = t_next (task_at m a)"
  shows "linked m' as b"
  using assms by (induction m as b rule: linked.induct) auto

text \<open>A ring may be read from any of its tasks.\<close>

lemma linked_turn: "linked m (as @ bs) (hd (as @ bs)) \<Longrightarrow> linked m (bs @ as) (hd (bs @ as))"
  using linked_append [of m as "hd bs" "tl bs"] linked_append [of m bs "hd as" "tl as"]
  by (cases as; cases bs) auto

section \<open>Adding a task\<close>

lemma add_task_ring:
  assumes ring: "task_ring ts s" and task: "objs s a = Some (Task t)" "a \<notin> set ts" "a \<noteq> 0"
  obtains s' where "kscheduler_add_task a s = Inr (True, s')" "task_ring (ts @ [a]) s'"
    "\<forall>x. x \<notin> set (ts @ [a]) \<longrightarrow> objs s' x = objs s x"
    "\<forall>x \<in> set (ts @ [a]). task_at (objs s') x = (task_at (objs s) x)\<lparr>t_next := t_next (task_at (objs s') x)\<rparr>"
proof (cases "ts = []")
  case True
  let ?s = "wr_obj a (Task (t\<lparr>t_next := a\<rparr>)) (s\<lparr>ktask_head := a, ktask_tail := a\<rparr>)"
  have "kscheduler_add_task a s = Inr (True, ?s)"
    using ring task True by (simp add: kscheduler_add_task_def task_ring_def rd_task_def)
  then show thesis by (rule that) (use task True in \<open>auto simp: task_ring_def wr_obj_def\<close>)
next
  case False
  then obtain us l where us: "ts = us @ [l]" by (metis rev_exhaust)
  have h: "ktask_head s = hd ts" "ktask_tail s = l" "linked (objs s) ts (hd ts)" "distinct ts" "0 \<notin> set ts" "hd ts \<noteq> 0"
    using ring False us hd_in_set [OF False] by (auto simp: task_ring_def simp del: hd_append hd_append2)
  have la: "l \<noteq> a" using task(2) us by auto
  obtain lt where lt: "objs s l = Some (Task lt)"
    using linked_tasks [OF h(3), of l] us by (auto simp: is_task_def)
  let ?s = "(wr_obj l (Task (lt\<lparr>t_next := a\<rparr>)) (wr_obj a (Task (t\<lparr>t_next := hd ts\<rparr>)) s))\<lparr>ktask_tail := a\<rparr>"
  have run: "kscheduler_add_task a s = Inr (True, ?s)"
    using h task lt la by (simp add: kscheduler_add_task_def rd_task_def wr_obj_def Let_def)
  have "linked (objs s) us l" using h(3) us linked_append [of "objs s" us l "[]"] by simp
  then have "linked (objs ?s) us l"
    by (rule linked_cong) (use task(2) h(4) us linked_tasks [OF h(3)] in \<open>auto simp: wr_obj_def is_task_def task_at_def\<close>)
  then have "linked (objs ?s) (ts @ [a]) (hd ts)"
    using linked_append [of "objs ?s" us l "[a]"] la lt us by (simp add: wr_obj_def)
  then have "task_ring (ts @ [a]) ?s" using h task(2,3) False by (auto simp: task_ring_def) (simp add: wr_obj_def)
  then show thesis
    by (rule that [OF run]) (use linked_tasks [OF h(3)] task lt la us in \<open>auto simp: wr_obj_def is_task_def task_at_def\<close>)
qed

section \<open>The next task\<close>

lemma find_split:
  assumes "find P xs = Some x"
  obtains us vs where "xs = us @ x # vs" "\<forall>u \<in> set us. \<not> P u" "P x"
proof -
  obtain i where i: "i < length xs" "P (xs ! i)" "x = xs ! i" "\<forall>j < i. \<not> P (xs ! j)" using assms by (auto simp: find_Some_iff)
  have "\<forall>u \<in> set (take i xs). \<not> P u" using i by (auto simp: in_set_conv_nth)
  then show thesis using that [of "take i xs" "drop (Suc i) xs"] i id_take_nth_drop [OF i(1)] by auto
qed

definition live :: "(u32 \<rightharpoonup> kobj) \<Rightarrow> u32 \<Rightarrow> bool" where
  "live m a \<longleftrightarrow> t_state (task_at m a) \<noteq> KTASK_ZOMBIE"

text \<open>Walking along the ring from the successor \<open>b\<close> of the current task \<open>c\<close>.\<close>

lemma skip_zombies_linked:
  assumes "linked (objs s) (as @ [c]) b'" "c \<notin> set as" "as @ [c] = b # bs"
  shows "skip_zombies c b s = Some (Inr (case find (live (objs s)) as of None \<Rightarrow> c | Some a \<Rightarrow> a))"
  using assms
proof (induction as arbitrary: b bs)
  case Nil
  then have "b = c" "is_task (objs s) c" by auto
  then show ?case by (subst skip_zombies.simps) (auto simp: is_task_def rd_task_def)
next
  case (Cons a as)
  then have b: "b = a" and l: "linked (objs s) (as @ [c]) b'" and t: "is_task (objs s) a"
    and nx: "t_next (task_at (objs s) a) = hd (as @ [c])" and ac: "a \<noteq> c"
    by (cases as; auto)+
  have "as @ [c] = hd (as @ [c]) # tl (as @ [c])" by (cases as) auto
  then have "skip_zombies c (hd (as @ [c])) s = Some (Inr (case find (live (objs s)) as of None \<Rightarrow> c | Some a \<Rightarrow> a))"
    using Cons.IH [OF l] Cons.prems(2) by (metis list.set_intros(2))
  then show ?case using t nx ac unfolding b
    by (subst skip_zombies.simps) (auto simp: is_task_def rd_task_def live_def)
qed

lemma pick_next_linked:
  assumes l: "linked (objs s) (as @ [c]) (hd (as @ [c]))" and c: "ktask_current s = c" "c \<noteq> 0" "c \<notin> set as"
  shows "kscheduler_pick_next s = Inr (case find (live (objs s)) (as @ [c]) of None \<Rightarrow> 0 | Some a \<Rightarrow> a)"
proof -
  have t: "is_task (objs s) c" using linked_tasks [OF l] by simp
  have nx: "t_next (task_at (objs s) c) = hd (as @ [c])"
    using l linked_append [of "objs s" as c "[]" "hd (as @ [c])"] by simp
  have eq: "as @ [c] = hd (as @ [c]) # tl (as @ [c])" by (cases as) auto
  have tasks: "a \<in> set as \<Longrightarrow> is_task (objs s) a" for a using linked_tasks [OF l] by simp
  have found: "find (live (objs s)) as = Some a \<Longrightarrow> is_task (objs s) a \<and> live (objs s) a" for a
    using tasks by (auto simp: find_Some_iff)
  have f: "find (live (objs s)) (as @ [c]) = (case find (live (objs s)) as of None \<Rightarrow> if live (objs s) c then Some c else None | r \<Rightarrow> r)"
    by (induction as) auto
  show ?thesis
    using skip_zombies_linked [OF l c(3) eq] t c nx found unfolding f
    by (auto simp: kscheduler_pick_next_def is_task_def rd_task_def live_def split: option.splits)
qed

section \<open>The tick as a round-robin queue\<close>

text \<open>
  The tasks to run, the next one first and the current one last, each with the context it continues from. A tick
  stores the context of the current task, unless that has exited, and moves the first task to the end.
\<close>

definition rr_tick ::
    "isr_registers \<Rightarrow> bool \<Rightarrow> (u32 \<times> isr_registers) list
      \<Rightarrow> ((u32 \<times> isr_registers) \<times> (u32 \<times> isr_registers) list) option" where
  "rr_tick ctx running q =
    (case if running then butlast q @ [(fst (last q), ctx)] else q of [] \<Rightarrow> None | x # xs \<Rightarrow> Some (x, xs @ [x]))"

definition ready :: "u32 list \<Rightarrow> (u32 \<rightharpoonup> kobj) \<Rightarrow> (u32 \<times> isr_registers) list" where
  "ready ts m = map (\<lambda>a. (a, t_ctx (task_at m a))) (filter (live m) ts)"

text \<open>\<open>ts\<close> is the ring read from the successor of the current task, and the process of each task is there.\<close>

definition has_process :: "(u32 \<rightharpoonup> kobj) \<Rightarrow> u32 \<Rightarrow> bool" where
  "has_process m a \<longleftrightarrow> t_process (task_at m a) = 0 \<or> (\<exists>p. m (t_process (task_at m a)) = Some (Process p))"

definition sched :: "u32 list \<Rightarrow> 'z kernel_state_scheme \<Rightarrow> bool" where
  "sched ts s \<longleftrightarrow> ts \<noteq> [] \<and> distinct ts \<and> 0 \<notin> set ts \<and> linked (objs s) ts (hd ts) \<and> ktask_current s = last ts \<and>
    (\<forall>a \<in> set ts. has_process (objs s) a)"

text \<open>The address space the task runs in: its process's, when that has one of its own.\<close>

definition in_space :: "u32 \<Rightarrow> 'z kernel_state_scheme \<Rightarrow> bool" where
  "in_space a s \<longleftrightarrow> (\<forall>p. t_process (task_at (objs s) a) \<noteq> 0 \<longrightarrow> objs s (t_process (task_at (objs s) a)) = Some (Process p) \<longrightarrow>
     p_page_directory_phys p \<noteq> 0 \<longrightarrow> cr3 s = p_page_directory_phys p)"

lemma enter_process_facts:
  assumes "p = 0 \<or> (\<exists>q. objs s p = Some (Process q))"
  obtains s' where "enter_process p s = Inr s'" "objs s' = objs s" "ktask_current s' = ktask_current s"
    "\<forall>q. p \<noteq> 0 \<longrightarrow> objs s p = Some (Process q) \<longrightarrow> p_page_directory_phys q \<noteq> 0 \<longrightarrow> cr3 s' = p_page_directory_phys q"
proof (cases "p = 0")
  case True
  then show thesis by (intro that) (auto simp: enter_process_def)
next
  case False
  then obtain q where "objs s p = Some (Process q)" using assms by blast
  then show thesis using False
    by (intro that [of "if p_page_directory_phys q \<noteq> 0
        then kgdt_set_kernel_stack (kernel_stack_end s) (kmmu_load_cr3 (p_page_directory_phys q) s) else s"])
      (auto simp: enter_process_def rd_process_def kgdt_set_kernel_stack_def kmmu_load_cr3_def)
qed

text \<open>Storing the context of the current task.\<close>

lemma save_context:
  assumes "sched ts s" "objs s c = Some (Task t)" "ktask_current s = c"
  shows "sched ts (wr_obj c (Task (t\<lparr>t_ctx := x\<rparr>)) s)"
    and "ready ts (objs (wr_obj c (Task (t\<lparr>t_ctx := x\<rparr>)) s)) =
      (if live (objs s) c then butlast (ready ts (objs s)) @ [(fst (last (ready ts (objs s))), x)] else ready ts (objs s))"
proof -
  let ?m = "objs s" and ?m' = "objs (wr_obj c (Task (t\<lparr>t_ctx := x\<rparr>)) s)"
  have m': "?m' = ?m(c \<mapsto> Task (t\<lparr>t_ctx := x\<rparr>))" by (simp add: wr_obj_def)
  obtain as where ts: "ts = as @ [c]" "c \<notin> set as"
    using assms(1,3) append_butlast_last_id [of ts] unfolding sched_def
    by (metis distinct_butlast not_distinct_conv_prefix append_butlast_last_id)
  have task: "task_at ?m' a = (if a = c then (task_at ?m a)\<lparr>t_ctx := x\<rparr> else task_at ?m a)" "is_task ?m' a = is_task ?m a" for a
    using assms(2) by (auto simp: m' task_at_def is_task_def)
  have lv: "live ?m' = live ?m" by (rule ext) (simp add: live_def task(1))
  have hp: "has_process ?m' a = has_process ?m a" for a
  proof -
    have "?m' y = Some (Process p) \<longleftrightarrow> ?m y = Some (Process p)" for y p using assms(2) by (auto simp: m')
    then show ?thesis by (simp add: has_process_def task(1))
  qed
  have "linked ?m' ts (hd ts)"
    by (rule linked_cong [of ?m]) (use assms(1) linked_tasks in \<open>auto simp: sched_def task\<close>)
  then show "sched ts (wr_obj c (Task (t\<lparr>t_ctx := x\<rparr>)) s)"
    using assms hp by (simp add: sched_def) (simp add: wr_obj_def)
  show "ready ts ?m' = (if live ?m c then butlast (ready ts ?m) @ [(fst (last (ready ts ?m)), x)] else ready ts ?m)"
    using ts by (auto simp: ready_def lv task)
qed

lemma tick_round_robin:
  assumes sch: "sched ts s"
  shows "case rr_tick (saved_context r addr esp) (live (objs s) (last ts)) (ready ts (objs s)) of
      None \<Rightarrow> \<exists>s'. kscheduler_tick (Some r) addr esp s = Inr (Returned False, s')
    | Some ((a, ctx), q) \<Rightarrow> \<exists>s' ts'. kscheduler_tick (Some r) addr esp s = Inr (Switched ctx, s') \<and>
        sched ts' s' \<and> set ts' = set ts \<and> ready ts' (objs s') = q \<and> last ts' = a \<and> live (objs s') a \<and> in_space a s'"
proof -
  let ?c = "last ts" and ?x = "saved_context r addr esp"
  have c: "ktask_current s = ?c" "?c \<noteq> 0" "is_task (objs s) ?c"
    using sch linked_tasks [of "objs s" ts "hd ts" ?c] last_in_set [of ts] unfolding sched_def by metis+
  then obtain t where t: "objs s ?c = Some (Task t)" by (auto simp: is_task_def)
  define s1 where "s1 = wr_obj ?c (Task (t\<lparr>t_ctx := ?x\<rparr>)) s"
  have s1: "sched ts s1" and rdy: "ready ts (objs s1) = (if live (objs s) ?c then
      butlast (ready ts (objs s)) @ [(fst (last (ready ts (objs s))), ?x)] else ready ts (objs s))"
    using save_context [OF sch t c(1)] by (auto simp: s1_def)
  obtain as where as: "ts = as @ [?c]" "?c \<notin> set as"
    using sch unfolding sched_def by (metis append_butlast_last_id distinct_butlast not_distinct_conv_prefix)
  have next_task: "kscheduler_pick_next s1 = Inr (case find (live (objs s1)) ts of None \<Rightarrow> 0 | Some a \<Rightarrow> a)"
    using pick_next_linked [of s1 as ?c] s1 as(2) c unfolding as(1) [symmetric] by (auto simp: sched_def)
  have tick: "kscheduler_tick (Some r) addr esp s = bindE (kscheduler_pick_next s1) (\<lambda>n.
      if n = 0 then Inr (Returned False, s1) else bindE (rd_task n (s1\<lparr>ktask_current := n\<rparr>)) (\<lambda>t.
        bindE (enter_process (t_process t) (s1\<lparr>ktask_current := n\<rparr>)) (\<lambda>s. Inr (Switched (t_ctx t), s))))"
    using c t by (simp add: kscheduler_tick_def rd_Inr [THEN iffD2] s1_def Let_def cong del: if_weak_cong)
  show ?thesis
  proof (cases "find (live (objs s1)) ts")
    case None
    then have "ready ts (objs s1) = []" by (auto simp: ready_def find_None_iff filter_empty_conv)
    then show ?thesis using tick next_task None rdy by (simp add: rr_tick_def)
  next
    case (Some a)
    obtain us vs where ts: "ts = us @ a # vs" and us: "\<forall>u \<in> set us. \<not> live (objs s1) u" and a: "live (objs s1) a"
      by (rule find_split [OF Some])
    let ?ts = "vs @ us @ [a]"
    have a0: "a \<noteq> 0" and "is_task (objs s1) a" and hp: "has_process (objs s1) a"
      using s1 ts linked_tasks [of "objs s1" ts "hd ts" a] by (auto simp: sched_def)
    then have at: "rd_task a (s1\<lparr>ktask_current := a\<rparr>) = Inr (task_at (objs s1) a)"
      by (auto simp: is_task_def rd_task_def)
    let ?p = "t_process (task_at (objs s1) a)" and ?t = "s1\<lparr>ktask_current := a\<rparr>"
    have "?p = 0 \<or> (\<exists>q. objs ?t ?p = Some (Process q))" using hp by (simp add: has_process_def)
    then obtain s2 where e: "enter_process ?p ?t = Inr s2" "objs s2 = objs ?t" "ktask_current s2 = ktask_current ?t"
      and sp: "\<forall>q. ?p \<noteq> 0 \<longrightarrow> objs ?t ?p = Some (Process q) \<longrightarrow> p_page_directory_phys q \<noteq> 0 \<longrightarrow> cr3 s2 = p_page_directory_phys q"
      by (rule enter_process_facts)
    have s2: "enter_process ?p ?t = Inr s2" "objs s2 = objs s1" "ktask_current s2 = a" using e by simp_all
    have sp: "in_space a s2" using sp s2(2) by (simp add: in_space_def)
    have run: "kscheduler_tick (Some r) addr esp s = Inr (Switched (t_ctx (task_at (objs s1) a)), s2)"
      using tick next_task Some a0 at s2(1) by simp
    have "linked (objs s1) ?ts (hd ?ts)" using s1 linked_turn [of "objs s1" "us @ [a]" vs] ts by (simp add: sched_def)
    then have "sched ?ts s2" using s1 s2 ts by (auto simp: sched_def)
    moreover have "rr_tick ?x (live (objs s) ?c) (ready ts (objs s)) =
        Some ((a, t_ctx (task_at (objs s1) a)), ready ?ts (objs s2))"
      unfolding rr_tick_def rdy [symmetric] using us a s2(2) ts by (simp add: ready_def)
    ultimately show ?thesis using run sp a s2(2) ts by auto
  qed
qed

text \<open>A whole round: as many ticks as there are tasks to run.\<close>

fun run_ticks ::
    "(isr_registers \<times> u32 \<times> u32) list \<Rightarrow> 'z cpu_state_scheme \<Rightarrow> (isr_registers list \<times> 'z cpu_state_scheme) kres" where
  "run_ticks [] s = Inr ([], s)"
| "run_ticks ((r, addr, esp) # rs) s =
    bindE (kscheduler_tick (Some r) addr esp s) (\<lambda>(res, s).
    case res of Returned _ \<Rightarrow> Inl Panic
    | Switched ctx \<Rightarrow> bindE (run_ticks rs s) (\<lambda>(cs, s). Inr (ctx # cs, s)))"

definition saved :: "isr_registers \<times> u32 \<times> u32 \<Rightarrow> isr_registers" where
  "saved = (\<lambda>(r, addr, esp). saved_context r addr esp)"

text \<open>
  The registers \<open>x\<close> let a task go on as if it had not been interrupted. \<open>r\<close> are the registers pushed at the address \<open>addr\<close>, and
  \<open>esp\<close> the word above them. Code of the kernel was interrupted with its stack pointer above what was pushed and its segments
  as pushed; code of a user process with the stack pointer the processor stored, and with the data segments of user mode.
\<close>

definition resumes :: "isr_registers \<Rightarrow> isr_registers \<times> u32 \<times> u32 \<Rightarrow> bool" where
  "resumes x = (\<lambda>(r, addr, esp).
     r_eip x = r_eip r \<and> r_cs x = r_cs r \<and> r_eflags x = r_eflags r \<and> r_eax x = r_eax r \<and> r_ebx x = r_ebx r \<and>
     r_ecx x = r_ecx r \<and> r_edx x = r_edx r \<and> r_esi x = r_esi r \<and> r_edi x = r_edi r \<and> r_ebp x = r_ebp r \<and>
     r_int_no x = r_int_no r \<and> r_err_code x = r_err_code r \<and>
     (if r_cs r AND 3 = 3
      then r_esp x = esp \<and> r_ds x = 0x23 \<and> r_es x = 0x23 \<and> r_fs x = 0x23 \<and> r_gs x = 0x23
      else r_esp x = addr + 68 \<and> r_ds x = r_ds r \<and> r_es x = r_es r \<and> r_fs x = r_fs r \<and> r_gs x = r_gs r))"

lemma saved_resumes: "resumes (saved r) r"
  by (cases r) (simp add: resumes_def saved_def saved_context_def KGDT_USER_DATA_SELECTOR_def sizeof_isr_registers_def)

lemma saved_all_resume: "list_all2 resumes (map saved rs) rs"
  by (induction rs) (simp_all add: saved_resumes)

text \<open>The same ticks on the queue, while the current task stays alive.\<close>

fun rr_run :: "isr_registers list \<Rightarrow> (u32 \<times> isr_registers) list \<Rightarrow> isr_registers list \<times> (u32 \<times> isr_registers) list" where
  "rr_run [] q = ([], q)"
| "rr_run (x # xs) q =
    (let q = butlast q @ [(fst (last q), x)]; (cs, q') = rr_run xs (tl q @ [hd q]) in (snd (hd q) # cs, q'))"

lemma rr_run_some:
  "length xs = length as \<Longrightarrow> length cs = length as \<Longrightarrow>
    rr_run xs (zip as cs @ w @ [(b, c)]) = (cs, w @ zip (butlast (b # as)) xs @ [(last (b # as), last (c # cs))])"
proof (induction xs arbitrary: as cs w b c)
  case (Cons x xs)
  then obtain a as' c' cs' where eq: "as = a # as'" "cs = c' # cs'" by (metis length_Suc_conv)
  have "rr_run xs (zip as' cs' @ (w @ [(b, x)]) @ [(a, c')]) =
      (cs', (w @ [(b, x)]) @ zip (butlast (a # as')) xs @ [(last (a # as'), last (c' # cs'))])"
    using Cons.prems eq by (intro Cons.IH) auto
  then show ?case by (simp add: eq butlast_append)
qed simp

lemma rr_run_append: "rr_run (xs @ ys) q = (let (cs, q) = rr_run xs q; (ds, q) = rr_run ys q in (cs @ ds, q))"
  by (induction xs arbitrary: q) (auto simp: Let_def split: prod.splits)

lemma zip_butlast: "length as = Suc (length ys) \<Longrightarrow> zip (butlast as) ys @ [(last as, y)] = zip as (ys @ [y])"
  by (cases as rule: rev_cases) auto

text \<open>A whole round brings the queue back, with the contexts the ticks stored.\<close>

lemma rr_run_round:
  assumes "length xs = length as" "length cs = length as"
  shows "rr_run (x # xs) (zip as cs @ [(b, c)]) = (cs @ [x], zip as xs @ [(b, x)])"
proof (cases as)
  case (Cons a as')
  obtain ys y where xs: "xs = ys @ [y]" using assms(1) Cons by (cases xs rule: rev_cases) auto
  have "rr_run (x # ys) (zip as cs @ [] @ [(b, c)]) =
      (cs, [] @ zip (butlast (b # as)) (x # ys) @ [(last (b # as), last (c # cs))])"
    using assms xs by (intro rr_run_some) auto
  then have "rr_run ((x # ys) @ [y]) (zip as cs @ [(b, c)]) =
      (cs @ [x], (zip (butlast as) ys @ [(last as, y)]) @ [(b, x)])"
    unfolding rr_run_append using Cons by (simp add: butlast_append)
  moreover have "zip (butlast as) ys @ [(last as, y)] = zip as xs"
    using zip_butlast [of as ys] assms(1) xs by simp
  ultimately show ?thesis using xs by simp
qed (use assms in simp)

lemma ready_last:
  assumes "sched ts s" "live (objs s) (last ts)"
  shows "ready ts (objs s) \<noteq> []" "fst (last (ready ts (objs s))) = last ts"
proof -
  obtain as c where ts: "ts = as @ [c]" using assms(1) by (cases ts rule: rev_cases) (auto simp: sched_def)
  then have "ready ts (objs s) = ready as (objs s) @ [(last ts, t_ctx (task_at (objs s) (last ts)))]"
    using assms(2) by (simp add: ready_def)
  then show "ready ts (objs s) \<noteq> []" "fst (last (ready ts (objs s))) = last ts" by simp_all
qed

lemma run_ticks_refines:
  assumes "sched ts s" "live (objs s) (last ts)"
  shows "\<exists>s' ts'. run_ticks rs s = Inr (fst (rr_run (map saved rs) (ready ts (objs s))), s') \<and> sched ts' s' \<and>
    live (objs s') (last ts') \<and> ready ts' (objs s') = snd (rr_run (map saved rs) (ready ts (objs s)))"
  using assms
proof (induction rs arbitrary: ts s)
  case (Cons x rs)
  obtain r addr esp where x: "x = (r, addr, esp)" by (cases x)
  let ?q = "butlast (ready ts (objs s)) @ [(fst (last (ready ts (objs s))), saved x)]"
  have "rr_tick (saved_context r addr esp) (live (objs s) (last ts)) (ready ts (objs s)) = Some (hd ?q, tl ?q @ [hd ?q])"
    using Cons.prems(2) x by (cases ?q) (auto simp: rr_tick_def saved_def)
  then obtain s1 ts1 where t: "kscheduler_tick (Some r) addr esp s = Inr (Switched (snd (hd ?q)), s1)" "sched ts1 s1"
      "ready ts1 (objs s1) = tl ?q @ [hd ?q]" "live (objs s1) (last ts1)"
    using tick_round_robin [OF Cons.prems(1), of r addr esp] by (cases "hd ?q") auto
  show ?case using Cons.IH [OF t(2,4)] t(1,3) x by (auto simp: Let_def split: prod.splits)
qed auto

section \<open>Starting the scheduler\<close>

lemma start_sched:
  assumes ring: "task_ring (a # ts) s" and off: "\<not> kscheduler_is_running s" and hp: "\<forall>x \<in> set (a # ts). has_process (objs s) x"
  obtains s' where "kscheduler_init first s = Inr (True, s')" "sched (ts @ [a]) s'" "live (objs s') a" "kscheduler_is_running s'"
    "\<And>x. x \<noteq> a \<Longrightarrow> objs s' x = objs s x" "t_ctx (task_at (objs s') a) = t_ctx (task_at (objs s) a)"
proof -
  have r: "ktask_head s = a" "a \<noteq> 0" "linked (objs s) (a # ts) a" "distinct (a # ts)" "0 \<notin> set (a # ts)"
    using ring by (auto simp: task_ring_def)
  obtain t where t: "objs s a = Some (Task t)" using linked_tasks [OF r(3), of a] by (auto simp: is_task_def)
  let ?s = "wr_obj a (Task (t\<lparr>t_state := KTASK_RUNNING\<rparr>)) (s\<lparr>kscheduler_is_running := True, ktask_current := a\<rparr>)"
  have run: "kscheduler_init first s = Inr (True, ?s)"
    using r t off by (simp add: kscheduler_init_def kscheduler_start_def rd_task_def Let_def)
  have m: "objs ?s = (objs s)(a \<mapsto> Task (t\<lparr>t_state := KTASK_RUNNING\<rparr>))" by (simp add: wr_obj_def)
  have task: "t_next (task_at (objs ?s) x) = t_next (task_at (objs s) x)" "is_task (objs ?s) x = is_task (objs s) x"
      "t_process (task_at (objs ?s) x) = t_process (task_at (objs s) x)" for x
    using t by (auto simp: m task_at_def is_task_def)
  have "linked (objs ?s) (a # ts) a"
    by (rule linked_cong [OF r(3)]) (use task linked_tasks [OF r(3)] in simp)
  then have "linked (objs ?s) (ts @ [a]) (hd (ts @ [a]))" using linked_turn [of "objs ?s" "[a]" ts] by simp
  moreover have "has_process (objs ?s) x" if "x \<in> set (a # ts)" for x
  proof -
    have "objs ?s y = Some (Process p) \<longleftrightarrow> objs s y = Some (Process p)" for y p using t by (auto simp: m)
    then show ?thesis using hp that by (auto simp: has_process_def task(3))
  qed
  ultimately have "sched (ts @ [a]) ?s" using r by (auto simp: sched_def wr_obj_def)
  then show thesis by (rule that [OF run]) (use t in \<open>auto simp: m live_def wr_obj_def\<close>)
qed

section \<open>Properties\<close>

text \<open>
  C31. Adding a task to the ring of the scheduler appends it: the ring is a cycle of the old tasks in the old order
  followed by the new one, no other structure of the kernel changes, and of the tasks only the links do.
\<close>

theorem kscheduler_add_task_appends:
  assumes "task_ring ts s" "objs s a = Some (Task t)" "a \<notin> set ts" "a \<noteq> 0"
  shows "\<exists>s'. kscheduler_add_task a s = Inr (True, s') \<and> task_ring (ts @ [a]) s' \<and>
    (\<forall>x. x \<notin> set (ts @ [a]) \<longrightarrow> objs s' x = objs s x) \<and>
    (\<forall>x \<in> set (ts @ [a]). task_at (objs s') x = (task_at (objs s) x)\<lparr>t_next := t_next (task_at (objs s') x)\<rparr>)"
  by (rule add_task_ring [OF assms]) blast

text \<open>
  C30. Choosing the next task always ends: on the ring \<open>ts\<close> read from the successor of the current task the result is the
  first task that has not exited, the current task itself when it is the only one, and \<^verbatim>\<open>NULL\<close> when all have exited.
\<close>

theorem kscheduler_pick_next_first:
  assumes "sched ts s"
  shows "kscheduler_pick_next s = Inr (case find (live (objs s)) ts of None \<Rightarrow> 0 | Some a \<Rightarrow> a)"
proof -
  obtain as c where "ts = as @ [c]" using assms by (cases ts rule: rev_cases) (auto simp: sched_def)
  then show ?thesis using assms pick_next_linked [of s as c] by (simp add: sched_def)
qed

text \<open>
  C6. A timer tick refines a round-robin queue: it stores the interrupted context with the current task, unless that
  has exited, takes the first task of the queue, puts it at the end and continues with exactly the context stored
  for it, in the address space of its process; with no task left to run it reports failure.
\<close>

theorem kscheduler_tick_refines_queue:
  assumes "sched ts s"
  shows "case rr_tick (saved_context r addr esp) (live (objs s) (ktask_current s)) (ready ts (objs s)) of
      None \<Rightarrow> \<exists>s'. kscheduler_tick (Some r) addr esp s = Inr (Returned False, s')
    | Some ((a, ctx), q) \<Rightarrow> \<exists>s' ts'. kscheduler_tick (Some r) addr esp s = Inr (Switched ctx, s') \<and>
        sched ts' s' \<and> set ts' = set ts \<and> ready ts' (objs s') = q \<and> ktask_current s' = a \<and> in_space a s'"
proof -
  have "ktask_current s = last ts" using assms by (simp add: sched_def)
  then show ?thesis using tick_round_robin [OF assms, of r addr esp] by (fastforce simp: sched_def split: option.splits)
qed

text \<open>
  C5. No task starves and none loses its registers: when \<open>n\<close> tasks can run, \<open>n\<close> ticks run the others once each, in ring
  order and each from the context stored for it, and then resume the task that was interrupted first with the registers it was
  interrupted with (\<open>resumes\<close>: the instruction pointer, the flags, the code segment and the general registers that were pushed,
  and the stack pointer and the data segments of before the interrupt); the queue is then as before, and each of its tasks will
  be resumed in the same way from where its tick interrupted it.
\<close>

theorem kscheduler_full_round:
  assumes sch: "sched ts s" and q: "ready ts (objs s) = zip as cs @ [(ktask_current s, c)]" and len: "length cs = length as"
    and rs: "length rs = length as"
  shows "\<exists>s' ts' x ys. run_ticks (r # rs) s = Inr (cs @ [x], s') \<and> resumes x r \<and> sched ts' s' \<and>
    ktask_current s' = ktask_current s \<and> ready ts' (objs s') = zip as ys @ [(ktask_current s, x)] \<and> list_all2 resumes ys rs"
proof -
  have cur: "ktask_current s = last ts" using sch by (simp add: sched_def)
  have "(last ts, c) \<in> set (ready ts (objs s))" using q cur by simp
  then have lv: "live (objs s) (last ts)" by (auto simp: ready_def)
  have run: "rr_run (map saved (r # rs)) (ready ts (objs s)) = (cs @ [saved r], zip as (map saved rs) @ [(last ts, saved r)])"
    using rr_run_round [of "map saved rs" as cs "saved r" "last ts" c] len rs q cur by simp
  obtain s' ts' where s': "run_ticks (r # rs) s = Inr (cs @ [saved r], s')" "sched ts' s'" "live (objs s') (last ts')"
    "ready ts' (objs s') = zip as (map saved rs) @ [(last ts, saved r)]"
    using run_ticks_refines [OF sch lv, of "r # rs"] unfolding run by auto
  moreover have "ktask_current s' = last ts" using ready_last(2) [OF s'(2,3)] s'(2,4) by (simp add: sched_def)
  ultimately show ?thesis unfolding cur using saved_resumes saved_all_resume by blast
qed

text \<open>
  The timer interrupt needs a current task: until the scheduler is started, the first interrupt whose number is a
  multiple of the switching interval panics.
\<close>

theorem irq_timer_panics_without_task:
  assumes "ktask_current s = 0" "(ticks_count s + 1) mod KERNEL_SCHEDULER_CONTEXT_TICKER = 0"
  shows "irq_timer regs addr esp s = Inl Panic"
  using assms by (cases regs) (auto simp: irq_timer_def kscheduler_tick_def Let_def)

section \<open>Examples\<close>

definition plain_registers :: "u32 \<Rightarrow> isr_registers" where
  "plain_registers ip = \<lparr>r_gs = 0x10, r_fs = 0x10, r_es = 0x10, r_ds = 0x10, r_edi = 0, r_esi = 0, r_ebp = 0, r_esp = 0,
     r_ebx = 0, r_edx = 0, r_ecx = 0, r_eax = 0, r_int_no = 32, r_err_code = 0, r_eip = ip, r_cs = 8, r_eflags = 0x202\<rparr>"

definition plain_task :: "u32 \<Rightarrow> u32 \<Rightarrow> task" where
  "plain_task ip nx = \<lparr>t_ctx = plain_registers ip, t_stack_ptr = 0, t_stack_size = 0, t_state = KTASK_IDLE, t_next = nx,
     t_process = 0\<rparr>"

definition two_tasks :: "'z kernel_state_scheme \<Rightarrow> 'z kernel_state_scheme" where
  "two_tasks s = s\<lparr>objs := [0x1000 \<mapsto> Task (plain_task 1 0x2000), 0x2000 \<mapsto> Task (plain_task 2 0x1000), 0x3000 \<mapsto> Task (plain_task 3 0)],
     ktask_head := 0x1000, ktask_tail := 0x2000, ktask_current := 0x1000\<rparr>"

lemma two_tasks_sched: "sched [0x2000, 0x1000] (two_tasks s)"
  by (simp add: sched_def two_tasks_def plain_task_def has_process_def)

lemma two_tasks_ready:
  "ready [0x2000, 0x1000] (objs (two_tasks s)) = [(0x2000, plain_registers 2), (0x1000, plain_registers 1)]"
  by (simp add: ready_def two_tasks_def plain_task_def live_def)

theorem kscheduler_add_task_appends_witness:
  "\<forall>s :: cpu_state. \<exists>s'. kscheduler_add_task 0x3000 (two_tasks s) = Inr (True, s') \<and> task_ring [0x1000, 0x2000, 0x3000] s'"
proof
  fix s :: cpu_state
  have "task_ring [0x1000, 0x2000] (two_tasks s)" "objs (two_tasks s) 0x3000 = Some (Task (plain_task 3 0))"
    by (simp_all add: task_ring_def two_tasks_def plain_task_def)
  from kscheduler_add_task_appends [OF this]
  show "\<exists>s'. kscheduler_add_task 0x3000 (two_tasks s) = Inr (True, s') \<and> task_ring [0x1000, 0x2000, 0x3000] s'" by auto
qed

theorem kscheduler_pick_next_first_witness: "\<forall>s :: cpu_state. kscheduler_pick_next (two_tasks s) = Inr 0x2000"
proof
  fix s :: cpu_state
  have "live (objs (two_tasks s)) 0x2000" by (simp add: live_def two_tasks_def plain_task_def)
  then show "kscheduler_pick_next (two_tasks s) = Inr 0x2000"
    using kscheduler_pick_next_first [OF two_tasks_sched [of s]] by simp
qed

theorem kscheduler_tick_refines_queue_witness:
  "\<forall>s :: cpu_state. \<exists>s'. kscheduler_tick (Some (plain_registers 7)) 0x8000 0 (two_tasks s) = Inr (Switched (plain_registers 2), s') \<and>
     ktask_current s' = 0x2000"
proof
  fix s :: cpu_state
  let ?x = "saved_context (plain_registers 7) 0x8000 0"
  have cur: "ktask_current (two_tasks s) = 0x1000" and lv: "live (objs (two_tasks s)) 0x1000"
    by (simp_all add: live_def two_tasks_def plain_task_def)
  have "rr_tick ?x True (ready [0x2000, 0x1000] (objs (two_tasks s))) =
      Some ((0x2000, plain_registers 2), [(0x1000, ?x), (0x2000, plain_registers 2)])"
    by (simp add: rr_tick_def two_tasks_ready)
  then show "\<exists>s'. kscheduler_tick (Some (plain_registers 7)) 0x8000 0 (two_tasks s) = Inr (Switched (plain_registers 2), s') \<and>
     ktask_current s' = 0x2000"
    using kscheduler_tick_refines_queue [OF two_tasks_sched [of s], of "plain_registers 7" "0x8000" 0] cur lv by auto
qed

theorem kscheduler_full_round_witness:
  "\<forall>s :: cpu_state. \<exists>s' x. run_ticks [(plain_registers 7, 0x8000, 0), (plain_registers 9, 0x9000, 0)] (two_tasks s) =
     Inr ([plain_registers 2, x], s') \<and> r_eip x = 7 \<and> r_eflags x = 0x202 \<and> r_esp x = 0x8044 \<and> ktask_current s' = 0x1000"
proof
  fix s :: cpu_state
  have cur: "ktask_current (two_tasks s) = 0x1000" by (simp add: two_tasks_def)
  have q: "ready [0x2000, 0x1000] (objs (two_tasks s)) = zip [0x2000] [plain_registers 2] @ [(ktask_current (two_tasks s), plain_registers 1)]"
    by (simp add: two_tasks_ready cur)
  obtain s' x where "run_ticks [(plain_registers 7, 0x8000, 0), (plain_registers 9, 0x9000, 0)] (two_tasks s) = Inr ([plain_registers 2, x], s')"
      "resumes x (plain_registers 7, 0x8000, 0)" "ktask_current s' = 0x1000"
    using kscheduler_full_round [OF two_tasks_sched q, where rs = "[(plain_registers 9, 0x9000, 0)]" and r = "(plain_registers 7, 0x8000, 0)"] cur
    by auto
  then show "\<exists>s' x. run_ticks [(plain_registers 7, 0x8000, 0), (plain_registers 9, 0x9000, 0)] (two_tasks s) =
     Inr ([plain_registers 2, x], s') \<and> r_eip x = 7 \<and> r_eflags x = 0x202 \<and> r_esp x = 0x8044 \<and> ktask_current s' = 0x1000"
    by (simp add: resumes_def plain_registers_def)
qed

theorem irq_timer_panics_without_task_witness:
  "\<forall>s :: cpu_state. irq_timer None 0 0 (s\<lparr>ktask_current := 0, ticks_count := 2\<rparr>) = Inl Panic"
  using irq_timer_panics_without_task [of "s\<lparr>ktask_current := 0, ticks_count := 2\<rparr>" None 0 0 for s :: cpu_state]
  by (simp add: KERNEL_SCHEDULER_CONTEXT_TICKER_def)

end
