(* ===== verification/Interrupts.thy ===== *)
theory Interrupts
  imports Scheduler
begin

text \<open>
  The descriptor tables and the interrupt controllers: the GDT and its task state segment (\<^verbatim>\<open>src/kernel/sys/gdt.c\<close>), the IDT
  and the table of handlers (\<^verbatim>\<open>idt.c\<close>, \<^verbatim>\<open>isr_handler.c\<close>), the PIC and the PIT (\<^verbatim>\<open>pic.c\<close>, \<^verbatim>\<open>pit.c\<close>). The addresses of the
  assembly stubs and of the tables are arguments. What the processor reads out of a gate or a segment descriptor is
  given by decoding functions, so that the theorems speak of the fields as the hardware sees them.
\<close>

section \<open>The global descriptor table\<close>

record gdt_entry =
  g_limit_low :: u16
  g_base_low :: u16
  g_base_middle :: u8
  g_access :: u8
  g_granularity :: u8
  g_base_high :: u8

text \<open>
  The task state segment; its field \<^verbatim>\<open>_esp0\<close>, which the scheduler changes, is \<open>tss_esp0\<close> of the machine state, and
  \<open>tss_others\<close> holds the 23 words the kernel only clears.
\<close>

record tss_entry =
  tss_ss0 :: u32
  tss_others :: "u32 list"
  tss_trap :: u16
  tss_iomap_base :: u16

definition KGDT_TSS_SELECTOR :: u16 where "KGDT_TSS_SELECTOR = 0x28"
definition sizeof_tss_entry :: u32 where "sizeof_tss_entry = 104"

section \<open>The interrupt descriptor table\<close>

definition IDT_SIZE :: nat where "IDT_SIZE = 256"
definition IDT_GATE_INT_32 :: u8 where "IDT_GATE_INT_32 = 0xE"
definition IDT_DPL_RING0 :: u8 where "IDT_DPL_RING0 = 0"
definition IDT_DPL_RING3 :: u8 where "IDT_DPL_RING3 = 0x60"
definition IDT_PRESENT :: u8 where "IDT_PRESENT = 0x80"
definition IDT_INT_GATE_KERNEL :: u8 where "IDT_INT_GATE_KERNEL = IDT_PRESENT OR IDT_DPL_RING0 OR IDT_GATE_INT_32"
definition IDT_INT_GATE_USER :: u8 where "IDT_INT_GATE_USER = IDT_PRESENT OR IDT_DPL_RING3 OR IDT_GATE_INT_32"
definition IDT_SEGMENT_CODE :: u16 where "IDT_SEGMENT_CODE = 0x08"

record idt_entry =
  i_offset_low :: u16
  i_selector :: u16
  i_zero :: u8
  i_type_attr :: u8
  i_offset_high :: u16

record idt_ptr =
  ip_limit :: u16
  ip_base :: u32

datatype isr_handler = Isr_div_zero | Isr_debug_exception | Isr_breakpoint | Isr_invalid_opcode | Isr_page_fault
  | Isr_syscall | Irq_timer | Irq_keyboard_press

record idt_registration =
  ir_vector :: u8
  ir_stub :: u32
  ir_handler :: "isr_handler option"

text \<open>The 8259 controllers: where the initialisation sequence stands, the vector offset and the mask.\<close>

record pic =
  pic_init :: nat
  pic_offset :: u8
  pic_mask :: u8

record intr_state = cpu_state +
  gdt_entries :: "gdt_entry list"
  gdt_ptr :: idt_ptr
  gdt_tss :: tss_entry
  gdtr :: idt_ptr
  data_segments :: u16
  code_segment :: u16
  task_register :: u16
  idt :: "idt_entry list"
  isr_handlers :: "isr_handler option list"
  idtr :: idt_ptr
  pic1 :: pic
  pic2 :: pic
  pit_command :: u8
  pit_divisor :: "u8 list"

section \<open>GDT operations\<close>

definition kgdt_set_entry :: "nat \<Rightarrow> u32 \<Rightarrow> u32 \<Rightarrow> u8 \<Rightarrow> u8 \<Rightarrow> 'z intr_state_scheme \<Rightarrow> 'z intr_state_scheme kres" where
  "kgdt_set_entry index base limit access gran s =
    (if index \<ge> length (gdt_entries s) then Inl Overrun
     else Inr (s\<lparr>gdt_entries := (gdt_entries s)[index :=
       \<lparr>g_limit_low = ucast (limit AND 0xFFFF), g_base_low = ucast (base AND 0xFFFF),
        g_base_middle = ucast (drop_bit 16 base AND 0xFF), g_access = access,
        g_granularity = ucast (drop_bit 16 limit AND 0x0F) OR (gran AND 0xF0),
        g_base_high = ucast (drop_bit 24 base AND 0xFF)\<rparr>]\<rparr>))"

definition kgdt_set_tss :: "nat \<Rightarrow> u32 \<Rightarrow> u32 \<Rightarrow> 'z intr_state_scheme \<Rightarrow> 'z intr_state_scheme kres" where
  "kgdt_set_tss index base limit s = kgdt_set_entry index base limit 0x89 0 s"

definition KGDT_RELOAD_PTR :: "idt_ptr \<Rightarrow> 'z intr_state_scheme \<Rightarrow> 'z intr_state_scheme" where
  "KGDT_RELOAD_PTR ptr s = s\<lparr>gdtr := ptr, data_segments := 0x10, code_segment := 0x08\<rparr>"

definition kgdt_setup_tss :: "u32 \<Rightarrow> 'z intr_state_scheme \<Rightarrow> (bool \<times> 'z intr_state_scheme) kres" where
  "kgdt_setup_tss tss_addr s =
    bindE (kgdt_set_tss 5 tss_addr (sizeof_tss_entry - 1) s) (\<lambda>s.
    let s = s\<lparr>gdt_tss := \<lparr>tss_ss0 = KGDT_DATA_SELECTOR, tss_others = replicate 23 0, tss_trap = 0,
      tss_iomap_base = ucast sizeof_tss_entry\<rparr>, tss_esp0 := kernel_stack_end s\<rparr> in
    Inr (True, (KGDT_RELOAD_PTR (gdt_ptr s) s)\<lparr>task_register := KGDT_TSS_SELECTOR\<rparr>))"

definition kgdt_init :: "u32 \<Rightarrow> u32 \<Rightarrow> 'z intr_state_scheme \<Rightarrow> (bool \<times> 'z intr_state_scheme) kres" where
  "kgdt_init entries_addr tss_addr s =
    bindE (kgdt_set_entry 0 0 0 0 0 (s\<lparr>gdt_ptr := \<lparr>ip_limit = 6 * 8 - 1, ip_base = entries_addr\<rparr>\<rparr>)) (\<lambda>s.
    bindE (kgdt_set_entry 1 0 0xFFFFF 0x9A 0xCF s) (\<lambda>s.
    bindE (kgdt_set_entry 2 0 0xFFFFF 0x92 0xCF s) (\<lambda>s.
    bindE (kgdt_set_entry 3 0 0xFFFFF 0xFA 0xCF s) (\<lambda>s.
    bindE (kgdt_set_entry 4 0 0xFFFFF 0xF2 0xCF s) (\<lambda>s.
    kgdt_setup_tss tss_addr s)))))"

section \<open>IDT operations\<close>

definition kidt_set_entry :: "u8 \<Rightarrow> u32 \<Rightarrow> u16 \<Rightarrow> u8 \<Rightarrow> 'z intr_state_scheme \<Rightarrow> bool \<times> 'z intr_state_scheme" where
  "kidt_set_entry index addr selector type_attr s =
    (if addr = 0 then (False, s)
     else (True, s\<lparr>idt := (idt s)[unat index :=
       \<lparr>i_offset_low = ucast (addr AND 0xFFFF), i_selector = selector, i_zero = 0, i_type_attr = type_attr,
        i_offset_high = ucast (drop_bit 16 (addr AND 0xFFFF0000))\<rparr>]\<rparr>))"

definition kisr_register_handler :: "u8 \<Rightarrow> isr_handler option \<Rightarrow> 'z intr_state_scheme \<Rightarrow> bool \<times> 'z intr_state_scheme" where
  "kisr_register_handler index func_handler s =
    (if func_handler = None then (False, s)
     else (True, s\<lparr>isr_handlers := (isr_handlers s)[unat index := func_handler]\<rparr>))"

definition register_idt_entry ::
    "idt_registration option \<Rightarrow> u8 \<Rightarrow> 'z intr_state_scheme \<Rightarrow> bool \<times> 'z intr_state_scheme" where
  "register_idt_entry entry type_attr s =
    (case entry of
       None \<Rightarrow> (False, s)
     | Some e \<Rightarrow>
         if ir_stub e = 0 \<or> ir_handler e = None then (False, s)
         else
           let (ok, s) = kidt_set_entry (ir_vector e) (ir_stub e) IDT_SEGMENT_CODE type_attr s in
           if \<not> ok then (False, s)
           else
             let (ok, s) = kisr_register_handler (ir_vector e) (ir_handler e) s in
             if \<not> ok then (False, s) else (True, s))"

text \<open>The three registration tables; \<open>stub\<close> gives the address of the assembly stub of a vector.\<close>

definition registration :: "(u8 \<Rightarrow> u32) \<Rightarrow> u8 \<times> isr_handler \<Rightarrow> idt_registration" where
  "registration stub = (\<lambda>(v, h). \<lparr>ir_vector = v, ir_stub = stub v, ir_handler = Some h\<rparr>)"

definition idt_kernel_exceptions_registration :: "(u8 \<times> isr_handler) list" where
  "idt_kernel_exceptions_registration =
    [(0, Isr_div_zero), (1, Isr_debug_exception), (3, Isr_breakpoint), (6, Isr_invalid_opcode), (14, Isr_page_fault)]"

definition idt_user_exceptions_registration :: "(u8 \<times> isr_handler) list" where
  "idt_user_exceptions_registration = [(128, Isr_syscall)]"

definition idt_hardware_irq_registration :: "(u8 \<times> isr_handler) list" where
  "idt_hardware_irq_registration = [(32, Irq_timer), (33, Irq_keyboard_press)]"

fun register_all :: "idt_registration list \<Rightarrow> u8 \<Rightarrow> 'z intr_state_scheme \<Rightarrow> bool \<times> 'z intr_state_scheme" where
  "register_all [] type_attr s = (True, s)"
| "register_all (e # es) type_attr s =
    (let (ok, s) = register_idt_entry (Some e) type_attr s in
     if \<not> ok then (False, s) else register_all es type_attr s)"

definition idt_load_all_isr :: "(u8 \<Rightarrow> u32) \<Rightarrow> 'z intr_state_scheme \<Rightarrow> bool \<times> 'z intr_state_scheme" where
  "idt_load_all_isr stub s =
    (let (ok, s) = register_all (map (registration stub) idt_kernel_exceptions_registration) IDT_INT_GATE_KERNEL s in
     if \<not> ok then (False, s)
     else
       let (ok, s) = register_all (map (registration stub) idt_user_exceptions_registration) IDT_INT_GATE_USER s in
       if \<not> ok then (False, s)
       else
         let (ok, s) = register_all (map (registration stub) idt_hardware_irq_registration) IDT_INT_GATE_KERNEL s in
         if \<not> ok then (False, s) else (True, s))"

definition idt_zero :: idt_entry where
  "idt_zero = \<lparr>i_offset_low = 0, i_selector = 0, i_zero = 0, i_type_attr = 0, i_offset_high = 0\<rparr>"

definition kidt_create_ptr ::
    "u32 \<Rightarrow> idt_ptr option \<Rightarrow> 'z intr_state_scheme \<Rightarrow> bool \<times> idt_ptr option \<times> 'z intr_state_scheme" where
  "kidt_create_ptr idt_addr ptr s =
    (case ptr of
       None \<Rightarrow> (False, None, s)
     | Some _ \<Rightarrow> (True, Some \<lparr>ip_limit = word_of_nat (8 * IDT_SIZE - 1), ip_base = idt_addr\<rparr>, s\<lparr>idt := replicate IDT_SIZE idt_zero\<rparr>))"

definition kidt_load_cpu ::
    "(u8 \<Rightarrow> u32) \<Rightarrow> idt_ptr option \<Rightarrow> 'z intr_state_scheme \<Rightarrow> (bool \<times> 'z intr_state_scheme) kres" where
  "kidt_load_cpu stub ptr s =
    (case ptr of
       None \<Rightarrow> Inr (False, s)
     | Some p \<Rightarrow>
         if ip_base p = 0 \<or> ip_limit p = 0 then Inl Panic
         else
           let (ok, s) = idt_load_all_isr stub s in
           if \<not> ok then Inr (False, s)
           else
             let s = s\<lparr>idtr := p\<rparr> in
             if ip_base (idtr s) = 0 then Inl Panic else Inr (True, s))"

text \<open>The call through the table; \<open>call\<close> runs a handler.\<close>

definition kisr_handler ::
    "(isr_handler \<Rightarrow> isr_registers \<Rightarrow> 'z intr_state_scheme \<Rightarrow> 'r kres) \<Rightarrow> isr_registers option \<Rightarrow> 'z intr_state_scheme \<Rightarrow> 'r kres" where
  "kisr_handler call regs s =
    (case regs of
       None \<Rightarrow> Inl Panic
     | Some r \<Rightarrow>
         if unat (r_int_no r) \<ge> IDT_SIZE then Inl Panic
         else case isr_handlers s ! unat (r_int_no r) of Some h \<Rightarrow> call h r s | None \<Rightarrow> Inl Panic)"

section \<open>PIC and PIT\<close>

text \<open>
  A write to a command port starts the initialisation; the next three bytes on the data port are the vector offset, the
  wiring and the mode, every later one is the mask. A read of the data port gives the mask.
\<close>

definition pic_command :: "u8 \<Rightarrow> pic \<Rightarrow> pic" where
  "pic_command v p = (if v AND 0x10 \<noteq> 0 then p\<lparr>pic_init := 3, pic_mask := 0\<rparr> else p)"

definition pic_data :: "u8 \<Rightarrow> pic \<Rightarrow> pic" where
  "pic_data v p =
    (if pic_init p = 3 then p\<lparr>pic_init := 2, pic_offset := v\<rparr>
     else if pic_init p > 0 then p\<lparr>pic_init := pic_init p - 1\<rparr>
     else p\<lparr>pic_mask := v\<rparr>)"

definition PIC1_COMMAND_PORT :: u16 where "PIC1_COMMAND_PORT = 0x20"
definition PIC2_COMMAND_PORT :: u16 where "PIC2_COMMAND_PORT = 0xA0"
definition PIT_FREQUENCY :: u32 where "PIT_FREQUENCY = 1193180"
definition PIT_COMMAND_PORT :: u16 where "PIT_COMMAND_PORT = 0x43"
definition PIT_DATA_PORT :: u16 where "PIT_DATA_PORT = 0x40"

definition port_out :: "u16 \<Rightarrow> u8 \<Rightarrow> 'z intr_state_scheme \<Rightarrow> 'z intr_state_scheme" where
  "port_out port v s =
    (if port = PIC1_COMMAND_PORT then s\<lparr>pic1 := pic_command v (pic1 s)\<rparr>
     else if port = PIC2_COMMAND_PORT then s\<lparr>pic2 := pic_command v (pic2 s)\<rparr>
     else if port = 0x21 then s\<lparr>pic1 := pic_data v (pic1 s)\<rparr>
     else if port = 0xA1 then s\<lparr>pic2 := pic_data v (pic2 s)\<rparr>
     else if port = PIT_COMMAND_PORT then s\<lparr>pit_command := v, pit_divisor := []\<rparr>
     else if port = PIT_DATA_PORT then s\<lparr>pit_divisor := pit_divisor s @ [v]\<rparr>
     else s)"

definition port_in :: "u16 \<Rightarrow> 'z intr_state_scheme \<Rightarrow> u8" where
  "port_in port s = (if port = 0x21 then pic_mask (pic1 s) else if port = 0xA1 then pic_mask (pic2 s) else 0xFF)"

definition mask_port :: "u8 \<Rightarrow> u16 \<times> u8" where
  "mask_port irq_line = (if irq_line < 8 then (0x21, irq_line) else (0xA1, irq_line - 8))"

text \<open>The shift is done on an \<^verbatim>\<open>int\<close>; a distance beyond its width counts modulo 32, as the processor shifts.\<close>

definition irq_bit :: "u8 \<Rightarrow> u8" where
  "irq_bit irq_line = ucast (push_bit (unat irq_line mod 32) (1 :: u32))"

definition kpic_set_mask :: "u8 \<Rightarrow> 'z intr_state_scheme \<Rightarrow> 'z intr_state_scheme" where
  "kpic_set_mask irq_line s =
    (let (port, line) = mask_port irq_line; value = port_in port s OR irq_bit line in port_out port value s)"

definition kpic_clear_mask :: "u8 \<Rightarrow> 'z intr_state_scheme \<Rightarrow> 'z intr_state_scheme" where
  "kpic_clear_mask irq_line s =
    (let (port, line) = mask_port irq_line; value = port_in port s AND NOT (irq_bit line) in port_out port value s)"

definition kpic_remap :: "'z intr_state_scheme \<Rightarrow> 'z intr_state_scheme" where
  "kpic_remap s =
    (let s = fold (\<lambda>(p, v). port_out p v)
       [(PIC1_COMMAND_PORT, 0x11), (PIC2_COMMAND_PORT, 0x11), (0x21, 0x20), (0xA1, 0x28), (0x21, 0x04), (0xA1, 0x02),
        (0x21, 0x01), (0xA1, 0x01), (0x21, 0), (0xA1, 0)] s;
       s = fold kpic_clear_mask [0, 1] s in
     fold kpic_set_mask [2, 3, 4, 5, 6, 7] s)"

definition PIC_EOI :: u8 where "PIC_EOI = 0x20"

definition kpic_send_eoi :: "'z intr_state_scheme \<Rightarrow> 'z intr_state_scheme" where
  "kpic_send_eoi s = port_out PIC1_COMMAND_PORT PIC_EOI s"

definition kpit_timer_init :: "u32 \<Rightarrow> 'z intr_state_scheme \<Rightarrow> 'z intr_state_scheme kres" where
  "kpit_timer_init frequency s =
    (if frequency = 0 then Inl Panic
     else
       let divisor = ucast (PIT_FREQUENCY div frequency) :: u16 in
       Inr (port_out PIT_DATA_PORT (ucast (drop_bit 8 divisor)) (port_out PIT_DATA_PORT (ucast divisor)
         (port_out PIT_COMMAND_PORT 0x36 s))))"

section \<open>What the processor reads\<close>

definition gate_offset :: "idt_entry \<Rightarrow> u32" where
  "gate_offset e = ucast (i_offset_low e) OR push_bit 16 (ucast (i_offset_high e))"

definition gate_present :: "idt_entry \<Rightarrow> bool" where
  "gate_present e \<longleftrightarrow> i_type_attr e AND 0x80 \<noteq> 0"

definition gate_dpl :: "idt_entry \<Rightarrow> u8" where
  "gate_dpl e = drop_bit 5 (i_type_attr e) AND 3"

definition seg_base :: "gdt_entry \<Rightarrow> u32" where
  "seg_base e = ucast (g_base_low e) OR push_bit 16 (ucast (g_base_middle e)) OR push_bit 24 (ucast (g_base_high e))"

definition seg_limit :: "gdt_entry \<Rightarrow> u32" where
  "seg_limit e = ucast (g_limit_low e) OR push_bit 16 (ucast (g_granularity e AND 0x0F))"

definition gate :: "u32 \<Rightarrow> u8 \<Rightarrow> idt_entry" where
  "gate addr attr = \<lparr>i_offset_low = ucast (addr AND 0xFFFF), i_selector = IDT_SEGMENT_CODE, i_zero = 0, i_type_attr = attr,
     i_offset_high = ucast (drop_bit 16 (addr AND 0xFFFF0000))\<rparr>"

lemma field_masks: "(0xFFFF :: u32) = mask 16" "(0xFFFF0000 :: u32) = NOT (mask 16)" "(0xFF :: u32) = mask 8" "(0x0F :: u32) = mask 4"
  "(0x0F :: u8) = mask 4" "(0xF0 :: u8) = NOT (mask 4)"
  by (simp_all add: mask_eq_exp_minus_1)

lemma gate_offset_gate [simp]: "gate_offset (gate addr attr) = addr"
  unfolding gate_offset_def gate_def field_masks
  by (rule bit_word_eqI) (auto simp: bit_simps)

lemma gate_kinds:
  "gate_present (gate a IDT_INT_GATE_KERNEL)" "gate_dpl (gate a IDT_INT_GATE_KERNEL) = 0"
  "gate_present (gate a IDT_INT_GATE_USER)" "gate_dpl (gate a IDT_INT_GATE_USER) = 3"
  "i_selector (gate a attr) = IDT_SEGMENT_CODE"
  by (simp_all add: gate_present_def gate_dpl_def gate_def IDT_INT_GATE_KERNEL_def IDT_INT_GATE_USER_def IDT_PRESENT_def
      IDT_DPL_RING0_def IDT_DPL_RING3_def IDT_GATE_INT_32_def)

lemma base_parts:
  fixes base :: u32
  shows "ucast (ucast (base AND 0xFFFF) :: u16) OR push_bit 16 (ucast (ucast (drop_bit 16 base AND 0xFF) :: u8)) OR
    push_bit 24 (ucast (ucast (drop_bit 24 base AND 0xFF) :: u8)) = base" (is "?l = _")
proof (rule bit_word_eqI)
  fix n
  assume n: "n < LENGTH(32)"
  then consider "n < 16" | "16 \<le> n" "n < 24" | "24 \<le> n" by linarith
  then show "bit ?l n = bit base n" using n unfolding field_masks by cases (auto simp: bit_simps)
qed

lemma gdt_fields:
  fixes base limit :: u32 and access gran :: u8
  assumes "limit < 2 ^ 20"
  defines "e \<equiv> \<lparr>g_limit_low = ucast (limit AND 0xFFFF), g_base_low = ucast (base AND 0xFFFF),
        g_base_middle = ucast (drop_bit 16 base AND 0xFF), g_access = access,
        g_granularity = ucast (drop_bit 16 limit AND 0x0F) OR (gran AND 0xF0),
        g_base_high = ucast (drop_bit 24 base AND 0xFF)\<rparr>"
  shows "seg_base e = base" "seg_limit e = limit" "g_granularity e AND 0xF0 = gran AND 0xF0"
proof -
  show "seg_base e = base" unfolding seg_base_def e_def by (simp add: base_parts)
  have hi: "\<not> bit limit n" if "20 \<le> n" for n
  proof -
    have "unat limit < 2 ^ 20" using assms(1) by (simp add: word_less_nat_alt)
    then have "drop_bit 20 limit = 0" by (simp add: unat_eq_zero [symmetric] unat_drop_bit)
    then have "\<not> bit (drop_bit 20 limit) (n - 20)" by simp
    then show ?thesis using that by (simp add: bit_drop_bit_eq)
  qed
  have low: "n - 16 < 4" "n - 16 < 8" if "bit limit n" for n using hi [of n] that by linarith+
  show "seg_limit e = limit" unfolding seg_limit_def e_def field_masks
    by (rule bit_word_eqI) (auto simp: bit_simps dest: low)
  show "g_granularity e AND 0xF0 = gran AND 0xF0" unfolding e_def field_masks by (rule bit_word_eqI) (auto simp: bit_simps)
qed

section \<open>The tables after start\<close>

lemma register_idt_entry_eq:
  "stub v \<noteq> 0 \<Longrightarrow> register_idt_entry (Some (registration stub (v, h))) attr s =
    (True, s\<lparr>idt := (idt s)[unat v := gate (stub v) attr], isr_handlers := (isr_handlers s)[unat v := Some h]\<rparr>)"
  by (simp add: register_idt_entry_def registration_def kidt_set_entry_def kisr_register_handler_def gate_def)

lemma register_all_eq:
  assumes "\<forall>(v, h) \<in> set rs. stub v \<noteq> 0"
  shows "register_all (map (registration stub) rs) attr s =
    (True, s\<lparr>idt := fold (\<lambda>(v, h) t. t[unat v := gate (stub v) attr]) rs (idt s),
      isr_handlers := fold (\<lambda>(v, h) t. t[unat v := Some h]) rs (isr_handlers s)\<rparr>)"
  using assms by (induction rs arbitrary: s) (auto simp: register_idt_entry_eq)

definition registered :: "(u8 \<times> isr_handler) list" where
  "registered = idt_kernel_exceptions_registration @ idt_user_exceptions_registration @ idt_hardware_irq_registration"

lemma update_at: "unat (x :: u8) < length t \<Longrightarrow> (t[unat v := y]) ! unat x = (if x = v then y else t ! unat x)"
  by (auto simp: nth_list_update word_unat_eq_iff)

text \<open>
  C35. After \<^verbatim>\<open>kidt_create_ptr\<close> and \<^verbatim>\<open>kidt_load_cpu\<close> the processor has the table, and for every vector: if it is registered,
  its gate is present, leads to the stub of that vector in the kernel code segment, can be called from user mode exactly for the
  system call vector 128, and the table of handlers names its handler; if it is not, its gate is absent and no handler is set.
\<close>

theorem kidt_load_cpu_installs:
  assumes stubs: "\<forall>v. stub v \<noteq> 0" and addr: "idt_addr \<noteq> 0" and hs: "isr_handlers s = replicate IDT_SIZE None"
    and create: "kidt_create_ptr idt_addr (Some q) s = (ok, p, s1)"
  shows "\<exists>s'. kidt_load_cpu stub p s1 = Inr (True, s') \<and> ip_base (idtr s') = idt_addr \<and>
    (\<forall>v. case map_of registered v of
       Some h \<Rightarrow> gate_present (idt s' ! unat v) \<and> gate_offset (idt s' ! unat v) = stub v \<and> i_selector (idt s' ! unat v) = IDT_SEGMENT_CODE \<and>
         gate_dpl (idt s' ! unat v) = (if v = 128 then 3 else 0) \<and> isr_handlers s' ! unat v = Some h
     | None \<Rightarrow> \<not> gate_present (idt s' ! unat v) \<and> isr_handlers s' ! unat v = None)"
proof -
  let ?K = "\<lambda>v. gate (stub v) IDT_INT_GATE_KERNEL" and ?U = "\<lambda>v. gate (stub v) IDT_INT_GATE_USER"
  define t where "t = (replicate IDT_SIZE idt_zero)[unat (0 :: u8) := ?K 0, unat (1 :: u8) := ?K 1, unat (3 :: u8) := ?K 3, unat (6 :: u8) := ?K 6,
    unat (14 :: u8) := ?K 14, unat (128 :: u8) := ?U 128, unat (32 :: u8) := ?K 32, unat (33 :: u8) := ?K 33]"
  define h :: "isr_handler option list" where "h = (replicate IDT_SIZE None)[unat (0 :: u8) := Some Isr_div_zero, unat (1 :: u8) := Some Isr_debug_exception,
    unat (3 :: u8) := Some Isr_breakpoint, unat (6 :: u8) := Some Isr_invalid_opcode, unat (14 :: u8) := Some Isr_page_fault,
    unat (128 :: u8) := Some Isr_syscall, unat (32 :: u8) := Some Irq_timer, unat (33 :: u8) := Some Irq_keyboard_press]"
  have p: "p = Some \<lparr>ip_limit = 2047, ip_base = idt_addr\<rparr>" and s1: "s1 = s\<lparr>idt := replicate IDT_SIZE idt_zero\<rparr>"
    using create by (auto simp: kidt_create_ptr_def IDT_SIZE_def)
  have all: "register_all (map (registration stub) rs) attr u =
    (True, u\<lparr>idt := fold (\<lambda>(v, h) t. t[unat v := gate (stub v) attr]) rs (idt u),
      isr_handlers := fold (\<lambda>(v, h) t. t[unat v := Some h]) rs (isr_handlers u)\<rparr>)" for rs attr and u :: "'a intr_state_scheme"
    by (rule register_all_eq) (use stubs in auto)
  have ld: "idt_load_all_isr stub s1 = (True, s1\<lparr>idt := t, isr_handlers := h\<rparr>)"
    by (simp only: idt_load_all_isr_def all Let_def prod.case not_True_eq_False if_False)
      (simp add: t_def h_def s1 hs idt_kernel_exceptions_registration_def idt_user_exceptions_registration_def idt_hardware_irq_registration_def)
  let ?s = "s1\<lparr>idt := t, isr_handlers := h, idtr := \<lparr>ip_limit = 2047, ip_base = idt_addr\<rparr>\<rparr>"
  have run: "kidt_load_cpu stub p s1 = Inr (True, ?s)"
    unfolding kidt_load_cpu_def p ld using addr by simp
  have byte: "unat v < 256" for v :: u8 using unsigned_less [of v] by simp
  have tv: "t ! unat v = (if v = 33 then ?K v else if v = 32 then ?K v else if v = 128 then ?U v else if v = 14 then ?K v else
      if v = 6 then ?K v else if v = 3 then ?K v else if v = 1 then ?K v else if v = 0 then ?K v else idt_zero)" for v :: u8
    unfolding t_def h_def using byte [of v] by (simp only: update_at length_list_update length_replicate IDT_SIZE_def) auto
  have hv: "h ! unat v = map_of registered v" for v :: u8
    unfolding t_def h_def using byte [of v] by (simp only: update_at length_list_update length_replicate IDT_SIZE_def)
      (auto simp: registered_def idt_kernel_exceptions_registration_def idt_user_exceptions_registration_def idt_hardware_irq_registration_def)
  have z: "\<not> gate_present idt_zero" by (simp add: gate_present_def idt_zero_def)
  have "case map_of registered v of
       Some f \<Rightarrow> gate_present (t ! unat v) \<and> gate_offset (t ! unat v) = stub v \<and> i_selector (t ! unat v) = IDT_SEGMENT_CODE \<and>
         gate_dpl (t ! unat v) = (if v = 128 then 3 else 0) \<and> h ! unat v = Some f
     | None \<Rightarrow> \<not> gate_present (t ! unat v) \<and> h ! unat v = None" for v :: u8
    unfolding tv hv
    by (auto simp: gate_kinds z registered_def idt_kernel_exceptions_registration_def idt_user_exceptions_registration_def
        idt_hardware_irq_registration_def split: option.splits)
  note gates = this
  have eqs: "idt ?s = t" "isr_handlers ?s = h" "ip_base (idtr ?s) = idt_addr" by simp_all
  show ?thesis by (intro exI [of _ ?s], unfold eqs) (intro conjI allI run gates refl)
qed

theorem kidt_load_cpu_installs_witness:
  "\<forall>s :: intr_state. \<exists>s' p s1. kidt_create_ptr 0xC0105000 (Some \<lparr>ip_limit = 0, ip_base = 0\<rparr>) (s\<lparr>isr_handlers := replicate IDT_SIZE None\<rparr>) = (True, p, s1) \<and>
     kidt_load_cpu (\<lambda>v. 0xC0100000 + 16 * ucast v) p s1 = Inr (True, s') \<and> gate_offset (idt s' ! 128) = 0xC0100800 \<and>
     isr_handlers s' ! 32 = Some Irq_timer \<and> \<not> gate_present (idt s' ! 13)"
proof
  fix s :: intr_state
  let ?s = "s\<lparr>isr_handlers := replicate IDT_SIZE None\<rparr>" and ?q = "\<lparr>ip_limit = 0, ip_base = 0\<rparr>"
  let ?p = "Some \<lparr>ip_limit = 2047, ip_base = 0xC0105000\<rparr>" and ?s1 = "?s\<lparr>idt := replicate IDT_SIZE idt_zero\<rparr>"
  let ?stub = "\<lambda>v :: u8. 0xC0100000 + 16 * ucast v :: u32"
  have c: "kidt_create_ptr 0xC0105000 (Some ?q) ?s = (True, ?p, ?s1)" by (simp add: kidt_create_ptr_def IDT_SIZE_def)
  have "unat (?stub v) = 0xC0100000 + 16 * unat v" for v :: u8
  proof -
    have "unat v < 256" using unsigned_less [of v] by simp
    moreover from this have "unat (ucast v :: u32) = unat v" by (simp add: unsigned_ucast_eq take_bit_nat_eq_self)
    ultimately show ?thesis by (simp add: unat_word_ariths)
  qed
  then have st: "\<forall>v. ?stub v \<noteq> 0" by (metis add_is_0 unat_0 zero_neq_numeral)
  have m: "map_of registered 128 = Some Isr_syscall" "map_of registered 32 = Some Irq_timer" "map_of registered 13 = None"
    by (simp_all add: registered_def idt_kernel_exceptions_registration_def idt_user_exceptions_registration_def
        idt_hardware_irq_registration_def)
  obtain s' where run: "kidt_load_cpu ?stub ?p ?s1 = Inr (True, s')" and v: "\<And>v. case map_of registered v of
       Some h \<Rightarrow> gate_present (idt s' ! unat v) \<and> gate_offset (idt s' ! unat v) = ?stub v \<and> i_selector (idt s' ! unat v) = IDT_SEGMENT_CODE \<and>
         gate_dpl (idt s' ! unat v) = (if v = 128 then 3 else 0) \<and> isr_handlers s' ! unat v = Some h
     | None \<Rightarrow> \<not> gate_present (idt s' ! unat v) \<and> isr_handlers s' ! unat v = None"
    using kidt_load_cpu_installs [OF st _ _ c] by auto
  show "\<exists>s' p s1. kidt_create_ptr 0xC0105000 (Some ?q) ?s = (True, p, s1) \<and> kidt_load_cpu ?stub p s1 = Inr (True, s') \<and>
     gate_offset (idt s' ! 128) = 0xC0100800 \<and> isr_handlers s' ! 32 = Some Irq_timer \<and> \<not> gate_present (idt s' ! 13)"
    using c run v [of 128] v [of 32] v [of 13] m by auto
qed

section \<open>Segments, controllers and timer\<close>

text \<open>\<^verbatim>\<open>kgdt_init\<close> sets up flat code and data segments for both privilege levels and the task state segment.\<close>

lemma kgdt_init_segments:
  assumes "length (gdt_entries s) = 6"
  shows "\<exists>s'. kgdt_init entries_addr tss_addr s = Inr (True, s') \<and> ip_base (gdtr s') = entries_addr \<and> tss_esp0 s' = kernel_stack_end s \<and>
    (\<forall>i \<in> {1, 2, 3, 4}. seg_base (gdt_entries s' ! i) = 0 \<and> seg_limit (gdt_entries s' ! i) = 0xFFFFF) \<and>
    map g_access (gdt_entries s') = [0, 0x9A, 0x92, 0xFA, 0xF2, 0x89] \<and>
    seg_base (gdt_entries s' ! 5) = tss_addr \<and> seg_limit (gdt_entries s' ! 5) = 103"
proof -
  obtain a b c d e f where g: "gdt_entries s = [a, b, c, d, e, f]" using assms by (auto simp: length_Suc_conv numeral_eq_Suc)
  show ?thesis
    using gdt_fields(1,2) [of 103 tss_addr "0x89" 0]
    by (simp add: kgdt_init_def kgdt_setup_tss_def KGDT_RELOAD_PTR_def kgdt_set_tss_def kgdt_set_entry_def g sizeof_tss_entry_def)
      (simp add: seg_base_def seg_limit_def)
qed

text \<open>\<^verbatim>\<open>kpic_remap\<close> moves the interrupts to the vectors from 32 and lets only the timer and the keyboard through the first controller.\<close>

lemma port_out_pics:
  "pic1 (port_out 0x20 v s) = pic_command v (pic1 s)" "pic2 (port_out 0x20 v s) = pic2 s"
  "pic1 (port_out 0xA0 v s) = pic1 s" "pic2 (port_out 0xA0 v s) = pic_command v (pic2 s)"
  "pic1 (port_out 0x21 v s) = pic_data v (pic1 s)" "pic2 (port_out 0x21 v s) = pic2 s"
  "pic1 (port_out 0xA1 v s) = pic1 s" "pic2 (port_out 0xA1 v s) = pic_data v (pic2 s)"
  by (simp_all add: port_out_def PIC1_COMMAND_PORT_def PIC2_COMMAND_PORT_def)

lemma mask_pics:
  assumes "i < 8"
  shows "pic1 (kpic_clear_mask i s) = pic_data (pic_mask (pic1 s) AND NOT (irq_bit i)) (pic1 s)" "pic2 (kpic_clear_mask i s) = pic2 s"
    "pic1 (kpic_set_mask i s) = pic_data (pic_mask (pic1 s) OR irq_bit i) (pic1 s)" "pic2 (kpic_set_mask i s) = pic2 s"
  using assms by (simp_all add: kpic_clear_mask_def kpic_set_mask_def mask_port_def port_in_def port_out_pics)

lemma pic_ready: "pic_init p = 0 \<Longrightarrow> pic_data v p = p\<lparr>pic_mask := v\<rparr>"
  by (simp add: pic_data_def)

lemma pic_setup: "pic_data 0 (pic_data c (pic_data b (pic_data a (pic_command 0x11 p)))) = p\<lparr>pic_init := 0, pic_offset := a, pic_mask := 0\<rparr>"
  by (cases p) (simp add: pic_command_def pic_data_def)

lemma kpic_remap_state:
  "pic_offset (pic1 (kpic_remap s)) = 0x20" "pic_offset (pic2 (kpic_remap s)) = 0x28"
  "pic_mask (pic1 (kpic_remap s)) = 0xFC" "pic_mask (pic2 (kpic_remap s)) = 0"
  by (simp_all add: kpic_remap_def Let_def PIC1_COMMAND_PORT_def PIC2_COMMAND_PORT_def mask_pics port_out_pics pic_setup pic_ready
      irq_bit_def)

text \<open>The divisor of the timer is cut to 16 bits: a frequency below 19 Hz is not limited to the largest divisor.\<close>

lemma kpit_divisor:
  "kpit_timer_init 100 s = Inr (s\<lparr>pit_command := 0x36, pit_divisor := [0x9B, 0x2E]\<rparr>)"
  "kpit_timer_init 1 s = Inr (s\<lparr>pit_command := 0x36, pit_divisor := [0xDC, 0x34]\<rparr>)"
  by (simp_all add: kpit_timer_init_def port_out_def PIC1_COMMAND_PORT_def PIC2_COMMAND_PORT_def PIT_COMMAND_PORT_def PIT_DATA_PORT_def
      PIT_FREQUENCY_def)

end
