(* ===== verification/Process.thy ===== *)
theory Process
  imports Scheduler Initrd
begin

text \<open>
  Tasks and processes (\<^verbatim>\<open>src/kernel/scheduler/task\<close>, \<^verbatim>\<open>src/kernel/scheduler/process\<close>) and the system
  calls (\<^verbatim>\<open>src/kernel/sys/syscall\<close>). The addresses of \<^verbatim>\<open>ktask_stubs\<close> and \<^verbatim>\<open>__syscall__\<close>, which the linker
  fixes, are arguments. The page tables of a new process are reached through temporary mappings;
  the words there are those of physical memory.
\<close>

section \<open>Tasks\<close>

definition KERNEL_PROCESS_STACK_SIZE :: u32 where "KERNEL_PROCESS_STACK_SIZE = 2048"
definition sizeof_task :: u32 where "sizeof_task = 88"
definition sizeof_process :: u32 where "sizeof_process = 184"

definition wr32 :: "u32 \<Rightarrow> u32 \<Rightarrow> 'z heap_state_scheme \<Rightarrow> 'z heap_state_scheme kres" where
  "wr32 a x s =
    bindE (wr8 a (ucast x) s) (\<lambda>s. bindE (wr8 (a + 1) (ucast (drop_bit 8 x)) s) (\<lambda>s.
    bindE (wr8 (a + 2) (ucast (drop_bit 16 x)) s) (wr8 (a + 3) (ucast (drop_bit 24 x)))))"

definition zero_registers :: isr_registers where
  "zero_registers =
    \<lparr>r_gs = 0, r_fs = 0, r_es = 0, r_ds = 0, r_edi = 0, r_esi = 0, r_ebp = 0, r_esp = 0, r_ebx = 0,
     r_edx = 0, r_ecx = 0, r_eax = 0, r_int_no = 0, r_err_code = 0, r_eip = 0, r_cs = 0, r_eflags = 0\<rparr>"

text \<open>The result of the second allocation is not checked; the stores to the stack then fault.\<close>

definition ktask_create ::
    "u32 \<Rightarrow> u32 \<Rightarrow> 'z kernel_state_scheme \<Rightarrow> (u32 \<times> 'z kernel_state_scheme) kres" where
  "ktask_create stubs entry s =
    (if entry = 0 then Inr (0, s)
     else
       bindE (kcalloc sizeof_task s) (\<lambda>(task, s).
       if task = 0 then Inr (0, s)
       else
         bindE (kmalloc KERNEL_PROCESS_STACK_SIZE s) (\<lambda>(stack, s).
         let stack_top = stack + KERNEL_PROCESS_STACK_SIZE - 4 in
         bindE (wr32 stack_top entry s) (\<lambda>s.
         let stack_top = stack_top - 4 in
         bindE (wr32 stack_top 0 s) (\<lambda>s.
         Inr (task, wr_obj task (Task
           \<lparr>t_ctx = zero_registers\<lparr>r_eip := stubs, r_esp := stack_top, r_cs := KGDT_CODE_SELECTOR,
                                    r_eflags := 0x202, r_ds := KGDT_DATA_SELECTOR, r_es := KGDT_DATA_SELECTOR,
                                    r_fs := KGDT_DATA_SELECTOR, r_gs := KGDT_DATA_SELECTOR\<rparr>,
            t_stack_ptr = stack, t_stack_size = KERNEL_PROCESS_STACK_SIZE, t_state = KTASK_IDLE,
            t_next = 0, t_process = 0\<rparr>) s))))))"

text \<open>
  \<^verbatim>\<open>ktask_yield\<close> halts until the next interrupt, for ever. \<open>ktask_exit\<close> gives the state in which the
  processor waits there.
\<close>

definition ktask_exit :: "'z kernel_state_scheme \<Rightarrow> 'z kernel_state_scheme kres" where
  "ktask_exit s =
    (if ktask_current s = 0 then Inl NoReturn
     else
       bindE (rd_task (ktask_current s) s) (\<lambda>t.
       Inr (wr_obj (ktask_current s) (Task (t\<lparr>t_state := KTASK_ZOMBIE\<rparr>)) s)))"

section \<open>User address spaces\<close>

definition KPROCESS_PD_TMP_VADDR :: u32 where "KPROCESS_PD_TMP_VADDR = 0xE0000000"
definition KPROCESS_PT_TMP_VADDR :: u32 where "KPROCESS_PT_TMP_VADDR = 0xE0001000"
definition KPROCESS_STACK_TMP_VADDR :: u32 where "KPROCESS_STACK_TMP_VADDR = 0xE0002000"
definition KPROCESS_USER_STACK_SIZE :: u32 where "KPROCESS_USER_STACK_SIZE = 16 * 1024"
definition KPROCESS_USER_STACK_TOP :: u32 where "KPROCESS_USER_STACK_TOP = 0xBFFFE000"
definition KPROCESS_USER_STACK_BOTTOM :: u32 where
  "KPROCESS_USER_STACK_BOTTOM = KPROCESS_USER_STACK_TOP - KPROCESS_USER_STACK_SIZE"
definition KPROCESS_USER_STACK_PAGE_COUNT :: u32 where
  "KPROCESS_USER_STACK_PAGE_COUNT = KPROCESS_USER_STACK_SIZE div KPMM_PAGE_SIZE"

text \<open>Taking away a temporary mapping and making another one.\<close>

definition remap :: "u32 \<Rightarrow> u32 \<Rightarrow> 'z vmm_state_scheme \<Rightarrow> (bool \<times> 'z vmm_state_scheme) kres" where
  "remap vaddr paddr s =
    bindE (kvmm_unmap_page vaddr s) (\<lambda>(_, s). kvmm_map_page vaddr paddr (KVMM_FLAG_PRESENT OR KVMM_FLAG_RW) s)"

text \<open>The page directory's physical address; the temporary mapping is at a fixed address.\<close>

definition alloc_page_directory ::
    "'z vmm_state_scheme \<Rightarrow> ((bool \<times> u32) \<times> 'z vmm_state_scheme) kres" where
  "alloc_page_directory s =
    bindE (kpmm_alloc_pages 1 s) (\<lambda>(pd_phys, s).
    if pd_phys = 0 then Inr ((False, 0), s)
    else
      bindE (remap KPROCESS_PD_TMP_VADDR pd_phys s) (\<lambda>(ok, s).
      if \<not> ok then Inr ((False, 0), s)
      else bindE (vzero 1024 KPROCESS_PD_TMP_VADDR s) (\<lambda>s. Inr ((True, pd_phys), s))))"

text \<open>\<open>n\<close> words from \<open>src\<close> to \<open>dst\<close>.\<close>

fun vcopy :: "nat \<Rightarrow> u32 \<Rightarrow> u32 \<Rightarrow> 'z vmm_state_scheme \<Rightarrow> 'z vmm_state_scheme kres" where
  "vcopy 0 dst src s = Inr s"
| "vcopy (Suc n) dst src s =
    bindE (vread src s) (\<lambda>x. bindE (vwrite dst x s) (vcopy n (dst + 4) (src + 4)))"

definition clone_kernel_high_half ::
    "u32 \<Rightarrow> u32 \<Rightarrow> u32 \<Rightarrow> 'z vmm_state_scheme \<Rightarrow> 'z vmm_state_scheme kres" where
  "clone_kernel_high_half dst src pd_phys s =
    bindE (vcopy (1023 - unat KVMM_PD_INDEX) (entry_addr dst KVMM_PD_INDEX) (entry_addr src KVMM_PD_INDEX) s) (\<lambda>s.
    let a = entry_addr dst 1023 in
    bindE (vread a s) (\<lambda>e.
    vwrite a (set_frame (drop_bit 12 pd_phys) (set_user False (set_rw True (set_present True e)))) s))"

text \<open>The four assignments that make an entry point to a user-accessible table or frame.\<close>

definition set_user_entry :: "u32 \<Rightarrow> u32 \<Rightarrow> 'z vmm_state_scheme \<Rightarrow> 'z vmm_state_scheme kres" where
  "set_user_entry a paddr s =
    bindE (vread a s) (\<lambda>e.
    vwrite a (set_frame (drop_bit 12 paddr) (set_user True (set_rw True (set_present True e)))) s)"

text \<open>\<^verbatim>\<open>_entries[i]._user = 1\<close>.\<close>

definition allow_user :: "u32 \<Rightarrow> 'z vmm_state_scheme \<Rightarrow> 'z vmm_state_scheme kres" where
  "allow_user a s = bindE (vread a s) (\<lambda>e. vwrite a (set_user True e) s)"

text \<open>The physical address of the cloned table and the index of its directory entry.\<close>

definition map_stub_user_page ::
    "u32 \<Rightarrow> u32 \<Rightarrow> 'z vmm_state_scheme \<Rightarrow> ((bool \<times> u32 \<times> u32) \<times> 'z vmm_state_scheme) kres" where
  "map_stub_user_page stubs pd s =
    (let stub_pde = KVMM_GET_PDE_INDEX stubs; stub_pte = KVMM_GET_PTE_INDEX stubs;
         kernel_pt = KVMM_GET_PT_VIA_PDE stub_pde in
     bindE (if kernel_pt = 0 then Inr 0 else vread (entry_addr kernel_pt stub_pte) s) (\<lambda>e.
     if kernel_pt = 0 \<or> \<not> e_present e then Inr ((False, 0, 0), s)
     else
       bindE (kpmm_alloc_pages 1 s) (\<lambda>(user_pt_phys, s).
       if user_pt_phys = 0 then Inr ((False, 0, 0), s)
       else
         bindE (remap KPROCESS_PT_TMP_VADDR user_pt_phys s) (\<lambda>(ok, s).
         if \<not> ok then Inr ((False, 0, 0), s)
         else
           bindE (vcopy 1024 KPROCESS_PT_TMP_VADDR kernel_pt s) (\<lambda>s.
           bindE (allow_user (entry_addr KPROCESS_PT_TMP_VADDR stub_pte) s) (\<lambda>s.
           bindE (set_user_entry (entry_addr pd stub_pde) user_pt_phys s) (\<lambda>s.
           Inr ((True, user_pt_phys, stub_pde), s))))))))"

text \<open>The user page table of the entry point: the one of the stub, or a fresh copy.\<close>

definition entry_page_table ::
    "u32 \<Rightarrow> u32 \<Rightarrow> u32 \<Rightarrow> u32 \<Rightarrow> 'z vmm_state_scheme \<Rightarrow> (u32 \<times> 'z vmm_state_scheme) kres" where
  "entry_page_table pd entry_pde stub_user_pt_phys stub_pde s =
    (if entry_pde = stub_pde then Inr (stub_user_pt_phys, s)
     else
       bindE (kpmm_alloc_pages 1 s) (\<lambda>(user_pt_phys, s).
       if user_pt_phys = 0 then Inr (0, s)
       else
         bindE (remap KPROCESS_PT_TMP_VADDR user_pt_phys s) (\<lambda>(ok, s).
         if \<not> ok then Inr (0, s)
         else
           bindE (vcopy 1024 KPROCESS_PT_TMP_VADDR (KVMM_GET_PT_VIA_PDE entry_pde) s) (\<lambda>s.
           bindE (set_user_entry (entry_addr pd entry_pde) user_pt_phys s) (\<lambda>s.
           Inr (user_pt_phys, s))))))"

definition map_entry_if_kernel ::
    "u32 \<Rightarrow> u32 \<Rightarrow> u32 \<Rightarrow> u32 \<Rightarrow> 'z vmm_state_scheme \<Rightarrow> (bool \<times> 'z vmm_state_scheme) kres" where
  "map_entry_if_kernel pd entry stub_user_pt_phys stub_pde s =
    (let entry_pde = KVMM_GET_PDE_INDEX entry; entry_pte = KVMM_GET_PTE_INDEX entry;
         kernel_pt = KVMM_GET_PT_VIA_PDE entry_pde in
     if entry < KERNEL_VIRTUAL_BASE then Inr (True, s)
     else
       bindE (if kernel_pt = 0 then Inr 0 else vread (entry_addr kernel_pt entry_pte) s) (\<lambda>e.
       if kernel_pt = 0 \<or> \<not> e_present e then Inr (False, s)
       else
         bindE (entry_page_table pd entry_pde stub_user_pt_phys stub_pde s) (\<lambda>(user_pt_phys, s).
         if user_pt_phys = 0 then Inr (False, s)
         else
           bindE (remap KPROCESS_PT_TMP_VADDR user_pt_phys s) (\<lambda>(ok, s).
           if \<not> ok then Inr (False, s)
           else
             bindE (allow_user (entry_addr KPROCESS_PT_TMP_VADDR entry_pte) s) (\<lambda>s. Inr (True, s))))))"

text \<open>One page of the user stack, and the loop over its pages.\<close>

definition map_stack_page ::
    "u32 \<Rightarrow> u32 \<Rightarrow> u32 \<Rightarrow> 'z vmm_state_scheme \<Rightarrow> (bool \<times> 'z vmm_state_scheme) kres" where
  "map_stack_page pd vaddr frame s =
    (let pde_a = entry_addr pd (KVMM_GET_PDE_INDEX vaddr); pte_index = KVMM_GET_PTE_INDEX vaddr in
     bindE (vread pde_a s) (\<lambda>pde.
     bindE (if \<not> e_present pde then
              bindE (kpmm_alloc_pages 1 s) (\<lambda>(pt_phys, s).
              if pt_phys = 0 then Inr (False, s)
              else
                bindE (remap KPROCESS_PT_TMP_VADDR pt_phys s) (\<lambda>(ok, s).
                if \<not> ok then Inr (False, s)
                else
                  bindE (vzero 1024 KPROCESS_PT_TMP_VADDR s) (\<lambda>s.
                  bindE (set_user_entry pde_a pt_phys s) (\<lambda>s. Inr (True, s)))))
            else Inr (True, s)) (\<lambda>(ok, s).
     if \<not> ok then Inr (False, s)
     else
       bindE (vread pde_a s) (\<lambda>pde.
       bindE (remap KPROCESS_PT_TMP_VADDR (push_bit 12 (drop_bit 12 pde)) s) (\<lambda>(ok, s).
       if \<not> ok then Inr (False, s)
       else
         let pte_a = entry_addr KPROCESS_PT_TMP_VADDR pte_index in
         bindE (vread pte_a s) (\<lambda>pte.
         if e_present pte then Inr (False, s)
         else bindE (set_user_entry pte_a frame s) (\<lambda>s. Inr (True, s))))))))"

fun map_stack_loop ::
    "nat \<Rightarrow> u32 \<Rightarrow> u32 \<Rightarrow> u32 \<Rightarrow> 'z vmm_state_scheme \<Rightarrow> (bool \<times> 'z vmm_state_scheme) kres" where
  "map_stack_loop 0 pd vaddr frame s = Inr (True, s)"
| "map_stack_loop (Suc n) pd vaddr frame s =
    bindE (map_stack_page pd vaddr frame s) (\<lambda>(ok, s).
    if \<not> ok then Inr (False, s)
    else map_stack_loop n pd (vaddr + KPMM_PAGE_SIZE) (frame + KPMM_PAGE_SIZE) s)"

definition map_user_stack ::
    "u32 \<Rightarrow> 'z vmm_state_scheme \<Rightarrow> ((bool \<times> u32) \<times> 'z vmm_state_scheme) kres" where
  "map_user_stack pd s =
    bindE (kpmm_alloc_pages KPROCESS_USER_STACK_PAGE_COUNT s) (\<lambda>(stack_phys, s).
    if stack_phys = 0 then Inr ((False, 0), s)
    else
      bindE (map_stack_loop (unat KPROCESS_USER_STACK_PAGE_COUNT) pd KPROCESS_USER_STACK_BOTTOM stack_phys s)
        (\<lambda>(ok, s). Inr (if ok then (True, stack_phys) else (False, 0), s)))"

text \<open>Assigning to a register of the process's main thread.\<close>

definition main_ctx ::
    "u32 \<Rightarrow> (isr_registers \<Rightarrow> isr_registers) \<Rightarrow> 'z kernel_state_scheme \<Rightarrow> 'z kernel_state_scheme kres" where
  "main_ctx process f s =
    bindE (rd_process process s) (\<lambda>p.
    bindE (rd_task (p_main_thread p) s) (\<lambda>t.
    Inr (wr_obj (p_main_thread p) (Task (t\<lparr>t_ctx := f (t_ctx t)\<rparr>)) s)))"

definition setup_initial_stack ::
    "u32 \<Rightarrow> u32 \<Rightarrow> u32 \<Rightarrow> 'z kernel_state_scheme \<Rightarrow> (bool \<times> 'z kernel_state_scheme) kres" where
  "setup_initial_stack stack_phys entry process s =
    (let last_page_phys = stack_phys + (KPROCESS_USER_STACK_PAGE_COUNT - 1) * KPMM_PAGE_SIZE in
     bindE (remap KPROCESS_STACK_TMP_VADDR last_page_phys s) (\<lambda>(ok, s).
     if \<not> ok then Inr (False, s)
     else
       let stack_end = KPROCESS_STACK_TMP_VADDR + KPMM_PAGE_SIZE in
       bindE (vwrite (stack_end - 4) entry s) (\<lambda>s.
       bindE (vwrite (stack_end - 8) 0 s) (\<lambda>s.
       bindE (main_ctx process (\<lambda>r. r\<lparr>r_esp := KPROCESS_USER_STACK_TOP - 8\<rparr>) s) (\<lambda>s. Inr (True, s))))))"

definition finalize_process_context ::
    "u32 \<Rightarrow> u32 \<Rightarrow> 'z kernel_state_scheme \<Rightarrow> 'z kernel_state_scheme kres" where
  "finalize_process_context process pd_phys s =
    bindE (rd_process process s) (\<lambda>p.
    let s = wr_obj process (Process (p\<lparr>p_page_directory := pd_phys, p_page_directory_phys := pd_phys\<rparr>)) s in
    main_ctx process
      (\<lambda>r. r\<lparr>r_cs := KGDT_USER_CODE_SELECTOR, r_ds := KGDT_USER_DATA_SELECTOR, r_es := KGDT_USER_DATA_SELECTOR,
             r_fs := KGDT_USER_DATA_SELECTOR, r_gs := KGDT_USER_DATA_SELECTOR,
             r_esp := KPROCESS_USER_STACK_TOP - 8\<rparr>) s)"

definition kprocess_create_user ::
    "u32 \<Rightarrow> u32 \<Rightarrow> u32 \<Rightarrow> u32 \<Rightarrow> 'z kernel_state_scheme \<Rightarrow> (bool \<times> 'z kernel_state_scheme) kres" where
  "kprocess_create_user stubs syscall process entry s =
    (if process = 0 then Inr (False, s)
     else
       bindE (rd_process process s) (\<lambda>p.
       if p_main_thread p = 0 \<or> entry = 0 then Inr (False, s)
       else
         bindE (alloc_page_directory s) (\<lambda>((ok, pd_phys), s).
         if \<not> ok then Inr (False, s)
         else
           let new_pd = KPROCESS_PD_TMP_VADDR in
           bindE (clone_kernel_high_half new_pd KVMM_GET_PD pd_phys s) (\<lambda>s.
           bindE (map_stub_user_page stubs new_pd s) (\<lambda>((ok, stub_user_pt_phys, stub_pde), s).
           if \<not> ok then Inr (False, s)
           else
             bindE (map_entry_if_kernel new_pd syscall stub_user_pt_phys stub_pde s) (\<lambda>(ok, s).
             if \<not> ok then Inr (False, s)
             else
               bindE (map_entry_if_kernel new_pd entry stub_user_pt_phys stub_pde s) (\<lambda>(ok, s).
               if \<not> ok then Inr (False, s)
               else
                 bindE (map_user_stack new_pd s) (\<lambda>((ok, stack_phys), s).
                 if \<not> ok then Inr (False, s)
                 else
                   bindE (setup_initial_stack stack_phys entry process s) (\<lambda>(ok, s).
                   if \<not> ok then Inr (False, s)
                   else
                     bindE (finalize_process_context process pd_phys s) (\<lambda>s. Inr (True, s)))))))))))"

section \<open>Processes\<close>

text \<open>The zeroed block \<^verbatim>\<open>kcalloc\<close> returns, as a process.\<close>

definition zero_process :: process where
  "zero_process =
    \<lparr>p_pid = 0, p_ppid = 0, p_main_thread = 0, p_state = KPROCESS_ALIVE, p_name = [],
     p_fds = replicate 32 0, p_page_directory = 0, p_page_directory_phys = 0\<rparr>"

definition kprocess_set_name :: "string option \<Rightarrow> u32 \<Rightarrow> 'z kernel_state_scheme \<Rightarrow> 'z kernel_state_scheme kres" where
  "kprocess_set_name name process s =
    (case name of
       None \<Rightarrow> Inr s
     | Some nm \<Rightarrow>
         if process = 0 then Inr s
         else
           bindE (rd_process process s) (\<lambda>p.
           if length nm < 32 then Inr (wr_obj process (Process (p\<lparr>p_name := nm\<rparr>)) s) else Inl Overrun))"

definition kprocess_attach_std_streams :: "u32 \<Rightarrow> 'z kernel_state_scheme \<Rightarrow> 'z kernel_state_scheme kres" where
  "kprocess_attach_std_streams process s =
    (if process = 0 then Inr s
     else
       bindE (kfd_open_for_process process (Some ''/dev/stdin'') KVFS_O_RDONLY 0 s) (\<lambda>(fd_stdin, s).
       if fd_stdin \<noteq> 0 then
         Inr (klog_put ''process_manager: failed to open /dev/stdin for a process while creation'' s)
       else
         bindE (kfd_open_for_process process (Some ''/dev/stdout'') KVFS_O_WRONLY 0 s) (\<lambda>(fd_stdout, s).
         if fd_stdout \<noteq> 1 then
           Inr (klog_put ''process_manager: failed to open /dev/stdout for a process while creation'' s)
         else
           bindE (kfd_open_for_process process (Some ''/dev/stderr'') KVFS_O_WRONLY 0 s) (\<lambda>(fd_stderr, s).
           if fd_stderr \<noteq> 2 then
             Inr (klog_put ''process_manager: failed to open /dev/stderr for a process while creation'' s)
           else Inr s))))"

text \<open>\<^verbatim>\<open>ktask_current->_process->_pid\<close>.\<close>

definition current_pid :: "'z kernel_state_scheme \<Rightarrow> u32 kres" where
  "current_pid s =
    bindE (rd_task (ktask_current s) s) (\<lambda>t. bindE (rd_process (t_process t) s) (\<lambda>p. Inr (p_pid p)))"

text \<open>The assignments that bind a task and a process together; the pid counter advances.\<close>

definition link_process ::
    "u32 \<Rightarrow> u32 \<Rightarrow> u32 \<Rightarrow> u32 \<Rightarrow> u32 \<Rightarrow> 'z kernel_state_scheme \<Rightarrow> 'z kernel_state_scheme kres" where
  "link_process process task ppid page_directory page_directory_phys s =
    bindE (rd_task task s) (\<lambda>t.
    let s = wr_obj task (Task (t\<lparr>t_process := process\<rparr>)) s in
    bindE (rd_process process s) (\<lambda>p.
    Inr (wr_obj process (Process (p\<lparr>p_main_thread := task, p_pid := kprocess_pid_current s, p_ppid := ppid,
           p_state := KPROCESS_ALIVE, p_page_directory := page_directory,
           p_page_directory_phys := page_directory_phys\<rparr>))
         (s\<lparr>kprocess_pid_current := kprocess_pid_current s + 1\<rparr>))))"

definition kprocess_create ::
    "u32 \<Rightarrow> u32 \<Rightarrow> u32 \<Rightarrow> 'z kernel_state_scheme \<Rightarrow> (u32 \<times> 'z kernel_state_scheme) kres" where
  "kprocess_create stubs syscall entry s =
    (if entry = 0 then Inr (0, s)
     else
       bindE (cnew_obj sizeof_process (Process zero_process) s) (\<lambda>(process, s).
       if process = 0 then Inr (0, s)
       else
         bindE (ktask_create stubs entry s) (\<lambda>(task, s).
         if task = 0 then Inr (0, s)
         else
           bindE (current_pid s) (\<lambda>ppid.
           bindE (link_process process task ppid 0 0 s) (\<lambda>s.
           bindE (kprocess_create_user stubs syscall process entry s) (\<lambda>(ok, s).
           if \<not> ok then bindE (free_obj process s) (\<lambda>s. Inr (0, s))
           else bindE (kprocess_attach_std_streams process s) (\<lambda>s. Inr (process, s))))))))"

definition kprocess_create_kernel ::
    "u32 \<Rightarrow> u32 \<Rightarrow> 'z kernel_state_scheme \<Rightarrow> (u32 \<times> 'z kernel_state_scheme) kres" where
  "kprocess_create_kernel stubs entry s =
    (if entry = 0 then Inr (0, s)
     else
       bindE (cnew_obj sizeof_process (Process zero_process) s) (\<lambda>(process, s).
       if process = 0 then Inr (0, s)
       else
         bindE (ktask_create stubs entry s) (\<lambda>(task, s).
         if task = 0 then Inr (0, s)
         else
           bindE (if ktask_current s \<noteq> 0 then current_pid s else Inr 0) (\<lambda>ppid.
           bindE (link_process process task ppid (kvmm_page_directory s) (VIRT_TO_PHYS (kvmm_page_directory s)) s) (\<lambda>s.
           bindE (kprocess_attach_std_streams process s) (\<lambda>s. Inr (process, s)))))))"

definition kprocess_kernel_init ::
    "u32 \<Rightarrow> u32 \<Rightarrow> 'z kernel_state_scheme \<Rightarrow> (u32 \<times> 'z kernel_state_scheme) kres" where
  "kprocess_kernel_init stubs kernel_entry s =
    bindE (cnew_obj sizeof_process (Process zero_process) s) (\<lambda>(kernel_process, s).
    if kernel_process = 0 then Inl Panic
    else
      bindE (ktask_create stubs kernel_entry s) (\<lambda>(task, s).
      bindE (rd_task task s) (\<lambda>t.
      let s = wr_obj task (Task (t\<lparr>t_process := kernel_process\<rparr>)) s in
      bindE (rd_process kernel_process s) (\<lambda>p.
      let s = wr_obj kernel_process (Process (p\<lparr>p_pid := 0, p_ppid := 0, p_state := KPROCESS_ALIVE,
                p_main_thread := task, p_page_directory := kvmm_page_directory s,
                p_page_directory_phys := VIRT_TO_PHYS (kvmm_page_directory s)\<rparr>)) s in
      bindE (kprocess_set_name (Some ''ksystem'') kernel_process s) (\<lambda>s.
      let s = s\<lparr>kprocess_pid_current := 1\<rparr> in
      bindE (kprocess_attach_std_streams kernel_process s) (\<lambda>s. Inr (kernel_process, s)))))))"

text \<open>\<^verbatim>\<open>src/kernel/shell/shell.c\<close>: the process of the shell.\<close>

definition kprocess_shell_init ::
    "u32 \<Rightarrow> u32 \<Rightarrow> 'z kernel_state_scheme \<Rightarrow> (u32 \<times> 'z kernel_state_scheme) kres" where
  "kprocess_shell_init stubs shell_entry s =
    bindE (kprocess_create_kernel stubs shell_entry s) (\<lambda>(shell_process, s).
    if shell_process = 0 then Inr (0, s)
    else bindE (kprocess_set_name (Some ''kshell'') shell_process s) (\<lambda>s. Inr (shell_process, s)))"

end
