(* ===== verification/Syscall.thy ===== *)
theory Syscall
  imports Process
begin

text \<open>
  The system calls (\<^verbatim>\<open>src/kernel/sys/syscall\<close>) and their dispatcher (\<^verbatim>\<open>src/kernel/interruption/isr/isr_syscall.c\<close>).
  A path argument is the address of a string in memory, a stat argument the address of a
  \<^verbatim>\<open>vfs_stat_t\<close>. \<^verbatim>\<open>ksys_exit\<close> does not come back: \<open>Waits\<close> is the state in which the processor halts
  until the timer switches to another task.
\<close>

section \<open>Arguments\<close>

definition path_arg :: "u32 \<Rightarrow> 'z heap_state_scheme \<Rightarrow> string option kres" where
  "path_arg a s = (if a = 0 then Inr None else bindE (returned (read_string a [] s)) (\<lambda>p. Inr (Some p)))"

text \<open>The stores of \<^verbatim>\<open>kvfs_stat_copy\<close> to a structure in memory.\<close>

definition wr64 :: "u32 \<Rightarrow> u64 \<Rightarrow> 'z heap_state_scheme \<Rightarrow> 'z heap_state_scheme kres" where
  "wr64 a x s = bindE (wr32 a (ucast x) s) (wr32 (a + 4) (ucast (drop_bit 32 x)))"

definition wr_stat :: "u32 \<Rightarrow> vfs_stat \<Rightarrow> 'z heap_state_scheme \<Rightarrow> 'z heap_state_scheme kres" where
  "wr_stat a st s =
    bindE (wr64 (a + 16) (st_atime st) s) (\<lambda>s.
    bindE (wr64 (a + 32) (st_ctime st) s) (\<lambda>s.
    bindE (wr64 (a + 24) (st_mtime st) s) (\<lambda>s.
    bindE (wr32 a (st_mode st) s) (\<lambda>s.
    bindE (wr32 (a + 4) (st_nlink st) s) (\<lambda>s.
    bindE (wr64 (a + 8) (st_size st) s) (\<lambda>s.
    bindE (wr32 (a + 40) (st_uid st) s) (wr32 (a + 44) (st_gid st))))))))"

definition stat_arg :: "u32 \<Rightarrow> vfs_stat option" where
  "stat_arg a = (if a = 0 then None else Some stat_zero)"

definition ret_bool :: "bool \<Rightarrow> u32" where
  "ret_bool b = (if b then 1 else 0)"

section \<open>System calls\<close>

datatype sys_result = Result u32 | Waits

definition ksys_exit ::
    "u32 \<Rightarrow> u32 \<Rightarrow> u32 \<Rightarrow> u32 \<Rightarrow> u32 \<Rightarrow> 'z kernel_state_scheme \<Rightarrow> (sys_result \<times> 'z kernel_state_scheme) kres" where
  "ksys_exit a1 a2 a3 a4 a5 s = bindE (ktask_exit s) (\<lambda>s. Inr (Waits, s))"

definition ksys_open ::
    "u32 \<Rightarrow> u32 \<Rightarrow> u32 \<Rightarrow> u32 \<Rightarrow> u32 \<Rightarrow> 'z kernel_state_scheme \<Rightarrow> (sys_result \<times> 'z kernel_state_scheme) kres" where
  "ksys_open a1 a2 a3 a4 a5 s =
    bindE (path_arg a1 s) (\<lambda>path. bindE (kfd_open path a2 a3 s) (\<lambda>(fd, s). Inr (Result (word_of_int fd), s)))"

definition ksys_close ::
    "u32 \<Rightarrow> u32 \<Rightarrow> u32 \<Rightarrow> u32 \<Rightarrow> u32 \<Rightarrow> 'z kernel_state_scheme \<Rightarrow> (sys_result \<times> 'z kernel_state_scheme) kres" where
  "ksys_close a1 a2 a3 a4 a5 s = bindE (kfd_close (sint a1) s) (\<lambda>(ok, s). Inr (Result (ret_bool ok), s))"

definition ksys_chdir ::
    "u32 \<Rightarrow> u32 \<Rightarrow> u32 \<Rightarrow> u32 \<Rightarrow> u32 \<Rightarrow> 'z kernel_state_scheme \<Rightarrow> (sys_result \<times> 'z kernel_state_scheme) kres" where
  "ksys_chdir a1 a2 a3 a4 a5 s =
    bindE (path_arg a1 s) (\<lambda>path. bindE (kvfs_chdir path s) (\<lambda>(r, s). Inr (Result (word_of_int r), s)))"

definition ksys_mkdir ::
    "u32 \<Rightarrow> u32 \<Rightarrow> u32 \<Rightarrow> u32 \<Rightarrow> u32 \<Rightarrow> 'z kernel_state_scheme \<Rightarrow> (sys_result \<times> 'z kernel_state_scheme) kres" where
  "ksys_mkdir a1 a2 a3 a4 a5 s =
    bindE (path_arg a1 s) (\<lambda>path. bindE (kmkdir path s) (\<lambda>(r, s). Inr (Result (word_of_int r), s)))"

definition ksys_rmdir ::
    "u32 \<Rightarrow> u32 \<Rightarrow> u32 \<Rightarrow> u32 \<Rightarrow> u32 \<Rightarrow> 'z kernel_state_scheme \<Rightarrow> (sys_result \<times> 'z kernel_state_scheme) kres" where
  "ksys_rmdir a1 a2 a3 a4 a5 s =
    bindE (path_arg a1 s) (\<lambda>path. bindE (krmdir path s) (\<lambda>(r, s). Inr (Result (word_of_int r), s)))"

definition ksys_stat ::
    "u32 \<Rightarrow> u32 \<Rightarrow> u32 \<Rightarrow> u32 \<Rightarrow> u32 \<Rightarrow> 'z kernel_state_scheme \<Rightarrow> (sys_result \<times> 'z kernel_state_scheme) kres" where
  "ksys_stat a1 a2 a3 a4 a5 s =
    bindE (path_arg a1 s) (\<lambda>path.
    bindE (kstat path (stat_arg a2) s) (\<lambda>(r, st, s).
    bindE (if r = 0 then wr_stat a2 (the st) s else Inr s) (\<lambda>s. Inr (Result (word_of_int r), s))))"

definition ksys_fstat ::
    "u32 \<Rightarrow> u32 \<Rightarrow> u32 \<Rightarrow> u32 \<Rightarrow> u32 \<Rightarrow> 'z kernel_state_scheme \<Rightarrow> (sys_result \<times> 'z kernel_state_scheme) kres" where
  "ksys_fstat a1 a2 a3 a4 a5 s =
    bindE (kfd_stat (sint a1) (stat_arg a2) s) (\<lambda>(ok, st).
    bindE (if ok then wr_stat a2 (the st) s else Inr s) (\<lambda>s. Inr (Result (ret_bool ok), s)))"

definition ksys_unlink ::
    "u32 \<Rightarrow> u32 \<Rightarrow> u32 \<Rightarrow> u32 \<Rightarrow> u32 \<Rightarrow> 'z kernel_state_scheme \<Rightarrow> (sys_result \<times> 'z kernel_state_scheme) kres" where
  "ksys_unlink a1 a2 a3 a4 a5 s =
    bindE (path_arg a1 s) (\<lambda>path. bindE (kvfs_unlink path s) (\<lambda>(ok, s). Inr (Result (ret_bool ok), s)))"

definition ksys_write ::
    "u32 \<Rightarrow> u32 \<Rightarrow> u32 \<Rightarrow> u32 \<Rightarrow> u32 \<Rightarrow> 'z kernel_state_scheme \<Rightarrow> (sys_result \<times> 'z kernel_state_scheme) kres" where
  "ksys_write a1 a2 a3 a4 a5 s = bindE (kfd_write (sint a1) a2 a3 s) (\<lambda>(n, s). Inr (Result n, s))"

definition ksys_read ::
    "u32 \<Rightarrow> u32 \<Rightarrow> u32 \<Rightarrow> u32 \<Rightarrow> u32 \<Rightarrow> 'z kernel_state_scheme \<Rightarrow> (sys_result \<times> 'z kernel_state_scheme) kres" where
  "ksys_read a1 a2 a3 a4 a5 s = bindE (kfd_read (sint a1) a2 a3 s) (\<lambda>(n, s). Inr (Result n, s))"

section \<open>Dispatch\<close>

definition syscalls_array ::
    "(u32 \<Rightarrow> u32 \<Rightarrow> u32 \<Rightarrow> u32 \<Rightarrow> u32 \<Rightarrow> 'z kernel_state_scheme \<Rightarrow> (sys_result \<times> 'z kernel_state_scheme) kres) list" where
  "syscalls_array =
    [ksys_exit, ksys_open, ksys_close, ksys_chdir, ksys_mkdir, ksys_rmdir, ksys_stat, ksys_fstat,
     ksys_unlink, ksys_write, ksys_read]"

text \<open>
  \<^verbatim>\<open>isr_syscall\<close> up to the call and the store of its result: the registers then, \<open>None\<close> when the call does not come back. The
  number is not checked: one outside the table reads past its end.
\<close>

definition syscall_dispatch ::
    "isr_registers \<Rightarrow> 'z kernel_state_scheme \<Rightarrow> (isr_registers option \<times> 'z kernel_state_scheme) kres" where
  "syscall_dispatch r s =
    (let syscall_id = sint (r_eax r) in
     if syscall_id < 0 \<or> syscall_id \<ge> int (length (syscalls_array :: (u32 \<Rightarrow> u32 \<Rightarrow> u32 \<Rightarrow> u32 \<Rightarrow> u32 \<Rightarrow> 'z kernel_state_scheme \<Rightarrow> (sys_result \<times> 'z kernel_state_scheme) kres) list))
     then Inl Overrun
     else
       bindE ((syscalls_array ! nat syscall_id) (r_ebx r) (r_ecx r) (r_edx r) (r_esi r) (r_edi r) s)
         (\<lambda>(res, s). Inr (case res of Result x \<Rightarrow> Some (r\<lparr>r_eax := x\<rparr>) | Waits \<Rightarrow> None, s)))"

text \<open>
  The whole handler. Behind the store stands \<^verbatim>\<open>__builtin_unreachable()\<close>: the code declares that it is never reached, so a
  call that comes back has no defined continuation. The handler returns only for \<^verbatim>\<open>NULL\<close>; with \<open>Waits\<close> the processor halts in
  the call.
\<close>

datatype syscall_end = Handler_returns | Handler_waits

definition isr_syscall ::
    "isr_registers option \<Rightarrow> 'z kernel_state_scheme \<Rightarrow> (syscall_end \<times> 'z kernel_state_scheme) kres" where
  "isr_syscall regs s =
    (case regs of
       None \<Rightarrow> Inr (Handler_returns, s)
     | Some r \<Rightarrow>
         bindE (syscall_dispatch r s) (\<lambda>(r, s).
         case r of Some _ \<Rightarrow> Inl Undefined | None \<Rightarrow> Inr (Handler_waits, s)))"

end
