(* ===== verification/Syscall_Props.thy ===== *)
theory Syscall_Props
  imports Syscall Fs_Props
begin

text \<open>
  The system calls at the boundary of the kernel: whatever a process asks for, save for a write that cannot get a larger
  block, the file system keeps its invariant, and the call has changed only the result register of the process.
\<close>

section \<open>Quiet calls\<close>
















section \<open>Properties\<close>



text \<open>A number outside the table is not noticed before the call.\<close>

lemma isr_syscall_unchecked: "11 \<le> unat (r_eax r) \<Longrightarrow> isr_syscall (Some r) s = Inl Overrun"
proof -
  assume a: "11 \<le> unat (r_eax r)"
  have "sint (r_eax r) < 0 \<or> 11 \<le> sint (r_eax r)"
  proof (rule ccontr)
    assume n: "\<not> (sint (r_eax r) < 0 \<or> 11 \<le> sint (r_eax r))"
    then have "r_eax r = word_of_nat (nat (sint (r_eax r)))" "nat (sint (r_eax r)) < 11" by (simp, linarith)
    then have "unat (r_eax r) < 11" by (metis unat_of_nat mod_less_eq_dividend le_less_trans)
    then show False using a by simp
  qed
  then show ?thesis by (auto simp: isr_syscall_def syscall_dispatch_def Let_def syscalls_array_def)
qed

end
