(* ===== verification/Task_Props.thy ===== *)
theory Task_Props
  imports Process Fs_Props
begin

text \<open>
  A new task is ready to run: its context starts at the entry stub, and its stack holds a null return address below the address of
  the function it runs. The words of the stack are read back from the bytes that were stored.
\<close>

section \<open>Words in memory\<close>

text \<open>The bytes of a word, the lowest first.\<close>

definition word_stored :: "(u32 \<Rightarrow> u8) \<Rightarrow> u32 \<Rightarrow> u32 \<Rightarrow> u32 \<Rightarrow> u8" where
  "word_stored f a x = f(a := ucast x, a + 1 := ucast (drop_bit 8 x), a + 2 := ucast (drop_bit 16 x), a + 3 := ucast (drop_bit 24 x))"

lemma word_of_bytes:
  fixes x :: u32
  shows "ucast (ucast x :: u8) OR push_bit 8 (ucast (ucast (drop_bit 8 x) :: u8)) OR
    push_bit 16 (ucast (ucast (drop_bit 16 x) :: u8)) OR push_bit 24 (ucast (ucast (drop_bit 24 x) :: u8)) = x"
proof -
  have shift: "24 + (n - 24) = n" if "\<not> n - 16 < 8" for n :: nat using that by linarith
  show ?thesis by (rule bit_word_eqI) (auto simp: bit_simps, metis shift)
qed

lemma next_bytes:
  assumes "unat (a :: u32) + 4 \<le> 2 ^ 32"
  shows "unat (a + 1) = unat a + 1" "unat (a + 2) = unat a + 2" "unat (a + 3) = unat a + 3"
  using assms unat_offset [of a 1] unat_offset [of a 2] unat_offset [of a 3] by simp_all

text \<open>The four bytes of a word in a range of plain memory.\<close>

definition word_in :: "'z heap_state_scheme \<Rightarrow> u32 \<Rightarrow> bool" where
  "word_in s a \<longleftrightarrow> plain s a 4"

lemma word_in_access:
  assumes "word_in s a"
  shows "rd8 a (s\<lparr>mem := f\<rparr>) = Inr (f a)" "rd8 (a + 1) (s\<lparr>mem := f\<rparr>) = Inr (f (a + 1))"
    "rd8 (a + 2) (s\<lparr>mem := f\<rparr>) = Inr (f (a + 2))" "rd8 (a + 3) (s\<lparr>mem := f\<rparr>) = Inr (f (a + 3))"
    "wr8 a b (s\<lparr>mem := f\<rparr>) = Inr (s\<lparr>mem := f(a := b)\<rparr>)" "wr8 (a + 1) b (s\<lparr>mem := f\<rparr>) = Inr (s\<lparr>mem := f(a + 1 := b)\<rparr>)"
    "wr8 (a + 2) b (s\<lparr>mem := f\<rparr>) = Inr (s\<lparr>mem := f(a + 2 := b)\<rparr>)" "wr8 (a + 3) b (s\<lparr>mem := f\<rparr>) = Inr (s\<lparr>mem := f(a + 3 := b)\<rparr>)"
  using assms plain_access [of s a 4 0] plain_access [of s a 4 1] plain_access [of s a 4 2] plain_access [of s a 4 3]
  by (simp_all add: word_in_def)

lemma wr32_stores: "word_in s a \<Longrightarrow> wr32 a x (s\<lparr>mem := f\<rparr>) = Inr (s\<lparr>mem := word_stored f a x\<rparr>)"
  by (simp add: wr32_def word_stored_def word_in_access)

lemma rd32_stored: "word_in s a \<Longrightarrow> rd32 a (s\<lparr>mem := word_stored f a x\<rparr>) = Inr x"
  by (simp add: rd32_def word_stored_def word_in_access word_of_bytes)

text \<open>The word above another is read as before.\<close>

lemma rd32_above:
  assumes "word_in s a" "word_in s (a + 4)"
  shows "rd32 (a + 4) (s\<lparr>mem := word_stored f a x\<rparr>) = rd32 (a + 4) (s\<lparr>mem := f\<rparr>)"
  using word_in_access [OF assms(2)] by (simp add: rd32_def word_stored_def)

lemma plain_word:
  assumes "plain s a n" "i + 4 \<le> n"
  shows "word_in s (a + word_of_nat i)"
proof -
  have "unat (a + word_of_nat i) = unat a + i" using assms by (intro unat_offset) (simp add: plain_def)
  then show ?thesis using assms by (simp add: word_in_def plain_def)
qed

lemma rd8_wr_obj: "rd8 x (wr_obj p ob s) = rd8 x s"
proof -
  have hd: "hdrs (wr_obj p ob s) = hdrs s" by (simp add: wr_obj_def)
  have "header_at (wr_obj p ob s) x = header_at s x" unfolding header_at_def hd by (rule refl)
  moreover have "mmu_translate (wr_obj p ob s) x = mmu_translate s x"
    by (simp add: wr_obj_def mmu_translate_def pte_of_def pde_of_def pd_entry_def pt_entry_def)
  moreover have "mem (wr_obj p ob s) = mem s" by (simp add: wr_obj_def)
  ultimately show ?thesis by (simp add: rd8_def cong: option.case_cong)
qed

lemma rd32_wr_obj [simp]: "rd32 x (wr_obj p ob s) = rd32 x s"
  by (simp add: rd32_def rd8_wr_obj)

section \<open>Creation\<close>

definition fresh_context :: "u32 \<Rightarrow> u32 \<Rightarrow> isr_registers" where
  "fresh_context eip esp = zero_registers\<lparr>r_eip := eip, r_esp := esp, r_cs := KGDT_CODE_SELECTOR, r_eflags := 0x202,
     r_ds := KGDT_DATA_SELECTOR, r_es := KGDT_DATA_SELECTOR, r_fs := KGDT_DATA_SELECTOR, r_gs := KGDT_DATA_SELECTOR\<rparr>"

text \<open>The two stores to a block of memory for the stack.\<close>

lemma stack_stores:
  assumes "plain s p 2048"
  obtains f where "wr32 (p + 2044) entry s = Inr (s\<lparr>mem := f\<rparr>)"
    "wr32 (p + 2040) 0 (s\<lparr>mem := f\<rparr>) = Inr (s\<lparr>mem := word_stored f (p + 2040) 0\<rparr>)"
    "rd32 (p + 2040) (s\<lparr>mem := word_stored f (p + 2040) 0\<rparr>) = Inr 0"
    "rd32 (p + 2044) (s\<lparr>mem := word_stored f (p + 2040) 0\<rparr>) = Inr entry"
proof -
  have w: "word_in s (p + 2044)" "word_in s (p + 2040)"
    using plain_word [OF assms, of 2044] plain_word [OF assms, of 2040] by simp_all
  have e: "p + 2040 + 4 = p + 2044" by simp
  let ?f = "word_stored (mem s) (p + 2044) entry"
  have "wr32 (p + 2044) entry s = Inr (s\<lparr>mem := ?f\<rparr>)" using wr32_stores [OF w(1), of entry "mem s"] by simp
  moreover have "rd32 (p + 2044) (s\<lparr>mem := word_stored ?f (p + 2040) 0\<rparr>) = Inr entry"
    using rd32_above [OF w(2), unfolded e, OF w(1)] rd32_stored [OF w(1)] by simp
  ultimately show ?thesis using that wr32_stores [OF w(2)] rd32_stored [OF w(2)] by blast
qed

text \<open>The two blocks of a task.\<close>

lemma task_blocks:
  assumes inv: "obj_inv s" and room: "room 2 s"
  obtains task u stk v m where "kcalloc sizeof_task s = Inr (task, u)" "task \<noteq> 0" "task \<notin> held s"
    "kmalloc KERNEL_PROCESS_STACK_SIZE u = Inr (stk, v)" "stk \<noteq> 0" "stk \<notin> held s" "stk \<noteq> task"
    "obj_inv v" "objs v = objs s" "task \<in> held v" "(stk, m) \<in> live_blocks v" "2048 \<le> m" "plain v stk 2048"
proof -
  have small: "small_request 88" "small_request 2048" by (simp_all add: small_request_def)
  note h = small_heap_request [OF inv small(1)]
  have room1: "room (Suc 1) s" using room by (simp add: numeral_2_eq_2)
  obtain task s1 where a: "kmalloc 88 s = Inr (task, s1)" "task \<noteq> 0" "room 1 s1"
    using kmalloc_room [OF _ h, of 1] inv room1 by (auto simp: obj_inv_def)
  define u where "u = s1\<lparr>mem := filled (mem s) task 0 (unat (ALIGN_UP 88 8 :: u32))\<rparr>"
  have u: "kcalloc 88 s = Inr (task, u)" using kcalloc_block [OF _ h a(1,2)] inv by (simp add: u_def obj_inv_def)
  have cu: "obj_inv u" "objs u = objs s" "task \<notin> held s" "\<exists>m. live_blocks u = insert (task, m) (live_blocks s)"
    using kcalloc_store(2) [OF inv small(1) u] a(2) by auto
  have hu: "held u = insert task (held s)" using cu(4) by (auto simp: held_def)
  have ru: "room (Suc 0) u" using a(3) by (simp add: u_def room_def free_pages_def)
  obtain stk v where b: "kmalloc 2048 u = Inr (stk, v)" "stk \<noteq> 0"
    using kmalloc_room [OF _ small_heap_request [OF cu(1) small(2)] _ ru] cu(1) by (auto simp: obj_inv_def)
  note bs = kmalloc_store [OF cu(1) small(2) b(1)]
  obtain m where m: "2048 \<le> m" "live_blocks v = insert (stk, m) (live_blocks u)" using bs(4) b(2) by auto
  have "plain v stk 2048"
    using plain_prefix [OF block_plain [of v stk m] m(1)] bs(1) m(2) by (simp add: obj_inv_def)
  then show ?thesis
    using that [of task u stk v m] u a(2) cu(2,3) b bs(1,2,3) hu m
    by (auto simp: sizeof_task_def KERNEL_PROCESS_STACK_SIZE_def held_def)
qed

text \<open>
  C38. A new task is ready to run: if two pages are left for the heap, a task with an entry is created in blocks of its own, no
  other structure changes, and the context the scheduler will load starts at the entry stub with a stack on which the function
  of the task is found above a null return address.
\<close>

theorem ktask_create_ready:
  fixes s :: "'z kernel_state_scheme"
  assumes inv: "obj_inv s" and room: "room 2 s" and entry: "entry \<noteq> 0"
  shows "\<exists>task stk m s'. ktask_create stubs entry s = Inr (task, s') \<and> obj_inv s' \<and> task \<noteq> 0 \<and> task \<notin> held s \<and>
     objs s' = (objs s)(task \<mapsto> Task \<lparr>t_ctx = fresh_context stubs (stk + 2040), t_stack_ptr = stk, t_stack_size = 2048,
                                       t_state = KTASK_IDLE, t_next = 0, t_process = 0\<rparr>) \<and>
     stk \<notin> held s \<and> stk \<noteq> task \<and> (stk, m) \<in> live_blocks s' \<and> 2048 \<le> m \<and>
     rd32 (stk + 2040) s' = Inr 0 \<and> rd32 (stk + 2044) s' = Inr entry"
proof -
  obtain task u stk v m where b: "kcalloc sizeof_task s = Inr (task, u)" "task \<noteq> 0" "task \<notin> held s"
    "kmalloc KERNEL_PROCESS_STACK_SIZE u = Inr (stk, v)" "stk \<noteq> 0" "stk \<notin> held s" "stk \<noteq> task"
    "obj_inv v" "objs v = objs s" "task \<in> held v" "(stk, m) \<in> live_blocks v" "2048 \<le> m" "plain v stk 2048"
    by (rule task_blocks [OF inv room])
  obtain f where f: "wr32 (stk + 2044) entry v = Inr (v\<lparr>mem := f\<rparr>)"
    "wr32 (stk + 2040) 0 (v\<lparr>mem := f\<rparr>) = Inr (v\<lparr>mem := word_stored f (stk + 2040) 0\<rparr>)"
    "rd32 (stk + 2040) (v\<lparr>mem := word_stored f (stk + 2040) 0\<rparr>) = Inr 0"
    "rd32 (stk + 2044) (v\<lparr>mem := word_stored f (stk + 2040) 0\<rparr>) = Inr entry"
    by (rule stack_stores [OF b(13)])
  let ?w = "v\<lparr>mem := word_stored f (stk + 2040) 0\<rparr>"
  let ?t = "\<lparr>t_ctx = fresh_context stubs (stk + 2040), t_stack_ptr = stk, t_stack_size = 2048,
              t_state = KTASK_IDLE, t_next = 0, t_process = 0\<rparr>"
  have run: "ktask_create stubs entry s = Inr (task, wr_obj task (Task ?t) ?w)"
    using b(1-4) f(1,2) [unfolded add.commute [of stk]] entry
    by (simp add: ktask_create_def Let_def fresh_context_def KERNEL_PROCESS_STACK_SIZE_def add.commute [of stk])
  note w = wr_obj_store [of ?w task "Task ?t"]
  show ?thesis
    using run w b f by (intro exI [of _ task] exI [of _ stk] exI [of _ m] exI [of _ "wr_obj task (Task ?t) ?w"]) simp
qed

theorem ktask_create_ready_witness:
  "\<exists>(s :: kernel_state) task s' sp. ktask_create 0xC0101000 0xC0102000 s = Inr (task, s') \<and>
     rd32 sp s' = Inr 0 \<and> rd32 (sp + 4) s' = Inr 0xC0102000"
proof -
  obtain s :: kernel_state where s: "kernel_ready s" "obj_inv s" "objs s = Map.empty" "live_blocks s = {}" "room 30 s"
      "kernel_heap_limit s = 0xD0064000" by (rule kernel_ready_exists)
  have room: "room 2 s" using room_less [OF s(5)] by simp
  obtain task stk s' where "ktask_create 0xC0101000 0xC0102000 s = Inr (task, s')"
      "rd32 (stk + 2040) s' = Inr 0" "rd32 (stk + 2044) s' = Inr 0xC0102000"
    using ktask_create_ready [OF s(2) room, where entry = "0xC0102000" and stubs = "0xC0101000"] by auto
  then show ?thesis by (intro exI [of _ s] exI [of _ task] exI [of _ s'] exI [of _ "stk + 2040"]) (simp add: algebra_simps)
qed

end
