(* ===== verification/Shell_Parse.thy ===== *)
theory Shell_Parse
  imports Kstring
begin

text \<open>
  The parser of the shell (\<^verbatim>\<open>src/kernel/shell/parser/arguments.c\<close>): counting the words of a line, replacing the blanks
  behind them by terminators in place, and collecting their addresses in \<^verbatim>\<open>argv\<close>. The line is bytes of memory; the array
  \<^verbatim>\<open>argv\<close> is the list of its entries, and a store behind its end is an \<open>Overrun\<close>.
\<close>

section \<open>Operations\<close>

definition SHELL_ARGV_MAX_COUNT :: nat where "SHELL_ARGV_MAX_COUNT = 16"

definition kshell_parse_is_delimiter :: "u8 \<Rightarrow> bool" where
  "kshell_parse_is_delimiter c \<longleftrightarrow> c = 0x09 \<or> c = 0x0A \<or> c = 0x20"

text \<open>The two inner loops of \<^verbatim>\<open>kshell_parse_formatting_buffer\<close>; \<open>p\<close> is \<^verbatim>\<open>&buffer[i]\<close>.\<close>

partial_function (option) skip_word :: "u32 \<Rightarrow> 'z heap_state_scheme \<Rightarrow> u32 kres option" where
  "skip_word p s =
    (case rd8 p s of
       Inl e \<Rightarrow> Some (Inl e)
     | Inr c \<Rightarrow> if \<not> kshell_parse_is_delimiter c \<and> c \<noteq> 0 then skip_word (p + 1) s else Some (Inr p))"

partial_function (option) count_delimiters :: "u32 \<Rightarrow> u32 \<Rightarrow> 'z heap_state_scheme \<Rightarrow> u32 kres option" where
  "count_delimiters p jump_tmp s =
    (case rd8 (p + 1 + jump_tmp) s of
       Inl e \<Rightarrow> Some (Inl e)
     | Inr c \<Rightarrow> if kshell_parse_is_delimiter c then count_delimiters p (jump_tmp + 1) s else Some (Inr jump_tmp))"

text \<open>One round of the outer loop behind the word: the address it goes on from is that of the terminator it stored.\<close>

definition format_word :: "u32 \<Rightarrow> u32 \<Rightarrow> 'z heap_state_scheme \<Rightarrow> (u32 \<times> u32 \<times> 'z heap_state_scheme) kres" where
  "format_word p jump_tmp s =
    bindE (returned (skip_word p s)) (\<lambda>p.
    bindE (wr8 p 0 s) (\<lambda>s.
    bindE (returned (count_delimiters p jump_tmp s)) (\<lambda>jump_tmp.
    bindE (kstrlen (p + 1 + jump_tmp) s) (\<lambda>len.
    bindE (kmemmove (p + 1) (p + 1 + jump_tmp) (len + 1) s) (\<lambda>(_, s).
    Inr (p, jump_tmp, s))))))"

partial_function (option) format_loop ::
    "u32 \<Rightarrow> u32 \<Rightarrow> 'z heap_state_scheme \<Rightarrow> 'z heap_state_scheme kres option" where
  "format_loop p jump_tmp s =
    (case rd8 p s of
       Inl e \<Rightarrow> Some (Inl e)
     | Inr c \<Rightarrow>
         if c = 0 then Some (Inr s)
         else
           (case format_word p jump_tmp s of
              Inl e \<Rightarrow> Some (Inl e)
            | Inr (p, jump_tmp, s) \<Rightarrow> format_loop (p + 1) jump_tmp s))"

definition kshell_parse_formatting_buffer :: "u32 \<Rightarrow> 'z heap_state_scheme \<Rightarrow> 'z heap_state_scheme kres" where
  "kshell_parse_formatting_buffer buffer s = (if buffer = 0 then Inr s else returned (format_loop buffer 0 s))"

partial_function (option) skip_delimiters :: "u32 \<Rightarrow> 'z heap_state_scheme \<Rightarrow> u32 kres option" where
  "skip_delimiters p s =
    (case rd8 p s of
       Inl e \<Rightarrow> Some (Inl e)
     | Inr c \<Rightarrow> if kshell_parse_is_delimiter c then skip_delimiters (p + 1) s else Some (Inr p))"

partial_function (option) argc_loop :: "u32 \<Rightarrow> bool \<Rightarrow> u32 \<Rightarrow> 'z heap_state_scheme \<Rightarrow> u32 kres option" where
  "argc_loop buffer in_a_word argc_value s =
    (case rd8 buffer s of
       Inl e \<Rightarrow> Some (Inl e)
     | Inr c \<Rightarrow>
         if c = 0 then Some (Inr argc_value)
         else
           (case returned (skip_delimiters buffer s) of
              Inl e \<Rightarrow> Some (Inl e)
            | Inr p \<Rightarrow>
                (case rd8 p s of
                   Inl e \<Rightarrow> Some (Inl e)
                 | Inr d \<Rightarrow>
                     if \<not> (in_a_word \<and> p = buffer) \<and> d \<noteq> 0 then argc_loop (p + 1) True (argc_value + 1) s
                     else argc_loop (p + 1) (in_a_word \<and> p = buffer) argc_value s)))"

definition kshell_parse_get_argc :: "u32 \<Rightarrow> 'z heap_state_scheme \<Rightarrow> u32 kres" where
  "kshell_parse_get_argc buffer s = (if buffer = 0 then Inr 0 else returned (argc_loop buffer False 0 s))"

partial_function (option) argv_loop ::
    "u32 \<Rightarrow> nat \<Rightarrow> u32 list \<Rightarrow> 'z heap_state_scheme \<Rightarrow> u32 list kres option" where
  "argv_loop buffer index argv s =
    (case rd8 buffer s of
       Inl e \<Rightarrow> Some (Inl e)
     | Inr c \<Rightarrow>
         if c = 0 then Some (Inr argv)
         else if index \<ge> length argv then Some (Inl Overrun)
         else
           (case kstrlen buffer s of
              Inl e \<Rightarrow> Some (Inl e)
            | Inr len \<Rightarrow> argv_loop (buffer + (len + 1)) (index + 1) (argv[index := buffer]) s))"

definition kshell_parse_get_argv :: "u32 \<Rightarrow> u32 list \<Rightarrow> 'z heap_state_scheme \<Rightarrow> u32 list kres" where
  "kshell_parse_get_argv buffer argv s = (if buffer = 0 then Inr argv else returned (argv_loop buffer 0 argv s))"

section \<open>Lines of words\<close>

definition is_word :: "u8 list \<Rightarrow> bool" where
  "is_word w \<longleftrightarrow> w \<noteq> [] \<and> (\<forall>c \<in> set w. c \<noteq> 0 \<and> \<not> kshell_parse_is_delimiter c)"

text \<open>A line with one blank behind every word but the last, and the same line with a terminator behind each.\<close>

fun line_of :: "u8 list list \<Rightarrow> u8 list" where
  "line_of [] = []"
| "line_of [w] = w"
| "line_of (w # v # ws) = w @ 0x20 # line_of (v # ws)"

definition stored :: "u8 list list \<Rightarrow> u8 list" where
  "stored ws = concat (map (\<lambda>w. w @ [0]) ws)"

fun starts :: "u32 \<Rightarrow> u8 list list \<Rightarrow> u32 list" where
  "starts p [] = []"
| "starts p (w # ws) = p # starts (p + (word_of_nat (length w) + 1)) ws"

section \<open>Bytes at an address\<close>

definition bytes :: "'z heap_state_scheme \<Rightarrow> u32 \<Rightarrow> u8 list \<Rightarrow> bool" where
  "bytes s p xs \<longleftrightarrow> plain s p (length xs) \<and> (\<forall>i < length xs. mem s (p + word_of_nat i) = xs ! i)"

lemma bytes_plain: "bytes s p xs \<Longrightarrow> plain s p (length xs)"
  by (simp add: bytes_def)

lemma plain_shift:
  assumes "plain s p (m + n)" "n \<noteq> 0"
  shows "plain s (p + word_of_nat m) n" "unat (p + word_of_nat m) = unat p + m"
proof -
  show u: "unat (p + word_of_nat m) = unat p + m" using assms by (intro unat_offset) (simp add: plain_def)
  show "plain s (p + word_of_nat m) n" using assms(1) unfolding plain_def u by auto
qed

lemma plain_less: "plain s p n \<Longrightarrow> m \<le> n \<Longrightarrow> plain s p m"
  unfolding plain_def by force

lemma bytes_split:
  assumes "bytes s p (xs @ ys)"
  shows "bytes s p xs" "ys \<noteq> [] \<Longrightarrow> bytes s (p + word_of_nat (length xs)) ys"
proof -
  have pl: "plain s p (length xs + length ys)" and at: "\<forall>i < length xs + length ys. mem s (p + word_of_nat i) = (xs @ ys) ! i"
    using assms by (simp_all add: bytes_def)
  show "bytes s p xs" unfolding bytes_def using plain_less [OF pl] at by (simp add: nth_append)
  assume "ys \<noteq> []"
  then have "plain s (p + word_of_nat (length xs)) (length ys)" using plain_shift [OF pl] by simp
  moreover have "mem s (p + word_of_nat (length xs) + word_of_nat i) = ys ! i" if "i < length ys" for i
    using at [rule_format, of "length xs + i"] that by (simp add: nth_append add.assoc)
  ultimately show "bytes s (p + word_of_nat (length xs)) ys" by (simp add: bytes_def)
qed

lemma bytes_join:
  assumes "bytes s p xs" "bytes s (p + word_of_nat (length xs)) ys" "unat p + length xs + length ys \<le> 2 ^ 32"
  shows "bytes s p (xs @ ys)"
proof -
  have px: "plain s p (length xs)" and py: "plain s (p + word_of_nat (length xs)) (length ys)"
    and ax: "\<And>i. i < length xs \<Longrightarrow> mem s (p + word_of_nat i) = xs ! i"
    and ay: "\<And>i. i < length ys \<Longrightarrow> mem s (p + word_of_nat (length xs) + word_of_nat i) = ys ! i"
    using assms(1,2) by (simp_all add: bytes_def)
  have "plain s p (length xs + length ys)"
  proof (cases "ys = []")
    case False
    then have "unat (p + word_of_nat (length xs)) = unat p + length xs"
      using assms(3) by (intro unat_offset) (cases ys; simp)
    then show ?thesis using px py assms(3) unfolding plain_def by (smt (verit) add.assoc not_le)
  qed (use px in simp)
  moreover have "mem s (p + word_of_nat i) = (xs @ ys) ! i" if "i < length xs + length ys" for i
    using ax [of i] ay [of "i - length xs"] that
    by (cases "i < length xs") (simp_all add: nth_append add.assoc flip: of_nat_add)
  ultimately show ?thesis by (simp add: bytes_def)
qed

lemma bytes_head:
  assumes "bytes s p (x # xs)"
  shows "rd8 p s = Inr x" "wr8 p b s = Inr (s\<lparr>mem := (mem s)(p := b)\<rparr>)" "mem s p = x"
    "xs \<noteq> [] \<Longrightarrow> bytes s (p + 1) xs" "unat p + Suc (length xs) \<le> 2 ^ 32"
proof -
  have pl: "plain s p (Suc (length xs))" using bytes_plain [OF assms] by simp
  show m: "mem s p = x" using assms unfolding bytes_def by force
  show "rd8 p s = Inr x" using plain_access(1) [OF pl, of 0 "mem s"] m by simp
  show "wr8 p b s = Inr (s\<lparr>mem := (mem s)(p := b)\<rparr>)" using plain_access(2) [OF pl, of 0 _ "mem s"] by simp
  show "xs \<noteq> [] \<Longrightarrow> bytes s (p + 1) xs" using bytes_split(2) [of s p "[x]" xs] assms by simp
  show "unat p + Suc (length xs) \<le> 2 ^ 32" using pl by (simp add: plain_def)
qed

lemma bytes_keep:
  assumes "bytes s p xs" "\<And>x. unat p \<le> unat x \<Longrightarrow> unat x < unat p + length xs \<Longrightarrow> f x = mem s x"
  shows "bytes (s\<lparr>mem := f\<rparr>) p xs"
proof -
  have "f (p + word_of_nat i) = xs ! i" if "i < length xs" for i
  proof -
    have "unat (p + word_of_nat i) = unat p + i" using assms(1) that by (intro unat_offset) (simp add: bytes_def plain_def)
    then show ?thesis using assms that by (simp add: bytes_def)
  qed
  then show ?thesis using assms(1) by (simp add: bytes_def mem_simps)
qed

lemma bytes_cstr: "bytes s p (w @ [0]) \<Longrightarrow> 0 \<notin> set w \<Longrightarrow> cstr s p w"
  by (auto simp: bytes_def cstr_def nth_append)

lemma bytes_kstrlen:
  assumes "bytes s p (w @ 0 # ys)" "0 \<notin> set w" "p \<noteq> 0"
  shows "kstrlen p s = Inr (word_of_nat (length w))"
proof -
  have "bytes s p ((w @ [0]) @ ys)" using assms(1) by simp
  from bytes_cstr [OF bytes_split(1) [OF this] assms(2)] show ?thesis
    using strlen_loop_cstr [of s p w 0] assms(3) by (simp add: kstrlen_def returned_def)
qed

section \<open>Words\<close>

lemma is_word_zero: "is_word w \<Longrightarrow> 0 \<notin> set w"
  by (auto simp: is_word_def)

lemma delimiter_zero [simp]: "\<not> kshell_parse_is_delimiter 0" "kshell_parse_is_delimiter 0x20"
  by (simp_all add: kshell_parse_is_delimiter_def)

lemma skip_word_bytes:
  assumes "bytes s p (w @ d # ys)" "\<forall>c \<in> set w. c \<noteq> 0 \<and> \<not> kshell_parse_is_delimiter c" "kshell_parse_is_delimiter d \<or> d = 0"
  shows "skip_word p s = Some (Inr (p + word_of_nat (length w)))"
  using assms
proof (induction w arbitrary: p)
  case Nil
  then show ?case using bytes_head(1) [of s p d ys] by (subst skip_word.simps) auto
next
  case (Cons c w)
  then have "bytes s (p + 1) (w @ d # ys)" using bytes_head(4) [of s p c "w @ d # ys"] by simp
  from Cons.IH [OF this] show ?case
    using Cons.prems bytes_head(1) [of s p c "w @ d # ys"] by (subst skip_word.simps) (simp add: ac_simps)
qed

lemma moved_same: "moved f p p lo hi = f"
  by (rule ext) (simp add: moved_def)

text \<open>
  A round of the formatting loop on a word whose blank is followed by the text \<open>v\<close>: the blank becomes a terminator and the
  move of the rest is onto itself.
\<close>

lemma format_word_bytes:
  assumes b: "bytes s p (w @ d # v @ 0 # ys)" and w: "is_word w" and d: "kshell_parse_is_delimiter d \<or> d = 0"
    and v: "0 \<notin> set v" "v \<noteq> [] \<Longrightarrow> \<not> kshell_parse_is_delimiter (hd v)"
  defines "q \<equiv> p + word_of_nat (length w)"
  shows "format_word p 0 s = Inr (q, 0, s\<lparr>mem := (mem s)(q := 0)\<rparr>)" "unat q = unat p + length w"
    "bytes (s\<lparr>mem := (mem s)(q := 0)\<rparr>) p (w @ [0])" "bytes (s\<lparr>mem := (mem s)(q := 0)\<rparr>) (q + 1) (v @ 0 # ys)" "q + 1 \<noteq> 0"
proof -
  let ?s = "s\<lparr>mem := (mem s)(q := 0)\<rparr>"
  have bq: "bytes s q (d # v @ 0 # ys)" using bytes_split(2) [OF b] by (simp add: q_def)
  note hd = bytes_head [OF bq]
  show u: "unat q = unat p + length w" unfolding q_def
    using bytes_plain [OF b] by (intro unat_offset) (simp add: plain_def)
  have u1: "unat (q + 1) = unat q + 1" using hd(5) unat_offset [of q 1] by simp
  then show q1: "q + 1 \<noteq> 0" by (metis add_is_0 one_neq_zero unat_0)
  have low: "bytes s p (w @ [d])" using bytes_split(1) [of s p "w @ [d]" "v @ 0 # ys"] b by simp
  have at: "mem ?s q = 0" by simp
  have "bytes ?s p w"
    by (rule bytes_keep) (use bytes_split(1) [OF low] u in \<open>auto simp: word_unat_eq_iff\<close>)
  moreover have "bytes ?s q [0]" using bytes_split(1) [of s q "[d]" "v @ 0 # ys"] bq by (simp add: bytes_def mem_simps)
  ultimately show "bytes ?s p (w @ [0])"
    using bytes_join [of ?s p w "[0]"] u hd(5) by (simp add: q_def)
  show bv: "bytes ?s (q + 1) (v @ 0 # ys)"
    by (rule bytes_keep) (use hd(4) u1 in \<open>auto simp: word_unat_eq_iff\<close>)
  obtain c cs where c: "v @ 0 # ys = c # cs" "\<not> kshell_parse_is_delimiter c" using v(2) by (cases v) auto
  have "count_delimiters q 0 ?s = Some (Inr 0)"
    using bytes_head(1) [OF bv [unfolded c(1)]] c(2) by (subst count_delimiters.simps) simp
  moreover have "kstrlen (q + 1) ?s = Inr (word_of_nat (length v))" by (rule bytes_kstrlen [OF bv v(1) q1])
  moreover have "kmemmove (q + 1) (q + 1) (word_of_nat (length v) + 1) ?s = Inr (q + 1, ?s)"
  proof -
    have pl: "plain ?s (q + 1) (length v + Suc (length ys))" using bytes_plain [OF bv] by simp
    then have "length v + 1 < 2 ^ 32" using q1 unat_eq_0 [of "q + 1"] by (simp add: plain_def)
    then have "unat (word_of_nat (length v) + 1 :: u32) = length v + 1"
      by (simp add: unat_word_ariths unat_of_nat)
    then have "plain ?s (q + 1) (unat (word_of_nat (length v) + 1 :: u32))" using plain_less [OF pl] by simp
    from kmemmove_plain [OF this this q1 q1] show ?thesis by (simp add: moved_same)
  qed
  ultimately show "format_word p 0 s = Inr (q, 0, ?s)"
    using skip_word_bytes [OF b] w d hd(2) by (simp add: format_word_def returned_def is_word_def q_def [symmetric])
qed

lemma line_of_head: "\<forall>w \<in> set (v # ws). is_word w \<Longrightarrow> line_of (v # ws) \<noteq> [] \<and> hd (line_of (v # ws)) = hd v"
  by (cases ws) (auto simp: is_word_def)

lemma line_of_zero: "\<forall>w \<in> set ws. is_word w \<Longrightarrow> 0 \<notin> set (line_of ws)"
  by (induction ws rule: line_of.induct) (auto simp: is_word_def)

lemma length_stored: "ws \<noteq> [] \<Longrightarrow> length (stored ws) = Suc (length (line_of ws))"
  by (induction ws rule: line_of.induct) (auto simp: stored_def)

section \<open>Parsing a line\<close>

lemma format_loop_step:
  assumes "bytes s p (w @ ys)" "is_word w" "format_word p 0 s = Inr (q, 0, s')"
  shows "format_loop p 0 s = format_loop (q + 1) 0 s'"
proof -
  obtain c cs where "w = c # cs" "c \<noteq> 0" using assms(2) by (cases w) (auto simp: is_word_def)
  then show ?thesis using bytes_head(1) [of s p c "cs @ ys"] assms(1,3) by (subst format_loop.simps) simp
qed

text \<open>
  Behind the terminator of a line the loop goes on until a terminator follows another. On words that are stored already, which
  are left there from an earlier line, it changes nothing.
\<close>

lemma stored_front:
  assumes "\<forall>w \<in> set vs. is_word w"
  obtains v ys where "stored vs @ [0] = v @ 0 # ys" "0 \<notin> set v" "v \<noteq> [] \<Longrightarrow> \<not> kshell_parse_is_delimiter (hd v)"
proof (cases vs)
  case Nil
  then show thesis using that [of "[]" "[]"] by (simp add: stored_def)
next
  case (Cons v vs')
  then show thesis using that [of v "stored vs' @ [0]"] assms is_word_zero [of v] by (simp add: stored_def is_word_def)
qed

lemma format_loop_stored:
  assumes "bytes s p (stored vs @ [0])" "\<forall>w \<in> set vs. is_word w"
  shows "format_loop p 0 s = Some (Inr s)"
  using assms
proof (induction vs arbitrary: p)
  case Nil
  then show ?case using bytes_head(1) [of s p 0 "[]"] by (subst format_loop.simps) (simp add: stored_def)
next
  case (Cons w vs)
  obtain v ys where v: "stored vs @ [0] = v @ 0 # ys" "0 \<notin> set v" "v \<noteq> [] \<Longrightarrow> \<not> kshell_parse_is_delimiter (hd v)"
    using stored_front [of vs] Cons.prems(2) by auto
  define q where "q = p + word_of_nat (length w)"
  have b: "bytes s p (w @ 0 # v @ 0 # ys)" and w: "is_word w" using Cons.prems v(1) by (simp_all add: stored_def)
  note r = format_word_bytes [OF b w _ v(2,3), folded q_def]
  have "mem s q = 0" using bytes_split(2) [OF b] bytes_head(3) [of s q 0 "v @ 0 # ys"] by (simp add: q_def)
  then have same: "s\<lparr>mem := (mem s)(q := 0)\<rparr> = s" by (simp add: fun_upd_idem)
  have "format_loop p 0 s = format_loop (q + 1) 0 s" using format_loop_step [OF b w] r(1) unfolding same by simp
  also have "\<dots> = Some (Inr s)" using Cons.IH [of "q + 1"] r(4) Cons.prems(2) unfolding same v(1) by simp
  finally show ?case .
qed

lemma format_loop_line:
  assumes "bytes s p (line_of ws @ 0 # stored vs @ [0])" "\<forall>w \<in> set (ws @ vs). is_word w" "ws \<noteq> []"
  shows "\<exists>f. format_loop p 0 s = Some (Inr (s\<lparr>mem := f\<rparr>)) \<and> bytes (s\<lparr>mem := f\<rparr>) p (stored (ws @ vs) @ [0]) \<and>
    (\<forall>x. f x \<noteq> mem s x \<longrightarrow> unat p \<le> unat x \<and> unat x < unat p + length (line_of ws))"
  using assms
proof (induction ws arbitrary: p s rule: line_of.induct)
  case 1
  then show ?case by simp
next
  case (2 w)
  then have b: "bytes s p (stored (w # vs) @ [0])" by (simp add: stored_def)
  then show ?case using format_loop_stored [OF b] "2.prems"(2) by (intro exI [of _ "mem s"]) simp
next
  case (3 w v ws)
  define q g where "q = p + word_of_nat (length w)" and "g = (mem s)(q := 0)"
  let ?l = "line_of (v # ws)" and ?s = "s\<lparr>mem := g\<rparr>" and ?r = "stored vs @ [0]"
  have b: "bytes s p (w @ 0x20 # ?l @ 0 # ?r)" and w: "is_word w" and ws: "\<forall>w \<in> set (v # ws). is_word w"
    and wv: "\<forall>w \<in> set ((v # ws) @ vs). is_word w" using "3.prems" by simp_all
  have l: "0 \<notin> set ?l" "\<not> kshell_parse_is_delimiter (hd ?l)"
    using line_of_zero [OF ws] line_of_head [OF ws] ws by (auto simp: is_word_def)
  note r = format_word_bytes [OF b w _ l(1), folded q_def, folded g_def, simplified l]
  have r: "format_word p 0 s = Inr (q, 0, ?s)" "unat q = unat p + length w" "bytes ?s p (w @ [0])" "bytes ?s (q + 1) (?l @ 0 # ?r)"
    "q + 1 \<noteq> 0" using r by simp_all
  have q1: "unat (q + 1) = unat p + length w + 1"
    using r(2) bytes_plain [OF b] unat_offset [of q 1] by (simp add: plain_def)
  obtain f where f: "format_loop (q + 1) 0 ?s = Some (Inr (?s\<lparr>mem := f\<rparr>))"
    "bytes (?s\<lparr>mem := f\<rparr>) (q + 1) (stored ((v # ws) @ vs) @ [0])"
    "\<forall>x. f x \<noteq> mem ?s x \<longrightarrow> unat (q + 1) \<le> unat x \<and> unat x < unat (q + 1) + length ?l"
    using "3.IH" [OF r(4) wv] by blast
  have low: "bytes (?s\<lparr>mem := f\<rparr>) p (w @ [0])"
    by (rule bytes_keep) (use r(3) f(3) q1 in \<open>fastforce+\<close>)
  have len: "length (stored ((v # ws) @ vs)) = Suc (length ?l) + length (stored vs)"
    using length_stored [of "v # ws"] by (simp add: stored_def)
  have fit: "unat p + (length w + 1) + length (stored ((v # ws) @ vs) @ [0]) \<le> 2 ^ 32"
    using bytes_plain [OF b] by (simp add: plain_def len del: append_Cons)
  have "bytes (?s\<lparr>mem := f\<rparr>) p ((w @ [0]) @ (stored ((v # ws) @ vs) @ [0]))"
    by (rule bytes_join) (use low f(2) fit in \<open>simp_all add: q_def ac_simps\<close>)
  moreover have "format_loop p 0 s = Some (Inr (s\<lparr>mem := f\<rparr>))"
    using format_loop_step [OF b w r(1)] f(1) by simp
  moreover have "f x \<noteq> mem s x \<longrightarrow> unat p \<le> unat x \<and> unat x < unat p + length (line_of (w # v # ws))" for x
  proof (cases "x = q")
    case False
    then have "g x = mem s x" by (simp add: g_def)
    then show ?thesis using f(3) [rule_format, of x] q1 by auto
  qed (use r(2) in simp)
  ultimately show ?case by (intro exI [of _ f]) (simp add: stored_def)
qed

text \<open>Counting: the loop is inside a word until it meets the blank behind it.\<close>

lemma skip_delimiters_none:
  "bytes s p (c # ys) \<Longrightarrow> \<not> kshell_parse_is_delimiter c \<Longrightarrow> skip_delimiters p s = Some (Inr p)"
  using bytes_head(1) [of s p c ys] by (subst skip_delimiters.simps) simp

lemma argc_in_word:
  assumes "bytes s p (w @ d # ys)" "\<forall>c \<in> set w. c \<noteq> 0 \<and> \<not> kshell_parse_is_delimiter c"
  shows "argc_loop p True n s = argc_loop (p + word_of_nat (length w)) True n s"
  using assms
proof (induction w arbitrary: p)
  case (Cons c w)
  have b: "bytes s p (c # w @ d # ys)" and b': "bytes s (p + 1) (w @ d # ys)"
    using Cons.prems(1) bytes_head(4) [of s p c "w @ d # ys"] by simp_all
  have "argc_loop p True n s = argc_loop (p + 1) True n s"
    using bytes_head(1) [OF b] skip_delimiters_none [OF b] Cons.prems(2)
    by (subst argc_loop.simps) (simp add: returned_def)
  then show ?case using Cons.IH [OF b'] Cons.prems(2) by (simp add: ac_simps)
qed simp

lemma argc_word:
  assumes "bytes s p (w @ d # ys)" "is_word w"
  shows "argc_loop p False n s = argc_loop (p + word_of_nat (length w)) True (n + 1) s"
proof -
  obtain c cs where w: "w = c # cs" "c \<noteq> 0" "\<not> kshell_parse_is_delimiter c" "\<forall>c \<in> set cs. c \<noteq> 0 \<and> \<not> kshell_parse_is_delimiter c"
    using assms(2) by (cases w) (auto simp: is_word_def)
  have b: "bytes s p (c # cs @ d # ys)" and b': "bytes s (p + 1) (cs @ d # ys)"
    using assms(1) w(1) bytes_head(4) [of s p c "cs @ d # ys"] by simp_all
  have "argc_loop p False n s = argc_loop (p + 1) True (n + 1) s"
    using bytes_head(1) [OF b] skip_delimiters_none [OF b] w(2,3) by (subst argc_loop.simps) (simp add: returned_def)
  then show ?thesis using argc_in_word [OF b' w(4)] w(1) by (simp add: ac_simps)
qed

text \<open>At a blank inside the line the loop is at the next word, without having left the one before.\<close>

lemma argc_blank:
  assumes "bytes s p (0x20 # c # ys)" "c \<noteq> 0" "\<not> kshell_parse_is_delimiter c"
  shows "argc_loop p True n s = argc_loop (p + 1) False n s"
proof -
  have b': "bytes s (p + 1) (c # ys)" using bytes_head(4) [OF assms(1)] by simp
  have sk: "skip_delimiters (p + 1) s = Some (Inr (p + 1))" by (rule skip_delimiters_none [OF b' assms(3)])
  then have "skip_delimiters p s = Some (Inr (p + 1))"
    using bytes_head(1) [OF assms(1)] by (subst skip_delimiters.simps) simp
  then have "argc_loop p True n s = argc_loop (p + 1 + 1) True (n + 1) s"
    using bytes_head(1) [OF assms(1)] bytes_head(1) [OF b'] assms(2) by (subst argc_loop.simps) (simp add: returned_def)
  also have "\<dots> = argc_loop (p + 1) False n s"
    using bytes_head(1) [OF b'] sk assms(2) by (subst (2) argc_loop.simps) (simp add: returned_def)
  finally show ?thesis .
qed

lemma argc_line:
  assumes "bytes s p (line_of ws @ [0])" "\<forall>w \<in> set ws. is_word w" "ws \<noteq> []"
  shows "argc_loop p False n s = Some (Inr (n + word_of_nat (length ws)))"
  using assms
proof (induction ws arbitrary: p n rule: line_of.induct)
  case (2 w)
  then have b: "bytes s p (w @ 0 # [])" and w: "is_word w" by simp_all
  have "bytes s (p + word_of_nat (length w)) [0]" using bytes_split(2) [OF b] by simp
  then show ?case using argc_word [OF b w] bytes_head(1) [of s "p + word_of_nat (length w)" 0 "[]"]
    by (simp add: argc_loop.simps [of _ True])
next
  case (3 w v ws)
  let ?q = "p + word_of_nat (length w)"
  have b: "bytes s p (w @ 0x20 # line_of (v # ws) @ [0])" and w: "is_word w" and ws: "\<forall>w \<in> set (v # ws). is_word w"
    using "3.prems" by simp_all
  obtain c cs where l: "line_of (v # ws) = c # cs" "c \<noteq> 0" "\<not> kshell_parse_is_delimiter c"
    using line_of_head [OF ws] ws by (cases "line_of (v # ws)") (auto simp: is_word_def)
  have bq: "bytes s ?q (0x20 # c # cs @ [0])" using bytes_split(2) [OF b] l(1) by simp
  then have "bytes s (?q + 1) (line_of (v # ws) @ [0])" using bytes_head(4) [OF bq] l(1) by simp
  from "3.IH" [OF this ws, of "n + 1"] show ?case
    using argc_word [OF b w] argc_blank [OF bq l(2,3)] by (simp add: ac_simps)
qed simp

text \<open>A blank at the end of the line makes the loop step over the terminator.\<close>

lemma argc_trailing_blank:
  assumes "bytes s p [0x20, 0]"
  shows "argc_loop p True n s = argc_loop (p + 2) False n s"
proof -
  have b': "bytes s (p + 1) [0]" using bytes_head(4) [OF assms] by simp
  have "skip_delimiters (p + 1) s = Some (Inr (p + 1))" by (rule skip_delimiters_none [OF b']) simp
  then have "skip_delimiters p s = Some (Inr (p + 1))"
    using bytes_head(1) [OF assms] by (subst skip_delimiters.simps) simp
  then show ?thesis using bytes_head(1) [OF assms] bytes_head(1) [OF b'] by (subst argc_loop.simps) (simp add: returned_def, simp only: add.commute)
qed

text \<open>Collecting the words of the formatted line.\<close>

lemma argv_line:
  assumes "bytes s p (stored ws @ [0])" "\<forall>w \<in> set ws. is_word w" "index + length ws \<le> length argv" "p \<noteq> 0"
  shows "argv_loop p index argv s = Some (Inr (take index argv @ starts p ws @ drop (index + length ws) argv))"
  using assms
proof (induction ws arbitrary: p index argv)
  case Nil
  then show ?case using bytes_head(1) [of s p 0 "[]"] by (subst argv_loop.simps) (simp add: stored_def)
next
  case (Cons w ws)
  let ?q = "p + (word_of_nat (length w) + 1)"
  have b: "bytes s p (w @ 0 # stored ws @ [0])" and w: "is_word w" using Cons.prems(1,2) by (simp_all add: stored_def)
  obtain c cs where c: "w = c # cs" "c \<noteq> 0" using w by (cases w) (auto simp: is_word_def)
  have b': "bytes s ?q (stored ws @ [0])"
    using bytes_split(2) [of s p "w @ [0]" "stored ws @ [0]"] b by (simp add: ac_simps)
  have "unat p + (length w + 1) < 2 ^ 32" using bytes_plain [OF b] by (simp add: plain_def)
  then have "unat ?q = unat p + (length w + 1)" using unat_offset [of p "length w + 1"] by (simp add: ac_simps)
  then have q0: "?q \<noteq> 0" by (metis add_is_0 one_neq_zero unat_0)
  have "argv_loop p index argv s = argv_loop ?q (index + 1) (argv[index := p]) s"
    using bytes_head(1) [of s p c "cs @ 0 # stored ws @ [0]"] bytes_kstrlen [OF b is_word_zero [OF w] Cons.prems(4)] b c Cons.prems(3)
    by (subst argv_loop.simps) simp
  also have "\<dots> = Some (Inr (take (index + 1) (argv[index := p]) @ starts ?q ws @ drop (index + 1 + length ws) (argv[index := p])))"
    by (rule Cons.IH [OF b']) (use Cons.prems q0 in auto)
  finally show ?case using Cons.prems(3) by (simp add: take_Suc_conv_app_nth [of index "argv[index := p]"])
qed

end
