(* ===== verification/Shell_Commands.thy ===== *)
theory Shell_Commands
  imports Syscall Scheduler Kformat
begin

text \<open>
  The commands of the shell (\<^verbatim>\<open>src/kernel/shell/commands\<close>) and the message macros they print with
  (\<^verbatim>\<open>include/utils/misc/print.h\<close>). A command gets \<^verbatim>\<open>argc\<close> and the entries of \<^verbatim>\<open>argv\<close>, addresses of strings in memory; reading
  an entry that is not there is an \<open>Overrun\<close>. It returns its exit code. A message whose format has only literal text and
  strings the model holds as lists is printed as that text.
\<close>

section \<open>Messages\<close>

definition VGA_TEXT_SUCCESS_COLOR :: u8 where "VGA_TEXT_SUCCESS_COLOR = 0x0A"
definition VGA_TEXT_ERROR_COLOR :: u8 where "VGA_TEXT_ERROR_COLOR = 0x0C"
definition VGA_TEXT_WARN_COLOR :: u8 where "VGA_TEXT_WARN_COLOR = 0x0E"
definition VGA_TEXT_INFO_COLOR :: u8 where "VGA_TEXT_INFO_COLOR = 0x03"
definition VGA_TEXT_DATE_COLOR :: u8 where "VGA_TEXT_DATE_COLOR = 0x07"

type_synonym 's printer = "'s \<Rightarrow> 's kres"

definition print_format :: "u8 \<Rightarrow> string \<Rightarrow> u32 list \<Rightarrow> 'z cpu_state_scheme printer" where
  "print_format color format va s = bindE (kprintf color (Some format) va s) (\<lambda>(_, s). Inr s)"

definition print_text :: "u8 \<Rightarrow> string \<Rightarrow> 'z cpu_state_scheme printer" where
  "print_text color text s = ktty_puts (Some (bytes_of text)) color s"

definition KPRINTF_DATE :: "'z cpu_state_scheme printer" where
  "KPRINTF_DATE s = print_format VGA_TEXT_DATE_COLOR ''[%05d.%02d] '' [seconds_count s, ticks_count s mod PIT_TARGET_FREQUENCY] s"

definition KPRINTF_LABEL :: "string \<Rightarrow> u8 \<Rightarrow> 'z cpu_state_scheme printer" where
  "KPRINTF_LABEL label color s =
    bindE (ktty_putc (of_char CHR ''['') VGA_TEXT_DEFAULT_COLOR s) (\<lambda>s.
    bindE (print_text VGA_TEXT_DEFAULT_COLOR '' '' s) (\<lambda>s.
    bindE (print_text color label s) (\<lambda>s.
    bindE (print_text VGA_TEXT_DEFAULT_COLOR '' '' s) (\<lambda>s.
    bindE (ktty_putc (of_char CHR '']'') VGA_TEXT_DEFAULT_COLOR s) (\<lambda>s.
    ktty_putc (of_char CHR '' '') VGA_TEXT_DEFAULT_COLOR s)))))"

definition message :: "string \<Rightarrow> u8 \<Rightarrow> 'z cpu_state_scheme printer \<Rightarrow> 'z cpu_state_scheme printer" where
  "message label color body s = bindE (KPRINTF_DATE s) (\<lambda>s. bindE (KPRINTF_LABEL label color s) body)"

definition message_line :: "string \<Rightarrow> u8 \<Rightarrow> u8 \<Rightarrow> 'z cpu_state_scheme printer \<Rightarrow> 'z cpu_state_scheme printer" where
  "message_line label color line_color body s =
    bindE (message label color body s) (ktty_putc (of_char CHR 0x0A) line_color)"

definition KPRINTFN_INFO :: "string \<Rightarrow> u32 list \<Rightarrow> 'z cpu_state_scheme printer" where
  "KPRINTFN_INFO format va = message ''INFO'' VGA_TEXT_INFO_COLOR (print_format VGA_TEXT_DEFAULT_COLOR format va)"

definition KPRINTF_INFO_with :: "'z cpu_state_scheme printer \<Rightarrow> 'z cpu_state_scheme printer" where
  "KPRINTF_INFO_with body = message_line ''INFO'' VGA_TEXT_INFO_COLOR VGA_TEXT_DEFAULT_COLOR body"

definition KPRINTF_INFO :: "string \<Rightarrow> u32 list \<Rightarrow> 'z cpu_state_scheme printer" where
  "KPRINTF_INFO format va = KPRINTF_INFO_with (print_format VGA_TEXT_DEFAULT_COLOR format va)"

definition KPRINTF_OK :: "string \<Rightarrow> u32 list \<Rightarrow> 'z cpu_state_scheme printer" where
  "KPRINTF_OK format va = message_line ''OK'' VGA_TEXT_SUCCESS_COLOR VGA_TEXT_DEFAULT_COLOR (print_format VGA_TEXT_DEFAULT_COLOR format va)"

definition KPRINTF_WARN :: "string \<Rightarrow> u32 list \<Rightarrow> 'z cpu_state_scheme printer" where
  "KPRINTF_WARN format va = message_line ''WARN'' VGA_TEXT_WARN_COLOR VGA_TEXT_DEFAULT_COLOR (print_format VGA_TEXT_DEFAULT_COLOR format va)"

definition KPRINTF_ERROR :: "string \<Rightarrow> u32 list \<Rightarrow> 'z cpu_state_scheme printer" where
  "KPRINTF_ERROR format va = message_line ''ERROR'' VGA_TEXT_ERROR_COLOR VGA_TEXT_ERROR_COLOR (print_format VGA_TEXT_ERROR_COLOR format va)"

section \<open>Arguments\<close>

definition arg :: "u32 list \<Rightarrow> nat \<Rightarrow> u32 kres" where
  "arg argv i = (if i < length argv then Inr (argv ! i) else Inl Overrun)"

definition str_at :: "u32 list \<Rightarrow> nat \<Rightarrow> 'z heap_state_scheme \<Rightarrow> string option kres" where
  "str_at argv i s = bindE (arg argv i) (\<lambda>a. path_arg a s)"

text \<open>\<^verbatim>\<open>kstrcmp(a, "...") == 0\<close>.\<close>

definition arg_is :: "u32 \<Rightarrow> string \<Rightarrow> 'z heap_state_scheme \<Rightarrow> bool kres" where
  "arg_is a lit s = bindE (path_arg a s) (\<lambda>p. Inr (p = Some lit))"

type_synonym 's outcome = "(u8 \<times> 's) kres"

text \<open>A message and the exit code \<^verbatim>\<open>OK_TRUE\<close>, which stands for a failure here.\<close>

definition fails_with :: "string \<Rightarrow> 'z cpu_state_scheme \<Rightarrow> 'z cpu_state_scheme outcome" where
  "fails_with msg s = bindE (KPRINTF_ERROR msg [] s) (\<lambda>s. Inr (1, s))"

section \<open>Files\<close>

definition close_with :: "int \<Rightarrow> u8 \<Rightarrow> 'z cpu_state_scheme \<Rightarrow> 'z cpu_state_scheme outcome" where
  "close_with fd result s = bindE (kfd_close fd s) (\<lambda>(_, s). Inr (result, s))"

definition kshell_cat :: "u32 \<Rightarrow> u32 list \<Rightarrow> 'z cpu_state_scheme \<Rightarrow> 'z cpu_state_scheme outcome" where
  "kshell_cat argc argv s =
    (if argc < 2 then fails_with ''usage: cat <path>'' s
     else
       bindE (str_at argv 1 s) (\<lambda>path.
       bindE (kfd_open path KVFS_O_RDONLY 0 s) (\<lambda>(fd, s).
       if fd = KFD_ERROR then fails_with ''cat: no such file or directory'' s
       else
         bindE (kfd_stat fd (Some (kvfs_stat_create 0)) s) (\<lambda>(ok, st).
         if \<not> ok then close_with fd 1 s
         else
           let len = (case st of Some st \<Rightarrow> ucast (st_size st) | None \<Rightarrow> 0) :: u32 in
           if len = 0 then close_with fd 0 s
           else
             bindE (kmalloc (len + 1) s) (\<lambda>(buffer, s).
             if buffer = 0 then
               bindE (KPRINTF_ERROR ''cat: failed to read, no more memory space available'' [] s) (close_with fd 1)
             else
               bindE (kfd_read fd buffer len s) (\<lambda>(read_len, s).
               bindE (wr8 (buffer + read_len) 0 s) (\<lambda>s.
               bindE (arg argv 1) (\<lambda>a.
               bindE (KPRINTF_OK ''%s'' [a] s) (\<lambda>s.
               bindE (str_arg buffer s) (\<lambda>text.
               bindE (ktty_puts (Some text) VGA_TEXT_DEFAULT_COLOR s) (\<lambda>s.
               bindE (rd8 (buffer + (len - 1)) s) (\<lambda>c.
               bindE (if c \<noteq> 0x0A then ktty_putc 0x0A VGA_TEXT_DEFAULT_COLOR s else Inr s) (\<lambda>s.
               bindE (kfree buffer s) (\<lambda>(_, s). close_with fd 0 s))))))))))))))"

definition kshell_cd :: "u32 \<Rightarrow> u32 list \<Rightarrow> 'z cpu_state_scheme \<Rightarrow> 'z cpu_state_scheme outcome" where
  "kshell_cd argc argv s =
    bindE (if argc < 2 then Inr (Some ''/'') else str_at argv 1 s) (\<lambda>path.
    bindE (kvfs_chdir path s) (\<lambda>(r, s).
    if r = - 1 then fails_with ''cd: error while changing directory'' s else Inr (0, s)))"

partial_function (option) ls_loop :: "int \<Rightarrow> dirent \<Rightarrow> 'z cpu_state_scheme \<Rightarrow> 'z cpu_state_scheme kres option" where
  "ls_loop fd de s =
    (case kfd_readdir fd (Some de) s of
       Inl e \<Rightarrow> Some (Inl e)
     | Inr (ok, de', s) \<Rightarrow>
         if \<not> ok then Some (Inr s)
         else
           (case de' of
              None \<Rightarrow> Some (Inl PageFault)
            | Some de \<Rightarrow>
                (case KPRINTF_INFO_with (print_text VGA_TEXT_DEFAULT_COLOR
                        (de_name de @ (if de_type de = KVFS_STAT_IFDIR then ''/'' else ''''))) s of
                   Inl e \<Rightarrow> Some (Inl e)
                 | Inr s \<Rightarrow> ls_loop fd de s)))"

definition kshell_ls :: "u32 \<Rightarrow> u32 list \<Rightarrow> 'z cpu_state_scheme \<Rightarrow> 'z cpu_state_scheme outcome" where
  "kshell_ls argc argv s =
    bindE (if argc < 2 then Inr (Some ''.'') else str_at argv 1 s) (\<lambda>path.
    bindE (kfd_opendir path s) (\<lambda>(dir, s).
    if dir = 0 then fails_with ''ls: cannot open directory'' s
    else
      bindE (rd_fddir dir s) (\<lambda>d.
      bindE (returned (ls_loop (dir_fd d) \<lparr>de_inode = 0, de_type = 0, de_name = ''''\<rparr> s)) (\<lambda>s.
      bindE (kfd_closedir dir s) (\<lambda>(_, s). Inr (0, s))))))"

definition kshell_mkdir :: "u32 \<Rightarrow> u32 list \<Rightarrow> 'z cpu_state_scheme \<Rightarrow> 'z cpu_state_scheme outcome" where
  "kshell_mkdir argc argv s =
    (if argc < 2 then fails_with ''usage: mkdir <path>'' s
     else
       bindE (str_at argv 1 s) (\<lambda>path.
       bindE (kmkdir path s) (\<lambda>(r, s).
       if r = - 1 then fails_with ''mkdir: error while creating the directory'' s else Inr (0, s))))"

definition kshell_rmdir :: "u32 \<Rightarrow> u32 list \<Rightarrow> 'z cpu_state_scheme \<Rightarrow> 'z cpu_state_scheme outcome" where
  "kshell_rmdir argc argv s =
    (if argc < 2 then fails_with ''usage: rmdir <path>'' s
     else
       bindE (str_at argv 1 s) (\<lambda>path.
       bindE (krmdir path s) (\<lambda>(r, s).
       if r = - 1 then fails_with ''rmdir: error while removing the directory'' s else Inr (0, s))))"

definition kshell_touch :: "u32 \<Rightarrow> u32 list \<Rightarrow> 'z cpu_state_scheme \<Rightarrow> 'z cpu_state_scheme outcome" where
  "kshell_touch argc argv s =
    (if argc < 2 then fails_with ''usage: touch <path>'' s
     else
       bindE (str_at argv 1 s) (\<lambda>path.
       bindE (kfd_open path KVFS_O_CREAT 0x1A4 s) (\<lambda>(fd, s).
       if fd = KFD_ERROR then fails_with ''touch: cannot create the file'' s else close_with fd 0 s)))"

definition kshell_unlink :: "u32 \<Rightarrow> u32 list \<Rightarrow> 'z cpu_state_scheme \<Rightarrow> 'z cpu_state_scheme outcome" where
  "kshell_unlink argc argv s =
    (if argc < 2 then fails_with ''usage: unlink <path>'' s
     else
       bindE (str_at argv 1 s) (\<lambda>path.
       bindE (kvfs_unlink path s) (\<lambda>(ok, s).
       if \<not> ok then fails_with ''unlink: error while unlinking'' s else Inr (0, s))))"

text \<open>
  The walk of \<^verbatim>\<open>kshell_pwd\<close> to the root. \<open>path\<close> is what the buffer holds so far; the move and the copy in front of it end in
  its terminator, which must be inside the array.
\<close>

definition pwd_size :: nat where "pwd_size = KVFS_MAX_PATH_PARTS * KVFS_MAX_NAME_LEN"

partial_function (option) pwd_loop ::
    "u32 \<Rightarrow> string \<Rightarrow> 'z kernel_state_scheme \<Rightarrow> (string option \<times> 'z kernel_state_scheme) kres option" where
  "pwd_loop node path s =
    (case kvfs_lookup node (Some ''..'') s of
       Inl e \<Rightarrow> Some (Inl e)
     | Inr (parent, s) \<Rightarrow>
         if parent = 0 then Some (bindE (kvfs_close node s) (\<lambda>s. Inr (None, s)))
         else
           (case bindE (rd_node parent s) (\<lambda>p. bindE (rd_node node s) (\<lambda>n. Inr (p, n))) of
              Inl e \<Rightarrow> Some (Inl e)
            | Inr (p, n) \<Rightarrow>
                if n_private p = n_private n then
                  Some (bindE (kvfs_close parent s) (\<lambda>s. bindE (kvfs_close node s) (\<lambda>s. Inr (Some path, s))))
                else
                  (case rd_entry (n_private n) s of
                     Inl e \<Rightarrow> Some (Inl e)
                   | Inr e \<Rightarrow>
                       let path = CHR ''/'' # e_name e @ path in
                       if length path \<ge> pwd_size then Some (Inl Overrun)
                       else
                         (case kvfs_close node s of
                            Inl e \<Rightarrow> Some (Inl e)
                          | Inr s \<Rightarrow> pwd_loop parent path s))))"

definition kshell_pwd :: "u32 \<Rightarrow> u32 list \<Rightarrow> 'z cpu_state_scheme \<Rightarrow> 'z cpu_state_scheme outcome" where
  "kshell_pwd argc argv s =
    bindE (kvfs_lookup (kvfs_cwd s) (Some ''.'') s) (\<lambda>(node, s).
    if node = 0 then fails_with ''pwd: failed to resolve current directory'' s
    else
      bindE (returned (pwd_loop node '''' s)) (\<lambda>(path, s).
      case path of
        None \<Rightarrow> fails_with ''pwd: failed to resolve current directory'' s
      | Some p \<Rightarrow>
          bindE (KPRINTF_INFO_with (print_text VGA_TEXT_DEFAULT_COLOR (if p = '''' then ''/'' else p)) s) (\<lambda>s. Inr (0, s))))"

section \<open>Processes\<close>

text \<open>One line of the table; the name is padded to 8 columns.\<close>

definition ps_line :: "process \<Rightarrow> 'z cpu_state_scheme printer" where
  "ps_line p = KPRINTF_INFO_with (\<lambda>s.
    bindE (print_format VGA_TEXT_DEFAULT_COLOR ''%4d %6d '' [p_pid p, p_ppid p] s) (\<lambda>s.
    bindE (kprint_padded (bytes_of (p_name p)) 8 (of_char CHR '' '') VGA_TEXT_DEFAULT_COLOR s) (\<lambda>(_, s). Inr s)))"

definition ps_task :: "u32 \<Rightarrow> u32 \<Rightarrow> 'z cpu_state_scheme \<Rightarrow> (u32 \<times> u32 \<times> 'z cpu_state_scheme) kres" where
  "ps_task task amount s =
    bindE (rd_task task s) (\<lambda>t.
    if t_process t = 0 then Inr (t_next t, amount, s)
    else
      bindE (rd_process (t_process t) s) (\<lambda>p.
      if p_state p \<noteq> KPROCESS_DEAD \<and> task = p_main_thread p
      then bindE (ps_line p s) (\<lambda>s. Inr (t_next t, amount + 1, s))
      else Inr (t_next t, amount, s)))"

partial_function (option) ps_loop ::
    "u32 \<Rightarrow> u32 \<Rightarrow> 'z cpu_state_scheme \<Rightarrow> (u32 \<times> 'z cpu_state_scheme) kres option" where
  "ps_loop task amount s =
    (if task = 0 then Some (Inr (amount, s))
     else
       (case ps_task task amount s of
          Inl e \<Rightarrow> Some (Inl e)
        | Inr (next, amount, s) \<Rightarrow>
            if next = ktask_head s then Some (Inr (amount, s)) else ps_loop next amount s))"

definition kshell_ps :: "u32 \<Rightarrow> u32 list \<Rightarrow> 'z cpu_state_scheme \<Rightarrow> 'z cpu_state_scheme outcome" where
  "kshell_ps argc argv s =
    (if ktask_head s = 0 then bindE (KPRINTF_WARN ''ps: scheduler is empty'' [] s) (\<lambda>s. Inr (1, s))
     else
       bindE (KPRINTF_INFO_with (print_text VGA_TEXT_DEFAULT_COLOR '' PID   PPID     NAME'') s) (\<lambda>s.
       bindE (returned (ps_loop (ktask_head s) 0 s)) (\<lambda>(amount, s).
       if amount = 0 then bindE (KPRINTF_WARN ''ps: no process to display'' [] s) (\<lambda>s. Inr (1, s)) else Inr (0, s))))"

section \<open>Memory\<close>

definition BITMAP_DUMP_MAX_ROW :: u32 where "BITMAP_DUMP_MAX_ROW = 64"

definition print_bitmap_state :: "u8 \<Rightarrow> 'z cpu_state_scheme printer" where
  "print_bitmap_state val s =
    (if val \<noteq> 0 then ktty_putc (of_char CHR ''U'') VGA_TEXT_ERROR_COLOR s
     else ktty_putc (of_char CHR ''F'') VGA_TEXT_SUCCESS_COLOR s)"

text \<open>The body of both loops of \<^verbatim>\<open>kshell_bitmap_dump\<close>, over the bits they visit.\<close>

fun bitmap_bits :: "(nat \<times> nat) list \<Rightarrow> u32 \<Rightarrow> 'z cpu_state_scheme printer" where
  "bitmap_bits [] tmp s = Inr s"
| "bitmap_bits ((i, bit_i) # bits) tmp s =
    bindE (if tmp \<ge> BITMAP_DUMP_MAX_ROW
           then bindE (ktty_putc 0x0A VGA_TEXT_DEFAULT_COLOR s) (\<lambda>s. bindE (KPRINTF_DATE s) (\<lambda>s. Inr (0, s)))
           else Inr (tmp, s)) (\<lambda>(tmp, s).
    if i \<ge> length (bitmap_mem s) then Inl Overrun
    else bindE (print_bitmap_state (bitmap_mem s ! i AND push_bit bit_i 1) s) (bitmap_bits bits (tmp + 1)))"

definition kshell_bitmap_dump :: "u32 \<Rightarrow> u32 list \<Rightarrow> 'z cpu_state_scheme \<Rightarrow> 'z cpu_state_scheme outcome" where
  "kshell_bitmap_dump argc argv s =
    (if argc < 2 then fails_with ''usage: bitmapdump <size>'' s
     else
       bindE (str_at argv 1 s) (\<lambda>text.
       let (value, check_ok) = kstrtol text 10; size = ucast value :: u32; n = unat size in
       if \<not> check_ok then fails_with ''bitmap_dump: error while parsing the size'' s
       else if sint size \<le> 0 then fails_with ''bitmap_dump: the size must be greater than 0'' s
       else
         bindE (KPRINTF_DATE s) (\<lambda>s.
         bindE (bitmap_bits (map (\<lambda>k. (k div 8, k mod 8)) [0..<n div 8 * 8] @ map (Pair (n div 8)) [0..<n mod 8]) 0 s) (\<lambda>s.
         bindE (ktty_putc 0x0A VGA_TEXT_DEFAULT_COLOR s) (\<lambda>s. Inr (0, s))))))"

partial_function (option) heap_headers_loop ::
    "u32 \<Rightarrow> bool \<Rightarrow> u32 \<Rightarrow> 'z heap_state_scheme \<Rightarrow> u32 kres option" where
  "heap_headers_loop h only_free amount s =
    (if h = 0 then Some (Inr amount)
     else
       (case rd_hdr h s of
          Inl e \<Rightarrow> Some (Inl e)
        | Inr x \<Rightarrow>
            heap_headers_loop (h_next x) only_free (if only_free \<longrightarrow> h_free x = OK_TRUE then amount + 1 else amount) s))"

definition get_amount_heap_header :: "bool \<Rightarrow> 'z heap_state_scheme \<Rightarrow> u32 kres" where
  "get_amount_heap_header only_free s = returned (heap_headers_loop (kernel_heap_lh s) only_free 0 s)"

definition heap_dump_line :: "u32 \<Rightarrow> u32 \<Rightarrow> kmalloc_header \<Rightarrow> 'z cpu_state_scheme printer" where
  "heap_dump_line i hdr h s =
    bindE (KPRINTFN_INFO ''  #%03d  '' [i] s) (\<lambda>s.
    bindE (if h_free h \<noteq> 0 then print_format VGA_TEXT_SUCCESS_COLOR ''FREE'' [] s
           else print_format VGA_TEXT_ERROR_COLOR ''USED'' [] s) (\<lambda>s.
    print_format VGA_TEXT_DEFAULT_COLOR (''  size=%dB  hdr=%x'' @ [CHR 0x0A]) [h_size h, hdr] s))"

partial_function (option) heap_dump_loop ::
    "u32 \<Rightarrow> u32 \<Rightarrow> 'z cpu_state_scheme \<Rightarrow> 'z cpu_state_scheme kres option" where
  "heap_dump_loop i hdr s =
    (if hdr = 0 then Some (Inr s)
     else
       (case bindE (rd_hdr hdr s) (\<lambda>h. bindE (heap_dump_line i hdr h s) (\<lambda>s. Inr (h, s))) of
          Inl e \<Rightarrow> Some (Inl e)
        | Inr (h, s) \<Rightarrow> heap_dump_loop (i + 1) (h_next h) s))"

definition kshell_heap_dump :: "u32 \<Rightarrow> u32 list \<Rightarrow> 'z cpu_state_scheme \<Rightarrow> 'z cpu_state_scheme outcome" where
  "kshell_heap_dump argc argv s =
    bindE (get_amount_heap_header True s) (\<lambda>free.
    bindE (get_amount_heap_header False s) (\<lambda>all.
    let hdr = kernel_heap_lh s in
    bindE (KPRINTF_INFO ''heapdump: dump informations (kmalloc):'' [] s) (\<lambda>s.
    bindE (KPRINTF_INFO ''  base : %x'' [kernel_heap_base s] s) (\<lambda>s.
    bindE (KPRINTF_INFO ''  brk  : %x'' [kernel_heap_brk s] s) (\<lambda>s.
    bindE (KPRINTF_INFO ''  limit: %x'' [kernel_heap_limit s] s) (\<lambda>s.
    bindE (KPRINTF_INFO ''  size : %d bytes'' [kernel_heap_limit s - kernel_heap_base s] s) (\<lambda>s.
    bindE (KPRINTF_INFO ''  hdrs : %d used / %d free'' [all - free, free] s) (\<lambda>s.
    bindE (KPRINTF_INFO ''heapdump: headers details:'' [] s) (\<lambda>s.
    bindE (returned (heap_dump_loop 1 hdr s)) (\<lambda>s. Inr (1, s)))))))))))"

definition MEM_DUMP_BYTES_PER_ROW :: u32 where "MEM_DUMP_BYTES_PER_ROW = 32"

definition mem_dump_print_byte :: "u8 \<Rightarrow> 'z cpu_state_scheme printer" where
  "mem_dump_print_byte byte s =
    (if kisprint (uint byte) then ktty_putc byte VGA_TEXT_DEFAULT_COLOR s
     else ktty_putc (of_char CHR ''.'') VGA_TEXT_DEFAULT_COLOR s)"

fun mem_dump_loop :: "nat \<Rightarrow> u32 \<Rightarrow> u32 \<Rightarrow> 'z cpu_state_scheme printer" where
  "mem_dump_loop 0 current_len addr s = Inr s"
| "mem_dump_loop (Suc left) current_len addr s =
    bindE (if current_len mod MEM_DUMP_BYTES_PER_ROW = 0 then
             bindE (if current_len > 0 then ktty_putc 0x0A VGA_TEXT_DEFAULT_COLOR s else Inr s) (\<lambda>s.
             bindE (KPRINTF_DATE s) (print_format VGA_TEXT_DATE_COLOR ''%08x   '' [addr]))
           else Inr s) (\<lambda>s.
    bindE (rd8 addr s) (\<lambda>b.
    bindE (mem_dump_print_byte b s) (mem_dump_loop left (current_len + 1) (addr + 1))))"

definition mem_dump_formatted :: "u32 \<Rightarrow> u32 \<Rightarrow> 'z cpu_state_scheme printer" where
  "mem_dump_formatted addr len s =
    bindE (mem_dump_loop (unat len) 0 addr s) (ktty_putc 0x0A VGA_TEXT_DEFAULT_COLOR)"

definition kshell_mem_dump :: "u32 \<Rightarrow> u32 list \<Rightarrow> 'z cpu_state_scheme \<Rightarrow> 'z cpu_state_scheme outcome" where
  "kshell_mem_dump argc argv s =
    (if argc < 3 then fails_with ''usage: mem_dump <addr> <len>'' s
     else
       bindE (str_at argv 1 s) (\<lambda>text.
       if (case text of None \<Rightarrow> True | Some t \<Rightarrow> take 2 t \<noteq> ''0x'' \<and> take 2 t \<noteq> ''0X'') then
         fails_with ''mem_dump: the addr parameter need to start with 0x'' s
       else
         bindE (str_at argv 2 s) (\<lambda>count.
         bindE (case count of None \<Rightarrow> Inl PageFault | Some c \<Rightarrow> katoi c) (\<lambda>len.
         if sint len \<le> 0 then fails_with ''mem_dump: the len parameter need to be greater than 0'' s
         else
           let (parsed_addr, parse_ok) = kstrtol (map_option (drop 2) text) 16 in
           if \<not> parse_ok \<or> sint parsed_addr < 0 then fails_with ''mem_dump: the addr parameter need to be greater than 0'' s
           else if parsed_addr > 0xFFFFFFFF then fails_with ''mem_dump: the addr parameter must fit in 32 bits'' s
           else bindE (mem_dump_formatted (ucast parsed_addr) len s) (\<lambda>s. Inr (0, s))))))"

text \<open>The regions the boot loader found are an argument.\<close>

definition KE820_TYPE_USED :: u32 where "KE820_TYPE_USED = 2"

fun pmm_dump_regions :: "e820_entry list \<Rightarrow> 'z cpu_state_scheme printer" where
  "pmm_dump_regions [] s = Inr s"
| "pmm_dump_regions (e # es) s =
    bindE (KPRINTFN_INFO ''  Addr %08x with length %08x | TYPE: '' [ucast (e820_base e), ucast (e820_length e)] s) (\<lambda>s.
    bindE (if e820_type e = KE820_TYPE_FREE then print_format VGA_TEXT_SUCCESS_COLOR (''Free'' @ [CHR 0x0A]) [] s
           else if e820_type e = KE820_TYPE_USED then print_format VGA_TEXT_ERROR_COLOR (''Used'' @ [CHR 0x0A]) [] s
           else print_format VGA_TEXT_WARN_COLOR (''Other'' @ [CHR 0x0A]) [] s) (pmm_dump_regions es))"

definition kshell_pmm_dump :: "e820_entry list \<Rightarrow> u32 \<Rightarrow> u32 list \<Rightarrow> 'z cpu_state_scheme \<Rightarrow> 'z cpu_state_scheme outcome" where
  "kshell_pmm_dump entries argc argv s =
    (if kpmm_bitmap s = 0 then fails_with ''pmm dump: bitmap is NULL (initialization failed/missing)'' s
     else
       bindE (KPRINTF_INFO ''pmm dump: dump informations:'' [] s) (\<lambda>s.
       bindE (KPRINTF_INFO ''  PMM page size            : %d bytes'' [KPMM_PAGE_SIZE] s) (\<lambda>s.
       bindE (KPRINTF_INFO ''  Total pages calculated   : %d'' [kpmm_pages_amount s] s) (\<lambda>s.
       bindE (KPRINTF_INFO ''  Free pages amount        : %d/%d'' [kpmm_free_pages_amount s, kpmm_pages_amount s] s) (\<lambda>s.
       bindE (KPRINTF_INFO ''  Bitmap size allocated    : %d bytes'' [kpmm_bitmap_bytes_amout s] s) (\<lambda>s.
       bindE (KPRINTF_INFO ''  Bitmap virtual address   : %p'' [kpmm_bitmap s] s) (\<lambda>s.
       bindE (KPRINTF_INFO ''pmm dump: RAM regions from e820 BIOS: (%d)'' [word_of_nat (length entries)] s) (\<lambda>s.
       bindE (pmm_dump_regions entries s) (\<lambda>s. Inr (0, s))))))))))"

section \<open>The terminal, the keyboard and the machine\<close>

definition kshell_clear :: "u32 \<Rightarrow> u32 list \<Rightarrow> 'z cpu_state_scheme \<Rightarrow> 'z cpu_state_scheme outcome" where
  "kshell_clear argc argv s =
    bindE (ktty_fill (of_char CHR '' '') VGA_TEXT_DEFAULT_COLOR s) (\<lambda>s. Inr (0, ktty_cursor_set 0 0 s))"

definition kshell_loadkeys :: "u32 \<Rightarrow> u32 list \<Rightarrow> 'z cpu_state_scheme \<Rightarrow> 'z cpu_state_scheme outcome" where
  "kshell_loadkeys argc argv s =
    (if argc < 2 then fails_with ''usage: loadkeys <fr/us>'' s
     else
       bindE (arg argv 1) (\<lambda>a.
       bindE (arg_is a ''fr'' s) (\<lambda>fr.
       bindE (arg_is a ''us'' s) (\<lambda>us.
       if fr then Inr (0, s\<lparr>kbd := (kbd s)\<lparr>keymap := KKEYMAP_AZERTY\<rparr>\<rparr>)
       else if us then Inr (0, s\<lparr>kbd := (kbd s)\<lparr>keymap := KKEYMAP_QWERTY\<rparr>\<rparr>)
       else
         bindE (KPRINTF_ERROR (''loadkeys: keymap '' @ [CHR 0x22] @ ''%s'' @ [CHR 0x22] @ '' not found'') [a] s) (\<lambda>s.
         Inr (1, s))))))"

definition UPTIME_SECONDS_PER_MINUTE :: u32 where "UPTIME_SECONDS_PER_MINUTE = 60"

definition kshell_uptime :: "u32 \<Rightarrow> u32 list \<Rightarrow> 'z cpu_state_scheme \<Rightarrow> 'z cpu_state_scheme outcome" where
  "kshell_uptime argc argv s =
    (let seconds = seconds_count s mod UPTIME_SECONDS_PER_MINUTE;
         ticks = ((ticks_count s mod PIT_TARGET_FREQUENCY) * 100) div PIT_TARGET_FREQUENCY;
         minutes = seconds_count s div UPTIME_SECONDS_PER_MINUTE in
     bindE (KPRINTF_INFO ''uptime: %dm and %d.%02ds'' [minutes, seconds, ticks] s) (\<lambda>s. Inr (0, s)))"

definition kshell_timer :: "u32 \<Rightarrow> u32 list \<Rightarrow> 'z cpu_state_scheme \<Rightarrow> 'z cpu_state_scheme outcome" where
  "kshell_timer argc argv s =
    (let res_ms_int = 1000 div PIT_TARGET_FREQUENCY;
         res_ms_frac = (1000 mod PIT_TARGET_FREQUENCY) * 100 div PIT_TARGET_FREQUENCY in
     bindE (KPRINTF_INFO ''timer: PIT @ %dHz (%d.%02dms resolution)'' [PIT_TARGET_FREQUENCY, res_ms_int, res_ms_frac] s) (\<lambda>s.
     Inr (0, s)))"

text \<open>
  The machine outside: the status bytes the keyboard controller still delivers, whether the reset line and the power-off port work,
  the regions found at boot, and the addresses the linker gives to the stubs of new tasks and to \<^verbatim>\<open>test_debug\<close>.
\<close>

record machine =
  kbc_status :: "u8 list"
  resets :: bool
  powers_off :: bool
  boot_regions :: "e820_entry list"
  task_stubs :: u32
  syscall_stub :: u32
  test_debug :: u32

definition kreboot :: "machine \<Rightarrow> 'z cpu_state_scheme printer" where
  "kreboot m s =
    (if dropWhile (\<lambda>tmp. tmp AND 0x02 \<noteq> 0) (kbc_status m) = [] then Inl NoReturn
     else if resets m then Inl NoReturn else Inl Panic)"

definition kshell_reboot :: "machine \<Rightarrow> u32 \<Rightarrow> u32 list \<Rightarrow> 'z cpu_state_scheme \<Rightarrow> 'z cpu_state_scheme outcome" where
  "kshell_reboot m argc argv s =
    bindE (KPRINTF_WARN ''DelOS is trying to reboot...'' [] s) (\<lambda>s. bindE (kreboot m s) (\<lambda>s. Inr (0, s)))"

definition kshell_shutdown :: "machine \<Rightarrow> u32 \<Rightarrow> u32 list \<Rightarrow> 'z cpu_state_scheme \<Rightarrow> 'z cpu_state_scheme outcome" where
  "kshell_shutdown m argc argv s = (if powers_off m then Inl NoReturn else Inl Panic)"

definition kshell_panic_test :: "u32 \<Rightarrow> u32 list \<Rightarrow> 'z cpu_state_scheme \<Rightarrow> 'z cpu_state_scheme outcome" where
  "kshell_panic_test argc argv s = Inl Panic"

definition kshell_debug :: "machine \<Rightarrow> u32 \<Rightarrow> u32 list \<Rightarrow> 'z cpu_state_scheme \<Rightarrow> 'z cpu_state_scheme outcome" where
  "kshell_debug m argc argv s =
    bindE (kprocess_create (task_stubs m) (syscall_stub m) (test_debug m) s) (\<lambda>(process, s).
    if process = 0 then
      bindE (KPRINTF_ERROR ''debug: failed to create user process (out of memory or mapping error)'' [] s) (\<lambda>s. Inr (0, s))
    else
      bindE (rd_process process s) (\<lambda>p.
      if p_main_thread p = 0 then
        bindE (KPRINTF_ERROR ''debug: failed to create user process (out of memory or mapping error)'' [] s) (\<lambda>s. Inr (0, s))
      else bindE (kscheduler_add_task (p_main_thread p) s) (\<lambda>(_, s). Inr (0, s))))"

end
