(* ===== verification/Shell.thy ===== *)
theory Shell
  imports Shell_Parse Shell_Commands
begin

text \<open>
  The shell (\<^verbatim>\<open>src/kernel/shell/shell.c\<close>, \<^verbatim>\<open>parser/autocomplete.c\<close>, the commands \<^verbatim>\<open>help\<close> and \<^verbatim>\<open>repeat\<close>): the table of commands,
  running a line, and the loop over the keys. The line is edited in the 512 bytes at an address on the stack of the shell.
\<close>

section \<open>The table of commands\<close>

datatype shell_func = Kshell_help | Kshell_reboot | Kshell_clear | Kshell_uptime | Kshell_timer | Kshell_shutdown
  | Kshell_panic_test | Kshell_repeat | Kshell_loadkeys | Kshell_debug | Kshell_mem_dump | Kshell_pmm_dump
  | Kshell_bitmap_dump | Kshell_heap_dump | Kshell_ls | Kshell_mkdir | Kshell_touch | Kshell_cat | Kshell_unlink
  | Kshell_rmdir | Kshell_pwd | Kshell_cd | Kshell_ps

record shell_command =
  c_command :: string
  c_func :: shell_func
  c_desc :: string

definition shell_commands :: "shell_command list" where
  "shell_commands = map (\<lambda>(n, f, d). \<lparr>c_command = n, c_func = f, c_desc = d\<rparr>)
    [(''help'', Kshell_help, ''List available commands''),
     (''reboot'', Kshell_reboot, ''Reboot the system''),
     (''clear'', Kshell_clear, ''Clear the TTY screen''),
     (''uptime'', Kshell_uptime, ''Show system uptime''),
     (''timer'', Kshell_timer, ''Show timer information''),
     (''shutdown'', Kshell_shutdown, ''Shutdown the system''),
     (''panictest'', Kshell_panic_test, ''Trigger a kernel panic''),
     (''repeat'', Kshell_repeat, ''Repeat a command''),
     (''loadkeys'', Kshell_loadkeys, ''Load keyboard layout''),
     (''debug'', Kshell_debug, ''Debug using this command (dev only)''),
     (''memdump'', Kshell_mem_dump, ''Dump memory contents''),
     (''pmmdump'', Kshell_pmm_dump, ''Dump physical memory manager''),
     (''bitmapdump'', Kshell_bitmap_dump, ''Dump the bitmap values''),
     (''heapdump'', Kshell_heap_dump, ''Dump the informations about the heap (kmalloc)''),
     (''ls'', Kshell_ls, ''List files on a directory or root if none specified''),
     (''mkdir'', Kshell_mkdir, ''Create a directory on a specific path''),
     (''touch'', Kshell_touch, ''Create a file on a specific path''),
     (''cat'', Kshell_cat, ''Read the content of a file and print it''),
     (''unlink'', Kshell_unlink, ''Unlink a file (remove its entry and not its raw data)''),
     (''rmdir'', Kshell_rmdir, ''Remove a directory (when empty)''),
     (''pwd'', Kshell_pwd, ''Print the working directory''),
     (''cd'', Kshell_cd, ''Change directory''),
     (''ps'', Kshell_ps, ''Lists the PID and the PPID'')]"

text \<open>\<^verbatim>\<open>kshell_help\<close> prints the table with the descriptions in one column.\<close>

definition get_max_command_name_length :: nat where
  "get_max_command_name_length =
    fold (\<lambda>c max_len. let len = length (c_command c) in if len > max_len then len else max_len) shell_commands 0"

definition help_line :: "shell_command \<Rightarrow> 'z cpu_state_scheme printer" where
  "help_line c s =
    bindE (KPRINTF_DATE s) (\<lambda>s.
    bindE (print_text VGA_TEXT_DEFAULT_COLOR ''  '' s) (\<lambda>s.
    bindE (print_text VGA_TEXT_DEFAULT_COLOR (c_command c) s) (\<lambda>s.
    bindE (print_text VGA_TEXT_DEFAULT_COLOR
             (replicate (get_max_command_name_length + 2 - length (c_command c)) (CHR '' '')) s) (\<lambda>s.
    bindE (print_text VGA_TEXT_DEFAULT_COLOR (c_desc c) s) (\<lambda>s.
    ktty_putc 0x0A VGA_TEXT_DEFAULT_COLOR s)))))"

fun help_lines :: "shell_command list \<Rightarrow> 'z cpu_state_scheme printer" where
  "help_lines [] s = Inr s"
| "help_lines (c # cs) s = bindE (help_line c s) (help_lines cs)"

definition kshell_help :: "u32 \<Rightarrow> u32 list \<Rightarrow> 'z cpu_state_scheme \<Rightarrow> 'z cpu_state_scheme outcome" where
  "kshell_help argc argv s =
    bindE (KPRINTF_INFO_with (print_text VGA_TEXT_DEFAULT_COLOR ''Available commands:'') s) (\<lambda>s.
    bindE (help_lines shell_commands s) (\<lambda>s. Inr (0, s)))"

section \<open>Running a command\<close>

text \<open>Every command but \<^verbatim>\<open>repeat\<close>, which runs a command in turn.\<close>

definition run_func :: "machine \<Rightarrow> shell_func \<Rightarrow> u32 \<Rightarrow> u32 list \<Rightarrow> 'z cpu_state_scheme \<Rightarrow> 'z cpu_state_scheme outcome" where
  "run_func m f =
    (case f of
       Kshell_help \<Rightarrow> kshell_help | Kshell_reboot \<Rightarrow> kshell_reboot m | Kshell_clear \<Rightarrow> kshell_clear
     | Kshell_uptime \<Rightarrow> kshell_uptime | Kshell_timer \<Rightarrow> kshell_timer | Kshell_shutdown \<Rightarrow> kshell_shutdown m
     | Kshell_panic_test \<Rightarrow> kshell_panic_test | Kshell_repeat \<Rightarrow> (\<lambda>argc argv s. Inl Overrun)
     | Kshell_loadkeys \<Rightarrow> kshell_loadkeys | Kshell_debug \<Rightarrow> kshell_debug m | Kshell_mem_dump \<Rightarrow> kshell_mem_dump
     | Kshell_pmm_dump \<Rightarrow> kshell_pmm_dump (boot_regions m) | Kshell_bitmap_dump \<Rightarrow> kshell_bitmap_dump
     | Kshell_heap_dump \<Rightarrow> kshell_heap_dump | Kshell_ls \<Rightarrow> kshell_ls | Kshell_mkdir \<Rightarrow> kshell_mkdir
     | Kshell_touch \<Rightarrow> kshell_touch | Kshell_cat \<Rightarrow> kshell_cat | Kshell_unlink \<Rightarrow> kshell_unlink
     | Kshell_rmdir \<Rightarrow> kshell_rmdir | Kshell_pwd \<Rightarrow> kshell_pwd | Kshell_cd \<Rightarrow> kshell_cd | Kshell_ps \<Rightarrow> kshell_ps)"

fun run_times :: "nat \<Rightarrow> ('s \<Rightarrow> 's outcome) \<Rightarrow> 's \<Rightarrow> 's kres" where
  "run_times 0 run s = Inr s"
| "run_times (Suc n) run s = bindE (run s) (\<lambda>(_, s). run_times n run s)"

text \<open>The end of \<^verbatim>\<open>kshell_repeat\<close>, from the check of the count on.\<close>

definition repeat_loop ::
    "bool \<Rightarrow> u32 \<Rightarrow> ('z cpu_state_scheme \<Rightarrow> 'z cpu_state_scheme outcome) \<Rightarrow> 'z cpu_state_scheme \<Rightarrow> 'z cpu_state_scheme outcome" where
  "repeat_loop details repeat_times run s =
    (if sint repeat_times \<le> 0 then fails_with ''repeat: the n value must be greater than 0'' s
     else
       let start_ticks = ticks_count s in
       bindE (run_times (unat repeat_times) run s) (\<lambda>s.
       if details then
         let ticks = ticks_count s - start_ticks in
         bindE (KPRINTF_INFO ''repeat: completed in %d ticks (%d.%03d seconds)''
           [ticks, ticks div PIT_TARGET_FREQUENCY, ((ticks mod PIT_TARGET_FREQUENCY) * 1000) div PIT_TARGET_FREQUENCY] s) (\<lambda>s.
         Inr (0, s))
       else Inr (0, s)))"

definition atoi_arg :: "u32 \<Rightarrow> 'z heap_state_scheme \<Rightarrow> u32 kres" where
  "atoi_arg a s = bindE (path_arg a s) (\<lambda>p. case p of None \<Rightarrow> Inl PageFault | Some t \<Rightarrow> katoi t)"

definition REPEAT_HELP_MSG :: string where
  "REPEAT_HELP_MSG = ''usage: repeat [-d | --details] <n> <cmd> <args>...''"

text \<open>The loop over the table: the entry with the name \<^verbatim>\<open>argv[0]\<close>.\<close>

definition find_command :: "u32 \<Rightarrow> 'z heap_state_scheme \<Rightarrow> shell_command option kres" where
  "find_command a s = bindE (path_arg a s) (\<lambda>p. Inr (find (\<lambda>c. p = Some (c_command c)) shell_commands))"

fun kshell_execute_command ::
    "machine \<Rightarrow> u32 \<Rightarrow> u32 list \<Rightarrow> 'z cpu_state_scheme \<Rightarrow> 'z cpu_state_scheme outcome" where
  "kshell_execute_command m argc [] s = Inl Overrun"
| "kshell_execute_command m argc (a0 # argv) s =
    (if a0 = 0 then Inr (0, s)
     else
       bindE (find_command a0 s) (\<lambda>c.
       case c of
         None \<Rightarrow> bindE (KPRINTF_WARN ''Command not found: %s'' [a0] s) (\<lambda>s. Inr (1, s))
       | Some c \<Rightarrow>
           if c_func c \<noteq> Kshell_repeat then run_func m (c_func c) argc (a0 # argv) s
           else if argc < 3 then fails_with REPEAT_HELP_MSG s
           else
             (case argv of
                a1 # rest \<Rightarrow>
                  bindE (arg_is a1 ''-d'' s) (\<lambda>short.
                  bindE (arg_is a1 ''--details'' s) (\<lambda>long.
                  if short \<or> long then
                    if argc < 4 then fails_with REPEAT_HELP_MSG s
                    else
                      (case rest of
                         a2 # cmd_argv \<Rightarrow>
                           bindE (atoi_arg a2 s) (\<lambda>repeat_times.
                           repeat_loop True repeat_times (\<lambda>s. kshell_execute_command m (argc - 3) cmd_argv s) s)
                       | [] \<Rightarrow> Inl Overrun)
                  else
                    bindE (atoi_arg a1 s) (\<lambda>repeat_times.
                    repeat_loop False repeat_times (\<lambda>s. kshell_execute_command m (argc - 2) rest s) s)))
              | [] \<Rightarrow> Inl Overrun)))"

declare kshell_execute_command.simps [simp del]

section \<open>Lines and keys\<close>

definition setup_run_shell_command :: "machine \<Rightarrow> u32 \<Rightarrow> 'z cpu_state_scheme \<Rightarrow> 'z cpu_state_scheme outcome" where
  "setup_run_shell_command m buffer s =
    (if buffer = 0 then Inr (0, s)
     else
       bindE (rd8 buffer s) (\<lambda>c.
       if c = 0 then Inr (0, s)
       else
         bindE (kshell_parse_get_argc buffer s) (\<lambda>argc.
         bindE (kshell_parse_formatting_buffer buffer s) (\<lambda>s.
         bindE (kshell_parse_get_argv buffer (replicate SHELL_ARGV_MAX_COUNT 0) s) (\<lambda>argv.
         kshell_execute_command m argc argv s)))))"

definition KERNEL_SHELL_BUFFER_SIZE :: u32 where "KERNEL_SHELL_BUFFER_SIZE = 512"
definition KERNEL_SHELL_PROMPT_BASE :: string where "KERNEL_SHELL_PROMPT_BASE = ''$>''"

definition print_shell_prompt :: "'z cpu_state_scheme printer" where
  "print_shell_prompt s = bindE (KPRINTF_DATE s) (print_text VGA_TEXT_DEFAULT_COLOR (KERNEL_SHELL_PROMPT_BASE @ '' ''))"

text \<open>\<^verbatim>\<open>kstrncmp(buffer, command, n) == 0\<close> for a command of the table; \<open>n\<close> counts the characters still to compare.\<close>

fun starts_with :: "nat \<Rightarrow> u32 \<Rightarrow> u8 list \<Rightarrow> 'z heap_state_scheme \<Rightarrow> bool kres" where
  "starts_with n p lit s =
    bindE (rd8 p s) (\<lambda>a.
    let b = (case lit of [] \<Rightarrow> 0 | c # _ \<Rightarrow> c) in
    if a = b \<and> a \<noteq> 0 \<and> n > 1 then starts_with (n - 1) (p + 1) (tl lit) s else Inr (a = b))"

declare starts_with.simps [simp del]

fun autocomplete_loop ::
    "shell_command list \<Rightarrow> u32 \<Rightarrow> u32 \<Rightarrow> 'z cpu_state_scheme \<Rightarrow> (u32 \<times> 'z cpu_state_scheme) kres" where
  "autocomplete_loop [] buffer len s = Inr (len, s)"
| "autocomplete_loop (c # cs) buffer len s =
    bindE (starts_with (unat len) buffer (bytes_of (c_command c)) s) (\<lambda>same.
    if same then
      bindE (print_text VGA_TEXT_DEFAULT_COLOR (drop (unat len) (c_command c)) s) (\<lambda>s.
      bindE (wr8 buffer 0 s) (\<lambda>s.
      bindE (put_bytes (bytes_of (c_command c) @ [0]) (buffer, s)) (\<lambda>(_, s).
      bindE (kstrlen buffer s) (\<lambda>len. Inr (len, s)))))
    else autocomplete_loop cs buffer len s)"

definition kshell_parse_autocomplete :: "u32 \<Rightarrow> u32 \<Rightarrow> 'z cpu_state_scheme \<Rightarrow> (u32 \<times> 'z cpu_state_scheme) kres" where
  "kshell_parse_autocomplete buffer len s =
    (if buffer = 0 \<or> len = 0 then Inr (len, s) else autocomplete_loop shell_commands buffer len s)"

text \<open>One round of the loop of \<^verbatim>\<open>kshell_start\<close>, with the key it read.\<close>

definition shell_key :: "machine \<Rightarrow> u32 \<Rightarrow> u8 \<Rightarrow> u32 \<Rightarrow> 'z cpu_state_scheme \<Rightarrow> (u32 \<times> 'z cpu_state_scheme) kres" where
  "shell_key m buffer c index s =
    (if c = 0x0A then
       bindE (wr8 (buffer + index) 0 s) (\<lambda>s.
       bindE (ktty_puts (Some [0x0A]) VGA_TEXT_DEFAULT_COLOR s) (\<lambda>s.
       bindE (setup_run_shell_command m buffer s) (\<lambda>(_, s).
       bindE (print_shell_prompt s) (\<lambda>s. Inr (0, s)))))
     else if c = 0x08 then
       (if index > 0 then bindE (ktty_putc 0x08 VGA_TEXT_DEFAULT_COLOR s) (\<lambda>s. Inr (index - 1, s)) else Inr (index, s))
     else if c = 0x09 then kshell_parse_autocomplete buffer index s
     else if index < KERNEL_SHELL_BUFFER_SIZE - 1 then
       bindE (wr8 (buffer + index) c s) (\<lambda>s.
       bindE (ktty_putc c VGA_TEXT_DEFAULT_COLOR s) (\<lambda>s. Inr (index + 1, s)))
     else Inr (index, s))"

partial_function (option) shell_loop ::
    "machine \<Rightarrow> u32 \<Rightarrow> u32 \<Rightarrow> 'z cpu_state_scheme \<Rightarrow> 'z cpu_state_scheme kres option" where
  "shell_loop m buffer index s =
    (case kkeyboard_getchar (kbd_pending s) (kbd s) of
       Inl e \<Rightarrow> Some (Inl e)
     | Inr (c, pending, k) \<Rightarrow>
         (case shell_key m buffer c index (s\<lparr>kbd_pending := pending, kbd := k\<rparr>) of
            Inl e \<Rightarrow> Some (Inl e)
          | Inr (index, s) \<Rightarrow> shell_loop m buffer index s))"

definition kshell_start :: "machine \<Rightarrow> u32 \<Rightarrow> 'z cpu_state_scheme printer" where
  "kshell_start m buffer s =
    bindE (KPRINTF_OK ''shell: started...'' [] s) (\<lambda>s.
    bindE (print_shell_prompt s) (\<lambda>s. returned (shell_loop m buffer 0 s)))"

section \<open>A line runs the command it names\<close>

definition text_of :: "u8 list \<Rightarrow> string" where
  "text_of w = map (\<lambda>c. char_of (unat c)) w"

lemma read_string_bytes:
  assumes "bytes s p (w @ 0 # ys)" "0 \<notin> set w"
  shows "read_string p acc s = Some (Inr (acc @ text_of w))"
  using assms
proof (induction w arbitrary: p acc)
  case Nil
  then show ?case using bytes_head(1) [of s p 0 ys] by (subst read_string.simps) (simp add: text_of_def)
next
  case (Cons c w)
  then have "bytes s (p + 1) (w @ 0 # ys)" using bytes_head(4) [of s p c "w @ 0 # ys"] by simp
  from Cons.IH [OF this] show ?case
    using Cons.prems bytes_head(1) [of s p c "w @ 0 # ys"] by (subst read_string.simps) (simp add: text_of_def)
qed

lemma path_arg_bytes:
  "bytes s p (w @ 0 # ys) \<Longrightarrow> 0 \<notin> set w \<Longrightarrow> p \<noteq> 0 \<Longrightarrow> path_arg p s = Inr (Some (text_of w))"
  by (simp add: path_arg_def read_string_bytes returned_def)

lemma length_starts [simp]: "length (starts p ws) = length ws"
  by (induction ws arbitrary: p) simp_all

lemma starts_text:
  assumes "bytes s p (stored ws @ [0])" "\<forall>w \<in> set ws. is_word w" "p \<noteq> 0" "i < length ws"
  shows "path_arg (starts p ws ! i) s = Inr (Some (text_of (ws ! i)))"
  using assms
proof (induction ws arbitrary: p i)
  case (Cons w ws)
  have b: "bytes s p (w @ 0 # stored ws @ [0])" and w: "0 \<notin> set w" using Cons.prems(1,2) is_word_zero by (auto simp: stored_def)
  show ?case
  proof (cases i)
    case 0
    then show ?thesis using path_arg_bytes [OF b w Cons.prems(3)] by simp
  next
    case (Suc j)
    let ?q = "p + (word_of_nat (length w) + 1)"
    have b': "bytes s ?q (stored ws @ [0])"
      using bytes_split(2) [of s p "w @ [0]" "stored ws @ [0]"] b by (simp add: ac_simps)
    have "unat p + (length w + 1) < 2 ^ 32" using bytes_plain [OF b] by (simp add: plain_def)
    then have "unat ?q = unat p + (length w + 1)" using unat_offset [of p "length w + 1"] by (simp add: ac_simps)
    then have "?q \<noteq> 0" by (metis add_is_0 one_neq_zero unat_0)
    then show ?thesis using Cons.IH [OF b' _ _, of j] Cons.prems Suc by simp
  qed
qed simp

text \<open>
  C36. Running a line of words with one blank between them runs \<^verbatim>\<open>kshell_execute_command\<close> with the number of words as
  \<^verbatim>\<open>argc\<close> and with an \<^verbatim>\<open>argv\<close> whose first entries are the words as strings; of the memory only the line itself has changed. The
  buffer is used for one line after the other and is not cleared, so words \<open>vs\<close> of an earlier, longer line may stand behind the
  terminator: they follow in \<^verbatim>\<open>argv\<close> beyond \<^verbatim>\<open>argc\<close>, and only the entries behind them are \<^verbatim>\<open>NULL\<close>.
\<close>

theorem setup_run_shell_command_runs:
  assumes line: "bytes s buffer (line_of ws @ 0 # stored vs @ [0])" and words: "\<forall>w \<in> set (ws @ vs). is_word w" "ws \<noteq> []"
    and count: "length (ws @ vs) \<le> 16" and buf: "buffer \<noteq> 0"
  shows "\<exists>argv f. setup_run_shell_command m buffer s = kshell_execute_command m (word_of_nat (length ws)) argv (s\<lparr>mem := f\<rparr>) \<and>
    length argv = 16 \<and>
    (\<forall>i < length (ws @ vs). path_arg (argv ! i) (s\<lparr>mem := f\<rparr>) = Inr (Some (text_of ((ws @ vs) ! i)))) \<and>
    (\<forall>i < 16. length (ws @ vs) \<le> i \<longrightarrow> argv ! i = 0) \<and>
    (\<forall>x. f x \<noteq> mem s x \<longrightarrow> unat buffer \<le> unat x \<and> unat x < unat buffer + length (line_of ws))"
proof -
  let ?all = "ws @ vs"
  have ws: "\<forall>w \<in> set ws. is_word w" using words(1) by simp
  have l1: "bytes s buffer (line_of ws @ [0])" using bytes_split(1) [of s buffer "line_of ws @ [0]" "stored vs @ [0]"] line by simp
  obtain f where f: "format_loop buffer 0 s = Some (Inr (s\<lparr>mem := f\<rparr>))" "bytes (s\<lparr>mem := f\<rparr>) buffer (stored ?all @ [0])"
      "\<forall>x. f x \<noteq> mem s x \<longrightarrow> unat buffer \<le> unat x \<and> unat x < unat buffer + length (line_of ws)"
    using format_loop_line [OF line words] by blast
  define argv where "argv = starts buffer ?all @ replicate (16 - length ?all) (0 :: u32)"
  have av: "argv_loop buffer 0 (replicate SHELL_ARGV_MAX_COUNT 0) (s\<lparr>mem := f\<rparr>) = Some (Inr argv)"
    using argv_line [OF f(2) words(1), of 0 "replicate SHELL_ARGV_MAX_COUNT 0"] count buf
    by (simp add: argv_def SHELL_ARGV_MAX_COUNT_def)
  obtain c cs where c: "line_of ws = c # cs" "c \<noteq> 0"
    using line_of_head [of "hd ws" "tl ws"] line_of_zero [OF ws] ws words(2) by (cases "line_of ws") auto
  have "setup_run_shell_command m buffer s = kshell_execute_command m (word_of_nat (length ws)) argv (s\<lparr>mem := f\<rparr>)"
    using buf c bytes_head(1) [of s buffer c "cs @ [0]"] l1 argc_line [OF l1 ws words(2), of 0] f(1) av
    by (simp add: setup_run_shell_command_def kshell_parse_get_argc_def kshell_parse_formatting_buffer_def
        kshell_parse_get_argv_def returned_def)
  moreover have "length argv = 16" using count by (simp add: argv_def)
  moreover have "\<forall>i < length ?all. path_arg (argv ! i) (s\<lparr>mem := f\<rparr>) = Inr (Some (text_of (?all ! i)))"
    using starts_text [OF f(2) words(1) buf] by (simp add: argv_def nth_append)
  moreover have "\<forall>i < 16. length ?all \<le> i \<longrightarrow> argv ! i = 0" by (simp add: argv_def nth_append)
  ultimately show ?thesis using f(3) by blast
qed

text \<open>The line \<^verbatim>\<open>cd b\<close> over the rest of a line that ended in \<^verbatim>\<open>xy\<close>.\<close>

definition stale_line :: "'z cpu_state_scheme \<Rightarrow> 'z cpu_state_scheme" where
  "stale_line s = s\<lparr>paging := False, hdrs := Map.empty,
     mem := (\<lambda>a. 0)(0x1000 := 0x63, 0x1001 := 0x64, 0x1002 := 0x20, 0x1003 := 0x62, 0x1005 := 0x78, 0x1006 := 0x79)\<rparr>"

lemma stale_line_bytes: "bytes (stale_line s) 0x1000 [0x63, 0x64, 0x20, 0x62, 0, 0x78, 0x79, 0, 0]"
proof -
  have "plain (stale_line s) 0x1000 9" by (simp add: plain_def mmu_translate_def header_at_None_iff stale_line_def)
  moreover have "mem (stale_line s) (0x1000 + word_of_nat i) = [0x63, 0x64, 0x20, 0x62, 0, 0x78, 0x79, 0, 0] ! i" if i: "i < 9" for i
  proof -
    have "i \<in> {0, 1, 2, 3, 4, 5, 6, 7, 8}" using i by auto
    then show ?thesis by (auto simp: stale_line_def)
  qed
  moreover have l: "length ([0x63, 0x64, 0x20, 0x62, 0, 0x78, 0x79, 0, 0] :: u8 list) = 9" by simp
  ultimately show ?thesis unfolding bytes_def l by blast
qed

theorem setup_run_shell_command_runs_witness:
  "\<forall>(s :: cpu_state) m. \<exists>argv s'. setup_run_shell_command m 0x1000 (stale_line s) = kshell_execute_command m 2 argv s' \<and>
     path_arg (argv ! 0) s' = Inr (Some ''cd'') \<and> path_arg (argv ! 1) s' = Inr (Some ''b'') \<and>
     path_arg (argv ! 2) s' = Inr (Some ''xy'') \<and> argv ! 3 = 0"
proof (intro allI)
  fix s :: cpu_state and m :: machine
  let ?ws = "[[0x63, 0x64], [0x62]] :: u8 list list" and ?vs = "[[0x78, 0x79]] :: u8 list list"
  have b: "bytes (stale_line s) 0x1000 (line_of ?ws @ 0 # stored ?vs @ [0])" using stale_line_bytes [of s] by (simp add: stored_def)
  have "\<forall>w \<in> set (?ws @ ?vs). is_word w" by (simp add: is_word_def kshell_parse_is_delimiter_def)
  then obtain argv f where r: "setup_run_shell_command m 0x1000 (stale_line s) = kshell_execute_command m 2 argv ((stale_line s)\<lparr>mem := f\<rparr>)"
      "\<forall>i < 3. path_arg (argv ! i) ((stale_line s)\<lparr>mem := f\<rparr>) = Inr (Some (text_of ((?ws @ ?vs) ! i)))"
      "\<forall>i < 16. 3 \<le> i \<longrightarrow> argv ! i = 0"
    using setup_run_shell_command_runs [OF b, of m] by auto
  have "text_of [0x63, 0x64] = ''cd''" "text_of [0x62] = ''b''" "text_of [0x78, 0x79] = ''xy''"
    by (simp_all add: text_of_def char_of_def bit_0)
  then show "\<exists>argv s'. setup_run_shell_command m 0x1000 (stale_line s) = kshell_execute_command m 2 argv s' \<and>
      path_arg (argv ! 0) s' = Inr (Some ''cd'') \<and> path_arg (argv ! 1) s' = Inr (Some ''b'') \<and>
      path_arg (argv ! 2) s' = Inr (Some ''xy'') \<and> argv ! 3 = 0"
    using r(1) r(2) [rule_format, of 0] r(2) [rule_format, of 1] r(2) [rule_format, of 2] r(3) [rule_format, of 3]
    by (intro exI [of _ argv] exI [of _ "(stale_line s)\<lparr>mem := f\<rparr>"]) simp
qed

text \<open>A count in front of a command runs it that often; the count of an inner \<^verbatim>\<open>repeat\<close> is taken anew in each round.\<close>

lemma repeat_runs:
  assumes "a0 \<noteq> 0" "path_arg a0 s = Inr (Some ''repeat'')" "path_arg a1 s = Inr (Some t)" "t \<noteq> ''-d''" "t \<noteq> ''--details''"
    and "katoi t = Inr n" "0 < sint n" "3 \<le> argc"
  shows "kshell_execute_command m argc (a0 # a1 # rest) s =
    bindE (run_times (unat n) (kshell_execute_command m (argc - 2) rest) s) (\<lambda>s. Inr (0, s))"
  using assms leD [OF assms(8)]
  by (subst kshell_execute_command.simps) (simp add: find_command_def shell_commands_def arg_is_def atoi_arg_def repeat_loop_def)

lemma unknown_command:
  assumes "a0 \<noteq> 0" "path_arg a0 s = Inr (Some t)" "t \<notin> c_command ` set shell_commands"
  shows "kshell_execute_command m argc (a0 # argv) s = bindE (KPRINTF_WARN ''Command not found: %s'' [a0] s) (\<lambda>s. Inr (1, s))"
proof -
  have "find (\<lambda>c. t = c_command c) shell_commands = None" using assms(3) by (auto simp: find_None_iff)
  then show ?thesis using assms(1,2) by (simp add: kshell_execute_command.simps find_command_def)
qed

end
