(* ===== verification/Panic.thy ===== *)
theory Panic
  imports Kformat
begin

text \<open>
  The panic screen (\<^verbatim>\<open>src/kernel/misc/panic.c\<close>): what is on the screen when the machine halts. An operation that panics ends
  with the error \<open>Panic\<close> in the other theories; the functions here compute the state in which the processor stops. Strings
  are the bytes before the terminator, \<open>None\<close> is \<^verbatim>\<open>NULL\<close>. The message of the page fault handler
  (\<^verbatim>\<open>src/kernel/interruption/isr/isr_page_fault.c\<close>) is written to a buffer on its stack.
\<close>

section \<open>Texts\<close>

definition VGA_TEXT_PANIC_COLOR :: u8 where "VGA_TEXT_PANIC_COLOR = 0x1F"

text \<open>The digits go into \<^verbatim>\<open>temp[16]\<close> from the lowest.\<close>

fun location_digits :: "nat \<Rightarrow> u32 \<Rightarrow> u8 list \<Rightarrow> u8 list kres" where
  "location_digits left num temp =
    (if num = 0 then Inr temp
     else
       (case left of
          0 \<Rightarrow> Inl Overrun
        | Suc left \<Rightarrow> location_digits left (num div 10) (temp @ [of_char CHR ''0'' + ucast (num mod 10)])))"

declare location_digits.simps [simp del]

text \<open>The contents of the buffer of 128 bytes before the terminator, which must fit too.\<close>

definition format_location :: "u8 list \<Rightarrow> u32 \<Rightarrow> u8 list kres" where
  "format_location file line =
    bindE (if line = 0 then Inr [of_char CHR ''0''] else location_digits 16 line []) (\<lambda>temp.
    let buffer = file @ [of_char CHR '':''] @ rev temp in
    if length buffer \<ge> 128 then Inl Overrun else Inr buffer)"

definition format_hex :: "u32 \<Rightarrow> u8 list" where
  "format_hex value =
    bytes_of ''0x'' @ map (\<lambda>i. of_char (''0123456789ABCDEF'' ! unat (drop_bit (4 * i) value AND 0xF))) (rev [0..<8])"

section \<open>The screens\<close>

text \<open>A text in the middle of a line; the column is computed on \<^verbatim>\<open>size_t\<close> and cut to a byte.\<close>

definition centre :: "u8 list \<Rightarrow> u8" where
  "centre text = ucast (word_of_nat (VGA_COLUMNS_MAX div 2) - word_of_nat (length text) div 2 :: u32)"

definition panic_texts :: "u8 list option \<Rightarrow> u8 list \<Rightarrow> (u8 \<times> u8 list) list" where
  "panic_texts msg location =
    [(7, bytes_of ''*** KERNEL PANIC ***'')] @
    (case msg of None \<Rightarrow> [] | Some m \<Rightarrow> [(9, bytes_of ''Reason:''), (10, m)]) @
    [(13, bytes_of ''Location:''), (14, location), (23, bytes_of ''System halted - Please submit this to Del'')]"

fun put_texts ::
    "(u8 \<Rightarrow> u8 \<Rightarrow> u8 list option \<Rightarrow> u8 \<Rightarrow> 's \<Rightarrow> 's kres) \<Rightarrow> (u8 \<times> u8 list) list \<Rightarrow> 's \<Rightarrow> 's kres" where
  "put_texts puts_at [] s = Inr s"
| "put_texts puts_at ((y, text) # texts) s =
    bindE (puts_at (centre text) y (Some text) VGA_TEXT_PANIC_COLOR s) (put_texts puts_at texts)"

definition panic_file :: "u8 list option \<Rightarrow> u8 list" where
  "panic_file file = (case file of None \<Rightarrow> bytes_of ''(unknown)'' | Some f \<Rightarrow> f)"

definition kpanic :: "u8 list option \<Rightarrow> u8 list option \<Rightarrow> u32 \<Rightarrow> 'z tty_state_scheme \<Rightarrow> 'z tty_state_scheme kres" where
  "kpanic msg file line s =
    bindE (ktty_fill (of_char CHR '' '') VGA_TEXT_PANIC_COLOR s) (\<lambda>s.
    bindE (format_location (panic_file file) line) (\<lambda>location.
    bindE (put_texts ktty_puts_at (panic_texts msg location) s) (\<lambda>s.
    Inr (ktty_cursor_set_visibility 0 s))))"

definition kpanic_phys :: "u8 list option \<Rightarrow> u8 list option \<Rightarrow> u32 \<Rightarrow> 'z tty_state_scheme \<Rightarrow> 'z tty_state_scheme kres" where
  "kpanic_phys msg file line s =
    bindE (kvga_phys_fill (of_char CHR '' '') VGA_TEXT_PANIC_COLOR s) (\<lambda>s.
    bindE (format_location (panic_file file) line) (\<lambda>location.
    put_texts kvga_phys_puts_at (panic_texts msg location) s))"

definition kpanic_show_eip :: "u32 \<Rightarrow> 'z tty_state_scheme \<Rightarrow> 'z tty_state_scheme kres" where
  "kpanic_show_eip eip s =
    bindE (ktty_puts_at 0 0 (Some (bytes_of ''EIP: '')) VGA_TEXT_PANIC_COLOR s)
      (ktty_puts_at 5 0 (Some (format_hex eip)) VGA_TEXT_PANIC_COLOR)"

text \<open>The page fault handler, with the address of its buffer and the faulting address.\<close>

definition isr_page_fault :: "u32 \<Rightarrow> u32 \<Rightarrow> u8 list option \<Rightarrow> u32 \<Rightarrow> 'z tty_state_scheme \<Rightarrow> 'z tty_state_scheme kres" where
  "isr_page_fault buffer cr2 file line s =
    bindE (kmemset buffer 0 64 s) (\<lambda>(_, s).
    bindE (ksprintf buffer (Some ''Page fault invoked by accessing the address %x.'') [cr2] s) (\<lambda>(_, s).
    bindE (rd8 (buffer + 63) s) (\<lambda>last.
    if last \<noteq> 0
    then kpanic (Some (bytes_of ''Page fault invoked without getting access to the address (buffer too small).'')) file line s
    else bindE (str_arg buffer s) (\<lambda>text. kpanic (Some text) file line s))))"

section \<open>What the texts say\<close>

lemma decimal_digit: "k < 10 \<Longrightarrow> (of_char (digit_chars u ! k) :: u8) = of_char CHR ''0'' + word_of_nat k"
proof -
  assume "k < 10"
  then have "k \<in> {0, 1, 2, 3, 4, 5, 6, 7, 8, 9}" by auto
  then show ?thesis by (cases u) (auto simp: digit_chars_def)
qed

text \<open>The line number is written as \<^verbatim>\<open>kuitoa\<close> writes it: the loop is that of \<^verbatim>\<open>kuitoa\<close> with the digits still reversed.\<close>

lemma location_digits_eq:
  "location_digits n num temp = bindE (uitoa_loop n num 10 False) (\<lambda>ds. Inr (temp @ rev (bytes_of ds)))"
proof (induction n arbitrary: num temp)
  case 0
  then show ?case by (subst location_digits.simps, subst uitoa_loop.simps) (simp add: bytes_of_def)
next
  case (Suc n)
  have lt: "unat (num mod 10) < 10" by (simp add: unat_mod_distrib)
  have "(of_char (digit_chars False ! unat (num mod 10)) :: u8) = of_char CHR ''0'' + ucast (num mod 10)"
    using decimal_digit [OF lt] by simp
  then show ?case using lt
    by (subst location_digits.simps, subst uitoa_loop.simps) (simp add: Suc bytes_of_def bindE_assoc)
qed

lemma format_location_text:
  assumes "line \<noteq> 0" "uitoa_loop 16 line 10 False = Inr ds" "length file + length ds \<le> 126"
  shows "format_location file line = Inr (file @ of_char CHR '':'' # bytes_of ds)"
  using assms by (simp add: format_location_def location_digits_eq bytes_of_def)

text \<open>The digits of \<open>format_hex\<close> are those of the number in base 16, from the highest.\<close>

lemma format_hex_nth:
  "i < 8 \<Longrightarrow> format_hex value ! (2 + i) = of_char (''0123456789ABCDEF'' ! (unat value div 16 ^ (7 - i) mod 16))"
proof -
  assume i: "i < 8"
  have "unat (drop_bit (4 * (7 - i)) value AND 0xF) = unat value div 16 ^ (7 - i) mod 16"
  proof -
    have "(0xF :: u32) = mask 4" by (simp add: mask_eq_exp_minus_1)
    then have "drop_bit (4 * (7 - i)) value AND 0xF = take_bit 4 (drop_bit (4 * (7 - i)) value)" by (simp only: take_bit_eq_mask)
    then have "unat (drop_bit (4 * (7 - i)) value AND 0xF) = take_bit 4 (unat value div 2 ^ (4 * (7 - i)))"
      by (simp only: unsigned_take_bit_eq unat_drop_bit)
    also have "\<dots> = unat value div 16 ^ (7 - i) mod 16" by (simp add: take_bit_eq_mod power_mult)
    finally show ?thesis .
  qed
  then show ?thesis using i by (simp add: format_hex_def bytes_of_def rev_nth)
qed

end
