(* ===== verification/Spec2Isabelle.thy ===== *)
theory Spec2Isabelle
  imports Early_Alloc Pmm Vmm Kmemory Kmalloc Kstring Knumber Keyboard Tty Vfs_Stat Vfs_Path
    Kobject Chrdev Kstore Tmpfs Tmpfs_Tree Vfs Fd Kready Vfs_Inv
    Fs_Steps Fs_Props Fs_Walk Fs_Dir Fs_Data Fd_Table Kformat Kformat_Text Initrd Scheduler Sched_Ring Interrupts Process Syscall
    Syscall_Props Task_Props Shell_Parse Shell_Commands Shell Panic
begin

text \<open>
  DelOS is a small 32-bit higher-half x86 kernel written in C. This development models the kernel's own logic, from the
  allocators that run before paging up to the system calls, and proves it correct. Every other theory opens with a note on
  what it holds; this one describes how they fit together.

  \<^bold>\<open>How the code is represented.\<close>
  A C integer is a word of its width (\<open>u8\<close>, \<open>u16\<close>, \<open>u32\<close>, \<open>u64\<close> of \<open>Prelude\<close>), so arithmetic wraps as it does in the code; a pointer is
  a \<open>u32\<close> and \<open>0\<close> is \<^verbatim>\<open>NULL\<close>. An operation takes the state and returns a value of \<open>kres\<close>: \<open>Inr\<close> the result and the new state, or \<open>Inl\<close> one
  of the errors \<open>Panic\<close> (\<^verbatim>\<open>KPANIC\<close>), \<open>PageFault\<close> (an access the page tables or the store of structures do not allow), \<open>Overrun\<close> (an
  access outside an array, a string or a block), \<open>NoReturn\<close> and \<open>Undefined\<close> (\<^verbatim>\<open>__builtin_unreachable()\<close>). \<open>bindE\<close> sequences operations. A function whose C counterpart
  returns \<^verbatim>\<open>OK_TRUE\<close> or \<^verbatim>\<open>KO_FALSE\<close> returns a \<open>bool\<close>.

  A loop whose number of rounds the code bounds is a recursive function. A loop that follows pointers or scans for a
  terminator is a \<open>partial_function\<close> into \<open>option\<close>, and \<open>returned\<close> turns its \<open>None\<close> into \<open>NoReturn\<close>; the theorems about such a loop
  show that it returns, under the invariant of the data it walks. No operation of the kernel takes an artificial bound; only the
  client loop \<open>read_all\<close> of \<open>Fs_Dir\<close>, which reads a directory to its end, counts its calls, and any count above the number of
  entries is enough. The loop that
  waits for a key ends with \<open>NoReturn\<close> when no key is left to arrive, and the halt in \<^verbatim>\<open>ksys_exit\<close> is the outcome \<open>Waits\<close>.

  The state is one record, extended theory by theory as the kernel starts its parts: \<open>early_state\<close> (cursors of the early
  allocator), \<open>pmm_state\<close> (bitmap and counter of page frames), \<open>vmm_state\<close> (physical memory holding the page tables, CR3),
  \<open>heap_state\<close> (bytes of kernel memory, block headers, heap bounds), \<open>tty_state\<close> (cursor and CRT controller), \<open>kernel_state\<close> (keyboard,
  structures in heap blocks, mounted root, current directory, ring of tasks), \<open>cpu_state\<close> (ticks, ring-0 stack of the task segment) and \<open>intr_state\<close> (descriptor tables and interrupt controllers). Every operation is polymorphic in the extension, so a
  lower part runs unchanged on the state of a higher one. The structures of the kernel (\<^verbatim>\<open>vfs_node_t\<close>, \<^verbatim>\<open>tmpfs_entry_t\<close>,
  \<^verbatim>\<open>file_desc_t\<close>, \<^verbatim>\<open>fd_dir_t\<close>, \<^verbatim>\<open>task_t\<close>, \<^verbatim>\<open>process_t\<close>) are records in the store \<open>objs\<close>, at the addresses of blocks that the model of \<^verbatim>\<open>kmalloc\<close>
  handed out; untyped bytes (file contents, strings, the screen) are in \<open>mem\<close>. Freeing a block removes its structure, so that a
  use after free is an error of the model.

  \<^bold>\<open>The parts.\<close> Paths are below \<^verbatim>\<open>src/src\<close>, headers below \<^verbatim>\<open>src/include\<close>.
  \<^item> \<open>Prelude\<close>: integer types, errors, composition, the macros of \<^verbatim>\<open>utils/misc/align.h\<close> and the address macros of \<^verbatim>\<open>vmm.h\<close>.
  \<^item> \<open>Early_Alloc\<close>: \<^verbatim>\<open>kernel/memory/early_allocator\<close>. Blocks of any sequence of requests are disjoint and inside the early heap
    (locale \<open>bump_allocator\<close>).
  \<^item> \<open>Pmm\<close>: \<^verbatim>\<open>kernel/memory/pmm\<close>, \<^verbatim>\<open>utils/misc/bitops.c\<close>. \<^verbatim>\<open>kpmm_init\<close> frees exactly the usable pages of the E820 map, allocation is first
    fit, and pages are conserved by any sequence of calls (locale \<open>page_allocator\<close>).
  \<^item> \<open>Vmm\<close>: \<^verbatim>\<open>kernel/memory/vmm\<close>, \<^verbatim>\<open>kernel/memory/mmu.h\<close>. The page tables are words of physical memory read by a model of the MMU's
    walk; the initial mappings, mapping, mapping ranges and unmapping are stated as what the MMU translates before and after.
  \<^item> \<open>Kmemory\<close>, \<open>Kstring\<close>, \<open>Knumber\<close>: \<^verbatim>\<open>utils/kstdlib/kmemory\<close>, \<^verbatim>\<open>kstring\<close>, \<^verbatim>\<open>kctype\<close>, \<^verbatim>\<open>kstdlib\<close> and the number conversions of \<^verbatim>\<open>ksprintf.c\<close>:
    \<^verbatim>\<open>kmemmove\<close> for every overlap, the string functions on terminated strings, number printing and parsing as inverses.
  \<^item> \<open>Kmalloc\<close>: \<^verbatim>\<open>kernel/memory/api\<close>. The heap invariant, what \<^verbatim>\<open>kmalloc\<close> and \<^verbatim>\<open>kfree\<close> do, and that the blocks of a client
    whose requests do not wrap around never overlap (locale \<open>heap_allocator\<close>).
  \<^item> \<open>Keyboard\<close>: \<^verbatim>\<open>kernel/misc/keyboard.c\<close>, \<^verbatim>\<open>irq_keyboard_press.c\<close>. The ring refines a bounded queue (locale \<open>bounded_queue\<close>), and keys are
    read in the order they are typed.
  \<^item> \<open>Tty\<close>: \<^verbatim>\<open>drivers/video/vga.c\<close>, \<^verbatim>\<open>kernel/tty\<close>. The terminal refines a grid of cells with a cursor.
  \<^item> \<open>Kformat\<close>, \<open>Kformat_Text\<close>: \<^verbatim>\<open>utils/kstdlib/kstdio/kprintf\<close>. \<^verbatim>\<open>kprintf\<close> and \<^verbatim>\<open>ksprintf\<close> render a format to the same text, with the
    prefixes the code puts in front of hexadecimal numbers (locale
    \<open>text_sink\<close>).
  \<^item> \<open>Vfs_Stat\<close>, \<open>Vfs_Path\<close>: file metadata, permissions, and the splitting of paths.
  \<^item> \<open>Kobject\<close>, \<open>Kstore\<close>, \<open>Kready\<close>: the structures, the contract of their store (locale \<open>object_store\<close>), and a freshly started kernel
    on which the examples of the later theories run.
  \<^item> \<open>Chrdev\<close>, \<open>Tmpfs\<close>, \<open>Vfs\<close>, \<open>Fd\<close>: \<^verbatim>\<open>drivers/input/keyboard_char_device.c\<close>, \<^verbatim>\<open>drivers/video/vga_char_device.c\<close>, \<^verbatim>\<open>kernel/fs/tmpfs\<close>, \<^verbatim>\<open>kernel/fs/vfs\<close>,
    \<^verbatim>\<open>kernel/fs/fd\<close>, \<^verbatim>\<open>kernel/fs/fs_utils.c\<close>: every operation.
  \<^item> \<open>Tmpfs_Tree\<close>, \<open>Vfs_Inv\<close>, \<open>Fs_Steps\<close>, \<open>Fs_Props\<close>, \<open>Fs_Walk\<close>, \<open>Fs_Dir\<close>, \<open>Fs_Data\<close>, \<open>Fd_Table\<close>: their correctness. The directories form a tree of
    linked lists and files own disjoint blocks in every state that the calls of a client reach, unless a write fails to get a
    larger block or wraps around (\<open>write_ok\<close>; \<open>failed_write_dangles\<close> shows what such a failure does); creating, finding, removing
    and listing are the operations on those lists; resolving a path refines a walk through the tree; what is written is
    read back; descriptor tables stay well typed.
  \<^item> \<open>Initrd\<close>: \<^verbatim>\<open>kernel/fs/initrd/initrd.c\<close>, \<^verbatim>\<open>kernel/fs/fs_manager.c\<close>: unpacking the boot archive and starting the file system.
  \<^item> \<open>Scheduler\<close>, \<open>Sched_Ring\<close>: \<^verbatim>\<open>kernel/scheduler/scheduler.c\<close>, \<^verbatim>\<open>irq_timer.c\<close>. The tasks form a ring; a tick refines a round-robin queue
    of the tasks that have not exited, the search for the next task ends, and a round of ticks runs every task once and
    resumes the first with the registers it was interrupted with.
  \<^item> \<open>Interrupts\<close>: \<^verbatim>\<open>kernel/sys/gdt.c\<close>, \<^verbatim>\<open>kernel/interruption\<close>: descriptor tables, handlers, PIC and PIT. After start exactly the
    registered vectors have gates and handlers.
  \<^item> \<open>Process\<close>, \<open>Syscall\<close>: \<^verbatim>\<open>kernel/scheduler/task\<close>, \<^verbatim>\<open>kernel/scheduler/process\<close>, \<^verbatim>\<open>kernel/sys/syscall\<close>: every operation, on the parts above.
    \<open>Syscall_Props\<close>: whatever system call a process makes, with the same exception for writes, the file system keeps its invariant
    and only the result register is changed. \<open>syscall_dispatch\<close> is the handler up to the store of the result; the
    \<^verbatim>\<open>__builtin_unreachable()\<close> behind it makes every call that comes back \<open>Undefined\<close> in \<open>isr_syscall\<close>.
    \<open>Task_Props\<close>: a new task lies in blocks of its own, and the words stored on its stack are those its entry stub reads.
  \<^item> \<open>Shell_Parse\<close>, \<open>Shell_Commands\<close>, \<open>Shell\<close>: \<^verbatim>\<open>kernel/shell\<close>, \<^verbatim>\<open>utils/misc/print.h\<close>: the parser on bytes of memory, every command on the
    services above, and the loop over the keys. A line of words runs the command with these words as the first entries of
    \<^verbatim>\<open>argv\<close>, followed by what an earlier line has left behind the terminator.
  \<^item> \<open>Panic\<close>: \<^verbatim>\<open>kernel/misc/panic.c\<close>, \<^verbatim>\<open>isr_page_fault.c\<close>: the screen at the halt.

  \<^bold>\<open>What the parts rely on.\<close>
  The virtual memory manager gets its frames from \<open>Pmm\<close> and its first tables from \<open>Early_Alloc\<close>; \<open>Kmalloc\<close> maps pages of \<open>Pmm\<close> with
  \<open>Vmm\<close>; \<open>Kstore\<close> puts structures into blocks of \<open>Kmalloc\<close>; the file system and the scheduler use the store. Each of these contracts
  is a locale that the model of the provider interprets, and the theorems of the client rest on the interpretation.

  \<^bold>\<open>What is outside the model.\<close>
  Code that is not C of the kernel is a parameter: the addresses of the assembly stubs, of \<^verbatim>\<open>ktask_stubs\<close> and of the tables that
  the linker places, the E820 map of the boot loader, the embedded archive. The processor is modelled as far as the code
  looks at it: the MMU's walk, control registers, the ports of the CRT controller, PIC and PIT, and the registers that a
  context switch restores. Each handler runs with interrupts off, as its gate demands, so it is one step; the
  interleaving of tasks is the sequence of ticks. The handlers of timer and keyboard leave out the
  end-of-interrupt command, which their state does not show. The TLB, the accessed and dirty bits and timing are not modelled.
  Messages printed with \<^verbatim>\<open>KPRINTF_OK\<close>, \<^verbatim>\<open>KPRINTF_ERROR\<close> and the like go to the list \<open>klog\<close> instead of the screen; the early and the
  memory managers, which have no such list in their state, drop them, and only the commands of the shell print them as
  \<^verbatim>\<open>print.h\<close> says. An operation that panics ends with the error \<open>Panic\<close>, which drops its state; the theory \<open>Panic\<close> has the screen it
  leaves. The handlers of the exceptions other than page faults only panic and have no definition, nor has \<^verbatim>\<open>kmain\<close>, which calls the
  start functions of the parts in turn. The boot loader, the assembly files and the host tool that builds the archive are
  not modelled.
\<close>

end
